(* ===== verification/Prelude.thy ===== *)
theory Prelude
  imports Main "HOL-Library.Word" "HOL-Library.Char_ord" "HOL-Library.List_Lexorder"
    "HOL-Library.Product_Lexorder" "HOL-Library.Multiset"
begin

text \<open>
  Shared vocabulary of the development: 64-bit counters with Rust's saturating arithmetic,
  Rust's ordered maps (\<^verbatim>\<open>BTreeMap\<close>) as sorted association lists, the removal of the
  first element satisfying a predicate (\<^verbatim>\<open>VecDeque::remove(position(..))\<close>), decimal
  printing, and the generic facts about them that the component theories use as simplification
  rules.
\<close>

named_theorems wf_defs \<open>definitions of the components' well-formedness invariants\<close>
named_theorems frame \<open>frame facts: what an operation leaves unchanged\<close>

section \<open>Machine integers\<close>

type_synonym u64 = "64 word"
type_synonym u32 = "32 word"

text \<open>The bytes of a \<^verbatim>\<open>String\<close> over the alphabet of \<^typ>\<open>char\<close>.\<close>

definition utf8 :: "string \<Rightarrow> nat list" where
  "utf8 t = concat (map (\<lambda>c. let n = of_char c in
     if n < 128 then [n] else [192 + n div 64, 128 + n mod 64]) t)"

text \<open>Text whose characters' widths matter: a list of Unicode scalar values.\<close>

type_synonym uchar = nat
type_synonym utext = "uchar list"

abbreviation u64_max :: u64 where
  "u64_max \<equiv> - 1"

text \<open>\<^verbatim>\<open>u64::saturating_add\<close> and \<^verbatim>\<open>u64::saturating_sub\<close>.\<close>

definition sat_add :: "u64 \<Rightarrow> u64 \<Rightarrow> u64" where
  "sat_add a b = (if unat a + unat b < 2 ^ 64 then a + b else u64_max)"

definition sat_sub :: "u64 \<Rightarrow> u64 \<Rightarrow> u64" where
  "sat_sub a b = (if a \<le> b then 0 else a - b)"

definition sat_inc :: "u64 \<Rightarrow> u64" where
  "sat_inc a = sat_add a 1"

lemma unat_u64_max: "unat u64_max = 2 ^ 64 - 1"
  by (simp add: unsigned_minus_1_eq_mask mask_eq_exp_minus_1)

lemma unat_lt_2p64: "unat (a :: u64) < 2 ^ 64"
  using unsigned_less [of a] by simp

lemma unat_sat_add: "unat (sat_add a b) = min (unat a + unat b) (2 ^ 64 - 1)"
  by (auto simp: sat_add_def unat_u64_max unat_word_ariths min_def)

lemma unat_sat_sub: "unat (sat_sub a b) = unat a - unat b"
  by (auto simp: sat_sub_def word_le_nat_alt unat_sub)

lemma unat_le_u64_max: "unat (a :: u64) \<le> 2 ^ 64 - 1"
  using unat_lt_2p64 [of a] by simp

lemma u64_max_iff: "a = u64_max \<longleftrightarrow> unat a = 2 ^ 64 - 1"
  by (metis unat_u64_max unsigned_word_eqI)

lemma unat_sat_inc: "unat (sat_inc a) = min (Suc (unat a)) (2 ^ 64 - 1)"
  by (simp add: sat_inc_def unat_sat_add)

lemma sat_inc_less: "a \<noteq> u64_max \<Longrightarrow> a < sat_inc a"
  using unat_le_u64_max [of a]
  by (auto simp: word_less_nat_alt unat_sat_inc u64_max_iff)

lemma sat_inc_ge [simp]: "a \<le> sat_inc a"
  using unat_le_u64_max [of a] by (auto simp: word_le_nat_alt unat_sat_inc)

lemma sat_inc_max [simp]: "sat_inc u64_max = u64_max"
  by (simp add: u64_max_iff unat_sat_inc unat_u64_max)

lemma sat_inc_mono: "a \<le> b \<Longrightarrow> sat_inc a \<le> sat_inc b"
  by (auto simp: word_le_nat_alt unat_sat_inc)

lemma le_sat_inc_trans: "a \<le> b \<Longrightarrow> a \<le> sat_inc b"
  by (erule order_trans) simp

lemma less_sat_inc_trans: "a < b \<Longrightarrow> a < sat_inc b"
  by (erule less_le_trans) simp

lemma sat_add_ge: "a \<le> sat_add a b"
  using unat_le_u64_max [of a] by (auto simp: word_le_nat_alt unat_sat_add)

lemma u64_le_max [simp]: "(a :: u64) \<le> u64_max"
  using unat_le_u64_max [of a] by (simp add: word_le_nat_alt unat_u64_max)

text \<open>\<^verbatim>\<open>usize\<close> is a natural number; where the source saturates, so does the model.\<close>

definition usize_sat :: "nat \<Rightarrow> nat" where
  "usize_sat n = min n (2 ^ 64 - 1)"

section \<open>Ordered maps\<close>

text \<open>
  A \<^verbatim>\<open>BTreeMap<K, V>\<close> is the list of its entries in ascending key order; \<open>bm_ok\<close> is the
  order, which every operation keeps. Reading goes through \<open>map_of\<close>.
\<close>

type_synonym ('k, 'v) bmap = "('k \<times> 'v) list"

definition bm_ok :: "('k::linorder, 'v) bmap \<Rightarrow> bool" where
  "bm_ok m \<longleftrightarrow> sorted_wrt (<) (map fst m)"

abbreviation bm_get :: "('k, 'v) bmap \<Rightarrow> 'k \<Rightarrow> 'v option" where
  "bm_get \<equiv> map_of"

fun bm_put :: "'k::linorder \<Rightarrow> 'v \<Rightarrow> ('k, 'v) bmap \<Rightarrow> ('k, 'v) bmap" where
  "bm_put k v [] = [(k, v)]"
| "bm_put k v ((k', v') # m) =
     (if k < k' then (k, v) # (k', v') # m
      else if k = k' then (k, v) # m
      else (k', v') # bm_put k v m)"

definition bm_del :: "'k \<Rightarrow> ('k, 'v) bmap \<Rightarrow> ('k, 'v) bmap" where
  "bm_del k m = filter (\<lambda>e. fst e \<noteq> k) m"

lemma bm_get_put [simp]: "bm_get (bm_put k v m) = (bm_get m)(k \<mapsto> v)"
  by (induction k v m rule: bm_put.induct) auto

lemma bm_get_del [simp]: "bm_get (bm_del k m) = (bm_get m)(k := None)"
  by (induction m) (auto simp: bm_del_def)

lemma bm_keys_put: "fst ` set (bm_put k v m) = insert k (fst ` set m)"
  by (induction k v m rule: bm_put.induct) auto

lemma bm_keys_del: "fst ` set (bm_del k m) = fst ` set m - {k}"
  by (auto simp: bm_del_def)

lemma bm_ok_Nil [simp]: "bm_ok []"
  by (simp add: bm_ok_def)

lemma bm_ok_Cons: "bm_ok ((k, v) # m) \<longleftrightarrow> (\<forall>k' \<in> fst ` set m. k < k') \<and> bm_ok m"
  by (auto simp: bm_ok_def)

lemma bm_put_last: "\<forall>k' \<in> fst ` set m. k' < k \<Longrightarrow> bm_put k v m = m @ [(k, v)]"
  by (induction m) (auto simp: less_not_sym)

lemma bm_put_tail:
  "\<forall>k' \<in> fst ` set m. k' < k \<Longrightarrow> bm_put k v (m @ [(k, w)]) = m @ [(k, v)]"
  by (induction m) auto

lemma bm_ok_put [simp]: "bm_ok m \<Longrightarrow> bm_ok (bm_put k v m)"
proof (induction k v m rule: bm_put.induct)
  case (2 k v k' v' m)
  then show ?case
    by (auto simp: bm_ok_Cons bm_keys_put)
qed (simp add: bm_ok_Cons)

lemma bm_ok_filter [simp]: "bm_ok m \<Longrightarrow> bm_ok (filter P m)"
  by (induction m) (auto simp: bm_ok_Cons)

lemma bm_ok_del [simp]: "bm_ok m \<Longrightarrow> bm_ok (bm_del k m)"
  by (simp add: bm_del_def)

lemma bm_ok_distinct: "bm_ok m \<Longrightarrow> distinct (map fst m)"
  by (simp add: bm_ok_def strict_sorted_iff)

lemma bm_length: "bm_ok m \<Longrightarrow> length m = card (dom (bm_get m))"
  by (metis bm_ok_distinct distinct_card dom_map_of_conv_image_fst length_map list.set_map)

lemma bm_get_in: "bm_ok m \<Longrightarrow> bm_get m k = Some v \<longleftrightarrow> (k, v) \<in> set m"
  by (auto intro: map_of_is_SomeI bm_ok_distinct dest: map_of_SomeD)

lemma bm_get_None: "bm_get m k = None \<longleftrightarrow> k \<notin> fst ` set m"
  by (rule map_of_eq_None_iff)

lemma bm_length_put:
  "bm_ok m \<Longrightarrow> length (bm_put k v m) = (if bm_get m k = None then Suc (length m) else length m)"
  by (simp add: bm_length finite_dom_map_of card_insert_if domIff)

lemma bm_length_del:
  "bm_ok m \<Longrightarrow> length (bm_del k m) = (if bm_get m k = None then length m else length m - 1)"
  by (auto simp: bm_length finite_dom_map_of card_Diff_singleton_if domIff)

lemma bm_ok_tl: "bm_ok (e # m) \<Longrightarrow> bm_ok m"
  by (cases e) (simp add: bm_ok_Cons)

text \<open>How many entries have the value \<open>v\<close>.\<close>

definition bm_count :: "'v \<Rightarrow> ('k, 'v) bmap \<Rightarrow> nat" where
  "bm_count v m = length (filter (\<lambda>e. snd e = v) m)"

lemma bm_count_Nil [simp]: "bm_count v [] = 0"
  by (simp add: bm_count_def)

lemma bm_count_put:
  "bm_get m k = None \<Longrightarrow> bm_count v (bm_put k w m) = bm_count v m + (if w = v then 1 else 0)"
  by (induction k w m rule: bm_put.induct) (auto simp: bm_count_def split: if_splits)

lemma bm_del_None: "bm_get m k = None \<Longrightarrow> bm_del k m = m"
  by (auto simp: bm_get_None bm_del_def filter_id_conv)

lemma bm_count_del:
  "bm_ok m \<Longrightarrow> bm_get m k = Some w \<Longrightarrow>
   bm_count v m = bm_count v (bm_del k m) + (if w = v then 1 else 0)"
proof (induction m)
  case (Cons e m)
  obtain k' w' where e: "e = (k', w')" by (cases e)
  show ?case
  proof (cases "k' = k")
    case True
    then have "bm_get m k = None" using Cons.prems(1) e by (auto simp: bm_ok_Cons bm_get_None)
    then show ?thesis using bm_del_None [of m k] Cons.prems(2) e True
      by (simp add: bm_count_def bm_del_def)
  next
    case False
    then show ?thesis using Cons bm_ok_tl [OF Cons.prems(1)] e by (auto simp: bm_count_def bm_del_def)
  qed
qed simp

lemma bm_count_pos: "bm_get m k = Some v \<Longrightarrow> 0 < bm_count v m"
  by (induction m) (auto simp: bm_count_def split: if_splits)

section \<open>Removing the first match\<close>

text \<open>\<^verbatim>\<open>queue.remove(queue.iter().position(p)?)\<close>: the first match and the rest.\<close>

fun take_first :: "('a \<Rightarrow> bool) \<Rightarrow> 'a list \<Rightarrow> ('a \<times> 'a list) option" where
  "take_first p [] = None"
| "take_first p (x # xs) =
     (if p x then Some (x, xs)
      else map_option (\<lambda>(y, ys). (y, x # ys)) (take_first p xs))"

lemma take_first_None: "take_first p xs = None \<longleftrightarrow> (\<forall>x \<in> set xs. \<not> p x)"
  by (induction xs) auto

lemma take_first_Some:
  "take_first p xs = Some (y, ys) \<Longrightarrow>
     \<exists>us vs. xs = us @ y # vs \<and> ys = us @ vs \<and> p y \<and> (\<forall>u \<in> set us. \<not> p u)"
proof (induction xs arbitrary: ys)
  case (Cons x xs)
  show ?case
  proof (cases "p x")
    case True
    with Cons.prems show ?thesis
      by (intro exI [of _ "[]"] exI [of _ xs]) auto
  next
    case False
    with Cons.prems obtain zs where zs: "take_first p xs = Some (y, zs)" "ys = x # zs"
      by auto
    from Cons.IH [OF zs(1)] obtain us vs
      where "xs = us @ y # vs" "zs = us @ vs" "p y" "\<forall>u \<in> set us. \<not> p u"
      by blast
    with zs False show ?thesis
      by (intro exI [of _ "x # us"] exI [of _ vs]) auto
  qed
qed simp

text \<open>\<^verbatim>\<open>if let Some(i) = queue.iter().position(|e| e == key) { queue.remove(i); }\<close> is
  \<open>remove1\<close> of the list library.\<close>

section \<open>Sorting and deduplicating\<close>

text \<open>\<^verbatim>\<open>sort_unstable\<close> then \<^verbatim>\<open>dedup\<close>.\<close>

lemma distinct_remdups_adj_sorted: "sorted xs \<Longrightarrow> distinct (remdups_adj xs)"
proof (induction xs rule: remdups_adj.induct)
  case (3 x y xs)
  then show ?case by fastforce
qed auto

section \<open>Decimal printing\<close>

fun show_nat :: "nat \<Rightarrow> string" where
  "show_nat n =
     (if n < 10 then [char_of (48 + n)]
      else show_nat (n div 10) @ [char_of (48 + n mod 10)])"

declare show_nat.simps [simp del]

lemma show_nat_nonempty [simp]: "show_nat n \<noteq> []"
  by (subst show_nat.simps) simp

end
