(* ===== verification/Messages.thy ===== *)
theory Messages
  imports Prelude
begin

text \<open>
  The conversation data of e-agent-core: messages (\<^verbatim>\<open>message.rs\<close>), the published events
  (\<^verbatim>\<open>event.rs\<close>), the provider's stream items (\<^verbatim>\<open>provider/mod.rs\<close>), the hook payloads
  (\<^verbatim>\<open>hooks.rs\<close>) and the host actions (\<^verbatim>\<open>tool/extension.rs\<close>).

  A Rust \<^verbatim>\<open>String\<close> is its list of characters, over the alphabet of the first 256 Unicode
  scalar values that \<^typ>\<open>char\<close> offers. A JSON value is a \<^verbatim>\<open>serde_json::Value\<close>; a JSON
  number is kept as its text. Errors are their rendered text.
\<close>

section \<open>JSON values\<close>

datatype json =
    JNull
  | JBool bool
  | JNumber string
  | JString string
  | JArray "json list"
  | JObject "(string \<times> json) list"

text \<open>\<^verbatim>\<open>value["key"]\<close>: \<^verbatim>\<open>Null\<close> when the value is no object or has no such key.\<close>

fun json_index :: "json \<Rightarrow> string \<Rightarrow> json" where
  "json_index (JObject m) k = (case map_of m k of Some v \<Rightarrow> v | None \<Rightarrow> JNull)"
| "json_index _ _ = JNull"

fun json_as_str :: "json \<Rightarrow> string option" where
  "json_as_str (JString t) = Some t"
| "json_as_str _ = None"

section \<open>Messages\<close>

datatype stop_reason = Stop | ToolUseStop | Length | Refusal | ErrorStop | Aborted

record usage =
  input_tokens :: u64
  output_tokens :: u64

datatype message_content =
    TextC string
  | ThinkingC string "string option"
  | ToolUseC (tu_id: string) (tu_name: string) (tu_input: string) (tu_custom: bool)
      (tu_item_id: "string option")

record user_message =
  um_content :: "message_content list"

record assistant_message =
  am_content :: "message_content list"
  am_stop_reason :: stop_reason
  am_usage :: "usage option"
  am_error_message :: "string option"

record tool_result_message =
  tr_tool_use_id :: string
  tr_content :: "message_content list"
  tr_is_error :: bool
  tr_details :: "json option"
  tr_custom :: bool

datatype message =
    User user_message
  | Assistant assistant_message
  | ToolResult tool_result_message

datatype tool_input = JsonInput json | TextInput | LarkInput string

record tool_def =
  td_name :: string
  td_description :: string
  td_input :: tool_input

definition user_text :: "string \<Rightarrow> user_message" where
  "user_text t = \<lparr>um_content = [TextC t]\<rparr>"

fun content :: "message \<Rightarrow> message_content list" where
  "content (User m) = um_content m"
| "content (Assistant m) = am_content m"
| "content (ToolResult m) = tr_content m"

fun is_tool_use :: "message_content \<Rightarrow> bool" where
  "is_tool_use (ToolUseC _ _ _ _ _) = True"
| "is_tool_use _ = False"

definition tool_uses :: "message \<Rightarrow> (string \<times> string \<times> string) list" where
  "tool_uses m = List.map_filter
     (\<lambda>c. case c of ToolUseC i n inp _ _ \<Rightarrow> Some (i, n, inp) | _ \<Rightarrow> None) (content m)"

definition tool_result_text :: "string \<Rightarrow> string \<Rightarrow> tool_result_message" where
  "tool_result_text i t =
     \<lparr>tr_tool_use_id = i, tr_content = [TextC t], tr_is_error = False,
      tr_details = None, tr_custom = False\<rparr>"

definition tool_result_error :: "string \<Rightarrow> string \<Rightarrow> tool_result_message" where
  "tool_result_error i t =
     \<lparr>tr_tool_use_id = i, tr_content = [TextC t], tr_is_error = True,
      tr_details = None, tr_custom = False\<rparr>"

text \<open>The text of a user message (\<^verbatim>\<open>session/mod.rs: message_text\<close>): the text blocks, one per
  line.\<close>

fun join_with :: "string \<Rightarrow> string list \<Rightarrow> string" where
  "join_with sep [] = []"
| "join_with sep [x] = x"
| "join_with sep (x # y # zs) = x @ sep @ join_with sep (y # zs)"

definition message_text :: "user_message \<Rightarrow> string" where
  "message_text m = join_with [CHR 10]
     (List.map_filter (\<lambda>c. case c of TextC t \<Rightarrow> Some t | _ \<Rightarrow> None) (um_content m))"

section \<open>Whitespace and slash commands\<close>

text \<open>\<^verbatim>\<open>char::is_whitespace\<close> on the alphabet: U+0009 to U+000D, the space, U+0085, U+00A0.\<close>

definition is_whitespace :: "char \<Rightarrow> bool" where
  "is_whitespace c \<longleftrightarrow>
     (let n = of_char c :: nat in (9 \<le> n \<and> n \<le> 13) \<or> n = 32 \<or> n = 133 \<or> n = 160)"

definition trim_start :: "string \<Rightarrow> string" where
  "trim_start t = dropWhile is_whitespace t"

definition trim :: "string \<Rightarrow> string" where
  "trim t = rev (dropWhile is_whitespace (rev (dropWhile is_whitespace t)))"

text \<open>\<^verbatim>\<open>session/mod.rs: parse_command\<close>.\<close>

definition parse_command :: "string \<Rightarrow> (string \<times> string) option" where
  "parse_command input =
     (case trim_start input of
        [] \<Rightarrow> None
      | c # command \<Rightarrow>
          if c \<noteq> CHR ''/'' then None
          else Some (takeWhile (\<lambda>c. \<not> is_whitespace c) command,
                     trim_start (dropWhile (\<lambda>c. \<not> is_whitespace c) command)))"

section \<open>Events\<close>

datatype message_delta =
    TextD string | ThinkingD string | ToolCallInputD string | ContentD message_content

datatype agent_event =
    SessionStart string
  | QueueUpdate nat
  | AgentStart nat
  | TurnStart nat nat
  | MessageStart string message
  | MessageUpdate string nat message_delta "usage option"
  | MessageEnd string message
  | ToolExecutionStart string string string
  | ToolExecutionUpdate string json
  | ToolExecutionEnd string string json bool
  | TurnEnd nat nat
  | AgentEnd nat
  | AgentSettled nat
  | HookError string string
  | PersistenceError string
  | SessionFatal string
  | SessionShutdown

section \<open>Provider stream items\<close>

datatype provider_event =
    ContentDelta nat message_content
  | UsageEvent usage
  | Done stop_reason
  | ProviderError string
  | ProviderAborted

section \<open>Hook payloads and host actions\<close>

datatype input_outcome = InputContinue | InputHandled

record before_agent_start =
  bas_prompt :: string
  bas_system_prompt :: string
  bas_messages :: "message list"

record tool_call =
  tc_id :: string
  tc_name :: string
  tc_input :: string

datatype tool_call_outcome = CallContinue | CallBlock string

datatype host_action =
    AppendEntry string json
  | SendUserMessage string string
  | SendMessage json string bool

record tool_output =
  to_content :: "message_content list"
  to_details :: "json option"

section \<open>Validation of a hook's final message\<close>

definition role :: "message \<Rightarrow> string" where
  "role m = (case m of User _ \<Rightarrow> ''user'' | Assistant _ \<Rightarrow> ''assistant''
                     | ToolResult _ \<Rightarrow> ''tool_result'')"

text \<open>
  \<^verbatim>\<open>session/mod.rs: validate_final_message\<close>: \<open>None\<close> is \<^verbatim>\<open>Ok(())\<close>, the arms are tried in the
  source's order.
\<close>

definition validate_final_message :: "message \<Rightarrow> message \<Rightarrow> string option" where
  "validate_final_message original m =
     (if role m \<noteq> role original then Some ''message role cannot change''
      else case m of
        User u \<Rightarrow>
          (if um_content u = [] then Some ''user content cannot be empty'' else None)
      | Assistant a \<Rightarrow>
          (if (case original of
                 Assistant old \<Rightarrow> am_stop_reason old \<in> {ErrorStop, Aborted} \<and>
                                  am_stop_reason a \<noteq> am_stop_reason old
               | _ \<Rightarrow> False)
           then Some ''assistant terminal stop reason cannot change''
           else if am_stop_reason a = ErrorStop \<and>
                   (case am_error_message a of None \<Rightarrow> True | Some t \<Rightarrow> t = [])
           then Some ''error assistant requires error_message''
           else None)
      | ToolResult t \<Rightarrow>
          (if tr_tool_use_id t = [] \<or> tr_content t = []
           then Some ''tool result requires id and content'' else None))"

lemma validate_final_message_role:
  "validate_final_message original m = None \<Longrightarrow> role m = role original"
  by (auto simp: validate_final_message_def split: if_splits)

lemma role_simps [simp]:
  "role (User u) = ''user''" "role (Assistant a) = ''assistant''"
  "role (ToolResult t) = ''tool_result''"
  by (simp_all add: role_def)

lemma role_user_iff: "role m = ''user'' \<longleftrightarrow> (\<exists>u. m = User u)"
  and role_assistant_iff: "role m = ''assistant'' \<longleftrightarrow> (\<exists>a. m = Assistant a)"
  and role_tool_result_iff: "role m = ''tool_result'' \<longleftrightarrow> (\<exists>t. m = ToolResult t)"
  by (cases m; simp)+

lemma validate_final_message_terminal:
  assumes "validate_final_message (Assistant old) m = None"
    and "am_stop_reason old \<in> {ErrorStop, Aborted}"
  obtains a where "m = Assistant a" "am_stop_reason a = am_stop_reason old"
proof -
  from validate_final_message_role [OF assms(1)] obtain a where "m = Assistant a"
    by (auto simp: role_assistant_iff)
  with assms that show ?thesis
    by (auto simp: validate_final_message_def split: if_splits)
qed

section \<open>Merging stream deltas\<close>

text \<open>\<^verbatim>\<open>session/mod.rs: merge_delta\<close> on the \<^verbatim>\<open>BTreeMap\<close> of content blocks.\<close>

definition merge_delta ::
  "(nat, message_content) bmap \<Rightarrow> nat \<Rightarrow> message_content \<Rightarrow> (nat, message_content) bmap" where
  "merge_delta blocks index delta =
     (case (bm_get blocks index, delta) of
        (Some (TextC t), TextC d) \<Rightarrow> bm_put index (TextC (t @ d)) blocks
      | (Some (ThinkingC t sg), ThinkingC d _) \<Rightarrow> bm_put index (ThinkingC (t @ d) sg) blocks
      | (_, d) \<Rightarrow> bm_put index d blocks)"

lemma merge_delta_ok [simp]: "bm_ok blocks \<Longrightarrow> bm_ok (merge_delta blocks i d)"
  by (auto simp: merge_delta_def split: option.splits message_content.splits)

lemma merge_delta_other [simp]:
  "j \<noteq> i \<Longrightarrow> bm_get (merge_delta blocks i d) j = bm_get blocks j"
  by (auto simp: merge_delta_def split: option.splits message_content.splits)

lemma merge_delta_text:
  "bm_get blocks i = Some (TextC t) \<Longrightarrow>
   bm_get (merge_delta blocks i (TextC d)) i = Some (TextC (t @ d))"
  by (simp add: merge_delta_def)

end
