(* ===== verification/Message_Queue.thy ===== *)
theory Message_Queue
  imports Messages
begin

text \<open>
  \<^verbatim>\<open>e-agent-core/src/session/queue.rs\<close>: the queue of steering and follow-up messages that the
  session and its clients share. A lock is held for the whole of each operation, so an
  operation is a function from state to state; \<open>Inl\<close> is the error.
\<close>

datatype queued_message = Steer user_message | FollowUp user_message

record queue_state =
  q_messages :: "queued_message list"
  q_idle :: bool
  q_closed :: bool

definition default_queue :: queue_state where
  "default_queue = \<lparr>q_messages = [], q_idle = False, q_closed = False\<rparr>"

definition set_idle :: "bool \<Rightarrow> queue_state \<Rightarrow> queue_state" where
  "set_idle b q = q\<lparr>q_idle := b\<rparr>"

definition queue_len :: "queue_state \<Rightarrow> nat" where
  "queue_len q = length (q_messages q)"

definition push :: "queued_message \<Rightarrow> queue_state \<Rightarrow> string + queue_state" where
  "push m q =
     (if q_closed q then Inl ''session is not accepting messages''
      else Inr (q\<lparr>q_messages := q_messages q @ [m]\<rparr>))"

definition close_queue :: "queue_state \<Rightarrow> queue_state" where
  "close_queue q = q\<lparr>q_closed := True\<rparr>"

fun is_steer :: "queued_message \<Rightarrow> bool" where
  "is_steer (Steer _) = True" | "is_steer (FollowUp _) = False"

fun queued_text :: "queued_message \<Rightarrow> user_message" where
  "queued_text (Steer m) = m" | "queued_text (FollowUp m) = m"

definition pop_steer :: "queue_state \<Rightarrow> (user_message \<times> queue_state) option" where
  "pop_steer q =
     (case take_first is_steer (q_messages q) of
        None \<Rightarrow> None
      | Some (m, rest) \<Rightarrow> Some (queued_text m, q\<lparr>q_messages := rest\<rparr>))"

definition pop_follow_up :: "queue_state \<Rightarrow> (user_message \<times> queue_state) option" where
  "pop_follow_up q =
     (case take_first (\<lambda>m. \<not> is_steer m) (q_messages q) of
        None \<Rightarrow> None
      | Some (m, rest) \<Rightarrow> Some (queued_text m, q\<lparr>q_messages := rest\<rparr>))"

definition queue_is_idle :: "queue_state \<Rightarrow> bool" where
  "queue_is_idle q \<longleftrightarrow> q_idle q \<and> q_messages q = []"

section \<open>Two FIFO channels behind one deque\<close>

text \<open>
  The abstract contract: the queue is two independent first-in first-out channels, the steering
  messages and the follow-ups, whatever the interleaving in the deque.
\<close>

definition steers :: "queue_state \<Rightarrow> user_message list" where
  "steers q = map queued_text (filter is_steer (q_messages q))"

definition follow_ups :: "queue_state \<Rightarrow> user_message list" where
  "follow_ups q = map queued_text (filter (\<lambda>m. \<not> is_steer m) (q_messages q))"

lemma take_first_channels:
  assumes "take_first p xs = Some (y, ys)"
  shows "filter p xs = y # filter p ys"
    and "filter (\<lambda>x. \<not> p x) ys = filter (\<lambda>x. \<not> p x) xs"
  using take_first_Some [OF assms] by auto

lemma pop_steer_channels:
  "(case pop_steer q of
      None \<Rightarrow> steers q = []
    | Some (m, q') \<Rightarrow> steers q = m # steers q' \<and> follow_ups q' = follow_ups q)"
  by (auto simp: pop_steer_def steers_def follow_ups_def take_first_None filter_empty_conv
      take_first_channels split: option.splits)

lemma pop_follow_up_channels:
  "(case pop_follow_up q of
      None \<Rightarrow> follow_ups q = []
    | Some (m, q') \<Rightarrow> follow_ups q = m # follow_ups q' \<and> steers q' = steers q)"
  using take_first_channels [of "\<lambda>m. \<not> is_steer m" "q_messages q"]
  by (auto simp: pop_follow_up_def steers_def follow_ups_def take_first_None filter_empty_conv
      split: option.splits)

lemma push_channels:
  "push m q = Inr q' \<Longrightarrow>
     (if is_steer m then steers q' = steers q @ [queued_text m] \<and> follow_ups q' = follow_ups q
      else follow_ups q' = follow_ups q @ [queued_text m] \<and> steers q' = steers q)"
  by (auto simp: push_def steers_def follow_ups_def split: if_splits)

lemma pop_steer_frame [frame]:
  "pop_steer q = Some (m, q') \<Longrightarrow> q_closed q' = q_closed q \<and> q_idle q' = q_idle q"
  by (auto simp: pop_steer_def split: option.splits)

lemma pop_follow_up_frame [frame]:
  "pop_follow_up q = Some (m, q') \<Longrightarrow> q_closed q' = q_closed q \<and> q_idle q' = q_idle q"
  by (auto simp: pop_follow_up_def split: option.splits)

section \<open>Runs of the queue\<close>

datatype queue_op = OpPush queued_message | OpPopSteer | OpPopFollowUp | OpClose | OpSetIdle bool

text \<open>One operation; the second component is the message it hands out, if any.\<close>

fun queue_step :: "queue_op \<Rightarrow> queue_state \<Rightarrow> queue_state \<times> queued_message option" where
  "queue_step (OpPush m) q = (case push m q of Inl _ \<Rightarrow> (q, None) | Inr q' \<Rightarrow> (q', None))"
| "queue_step OpPopSteer q =
     (case pop_steer q of None \<Rightarrow> (q, None) | Some (m, q') \<Rightarrow> (q', Some (Steer m)))"
| "queue_step OpPopFollowUp q =
     (case pop_follow_up q of None \<Rightarrow> (q, None) | Some (m, q') \<Rightarrow> (q', Some (FollowUp m)))"
| "queue_step OpClose q = (close_queue q, None)"
| "queue_step (OpSetIdle b) q = (set_idle b q, None)"

fun queue_run :: "queue_op list \<Rightarrow> queue_state \<Rightarrow> queue_state \<times> queued_message list" where
  "queue_run [] q = (q, [])"
| "queue_run (x # xs) q =
     (let (q', out) = queue_step x q; (q'', outs) = queue_run xs q'
      in (q'', (case out of None \<Rightarrow> [] | Some m \<Rightarrow> [m]) @ outs))"

text \<open>The messages a run's pushes put in, in order: those pushed before the first close.\<close>

fun accepted :: "queue_op list \<Rightarrow> bool \<Rightarrow> queued_message list" where
  "accepted [] closed = []"
| "accepted (OpPush m # xs) closed = (if closed then [] else [m]) @ accepted xs closed"
| "accepted (OpClose # xs) closed = accepted xs True"
| "accepted (_ # xs) closed = accepted xs closed"

lemma queue_step_channel:
  assumes "queue_step x q = (q', out)"
  shows "map queued_text (filter is_steer (case out of None \<Rightarrow> [] | Some m \<Rightarrow> [m])) @ steers q' =
           steers q @ map queued_text (filter is_steer (accepted [x] (q_closed q)))"
    and "map queued_text (filter (\<lambda>m. \<not> is_steer m) (case out of None \<Rightarrow> [] | Some m \<Rightarrow> [m])) @
           follow_ups q' =
         follow_ups q @ map queued_text (filter (\<lambda>m. \<not> is_steer m) (accepted [x] (q_closed q)))"
    and "q_closed q' \<longleftrightarrow> q_closed q \<or> x = OpClose"
proof -
  show "map queued_text (filter is_steer (case out of None \<Rightarrow> [] | Some m \<Rightarrow> [m])) @ steers q' =
          steers q @ map queued_text (filter is_steer (accepted [x] (q_closed q)))"
    using assms pop_steer_channels [of q] pop_follow_up_channels [of q]
    by (cases x) (auto simp: push_def steers_def close_queue_def set_idle_def
        split: option.splits if_splits)
  show "map queued_text (filter (\<lambda>m. \<not> is_steer m) (case out of None \<Rightarrow> [] | Some m \<Rightarrow> [m])) @
          follow_ups q' =
        follow_ups q @ map queued_text (filter (\<lambda>m. \<not> is_steer m) (accepted [x] (q_closed q)))"
    using assms pop_steer_channels [of q] pop_follow_up_channels [of q]
    by (cases x) (auto simp: push_def follow_ups_def close_queue_def set_idle_def
        split: option.splits if_splits)
  show "q_closed q' \<longleftrightarrow> q_closed q \<or> x = OpClose"
    using assms by (cases x) (auto simp: push_def close_queue_def set_idle_def
        pop_steer_def pop_follow_up_def split: option.splits if_splits)
qed

lemma accepted_Cons:
  "accepted (x # xs) closed = accepted [x] closed @ accepted xs (closed \<or> x = OpClose)"
  by (cases x) auto

lemma channel_trans:
  "a @ s1 = s0 @ b \<Longrightarrow> c @ s2 = s1 @ d \<Longrightarrow> a @ c @ s2 = s0 @ b @ d"
  by (metis append.assoc)

lemma queue_run_channels:
  assumes "queue_run xs q = (q', outs)"
  shows "map queued_text (filter is_steer outs) @ steers q' =
           steers q @ map queued_text (filter is_steer (accepted xs (q_closed q))) \<and>
         map queued_text (filter (\<lambda>m. \<not> is_steer m) outs) @ follow_ups q' =
           follow_ups q @ map queued_text (filter (\<lambda>m. \<not> is_steer m) (accepted xs (q_closed q)))"
  using assms
proof (induction xs arbitrary: q q' outs)
  case (Cons x xs)
  obtain q1 out where step: "queue_step x q = (q1, out)" by fastforce
  obtain outs' where rest: "queue_run xs q1 = (q', outs')"
    and outs: "outs = (case out of None \<Rightarrow> [] | Some m \<Rightarrow> [m]) @ outs'"
    using Cons.prems step by (auto split: prod.splits)
  note IH = Cons.IH [OF rest]
  note st = queue_step_channel [OF step]
  show ?case
    using channel_trans [OF st(1) IH [THEN conjunct1]]
      channel_trans [OF st(2) IH [THEN conjunct2]]
    unfolding outs accepted_Cons [of x xs "q_closed q"] st(3) filter_append map_append
    by (simp only: append_assoc)
qed simp

text \<open>Over any sequence of operations starting from the empty queue, the
  steering messages handed out so far followed by those still queued are exactly the steering
  messages accepted, in their order, and likewise for the follow-ups: each of the two channels is
  first-in first-out, loses nothing and duplicates nothing, however the pushes and pops of the two
  kinds interleave, and nothing pushed after a close is ever handed out.\<close>

theorem queue_is_two_fifos:
  assumes "queue_run xs default_queue = (q, outs)"
  shows "map queued_text (filter is_steer outs) @ steers q =
           map queued_text (filter is_steer (accepted xs False)) \<and>
         map queued_text (filter (\<lambda>m. \<not> is_steer m) outs) @ follow_ups q =
           map queued_text (filter (\<lambda>m. \<not> is_steer m) (accepted xs False))"
  using queue_run_channels [OF assms] by (simp_all add: default_queue_def steers_def follow_ups_def)

theorem queue_is_two_fifos_witness:
  "map queued_text (filter is_steer [Steer (user_text ''b'')]) @ [] =
     map queued_text (filter is_steer
       (accepted [OpPush (FollowUp (user_text ''a'')), OpPush (Steer (user_text ''b'')),
                  OpPopSteer, OpClose, OpPush (Steer (user_text ''c''))] False))"
proof -
  have run: "queue_run [OpPush (FollowUp (user_text ''a'')), OpPush (Steer (user_text ''b'')),
       OpPopSteer, OpClose, OpPush (Steer (user_text ''c''))] default_queue =
     (\<lparr>q_messages = [FollowUp (user_text ''a'')], q_idle = False, q_closed = True\<rparr>,
      [Steer (user_text ''b'')])"
    by (simp add: default_queue_def push_def pop_steer_def close_queue_def)
  show ?thesis
    using queue_is_two_fifos [OF run] by (simp add: steers_def)
qed

end
