(* ===== verification/Session_Store.thy ===== *)
theory Session_Store
  imports Messages
begin

text \<open>
  \<^verbatim>\<open>e-agent-core/src/session/store.rs\<close>: the append-only JSONL session file and its reopening.
  The JSON encoder and decoder (serde_json) are the parameters \<open>enc\<close> and \<open>dec\<close>. The disk is a
  part of the state: the text of the file, if it exists, and the outcome of each append to come
  (an exhausted schedule means that writes succeed).
\<close>

datatype session_entry = MessageEntry message | CustomEntry string json

datatype io_outcome =
    IoOk
  | CreateDirFails string
  | OpenFails string
  | WriteFails nat string      \<comment> \<open>this many characters of the entry reached the file\<close>
  | NewlineFails string
  | FlushFails string

record jsonl_store =
  js_id :: u64
  js_path :: string
  js_messages :: "message list"
  js_entries :: "session_entry list"
  js_file :: "string option"
  js_schedule :: "io_outcome list"

section \<open>Appending\<close>

fun io_effect :: "io_outcome \<Rightarrow> string \<Rightarrow> string option \<Rightarrow> string option \<times> string option" where
  "io_effect (CreateDirFails e) t f = (f, Some e)"
| "io_effect (OpenFails e) t f = (f, Some e)"
| "io_effect (WriteFails n e) t f = (Some (case_option [] id f @ take n t), Some e)"
| "io_effect (NewlineFails e) t f = (Some (case_option [] id f @ t), Some e)"
| "io_effect (FlushFails e) t f = (Some (case_option [] id f @ t @ [CHR 10]), Some e)"
| "io_effect IoOk t f = (Some (case_option [] id f @ t @ [CHR 10]), None)"

fun entry_messages :: "session_entry \<Rightarrow> message list" where
  "entry_messages (MessageEntry m) = [m]"
| "entry_messages (CustomEntry _ _) = []"

fun next_outcome :: "io_outcome list \<Rightarrow> io_outcome" where
  "next_outcome [] = IoOk" | "next_outcome (x # _) = x"

definition store_append ::
  "(session_entry \<Rightarrow> string) \<Rightarrow> session_entry \<Rightarrow> jsonl_store \<Rightarrow> (string + unit) \<times> jsonl_store" where
  "store_append enc entry s =
     (let (f, err) = io_effect (next_outcome (js_schedule s)) (enc entry) (js_file s);
          s1 = s\<lparr>js_file := f, js_schedule := tl (js_schedule s)\<rparr>
      in case err of
           Some e \<Rightarrow> (Inl e, s1)
         | None \<Rightarrow> (Inr (), s1\<lparr>js_messages := js_messages s @ entry_messages entry,
                              js_entries := js_entries s @ [entry]\<rparr>))"

definition append_message ::
  "(session_entry \<Rightarrow> string) \<Rightarrow> message \<Rightarrow> jsonl_store \<Rightarrow> (string + unit) \<times> jsonl_store" where
  "append_message enc m s = store_append enc (MessageEntry m) s"

definition append_custom ::
  "(session_entry \<Rightarrow> string) \<Rightarrow> string \<Rightarrow> json \<Rightarrow> jsonl_store \<Rightarrow> (string + unit) \<times> jsonl_store" where
  "append_custom enc kind data s = store_append enc (CustomEntry kind data) s"

section \<open>Opening\<close>

text \<open>\<^verbatim>\<open>BufRead::lines\<close>: split at newlines, drop a final empty piece and a trailing carriage
  return of each line.\<close>

definition strip_cr :: "string \<Rightarrow> string" where
  "strip_cr l = (if l \<noteq> [] \<and> last l = CHR 13 then butlast l else l)"

fun split_lines :: "string \<Rightarrow> string \<Rightarrow> string list" where
  "split_lines acc [] = (if acc = [] then [] else [acc])"
| "split_lines acc (c # cs) =
     (if c = CHR 10 then strip_cr acc # split_lines [] cs else split_lines (acc @ [c]) cs)"

fun load_lines ::
  "(string \<Rightarrow> session_entry option) \<Rightarrow> nat \<Rightarrow> string list \<Rightarrow> string + session_entry list" where
  "load_lines dec n [] = Inr []"
| "load_lines dec n (l # ls) =
     (if trim l = [] then load_lines dec (Suc n) ls
      else case dec l of
        None \<Rightarrow> Inl (''invalid session entry at line '' @ show_nat (n + 1))
      | Some e \<Rightarrow> (case load_lines dec (Suc n) ls of Inl x \<Rightarrow> Inl x | Inr es \<Rightarrow> Inr (e # es)))"

fun find_map :: "('a \<Rightarrow> 'b option) \<Rightarrow> 'a list \<Rightarrow> 'b option" where
  "find_map f [] = None"
| "find_map f (x # xs) = (case f x of Some y \<Rightarrow> Some y | None \<Rightarrow> find_map f xs)"

definition active_goal :: "session_entry list \<Rightarrow> bool" where
  "active_goal es \<longleftrightarrow>
     find_map (\<lambda>e. case e of
        CustomEntry ct d \<Rightarrow>
          if ct = ''goal-state''
          then Some (json_index (json_index d ''goal'') ''status'' = JString ''active'') else None
      | _ \<Rightarrow> None) (rev es) = Some True"

text \<open>With an active goal, tool results and assistant messages holding tool calls are dropped.\<close>

fun retained :: "message \<Rightarrow> bool" where
  "retained (Assistant a) \<longleftrightarrow> \<not> list_ex is_tool_use (am_content a)"
| "retained (ToolResult _) \<longleftrightarrow> False"
| "retained (User _) \<longleftrightarrow> True"

definition answered_ids :: "message list \<Rightarrow> string set" where
  "answered_ids ms = set (List.map_filter
     (\<lambda>m. case m of ToolResult r \<Rightarrow> Some (tr_tool_use_id r) | _ \<Rightarrow> None) ms)"

definition tool_use_ids :: "message list \<Rightarrow> string list" where
  "tool_use_ids ms = concat (map (\<lambda>m. map fst (tool_uses m)) ms)"

definition dangling_ids :: "message list \<Rightarrow> string list" where
  "dangling_ids ms = filter (\<lambda>i. i \<notin> answered_ids ms) (tool_use_ids ms)"

definition interrupted_result :: "string \<Rightarrow> message" where
  "interrupted_result i =
     ToolResult (tool_result_error i ''tool execution interrupted by process restart'')"

fun append_results ::
  "(session_entry \<Rightarrow> string) \<Rightarrow> string list \<Rightarrow> jsonl_store \<Rightarrow> string + jsonl_store" where
  "append_results enc [] s = Inr s"
| "append_results enc (i # is) s =
     (case append_message enc (interrupted_result i) s of
        (Inl e, _) \<Rightarrow> Inl e
      | (Inr _, s') \<Rightarrow> append_results enc is s')"

text \<open>\<^verbatim>\<open>JsonlSessionStore::open\<close> for a resolved path and identifier.\<close>

definition store_open ::
  "(session_entry \<Rightarrow> string) \<Rightarrow> (string \<Rightarrow> session_entry option) \<Rightarrow> u64 \<Rightarrow> string \<Rightarrow>
   string option \<Rightarrow> io_outcome list \<Rightarrow> string + jsonl_store" where
  "store_open enc dec sid path file sched =
     (let s0 = \<lparr>js_id = sid, js_path = path, js_messages = [], js_entries = [],
                js_file = file, js_schedule = sched\<rparr>
      in case file of
           None \<Rightarrow> Inr s0
         | Some text \<Rightarrow>
             (case load_lines dec 0 (split_lines [] text) of
                Inl e \<Rightarrow> Inl e
              | Inr es \<Rightarrow>
                  (let ms = concat (map entry_messages es);
                       ms' = (if active_goal es then filter retained ms else ms);
                       s1 = s0\<lparr>js_entries := es, js_messages := ms'\<rparr>
                   in append_results enc (dangling_ids ms') s1)))"

section \<open>The store's contract\<close>

text \<open>
  \<^verbatim>\<open>trait SessionStore\<close> as the session uses it: an append that succeeds adds exactly the entry,
  one that fails leaves messages and entries as they were.
\<close>

locale session_store =
  fixes st_append_message :: "message \<Rightarrow> 's \<Rightarrow> (string + unit) \<times> 's"
    and st_append_custom :: "string \<Rightarrow> json \<Rightarrow> 's \<Rightarrow> (string + unit) \<times> 's"
    and st_messages :: "'s \<Rightarrow> message list"
    and st_entries :: "'s \<Rightarrow> session_entry list"
  assumes append_message_ok:
      "st_append_message m s = (Inr u, s') \<Longrightarrow>
         st_messages s' = st_messages s @ [m] \<and> st_entries s' = st_entries s @ [MessageEntry m]"
    and append_message_err:
      "st_append_message m s = (Inl e, s') \<Longrightarrow>
         st_messages s' = st_messages s \<and> st_entries s' = st_entries s"
    and append_custom_ok:
      "st_append_custom k d s = (Inr u, s') \<Longrightarrow>
         st_messages s' = st_messages s \<and> st_entries s' = st_entries s @ [CustomEntry k d]"
    and append_custom_err:
      "st_append_custom k d s = (Inl e, s') \<Longrightarrow>
         st_messages s' = st_messages s \<and> st_entries s' = st_entries s"
begin

lemma append_custom_messages: "st_append_custom k d s = (r, s') \<Longrightarrow> st_messages s' = st_messages s"
  by (cases r) (auto dest: append_custom_ok append_custom_err)

lemma append_message_messages:
  "st_append_message m s = (r, s') \<Longrightarrow>
     st_messages s' = st_messages s @ (case r of Inl _ \<Rightarrow> [] | Inr _ \<Rightarrow> [m])"
  by (cases r) (auto dest: append_message_ok append_message_err)

end

lemma store_append_ok:
  "store_append enc e s = (Inr u, s') \<Longrightarrow>
     js_messages s' = js_messages s @ entry_messages e \<and> js_entries s' = js_entries s @ [e]"
  by (auto simp: store_append_def Let_def split: prod.splits option.splits)

lemma store_append_err:
  "store_append enc e s = (Inl x, s') \<Longrightarrow>
     js_messages s' = js_messages s \<and> js_entries s' = js_entries s"
  by (auto simp: store_append_def Let_def split: prod.splits option.splits)

interpretation jsonl: session_store "append_message enc" "append_custom enc" js_messages js_entries
  for enc
  by unfold_locales (auto simp: append_message_def append_custom_def
      dest: store_append_ok store_append_err)

section \<open>Reopening answers every tool call\<close>

lemma append_results_ok:
  "append_results enc is s = Inr s' \<Longrightarrow>
     js_messages s' = js_messages s @ map interrupted_result is \<and>
     js_entries s' = js_entries s @ map (\<lambda>i. MessageEntry (interrupted_result i)) is"
proof (induction "is" arbitrary: s)
  case (Cons i "is")
  then show ?case
    by (fastforce split: prod.splits sum.splits
        dest: jsonl.append_message_ok)
qed simp

lemma tool_use_ids_append [simp]: "tool_use_ids (xs @ ys) = tool_use_ids xs @ tool_use_ids ys"
  by (simp add: tool_use_ids_def)

lemma answered_ids_append [simp]: "answered_ids (xs @ ys) = answered_ids xs \<union> answered_ids ys"
  by (auto simp: answered_ids_def List.map_filter_def)

lemma tool_use_ids_interrupted [simp]: "tool_use_ids (map interrupted_result is) = []"
  by (induction "is") (auto simp: tool_use_ids_def interrupted_result_def tool_result_error_def
      tool_uses_def List.map_filter_def)

lemma answered_ids_interrupted [simp]: "answered_ids (map interrupted_result is) = set is"
  by (induction "is") (auto simp: answered_ids_def interrupted_result_def tool_result_error_def
      List.map_filter_def)

lemma dangling_answered:
  "set (tool_use_ids ms) \<subseteq> answered_ids (ms @ map interrupted_result (dangling_ids ms))"
  by (auto simp: dangling_ids_def)

lemma store_open_cases:
  assumes "store_open enc dec sid path file sched = Inr s"
  shows "(file = None \<and> js_messages s = [] \<and> js_entries s = []) \<or>
    (\<exists>text es ms. file = Some text \<and> load_lines dec 0 (split_lines [] text) = Inr es \<and>
       ms = (if active_goal es then filter retained (concat (map entry_messages es))
             else concat (map entry_messages es)) \<and>
       js_messages s = ms @ map interrupted_result (dangling_ids ms) \<and>
       js_entries s = es @ map (\<lambda>i. MessageEntry (interrupted_result i)) (dangling_ids ms))"
  using assms
  by (auto simp: store_open_def Let_def split: option.splits sum.splits dest!: append_results_ok)

lemma restored_messages:
  assumes "store_open enc dec sid path file sched = Inr s"
  shows "\<exists>ms. js_messages s = ms @ map interrupted_result (dangling_ids ms)"
  using store_open_cases [OF assms]
  by (auto simp: dangling_ids_def tool_use_ids_def intro: exI [of _ "[]"])

lemma restored_answered:
  assumes "store_open enc dec sid path file sched = Inr s"
  shows "set (tool_use_ids (js_messages s)) \<subseteq> answered_ids (js_messages s)"
proof -
  obtain ms where ms: "js_messages s = ms @ map interrupted_result (dangling_ids ms)"
    using restored_messages [OF assms] by blast
  show ?thesis using dangling_answered [of ms] unfolding ms tool_use_ids_append by simp
qed

text \<open>A session file that opens leaves no tool call without an answer. Whatever
  the file holds, each identifier of a tool call among the restored messages is the identifier of
  a tool result among them, so that no provider request built from the restored history holds an
  unanswered call.\<close>

theorem open_answers_every_tool_use:
  assumes "store_open enc dec sid path file sched = Inr s"
  shows "set (tool_use_ids (js_messages s)) \<subseteq> answered_ids (js_messages s)"
  by (rule restored_answered [OF assms])

definition sample_call :: message where
  "sample_call = Assistant
     \<lparr>am_content = [ToolUseC ''call_1'' ''node'' ''{}'' False None], am_stop_reason = ToolUseStop,
      am_usage = None, am_error_message = None\<rparr>"

theorem open_answers_every_tool_use_witness:
  "''call_1'' \<in> answered_ids [sample_call, interrupted_result ''call_1'']"
proof -
  have "store_open (\<lambda>_. ''{}'') (\<lambda>_. Some (MessageEntry sample_call)) 7 ''s'' (Some ''{}'') [] =
     Inr \<lparr>js_id = 7, js_path = ''s'', js_messages = [sample_call, interrupted_result ''call_1''],
          js_entries = map MessageEntry [sample_call, interrupted_result ''call_1''],
          js_file = Some (''{}{}'' @ [CHR 10]), js_schedule = []\<rparr>"
    by (simp add: store_open_def Let_def trim_def is_whitespace_def active_goal_def
        dangling_ids_def tool_use_ids_def answered_ids_def sample_call_def tool_uses_def
        List.map_filter_simps append_message_def store_append_def)
  from open_answers_every_tool_use [OF this] show ?thesis
    by (simp add: tool_use_ids_def sample_call_def tool_uses_def List.map_filter_simps)
qed

section \<open>What is appended is what is restored\<close>

text \<open>
  What the store relies on from the JSON encoder for an entry: the text decodes to the entry and is
  one non-blank line, which serde_json's compact form is.
\<close>

definition codec_ok ::
  "(session_entry \<Rightarrow> string) \<Rightarrow> (string \<Rightarrow> session_entry option) \<Rightarrow> session_entry \<Rightarrow> bool" where
  "codec_ok enc dec e \<longleftrightarrow>
     dec (enc e) = Some e \<and> CHR 10 \<notin> set (enc e) \<and> trim (enc e) \<noteq> [] \<and> last (enc e) \<noteq> CHR 13"

definition file_text :: "(session_entry \<Rightarrow> string) \<Rightarrow> session_entry list \<Rightarrow> string" where
  "file_text enc es = concat (map (\<lambda>e. enc e @ [CHR 10]) es)"

text \<open>The file holds the entries in memory, and nothing else.\<close>

definition in_sync :: "(session_entry \<Rightarrow> string) \<Rightarrow> jsonl_store \<Rightarrow> bool" where
  "in_sync enc s \<longleftrightarrow>
     case_option [] id (js_file s) = file_text enc (js_entries s) \<and>
     js_messages s = concat (map entry_messages (js_entries s))"

fun whole_write :: "io_outcome \<Rightarrow> bool" where
  "whole_write (WriteFails _ _) = False"
| "whole_write (NewlineFails _) = False"
| "whole_write (FlushFails _) = False"
| "whole_write _ = True"

lemma in_sync_append:
  assumes "in_sync enc s" and "whole_write (next_outcome (js_schedule s))"
  shows "in_sync enc (snd (store_append enc e s))"
  using assms
  by (cases "next_outcome (js_schedule s)")
    (auto simp: in_sync_def store_append_def file_text_def)

fun store_append_all ::
  "(session_entry \<Rightarrow> string) \<Rightarrow> session_entry list \<Rightarrow> jsonl_store \<Rightarrow> jsonl_store" where
  "store_append_all enc [] s = s"
| "store_append_all enc (e # es) s = store_append_all enc es (snd (store_append enc e s))"

lemma store_append_schedule: "js_schedule (snd (store_append enc e s)) = tl (js_schedule s)"
  by (auto simp: store_append_def Let_def split: prod.splits option.splits)

lemma store_append_entries:
  "set (js_entries (snd (store_append enc e s))) \<subseteq> insert e (set (js_entries s))"
  by (auto simp: store_append_def Let_def split: prod.splits option.splits)

lemma whole_write_next: "list_all whole_write sch \<Longrightarrow> whole_write (next_outcome sch)"
  by (cases sch) auto

lemma list_all_tl: "list_all P xs \<Longrightarrow> list_all P (tl xs)"
  by (cases xs) auto

lemma in_sync_append_all:
  "in_sync enc s \<Longrightarrow> list_all whole_write (js_schedule s) \<Longrightarrow>
     in_sync enc (store_append_all enc es s) \<and>
     set (js_entries (store_append_all enc es s)) \<subseteq> set es \<union> set (js_entries s)"
proof (induction es arbitrary: s)
  case (Cons e es)
  let ?s1 = "snd (store_append enc e s)"
  have "in_sync enc ?s1"
    using Cons.prems by (intro in_sync_append whole_write_next)
  moreover have "list_all whole_write (js_schedule ?s1)"
    using Cons.prems by (simp add: store_append_schedule list_all_tl)
  ultimately show ?case
    using Cons.IH [of ?s1] store_append_entries [of enc e s] by auto
qed simp

lemma split_lines_newline:
  "CHR 10 \<notin> set l \<Longrightarrow> split_lines acc (l @ CHR 10 # rest) = strip_cr (acc @ l) # split_lines [] rest"
  by (induction l arbitrary: acc) auto

lemma strip_cr_id: "last l \<noteq> CHR 13 \<Longrightarrow> strip_cr l = l"
  by (simp add: strip_cr_def)

lemma load_file_text:
  "\<forall>e \<in> set es. codec_ok enc dec e \<Longrightarrow>
     load_lines dec n (split_lines [] (file_text enc es)) = Inr es"
proof (induction es arbitrary: n)
  case (Cons e es)
  have "split_lines [] (file_text enc (e # es)) = enc e # split_lines [] (file_text enc es)"
    using Cons.prems
    by (simp add: file_text_def codec_ok_def split_lines_newline strip_cr_id)
  then show ?case
    using Cons by (simp add: codec_ok_def)
qed (simp add: file_text_def)

lemma append_results_no_fault:
  "js_schedule s = [] \<Longrightarrow> \<exists>s'. append_results enc is s = Inr s'"
proof (induction "is" arbitrary: s)
  case (Cons i "is")
  have "js_schedule (snd (append_message enc (interrupted_result i) s)) = []"
    using Cons.prems by (simp add: append_message_def store_append_schedule)
  moreover have "fst (append_message enc (interrupted_result i) s) = Inr ()"
    using Cons.prems by (simp add: append_message_def store_append_def)
  ultimately show ?case
    using Cons.IH by (simp add: case_prod_unfold)
qed simp

text \<open>C36 (roundtrip): persistence. A session that starts without a file and appends entries, some
  of which may fail before anything is written, can be reopened from its file: reopening succeeds
  and restores exactly the entries in memory followed by one interrupted result for each unanswered
  tool call; and the messages in memory (without those an active goal drops) followed by the same
  results.\<close>

theorem reopen_restores_appended:
  assumes "\<forall>e \<in> set es. codec_ok enc dec e"
    and "list_all whole_write sched"
    and "s = store_append_all enc es
           \<lparr>js_id = sid, js_path = path, js_messages = [], js_entries = [], js_file = None,
            js_schedule = sched\<rparr>"
    and "js_file s = Some text"
  shows "\<exists>s'. store_open enc dec sid path (Some text) [] = Inr s' \<and>
    (\<exists>ms. ms = (if active_goal (js_entries s) then filter retained (js_messages s)
                else js_messages s) \<and>
      js_messages s' = ms @ map interrupted_result (dangling_ids ms) \<and>
      js_entries s' = js_entries s @ map (\<lambda>i. MessageEntry (interrupted_result i)) (dangling_ids ms))"
proof -
  let ?s0 = "\<lparr>js_id = sid, js_path = path, js_messages = [], js_entries = [], js_file = None,
            js_schedule = sched\<rparr>"
  have "in_sync enc ?s0" by (simp add: in_sync_def file_text_def)
  then have sync: "in_sync enc s" and sub: "set (js_entries s) \<subseteq> set es"
    using in_sync_append_all [of enc ?s0 es] assms(2,3) by auto
  have file_eq: "text = file_text enc (js_entries s)"
    using sync assms(4) by (simp add: in_sync_def)
  have load: "load_lines dec 0 (split_lines [] text) = Inr (js_entries s)"
    unfolding file_eq by (rule load_file_text) (use sub assms(1) in blast)
  have "\<exists>s'. store_open enc dec sid path (Some text) [] = Inr s'"
    using load append_results_no_fault by (auto simp: store_open_def Let_def)
  then obtain s' where s': "store_open enc dec sid path (Some text) [] = Inr s'" ..
  from store_open_cases [OF s'] load sync show ?thesis
    by (intro exI [of _ s']) (auto simp: s' in_sync_def)
qed

theorem reopen_restores_appended_witness:
  "\<exists>s'. store_open (\<lambda>_. ''{}'') (\<lambda>_. Some (MessageEntry (User (user_text ''hi'')))) 7 ''s''
      (Some (''{}'' @ [CHR 10])) [] = Inr s' \<and> js_messages s' = [User (user_text ''hi'')]"
proof -
  let ?e = "MessageEntry (User (user_text ''hi''))"
  have c: "\<forall>e \<in> set [?e]. codec_ok (\<lambda>_. ''{}'') (\<lambda>_. Some ?e) e"
    by (simp add: codec_ok_def trim_def is_whitespace_def)
  have w: "list_all whole_write []" by simp
  have s: "\<lparr>js_id = 7, js_path = ''s'', js_messages = [User (user_text ''hi'')],
        js_entries = [?e], js_file = Some (''{}'' @ [CHR 10]), js_schedule = []\<rparr> =
      store_append_all (\<lambda>_. ''{}'') [?e]
        \<lparr>js_id = 7, js_path = ''s'', js_messages = [], js_entries = [], js_file = None,
         js_schedule = []\<rparr>"
    by (simp add: store_append_def)
  show ?thesis
    using reopen_restores_appended [OF c w s]
    by (simp add: active_goal_def dangling_ids_def tool_use_ids_def tool_uses_def user_text_def
        List.map_filter_simps) blast
qed

end
