(* ===== verification/Session.thy ===== *)
theory Session
  imports Message_Queue Session_Store
begin

text \<open>
  \<^verbatim>\<open>e-agent-core/src/session/mod.rs\<close> and \<^verbatim>\<open>handle.rs\<close>: the session and its actor. This theory
  holds the definitions; \<^verbatim>\<open>Session_Props\<close> holds the theorems.

  What lies outside the crate is the record \<open>host\<close> of functions on a state \<open>'w\<close>: the provider, the
  tool executor with its extension hooks, the clock, the JSON schema check and the clients. A hook
  that receives \<^verbatim>\<open>&mut\<close> data returns it. Every call that the code awaits goes through
  \<open>call_async\<close>: while the session is suspended, clients may enqueue messages and send commands.
  \<^verbatim>\<open>tokio::select!\<close> with the cancellation token is the type \<open>selected\<close>: the host says which branch
  ran. Loops that depend on the host carry fuel; \<open>None\<close> means that it ran out.
\<close>

section \<open>The host\<close>

record session_context =
  ctx_session_id :: string
  ctx_cwd :: string
  ctx_entries :: "session_entry list"
  ctx_idle :: bool
  ctx_signal :: nat

datatype 'a selected = Cancelled | Completed 'a

datatype client_action =
    ClientPrompt user_message
  | ClientEnqueue queued_message
  | ClientClose

datatype session_command = CmdPrompt user_message | CmdWake | CmdClose

record 'w host =
  ex_tool_defs :: "'w \<Rightarrow> tool_def list"
  ex_system_prompts :: "'w \<Rightarrow> string list"
  ex_commands :: "'w \<Rightarrow> string list"
  ex_command :: "string \<Rightarrow> string \<Rightarrow> session_context \<Rightarrow> 'w \<Rightarrow> (string + unit) \<times> 'w"
  ex_take_host_actions :: "'w \<Rightarrow> host_action list \<times> 'w"
  ex_observe :: "agent_event \<Rightarrow> session_context \<Rightarrow> 'w \<Rightarrow> (string + unit) \<times> 'w"
  ex_call :: "nat \<Rightarrow> string \<Rightarrow> string \<Rightarrow> 'w \<Rightarrow> (string + tool_output) selected \<times> 'w"
  ex_drop_session :: "'w \<Rightarrow> (string + unit) \<times> 'w"
  hk_input :: "user_message \<Rightarrow> session_context \<Rightarrow> 'w \<Rightarrow>
                 (string + input_outcome \<times> user_message) \<times> 'w"
  hk_before_agent_start :: "before_agent_start \<Rightarrow> session_context \<Rightarrow> 'w \<Rightarrow>
                              (string + before_agent_start) \<times> 'w"
  hk_context :: "message list \<Rightarrow> session_context \<Rightarrow> 'w \<Rightarrow> (string + message list) \<times> 'w"
  hk_tool_call :: "tool_call \<Rightarrow> session_context \<Rightarrow> 'w \<Rightarrow>
                     ((string + tool_call_outcome) \<times> tool_call) \<times> 'w"
  hk_tool_result :: "tool_result_message \<Rightarrow> session_context \<Rightarrow> 'w \<Rightarrow>
                       (string + tool_result_message) \<times> 'w"
  hk_message_finalizing :: "message \<Rightarrow> session_context \<Rightarrow> 'w \<Rightarrow> (string + message) \<times> 'w"
  pr_stream :: "nat \<Rightarrow> string \<Rightarrow> string \<Rightarrow> message list \<Rightarrow> tool_def list \<Rightarrow> 'w \<Rightarrow>
                  (string + unit) selected \<times> 'w"
  pr_next :: "nat \<Rightarrow> 'w \<Rightarrow> (string + provider_event) option selected \<times> 'w"
  wall_clock :: "'w \<Rightarrow> string"
  label_time :: string   \<comment> \<open>two fixed labels of the prompt, in characters outside the alphabet\<close>
  label_cwd :: string
  schema_check :: "json \<Rightarrow> string \<Rightarrow> (string + unit)"
  clients :: "'w \<Rightarrow> client_action list \<times> 'w"

text \<open>The session's environment: the host and the operations of \<^verbatim>\<open>trait SessionStore\<close>.\<close>

record ('w, 's) env = "'w host" +
  st_append_message :: "message \<Rightarrow> 's \<Rightarrow> (string + unit) \<times> 's"
  st_append_custom :: "string \<Rightarrow> json \<Rightarrow> 's \<Rightarrow> (string + unit) \<times> 's"
  st_messages :: "'s \<Rightarrow> message list"
  st_entries :: "'s \<Rightarrow> session_entry list"
  st_id :: "'s \<Rightarrow> string"
  st_save :: "'s \<Rightarrow> (string + unit)"

datatype session_status = Idle | Running | Fatal | Closed

record ('w, 's) session =
  s_cwd :: string
  s_model :: string
  s_system_prompt :: string
  s_store :: 's
  s_queue :: queue_state
  s_run :: nat
  s_events :: "agent_event list"       \<comment> \<open>everything published on the event bus, oldest first\<close>
  s_status :: session_status
  s_started :: bool
  s_shutdown_emitted :: bool
  s_token :: nat                       \<comment> \<open>the current cancellation token\<close>
  s_inbox :: "session_command list"    \<comment> \<open>the actor's command channel\<close>
  s_world :: 'w

definition with_store ::
  "string \<Rightarrow> string \<Rightarrow> string \<Rightarrow> 's \<Rightarrow> 'w \<Rightarrow> ('w, 's) session" where
  "with_store cwd model prompt store w =
     \<lparr>s_cwd = cwd, s_model = model, s_system_prompt = prompt, s_store = store,
      s_queue = set_idle True default_queue, s_run = 0, s_events = [], s_status = Idle,
      s_started = False, s_shutdown_emitted = False, s_token = 0, s_inbox = [], s_world = w\<rparr>"

section \<open>Publishing, clients, awaited calls\<close>

definition publish :: "agent_event \<Rightarrow> ('w, 's) session \<Rightarrow> ('w, 's) session" where
  "publish ev s = s\<lparr>s_events := s_events s @ [ev]\<rparr>"

text \<open>\<^verbatim>\<open>SessionClient\<close>: \<^verbatim>\<open>send\<close> for prompts and close, \<^verbatim>\<open>enqueue\<close> for steering and follow-ups.\<close>

fun client_act :: "client_action \<Rightarrow> ('w, 's) session \<Rightarrow> ('w, 's) session" where
  "client_act (ClientPrompt m) s = s\<lparr>s_inbox := s_inbox s @ [CmdPrompt m]\<rparr>"
| "client_act (ClientEnqueue m) s =
     (case push m (s_queue s) of
        Inl _ \<Rightarrow> s
      | Inr q \<Rightarrow> (let s1 = publish (QueueUpdate (queue_len q)) (s\<lparr>s_queue := q\<rparr>)
                in s1\<lparr>s_inbox := s_inbox s1 @ [CmdWake]\<rparr>))"
| "client_act ClientClose s = s\<lparr>s_inbox := s_inbox s @ [CmdClose]\<rparr>"

definition call_async ::
  "('w, 's) env \<Rightarrow> ('w \<Rightarrow> 'a \<times> 'w) \<Rightarrow> ('w, 's) session \<Rightarrow> 'a \<times> ('w, 's) session" where
  "call_async E op s =
     (let (r, w1) = op (s_world s); (acts, w2) = clients E w1
      in (r, fold client_act acts (s\<lparr>s_world := w2\<rparr>)))"

definition context_of :: "('w, 's) env \<Rightarrow> ('w, 's) session \<Rightarrow> session_context" where
  "context_of E s =
     \<lparr>ctx_session_id = st_id E (s_store s), ctx_cwd = s_cwd s,
      ctx_entries = st_entries E (s_store s),
      ctx_idle = (s_status s = Idle \<and> queue_is_idle (s_queue s)), ctx_signal = s_token s\<rparr>"

definition reset_cancellation :: "('w, 's) session \<Rightarrow> ('w, 's) session" where
  "reset_cancellation s = s\<lparr>s_token := Suc (s_token s)\<rparr>"

section \<open>Host actions and emission\<close>

definition deliver :: "string \<Rightarrow> string \<Rightarrow> queued_message" where
  "deliver deliver_as t =
     (if deliver_as = ''steer'' then Steer (user_text t) else FollowUp (user_text t))"

definition enqueue_local ::
  "queued_message \<Rightarrow> ('w, 's) session \<Rightarrow> (string + unit) \<times> ('w, 's) session" where
  "enqueue_local m s =
     (case push m (s_queue s) of
        Inl e \<Rightarrow> (Inl e, s) | Inr q \<Rightarrow> (Inr (), s\<lparr>s_queue := q\<rparr>))"

definition store_custom ::
  "('w, 's) env \<Rightarrow> string \<Rightarrow> json \<Rightarrow> ('w, 's) session \<Rightarrow> (string + unit) \<times> ('w, 's) session" where
  "store_custom E kind data s =
     (let (r, st) = st_append_custom E kind data (s_store s) in (r, s\<lparr>s_store := st\<rparr>))"

fun apply_action ::
  "('w, 's) env \<Rightarrow> host_action \<Rightarrow> ('w, 's) session \<Rightarrow> (string + unit) \<times> ('w, 's) session" where
  "apply_action E (AppendEntry kind data) s = store_custom E kind data s"
| "apply_action E (SendUserMessage t deliver_as) s = enqueue_local (deliver deliver_as t) s"
| "apply_action E (SendMessage msg deliver_as trigger_turn) s =
     (let kind = (case json_as_str (json_index msg ''customType'') of
                    Some k \<Rightarrow> k | None \<Rightarrow> ''extension-message'')
      in case store_custom E kind msg s of
           (Inl e, s1) \<Rightarrow> (Inl e, s1)
         | (Inr _, s1) \<Rightarrow>
             if trigger_turn
             then enqueue_local (deliver deliver_as
                    (case json_as_str (json_index msg ''content'') of Some t \<Rightarrow> t | None \<Rightarrow> [])) s1
             else (Inr (), s1))"

fun apply_action_list ::
  "('w, 's) env \<Rightarrow> host_action list \<Rightarrow> ('w, 's) session \<Rightarrow> (string + unit) \<times> ('w, 's) session" where
  "apply_action_list E [] s = (Inr (), s)"
| "apply_action_list E (a # as) s =
     (case apply_action E a s of
        (Inl e, s1) \<Rightarrow> (Inl e, s1) | (Inr _, s1) \<Rightarrow> apply_action_list E as s1)"

definition apply_actions ::
  "('w, 's) env \<Rightarrow> ('w, 's) session \<Rightarrow> (string + unit) \<times> ('w, 's) session" where
  "apply_actions E s =
     (let (acts, w) = ex_take_host_actions E (s_world s)
      in apply_action_list E acts (s\<lparr>s_world := w\<rparr>))"

definition hook_error :: "string \<Rightarrow> (string + 'a) \<Rightarrow> ('w, 's) session \<Rightarrow> ('w, 's) session" where
  "hook_error hook r s = (case r of Inl e \<Rightarrow> publish (HookError hook e) s | Inr _ \<Rightarrow> s)"

definition emit :: "('w, 's) env \<Rightarrow> agent_event \<Rightarrow> ('w, 's) session \<Rightarrow> ('w, 's) session" where
  "emit E ev s =
     (if s_shutdown_emitted s then s
      else
        let s1 = publish ev s;
            (r, s2) = call_async E (ex_observe E ev (context_of E s1)) s1;
            s3 = hook_error ''observer'' r s2;
            (r', s4) = apply_actions E s3
        in hook_error ''host_action'' r' s4)"

definition emit_error :: "('w, 's) env \<Rightarrow> string \<Rightarrow> string \<Rightarrow> ('w, 's) session \<Rightarrow> ('w, 's) session" where
  "emit_error E hook e s = emit E (HookError hook e) s"

definition ensure_started :: "('w, 's) env \<Rightarrow> ('w, 's) session \<Rightarrow> ('w, 's) session" where
  "ensure_started E s =
     (if s_started s then s
      else emit E (SessionStart (st_id E (s_store s))) (s\<lparr>s_started := True\<rparr>))"

section \<open>Fatal errors and persistence\<close>

definition fatal :: "('w, 's) env \<Rightarrow> string \<Rightarrow> ('w, 's) session \<Rightarrow> ('w, 's) session" where
  "fatal E err s =
     (let s1 = s\<lparr>s_status := Fatal, s_queue := close_queue (s_queue s)\<rparr>;
          s2 = publish (SessionFatal err) (publish (PersistenceError err) s1);
          (_, s3) = call_async E (ex_drop_session E) s2;
          s4 = publish SessionShutdown s3
      in s4\<lparr>s_shutdown_emitted := True\<rparr>)"

definition persist ::
  "('w, 's) env \<Rightarrow> string \<Rightarrow> message \<Rightarrow> ('w, 's) session \<Rightarrow> (string + message) \<times> ('w, 's) session" where
  "persist E message_id m s =
     (let (r, s1) = call_async E (hk_message_finalizing E m (context_of E s)) s;
          (m', s2) = (case r of
              Inr working \<Rightarrow>
                (case validate_final_message m working of
                   None \<Rightarrow> (working, s1)
                 | Some e \<Rightarrow> (m, emit_error E ''message_finalizing'' e s1))
            | Inl e \<Rightarrow> (m, emit_error E ''message_finalizing'' e s1));
          (appended, st) = st_append_message E m' (s_store s2);
          s3 = s2\<lparr>s_store := st\<rparr>
      in case appended of
           Inl e \<Rightarrow> (Inl e, fatal E e s3)
         | Inr _ \<Rightarrow> (Inr m', emit E (MessageEnd message_id m') s3))"

section \<open>One provider response\<close>

fun delta_of :: "message_content \<Rightarrow> message_delta" where
  "delta_of (TextC t) = TextD t"
| "delta_of (ThinkingC t _) = ThinkingD t"
| "delta_of (ToolUseC _ _ input _ _) = ToolCallInputD input"

record stream_result =
  sr_stop :: stop_reason
  sr_error :: "string option"
  sr_terminal :: bool
  sr_blocks :: "(nat, message_content) bmap"
  sr_usage :: "usage option"

fun stream_loop ::
  "('w, 's) env \<Rightarrow> nat \<Rightarrow> string \<Rightarrow> nat \<Rightarrow> (nat, message_content) bmap \<Rightarrow> usage option \<Rightarrow>
   ('w, 's) session \<Rightarrow> (stream_result \<times> ('w, 's) session) option" where
  "stream_loop E tok aid 0 blocks usage s = None"
| "stream_loop E tok aid (Suc n) blocks usage s =
     (let (item, s1) = call_async E (pr_next E tok) s;
          finish = (\<lambda>stop err term.
            Some (\<lparr>sr_stop = stop, sr_error = err, sr_terminal = term,
                   sr_blocks = blocks, sr_usage = usage\<rparr>, s1))
      in case item of
           Cancelled \<Rightarrow> finish Aborted None True
         | Completed None \<Rightarrow> finish ErrorStop None False
         | Completed (Some (Inl err)) \<Rightarrow> finish ErrorStop (Some err) True
         | Completed (Some (Inr (Done reason))) \<Rightarrow> finish reason None True
         | Completed (Some (Inr (ProviderError err))) \<Rightarrow> finish ErrorStop (Some err) True
         | Completed (Some (Inr ProviderAborted)) \<Rightarrow> finish Aborted None True
         | Completed (Some (Inr (UsageEvent u))) \<Rightarrow>
             stream_loop E tok aid n blocks (Some u) s1
         | Completed (Some (Inr (ContentDelta i d))) \<Rightarrow>
             stream_loop E tok aid n (merge_delta blocks i d) usage
               (emit E (MessageUpdate aid i (delta_of d) usage) s1))"

text \<open>Opening the stream, then reading it.\<close>

definition run_stream ::
  "('w, 's) env \<Rightarrow> nat \<Rightarrow> nat \<Rightarrow> string \<Rightarrow> string \<Rightarrow> message list \<Rightarrow> tool_def list \<Rightarrow>
   ('w, 's) session \<Rightarrow> (stream_result \<times> ('w, 's) session) option" where
  "run_stream E fuel tok aid sysp messages tools s =
     (let (opened, s1) = call_async E (pr_stream E tok (s_model s) sysp messages tools) s;
          stop = (\<lambda>reason err.
            Some (\<lparr>sr_stop = reason, sr_error = err, sr_terminal = True, sr_blocks = [],
                   sr_usage = None\<rparr>, s1))
      in case opened of
           Cancelled \<Rightarrow> stop Aborted None
         | Completed (Inl err) \<Rightarrow> stop ErrorStop (Some err)
         | Completed (Inr _) \<Rightarrow> stream_loop E tok aid fuel [] None s1)"

text \<open>The assistant message built from the response.\<close>

definition assistant_of :: "stream_result \<Rightarrow> assistant_message" where
  "assistant_of r =
     (let err = (if sr_terminal r then sr_error r
                 else Some ''provider stream ended without a terminal event'');
          parts = map snd (sr_blocks r);
          stop = (if list_ex is_tool_use parts \<and> sr_stop r \<notin> {ErrorStop, Aborted}
                  then ToolUseStop else sr_stop r)
      in \<lparr>am_content = parts, am_stop_reason = stop, am_usage = sr_usage r,
          am_error_message = err\<rparr>)"

section \<open>Tool execution\<close>

definition validate_tool_call ::
  "(json \<Rightarrow> string \<Rightarrow> (string + unit)) \<Rightarrow> tool_call \<Rightarrow> tool_def list \<Rightarrow> string option" where
  "validate_tool_call check call tools =
     (case List.find (\<lambda>t. td_name t = tc_name call) tools of
        None \<Rightarrow> Some (''unknown tool '' @ tc_name call)
      | Some t \<Rightarrow>
          (case td_input t of
             JsonInput schema \<Rightarrow>
               (case check schema (tc_input call) of Inl e \<Rightarrow> Some e | Inr _ \<Rightarrow> None)
           | _ \<Rightarrow> None))"

definition call_tool ::
  "('w, 's) env \<Rightarrow> nat \<Rightarrow> tool_def list \<Rightarrow> string \<Rightarrow> string \<Rightarrow> string \<Rightarrow> ('w, 's) session \<Rightarrow>
   (string + tool_output) \<times> tool_call \<times> ('w, 's) session" where
  "call_tool E tok tools i name input s =
     (let ((r, call), s1) =
            call_async E (hk_tool_call E \<lparr>tc_id = i, tc_name = name, tc_input = input\<rparr>
              (context_of E s)) s;
          (outcome, s2) = (case r of
              Inr out \<Rightarrow> (out, s1)
            | Inl e \<Rightarrow> (let msg = ''tool hook failed: '' @ e
                       in (CallBlock msg, emit_error E ''tool_call'' msg s1)));
          invalid = validate_tool_call (schema_check E) call tools;
          s3 = (case invalid of Some e \<Rightarrow> emit_error E ''tool_call'' e s2 | None \<Rightarrow> s2)
      in case (outcome, invalid) of
           (CallBlock reason, _) \<Rightarrow> (Inl reason, call, s3)
         | (_, Some e) \<Rightarrow> (Inl e, call, s3)
         | _ \<Rightarrow> (let (out, s4) = call_async E (ex_call E tok (tc_name call) (tc_input call)) s3
                in ((case out of Cancelled \<Rightarrow> Inl ''aborted'' | Completed x \<Rightarrow> x), call, s4)))"

definition tool_result_of :: "string \<Rightarrow> bool \<Rightarrow> (string + tool_output) \<Rightarrow> tool_result_message" where
  "tool_result_of i custom r =
     (case r of
        Inr out \<Rightarrow> \<lparr>tr_tool_use_id = i, tr_content = to_content out, tr_is_error = False,
                    tr_details = to_details out, tr_custom = custom\<rparr>
      | Inl e \<Rightarrow> (tool_result_error i e)
                   \<lparr>tr_details := Some (JObject [(''error'', JString e)]), tr_custom := custom\<rparr>)"

definition msg_id :: "nat \<Rightarrow> nat \<Rightarrow> string \<Rightarrow> string" where
  "msg_id run turn rest = show_nat run @ '':'' @ show_nat turn @ '':'' @ rest"

text \<open>A steering message that arrived during the tool call is persisted right after its result.\<close>

definition take_steer ::
  "('w, 's) env \<Rightarrow> nat \<Rightarrow> nat \<Rightarrow> ('w, 's) session \<Rightarrow> (string + unit) \<times> ('w, 's) session" where
  "take_steer E run turn s =
     (case pop_steer (s_queue s) of
        None \<Rightarrow> (Inr (), s)
      | Some (steer, q) \<Rightarrow>
          (let i = msg_id run turn ''steer'';
               s1 = emit E (MessageStart i (User steer)) (s\<lparr>s_queue := q\<rparr>)
           in case persist E i (User steer) s1 of
                (Inl e, s2) \<Rightarrow> (Inl e, s2) | (Inr _, s2) \<Rightarrow> (Inr (), s2)))"

definition execute_tool ::
  "('w, 's) env \<Rightarrow> nat \<Rightarrow> nat \<Rightarrow> nat \<Rightarrow> tool_def list \<Rightarrow> string \<Rightarrow> string \<Rightarrow> string \<Rightarrow> bool \<Rightarrow>
   ('w, 's) session \<Rightarrow> (string + message) \<times> ('w, 's) session" where
  "execute_tool E run turn tok tools i name input custom s =
     (let s1 = emit E (ToolExecutionStart i name input) s;
          (result, call, s2) = call_tool E tok tools i name input s1;
          tr = tool_result_of i custom result;
          (r, s3) = call_async E (hk_tool_result E tr (context_of E s2)) s2;
          (tr', s4) = (case r of
              Inr working \<Rightarrow> (working, s3)
            | Inl e \<Rightarrow> (tr, emit_error E ''tool_result'' e s3));
          s5 = emit E (ToolExecutionEnd i (tc_name call)
                 (case tr_details tr' of Some d \<Rightarrow> d | None \<Rightarrow> JNull) (tr_is_error tr')) s4;
          rid = msg_id run turn (''tool:'' @ i);
          s6 = emit E (MessageStart rid (ToolResult tr')) s5
      in case persist E rid (ToolResult tr') s6 of
           (Inl e, s7) \<Rightarrow> (Inl e, s7)
         | (Inr m, s7) \<Rightarrow>
             (case take_steer E run turn s7 of
                (Inl e, s8) \<Rightarrow> (Inl e, s8) | (Inr _, s8) \<Rightarrow> (Inr m, s8)))"

fun tool_loop ::
  "('w, 's) env \<Rightarrow> nat \<Rightarrow> nat \<Rightarrow> nat \<Rightarrow> tool_def list \<Rightarrow> message_content list \<Rightarrow>
   ('w, 's) session \<Rightarrow> (string + message list) \<times> ('w, 's) session" where
  "tool_loop E run turn tok tools [] s = (Inr [], s)"
| "tool_loop E run turn tok tools (ToolUseC i name input custom item # cs) s =
     (case execute_tool E run turn tok tools i name input custom s of
        (Inl e, s1) \<Rightarrow> (Inl e, s1)
      | (Inr m, s1) \<Rightarrow>
          (case tool_loop E run turn tok tools cs s1 of
             (Inl e, s2) \<Rightarrow> (Inl e, s2) | (Inr ms, s2) \<Rightarrow> (Inr (m # ms), s2)))"
| "tool_loop E run turn tok tools (_ # cs) s = tool_loop E run turn tok tools cs s"

section \<open>The agent loop\<close>

fun persist_injected ::
  "('w, 's) env \<Rightarrow> nat \<Rightarrow> nat \<Rightarrow> message list \<Rightarrow> ('w, 's) session \<Rightarrow>
   (string + unit) \<times> ('w, 's) session" where
  "persist_injected E run turn [] s = (Inr (), s)"
| "persist_injected E run turn (m # ms) s =
     (let i = msg_id run turn (''injected:'' @ show_nat (length (st_messages E (s_store s))));
          s1 = emit E (MessageStart i m) s
      in case persist E i m s1 of
           (Inl e, s2) \<Rightarrow> (Inl e, s2) | (Inr _, s2) \<Rightarrow> persist_injected E run turn ms s2)"

definition persist_input ::
  "('w, 's) env \<Rightarrow> nat \<Rightarrow> nat \<Rightarrow> user_message \<Rightarrow> message list \<Rightarrow> ('w, 's) session \<Rightarrow>
   (string + unit) \<times> ('w, 's) session" where
  "persist_input E run turn input injected s =
     (let i = msg_id run turn ''user'';
          s1 = emit E (MessageStart i (User input)) s
      in case persist E i (User input) s1 of
           (Inl e, s2) \<Rightarrow> (Inl e, s2) | (Inr _, s2) \<Rightarrow> persist_injected E run turn injected s2)"

text \<open>The turn up to the persisted answer.\<close>

definition answer_turn ::
  "('w, 's) env \<Rightarrow> nat \<Rightarrow> nat \<Rightarrow> nat \<Rightarrow> string \<Rightarrow> nat \<Rightarrow> tool_def list \<Rightarrow> ('w, 's) session \<Rightarrow>
   ((string + message) \<times> ('w, 's) session) option" where
  "answer_turn E fuel run turn sysp tok tools s =
     (let messages = st_messages E (s_store s);
          (r, s1) = call_async E (hk_context E messages (context_of E s)) s;
          (messages', s2) = (case r of
              Inr working \<Rightarrow> (working, s1)
            | Inl e \<Rightarrow> (messages, emit_error E ''context'' e s1));
          aid = msg_id run turn ''assistant'';
          s3 = emit E (MessageStart aid (Assistant
                 \<lparr>am_content = [], am_stop_reason = Stop, am_usage = None,
                  am_error_message = None\<rparr>)) s2
      in case run_stream E fuel tok aid sysp messages' tools s3 of
           None \<Rightarrow> None
         | Some (sr, s4) \<Rightarrow> Some (persist E aid (Assistant (assistant_of sr)) s4))"

text \<open>One turn of \<^verbatim>\<open>agent_loop\<close>; the flag says whether the loop goes on.\<close>

definition agent_turn ::
  "('w, 's) env \<Rightarrow> nat \<Rightarrow> nat \<Rightarrow> nat \<Rightarrow> user_message \<Rightarrow> string \<Rightarrow> message list \<Rightarrow> nat \<Rightarrow>
   ('w, 's) session \<Rightarrow> ((string + bool) \<times> ('w, 's) session) option" where
  "agent_turn E fuel run turn input sysp injected tok s =
     (let s1 = emit E (TurnStart run turn) s;
          (r, s2) = (if turn = 0 then persist_input E run turn input injected s1 else (Inr (), s1))
      in case r of
           Inl e \<Rightarrow> Some (Inl e, s2)
         | Inr _ \<Rightarrow>
             (let tools = ex_tool_defs E (s_world s2)
              in case answer_turn E fuel run turn sysp tok tools s2 of
                   None \<Rightarrow> None
                 | Some (Inl e, s3) \<Rightarrow> Some (Inl e, s3)
                 | Some (Inr answer, s3) \<Rightarrow>
                     (case tool_loop E run turn tok tools (content answer) s3 of
                        (Inl e, s4) \<Rightarrow> Some (Inl e, s4)
                      | (Inr results, s4) \<Rightarrow>
                          Some (Inr (results \<noteq> []), emit E (TurnEnd run turn) s4))))"

fun agent_loop ::
  "('w, 's) env \<Rightarrow> nat \<Rightarrow> nat \<Rightarrow> nat \<Rightarrow> nat \<Rightarrow> user_message \<Rightarrow> string \<Rightarrow> message list \<Rightarrow> nat \<Rightarrow>
   ('w, 's) session \<Rightarrow> ((string + unit) \<times> ('w, 's) session) option" where
  "agent_loop E fuel 0 run turn input sysp injected tok s = None"
| "agent_loop E fuel (Suc n) run turn input sysp injected tok s =
     (case agent_turn E fuel run turn input sysp injected tok s of
        None \<Rightarrow> None
      | Some (Inl e, s1) \<Rightarrow> Some (Inl e, s1)
      | Some (Inr go_on, s1) \<Rightarrow>
          if go_on then agent_loop E fuel n run (Suc turn) input sysp injected tok s1
          else Some (Inr (), s1))"

section \<open>Runs\<close>

definition build_system_prompt :: "('w, 's) env \<Rightarrow> ('w, 's) session \<Rightarrow> string" where
  "build_system_prompt E s =
     s_system_prompt s @ [CHR 10] @ label_time E @ wall_clock E (s_world s) @ [CHR 10] @
     label_cwd E @ s_cwd s @
     concat (map (\<lambda>p. CHR 10 # p) (ex_system_prompts E (s_world s)))"

definition run_agent ::
  "('w, 's) env \<Rightarrow> nat \<Rightarrow> user_message \<Rightarrow> ('w, 's) session \<Rightarrow>
   ((string + unit) \<times> ('w, 's) session) option" where
  "run_agent E fuel input s =
     (let run = Suc (s_run s); tok = s_token s;
          s1 = s\<lparr>s_run := run, s_status := Running, s_queue := set_idle False (s_queue s)\<rparr>;
          before = \<lparr>bas_prompt = message_text input,
                    bas_system_prompt = build_system_prompt E s1, bas_messages = []\<rparr>;
          (r, s2) = call_async E (hk_before_agent_start E before (context_of E s1)) s1;
          (before', s3) = (case r of
              Inr working \<Rightarrow> (working, s2)
            | Inl e \<Rightarrow> (before, emit_error E ''before_agent_start'' e s2));
          s4 = emit E (AgentStart run) s3
      in case agent_loop E fuel fuel run 0 input (bas_system_prompt before')
                (bas_messages before') tok s4 of
           None \<Rightarrow> None
         | Some (Inl e, s5) \<Rightarrow> Some (Inl e, s5)
         | Some (Inr _, s5) \<Rightarrow>
             (let s6 = emit E (AgentEnd run) s5;
                  s7 = s6\<lparr>s_queue := set_idle True (s_queue s6), s_status := Idle\<rparr>
              in Some (Inr (), emit E (AgentSettled run) s7)))"

fun drain_follow_ups ::
  "('w, 's) env \<Rightarrow> nat \<Rightarrow> nat \<Rightarrow> ('w, 's) session \<Rightarrow>
   ((string + unit) \<times> ('w, 's) session) option" where
  "drain_follow_ups E fuel 0 s = None"
| "drain_follow_ups E fuel (Suc n) s =
     (case pop_follow_up (s_queue s) of
        None \<Rightarrow> Some (Inr (), s)
      | Some (m, q) \<Rightarrow>
          (case run_agent E fuel m (reset_cancellation (s\<lparr>s_queue := q\<rparr>)) of
             None \<Rightarrow> None
           | Some (Inl e, s1) \<Rightarrow> Some (Inl e, s1)
           | Some (Inr _, s1) \<Rightarrow> drain_follow_ups E fuel n s1))"

fun run_queued ::
  "('w, 's) env \<Rightarrow> nat \<Rightarrow> nat \<Rightarrow> ('w, 's) session \<Rightarrow>
   ((string + unit) \<times> ('w, 's) session) option" where
  "run_queued E fuel 0 s = None"
| "run_queued E fuel (Suc n) s =
     (case (case pop_steer (s_queue s) of
              Some x \<Rightarrow> Some x | None \<Rightarrow> pop_follow_up (s_queue s)) of
        None \<Rightarrow> Some (Inr (), s)
      | Some (m, q) \<Rightarrow>
          (case run_agent E fuel m (reset_cancellation (s\<lparr>s_queue := q\<rparr>)) of
             None \<Rightarrow> None
           | Some (Inl e, s1) \<Rightarrow> Some (Inl e, s1)
           | Some (Inr _, s1) \<Rightarrow> run_queued E fuel n s1))"

text \<open>\<^verbatim>\<open>run_one_trun\<close>: a slash command of an extension, or an agent run; then the follow-ups.\<close>

definition run_one_trun ::
  "('w, 's) env \<Rightarrow> nat \<Rightarrow> user_message \<Rightarrow> ('w, 's) session \<Rightarrow>
   ((string + unit) \<times> ('w, 's) session) option" where
  "run_one_trun E fuel input s =
     (if s_status s \<in> {Fatal, Closed}
      then Some (Inl ''session is not accepting messages'', s)
      else
        let s1 = reset_cancellation (ensure_started E s);
            drain = (\<lambda>r s'. case r of Inl e \<Rightarrow> Some (Inl e, s')
                                    | Inr _ \<Rightarrow> drain_follow_ups E fuel fuel s');
            agent = (\<lambda>m s'. case run_agent E fuel m s' of
                None \<Rightarrow> None | Some (r, s'') \<Rightarrow> drain r s'')
        in case (case parse_command (message_text input) of
                   Some (name, args) \<Rightarrow>
                     if name \<in> set (ex_commands E (s_world s1)) then Some (name, args) else None
                 | None \<Rightarrow> None) of
             Some (name, args) \<Rightarrow>
               (case call_async E (ex_command E name args (context_of E s1)) s1 of
                  (Inl e, s2) \<Rightarrow> Some (Inl e, s2)
                | (Inr _, s2) \<Rightarrow> (let (r, s3) = apply_actions E s2 in drain r s3))
           | None \<Rightarrow>
               (case call_async E (hk_input E input (context_of E s1)) s1 of
                  (Inr (InputContinue, working), s2) \<Rightarrow> agent working s2
                | (Inr (InputHandled, _), s2) \<Rightarrow> Some (Inr (), s2)
                | (Inl e, s2) \<Rightarrow> agent input (emit_error E ''input'' e s2)))"

definition resumed_goal :: "session_entry list \<Rightarrow> (string \<times> string) option" where
  "resumed_goal es =
     (case find_map (\<lambda>e. case e of
        CustomEntry ct d \<Rightarrow>
          if ct = ''goal-state''
          then Some (json_index (json_index d ''goal'') ''status'' = JString ''active'',
                     json_as_str (json_index (json_index d ''goal'') ''id''),
                     json_as_str (json_index (json_index d ''goal'') ''text'')) else None
      | _ \<Rightarrow> None) (rev es) of
        Some (True, Some i, Some t) \<Rightarrow> Some (i, t)
      | _ \<Rightarrow> None)"

definition resume_text :: "string \<Rightarrow> string \<Rightarrow> string" where
  "resume_text goal_id objective =
     ''Resume the active goal after process restart. Objective: '' @ objective @ [CHR 10] @
     ''Use the current goal_id '' @ goal_id @ '' when completing it.''"

definition resume_pending ::
  "('w, 's) env \<Rightarrow> nat \<Rightarrow> ('w, 's) session \<Rightarrow> ((string + unit) \<times> ('w, 's) session) option" where
  "resume_pending E fuel s =
     (let goal = resumed_goal (st_entries E (s_store s));
          s1 = ensure_started E s
      in case goal of
           None \<Rightarrow> drain_follow_ups E fuel fuel s1
         | Some (i, t) \<Rightarrow>
             (case enqueue_local (FollowUp (user_text (resume_text i t))) s1 of
                (Inl e, s2) \<Rightarrow> Some (Inl e, s2)
              | (Inr _, s2) \<Rightarrow> drain_follow_ups E fuel fuel s2))"

definition close_session ::
  "('w, 's) env \<Rightarrow> ('w, 's) session \<Rightarrow> (string + unit) \<times> ('w, 's) session" where
  "close_session E s =
     (if s_shutdown_emitted s then (Inr (), s)
      else
        let s1 = ensure_started E s
        in case st_save E (s_store s1) of
             Inl e \<Rightarrow> (Inl e, s1)
           | Inr _ \<Rightarrow>
               (case call_async E (ex_drop_session E) s1 of
                  (Inl e, s2) \<Rightarrow> (Inl (''drop session state failed: '' @ e), s2)
                | (Inr _, s2) \<Rightarrow>
                    (let s3 = publish SessionShutdown
                                (s2\<lparr>s_status := Closed, s_queue := close_queue (s_queue s2)\<rparr>)
                     in (Inr (), s3\<lparr>s_shutdown_emitted := True\<rparr>))))"

section \<open>The actor\<close>

text \<open>One command of the channel; \<open>True\<close> when the actor stops.\<close>

definition actor_step ::
  "('w, 's) env \<Rightarrow> nat \<Rightarrow> session_command \<Rightarrow> ('w, 's) session \<Rightarrow>
   ((string + unit) \<times> bool \<times> ('w, 's) session) option" where
  "actor_step E fuel cmd s =
     (case cmd of
        CmdPrompt m \<Rightarrow> map_option (\<lambda>(r, s'). (r, False, s')) (run_one_trun E fuel m s)
      | CmdWake \<Rightarrow> map_option (\<lambda>(r, s'). (r, False, s')) (run_queued E fuel fuel s)
      | CmdClose \<Rightarrow> (let (r, s') = close_session E s in Some (r, True, s')))"

text \<open>The actor's loop, until it stops or its channel is empty, with the replies in order.\<close>

fun actor_run ::
  "('w, 's) env \<Rightarrow> nat \<Rightarrow> nat \<Rightarrow> ('w, 's) session \<Rightarrow>
   ((string + unit) list \<times> bool \<times> ('w, 's) session) option" where
  "actor_run E fuel 0 s = None"
| "actor_run E fuel (Suc n) s =
     (case s_inbox s of
        [] \<Rightarrow> Some ([], False, s)
      | cmd # rest \<Rightarrow>
          (case actor_step E fuel cmd (s\<lparr>s_inbox := rest\<rparr>) of
             None \<Rightarrow> None
           | Some (r, True, s1) \<Rightarrow> Some ([r], True, s1)
           | Some (r, False, s1) \<Rightarrow>
               map_option (\<lambda>(rs, b, s2). (r # rs, b, s2)) (actor_run E fuel n s1)))"

section \<open>The session over the JSONL store\<close>

definition jsonl_env :: "(session_entry \<Rightarrow> string) \<Rightarrow> 'w host \<Rightarrow> ('w, jsonl_store) env" where
  "jsonl_env enc H = host.extend H
     (env.fields (append_message enc) (append_custom enc) js_messages js_entries
        (\<lambda>st. show_nat (unat (js_id st))) (\<lambda>_. Inr ()))"

lemma jsonl_env_simps [simp]:
  "st_append_message (jsonl_env enc H) = append_message enc"
  "st_append_custom (jsonl_env enc H) = append_custom enc"
  "st_messages (jsonl_env enc H) = js_messages"
  "st_entries (jsonl_env enc H) = js_entries"
  by (simp_all add: jsonl_env_def host.defs env.defs)

end
