(* ===== verification/Session_Props.thy ===== *)
theory Session_Props
  imports Session
begin

text \<open>
  Theorems about the session: what its event bus shows of a run, and how the events relate to the
  store. The lemmas are proved once for every environment whose store keeps the contract
  \<open>session_store\<close>, and interpreted on the JSONL store.
\<close>

section \<open>The visible trace\<close>

text \<open>
  Hook errors and queue updates may appear anywhere, from any task. The other events are the
  session's own protocol.
\<close>

fun quiet :: "agent_event \<Rightarrow> bool" where
  "quiet (HookError _ _) = True"
| "quiet (QueueUpdate _) = True"
| "quiet _ = False"

definition visible :: "('w, 's) session \<Rightarrow> agent_event list" where
  "visible s = filter (\<lambda>ev. \<not> quiet ev) (s_events s)"

definition ends :: "agent_event list \<Rightarrow> message list" where
  "ends es = List.map_filter (\<lambda>ev. case ev of MessageEnd _ m \<Rightarrow> Some m | _ \<Rightarrow> None) es"

lemma ends_simps [simp]:
  "ends [] = []" "ends (es @ fs) = ends es @ ends fs"
  "ends (MessageEnd i m # es) = m # ends es"
  "(\<And>i m. ev \<noteq> MessageEnd i m) \<Longrightarrow> ends (ev # es) = ends es"
  by (cases ev; simp add: ends_def List.map_filter_def)+

definition failure_marks :: "string \<Rightarrow> agent_event list" where
  "failure_marks e = [PersistenceError e, SessionFatal e, SessionShutdown]"

lemma ends_failure_marks [simp]: "ends (failure_marks e) = []"
  by (simp add: failure_marks_def)

lemma visible_publish [simp]:
  "visible (publish ev s) = (if quiet ev then visible s else visible s @ [ev])"
  by (simp add: visible_def publish_def)

lemma publish_frame [simp]:
  "s_store (publish ev s) = s_store s" "s_status (publish ev s) = s_status s"
  "s_shutdown_emitted (publish ev s) = s_shutdown_emitted s" "s_run (publish ev s) = s_run s"
  "s_started (publish ev s) = s_started s" "s_queue (publish ev s) = s_queue s"
  "s_world (publish ev s) = s_world s" "s_token (publish ev s) = s_token s"
  by (simp_all add: publish_def)

lemma visible_update [simp]:
  "visible (s\<lparr>s_queue := q\<rparr>) = visible s" "visible (s\<lparr>s_store := st\<rparr>) = visible s"
  "visible (s\<lparr>s_world := w\<rparr>) = visible s" "visible (s\<lparr>s_inbox := ib\<rparr>) = visible s"
  "visible (s\<lparr>s_status := x\<rparr>) = visible s" "visible (s\<lparr>s_run := n\<rparr>) = visible s"
  "visible (s\<lparr>s_token := k\<rparr>) = visible s" "visible (s\<lparr>s_started := b\<rparr>) = visible s"
  "visible (s\<lparr>s_shutdown_emitted := b\<rparr>) = visible s"
  by (simp_all add: visible_def)

text \<open>What a step leaves alone.\<close>

definition same_phase :: "('w, 's) session \<Rightarrow> ('w, 's) session \<Rightarrow> bool" where
  "same_phase s s' \<longleftrightarrow>
     s_status s' = s_status s \<and> s_run s' = s_run s \<and> s_started s' = s_started s \<and>
     s_shutdown_emitted s' = s_shutdown_emitted s \<and> s_token s' = s_token s \<and>
     q_closed (s_queue s') = q_closed (s_queue s) \<and> q_idle (s_queue s') = q_idle (s_queue s)"

text \<open>A step that published the trace \<open>tr\<close> and stored the messages it says are complete.\<close>

definition ran ::
  "('w, 's) env \<Rightarrow> ('w, 's) session \<Rightarrow> agent_event list \<Rightarrow> ('w, 's) session \<Rightarrow> bool" where
  "ran E s tr s' \<longleftrightarrow>
     visible s' = visible s @ tr \<and>
     st_messages E (s_store s') = st_messages E (s_store s) @ ends tr \<and> same_phase s s'"

text \<open>A step that ended in a persistence failure.\<close>

definition died ::
  "('w, 's) env \<Rightarrow> ('w, 's) session \<Rightarrow> agent_event list \<Rightarrow> string \<Rightarrow> ('w, 's) session \<Rightarrow> bool" where
  "died E s tr e s' \<longleftrightarrow>
     visible s' = visible s @ tr @ failure_marks e \<and>
     st_messages E (s_store s') = st_messages E (s_store s) @ ends tr \<and>
     s_status s' = Fatal \<and> s_shutdown_emitted s' \<and> q_closed (s_queue s')"

lemma ran_refl [intro]: "ran E s [] s"
  by (simp add: ran_def same_phase_def)

lemma ran_trans: "ran E s a t \<Longrightarrow> ran E t b u \<Longrightarrow> ran E s (a @ b) u"
  by (simp add: ran_def same_phase_def)

lemma ran_died: "ran E s a t \<Longrightarrow> died E t b e u \<Longrightarrow> died E s (a @ b) e u"
  by (simp add: ran_def died_def)

lemma ran_silent: "ran E s a t \<Longrightarrow> ran E t [] u \<Longrightarrow> ran E s a u"
  using ran_trans [of E s a t "[]" u] by simp

lemma ran_alive: "ran E s a t \<Longrightarrow> s_shutdown_emitted t = s_shutdown_emitted s"
  by (simp add: ran_def same_phase_def)

lemma ran_status: "ran E s a t \<Longrightarrow> s_status t = s_status s"
  by (simp add: ran_def same_phase_def)

lemmas ran_frame = ran_alive ran_status

text \<open>Either outcome; \<open>P\<close> relates the result and the trace of a step that succeeded.\<close>

definition ends_in ::
  "('w, 's) env \<Rightarrow> ('w, 's) session \<Rightarrow> ('a \<Rightarrow> agent_event list \<Rightarrow> bool) \<Rightarrow>
   string + 'a \<Rightarrow> ('w, 's) session \<Rightarrow> bool" where
  "ends_in E s P r s' \<longleftrightarrow>
     (case r of Inl e \<Rightarrow> \<exists>tr. died E s tr e s' | Inr x \<Rightarrow> \<exists>tr. ran E s tr s' \<and> P x tr)"

lemma ends_in_simps:
  "ends_in E s P (Inl e) s' \<longleftrightarrow> (\<exists>tr. died E s tr e s')"
  "ends_in E s P (Inr x) s' \<longleftrightarrow> (\<exists>tr. ran E s tr s' \<and> P x tr)"
  by (simp_all add: ends_in_def)

lemma ends_in_after:
  assumes "ran E s a t" and "ends_in E t P r u" and "\<And>x b. P x b \<Longrightarrow> Q x (a @ b)"
  shows "ends_in E s Q r u"
proof (cases r)
  case (Inl e)
  then show ?thesis using assms by (auto simp: ends_in_simps dest: ran_died)
next
  case (Inr x)
  then obtain b where "ran E t b u" "P x b" using assms(2) by (auto simp: ends_in_simps)
  then show ?thesis using assms(1,3) Inr ran_trans by (fastforce simp: ends_in_simps)
qed

lemma ends_in_died: "died E s tr e s' \<Longrightarrow> ends_in E s P (Inl e) s'"
  by (auto simp: ends_in_simps)

lemma ends_in_ran: "ran E s tr s' \<Longrightarrow> P x tr \<Longrightarrow> ends_in E s P (Inr x) s'"
  by (auto simp: ends_in_simps)

section \<open>Steps that publish nothing of their own\<close>

lemma client_act_quiet: "ran E s [] (client_act a s)"
  by (cases a) (auto simp: ran_def same_phase_def visible_def push_def publish_def Let_def
      split: sum.splits if_splits)

lemma fold_client_act_quiet: "ran E s [] (fold client_act as s)"
proof (induction as arbitrary: s)
  case (Cons a as)
  have "ran E s ([] @ []) (fold client_act as (client_act a s))"
    by (rule ran_trans [OF client_act_quiet Cons.IH])
  then show ?case by simp
qed (simp add: ran_refl)

lemma ran_world: "ran E (s\<lparr>s_world := w\<rparr>) tr s' = ran E s tr s'"
  by (simp add: ran_def same_phase_def)

lemma call_async_quiet: "call_async E op s = (r, s') \<Longrightarrow> ran E s [] s'"
  using fold_client_act_quiet [of E "s\<lparr>s_world := w\<rparr>" for w]
  by (auto simp: call_async_def Let_def ran_world split: prod.splits)

lemma enqueue_local_quiet: "enqueue_local m s = (r, s') \<Longrightarrow> ran E s [] s'"
  by (auto simp: enqueue_local_def push_def ran_def same_phase_def split: sum.splits if_splits)

lemma pop_steer_quiet: "pop_steer (s_queue s) = Some (m, q) \<Longrightarrow> ran E s [] (s\<lparr>s_queue := q\<rparr>)"
  by (auto simp: ran_def same_phase_def dest: pop_steer_frame)

lemma hook_error_quiet: "ran E s [] (hook_error hook r s)"
  by (cases r) (auto simp: hook_error_def ran_def same_phase_def)

text \<open>What a finalizing hook may turn a message into.\<close>

definition finalized :: "message \<Rightarrow> message \<Rightarrow> bool" where
  "finalized m m' \<longleftrightarrow> m' = m \<or> validate_final_message m m' = None"

section \<open>The session over a store that keeps its contract\<close>

locale session_env =
  session_store "st_append_message E" "st_append_custom E" "st_messages E" "st_entries E"
  for E :: "('w, 's) env"
begin

lemma store_custom_quiet: "store_custom E k d s = (r, s') \<Longrightarrow> ran E s [] s'"
  by (auto simp: store_custom_def ran_def same_phase_def split: prod.splits
      dest: append_custom_messages)

lemma apply_action_quiet: "apply_action E a s = (r, s') \<Longrightarrow> ran E s [] s'"
proof (cases a)
  case (SendMessage msg d trigger)
  assume run: "apply_action E a s = (r, s')"
  let ?kind = "case json_as_str (json_index msg ''customType'') of
                 Some k \<Rightarrow> k | None \<Rightarrow> ''extension-message''"
  obtain r1 s1 where stored: "store_custom E ?kind msg s = (r1, s1)"
    by (cases "store_custom E ?kind msg s")
  from store_custom_quiet [OF this] have a: "ran E s [] s1" .
  have "s' = s1 \<or> (\<exists>m r2. enqueue_local m s1 = (r2, s'))"
    using run stored SendMessage by (auto simp: Let_def split: sum.splits if_splits)
  then have "ran E s1 [] s'"
    using enqueue_local_quiet by auto
  with a show ?thesis
    using ran_trans by fastforce
qed (auto intro: store_custom_quiet enqueue_local_quiet)

lemma apply_action_list_quiet: "apply_action_list E as s = (r, s') \<Longrightarrow> ran E s [] s'"
proof (induction as arbitrary: s)
  case (Cons a as)
  obtain r1 s1 where step: "apply_action E a s = (r1, s1)"
    by (cases "apply_action E a s")
  from apply_action_quiet [OF this] have a: "ran E s [] s1" .
  show ?case
  proof (cases r1)
    case (Inl e)
    then show ?thesis using Cons.prems step a by simp
  next
    case (Inr u)
    then have "ran E s1 [] s'" using Cons step by simp
    with a show ?thesis using ran_trans by fastforce
  qed
qed (simp add: ran_refl)

lemma apply_actions_quiet: "apply_actions E s = (r, s') \<Longrightarrow> ran E s [] s'"
  by (auto simp: apply_actions_def ran_world split: prod.splits dest: apply_action_list_quiet)

text \<open>An event is published once, with nothing visible after it but what follows.\<close>

lemma emit_after_publish:
  assumes "\<not> s_shutdown_emitted s"
  shows "ran E (publish ev s) [] (emit E ev s)"
proof -
  let ?s1 = "publish ev s"
  obtain r s2 where 2: "call_async E (ex_observe E ev (context_of E ?s1)) ?s1 = (r, s2)"
    by (cases "call_async E (ex_observe E ev (context_of E ?s1)) ?s1")
  let ?s3 = "hook_error ''observer'' r s2"
  obtain r' s4 where 4: "apply_actions E ?s3 = (r', s4)"
    by (cases "apply_actions E ?s3")
  have "emit E ev s = hook_error ''host_action'' r' s4"
    using assms 2 4 by (simp add: emit_def Let_def)
  then show ?thesis
    using call_async_quiet [OF 2] hook_error_quiet apply_actions_quiet [OF 4]
    by (metis ran_silent)
qed

lemma ran_emit:
  assumes "\<not> s_shutdown_emitted s" and "\<And>i m. ev \<noteq> MessageEnd i m"
  shows "ran E s (if quiet ev then [] else [ev]) (emit E ev s)"
proof -
  have "ran E s (if quiet ev then [] else [ev]) (publish ev s)"
    using assms(2) by (simp add: ran_def same_phase_def)
  then show ?thesis
    using emit_after_publish [OF assms(1)] by (rule ran_silent)
qed

lemma ran_emit_error: "\<not> s_shutdown_emitted s \<Longrightarrow> ran E s [] (emit_error E hook e s)"
  using ran_emit [of s "HookError hook e"] by (simp add: emit_error_def)

section \<open>Persisting a message\<close>

lemma persist_appends:
  assumes alive: "\<not> s_shutdown_emitted s" and run: "persist E i m s = (r, s')"
  obtains m' s2 st appended where "finalized m m'" "ran E s [] s2"
    "st_append_message E m' (s_store s2) = (appended, st)"
    "(r, s') = (case appended of
       Inl e \<Rightarrow> (Inl e, fatal E e (s2\<lparr>s_store := st\<rparr>))
     | Inr _ \<Rightarrow> (Inr m', emit E (MessageEnd i m') (s2\<lparr>s_store := st\<rparr>)))"
proof -
  obtain r1 s1 where 1: "call_async E (hk_message_finalizing E m (context_of E s)) s = (r1, s1)"
    by (cases "call_async E (hk_message_finalizing E m (context_of E s)) s")
  have q1: "ran E s [] s1" by (rule call_async_quiet [OF 1])
  have q2: "ran E s [] (emit_error E h e s1)" for h e
    using ran_silent [OF q1 ran_emit_error] alive ran_alive [OF q1] by simp
  define p where "p = (case r1 of
      Inr working \<Rightarrow>
        (case validate_final_message m working of
           None \<Rightarrow> (working, s1)
         | Some e \<Rightarrow> (m, emit_error E ''message_finalizing'' e s1))
    | Inl e \<Rightarrow> (m, emit_error E ''message_finalizing'' e s1))"
  obtain m' s2 where p: "p = (m', s2)" by (cases p)
  have fin: "finalized m m' \<and> ran E s [] s2"
    using p q1 q2 by (auto simp: p_def finalized_def split: sum.splits option.splits)
  obtain appended st where st: "st_append_message E m' (s_store s2) = (appended, st)"
    by (cases "st_append_message E m' (s_store s2)")
  show thesis
    using that [of m' s2 appended st] fin st run 1 p
    by (auto simp: persist_def p_def [symmetric] Let_def)
qed

lemma fatal_died:
  assumes "ran E s tr t"
  shows "died E s tr e (fatal E e t)"
proof -
  let ?t2 = "publish (SessionFatal e) (publish (PersistenceError e)
               (t\<lparr>s_status := Fatal, s_queue := close_queue (s_queue t)\<rparr>))"
  obtain r t3 where "call_async E (ex_drop_session E) ?t2 = (r, t3)"
    by (cases "call_async E (ex_drop_session E) ?t2")
  with call_async_quiet [OF this] assms show ?thesis
    by (simp add: fatal_def Let_def died_def ran_def same_phase_def failure_marks_def
        close_queue_def)
qed

lemma persist_ok:
  assumes alive: "\<not> s_shutdown_emitted s" and run: "persist E i m s = (Inr m', s')"
  shows "finalized m m'" and "ran E s [MessageEnd i m'] s'"
proof -
  obtain s2 st u where *: "finalized m m'" "ran E s [] s2"
    "st_append_message E m' (s_store s2) = (Inr u, st)"
    "s' = emit E (MessageEnd i m') (s2\<lparr>s_store := st\<rparr>)"
    by (rule persist_appends [OF alive run]) (auto split: sum.splits)
  then show "finalized m m'" by simp
  have "ran E s [MessageEnd i m'] (publish (MessageEnd i m') (s2\<lparr>s_store := st\<rparr>))"
    using * append_message_ok [OF *(3)] by (simp add: ran_def same_phase_def)
  moreover have "\<not> s_shutdown_emitted (s2\<lparr>s_store := st\<rparr>)"
    using alive ran_alive [OF *(2)] by simp
  ultimately show "ran E s [MessageEnd i m'] s'"
    unfolding *(4) by (metis ran_silent emit_after_publish)
qed

lemma persist_err:
  assumes alive: "\<not> s_shutdown_emitted s" and run: "persist E i m s = (Inl e, s')"
  shows "died E s [] e s'"
proof -
  obtain m' s2 st where *: "ran E s [] s2" "st_append_message E m' (s_store s2) = (Inl e, st)"
    "s' = fatal E e (s2\<lparr>s_store := st\<rparr>)"
    by (rule persist_appends [OF alive run]) (auto split: sum.splits)
  have "ran E s [] (s2\<lparr>s_store := st\<rparr>)"
    using * append_message_err [OF *(2)] by (simp add: ran_def same_phase_def)
  then show ?thesis
    unfolding *(3) by (rule fatal_died)
qed

text \<open>The same facts as steps that extend a trace.\<close>

lemma then_async: "ran E s tr t \<Longrightarrow> call_async E op t = (r, t') \<Longrightarrow> ran E s tr t'"
  by (rule ran_silent [OF _ call_async_quiet])

lemma then_emit:
  assumes "ran E s tr t" and "\<not> s_shutdown_emitted s" and "\<not> quiet ev"
    and "\<And>i m. ev \<noteq> MessageEnd i m"
  shows "ran E s (tr @ [ev]) (emit E ev t)"
  using ran_trans [OF assms(1) ran_emit [of t ev]] assms ran_alive [OF assms(1)] by simp

lemma then_error:
  assumes "ran E s tr t" and "\<not> s_shutdown_emitted s"
  shows "ran E s tr (emit_error E h e t)"
  using ran_silent [OF assms(1) ran_emit_error] assms ran_alive [OF assms(1)] by simp

lemma then_persist:
  assumes "ran E s tr t" and "\<not> s_shutdown_emitted s" and "persist E i m t = (Inr m', t')"
  shows "ran E s (tr @ [MessageEnd i m']) t'" and "finalized m m'"
  using ran_trans [OF assms(1) persist_ok(2) [OF _ assms(3)]] persist_ok(1) [OF _ assms(3)]
    assms(2) ran_alive [OF assms(1)] by simp_all

lemma then_persist_err:
  assumes "ran E s tr t" and "\<not> s_shutdown_emitted s" and "persist E i m t = (Inl e, t')"
  shows "died E s tr e t'"
  using ran_died [OF assms(1) persist_err [OF _ assms(3)]] assms(2) ran_alive [OF assms(1)] by simp

section \<open>Tools\<close>

lemma call_tool_quiet:
  assumes alive: "\<not> s_shutdown_emitted s"
    and run: "call_tool E tok tools i name input s = (out, call, s')"
  shows "ran E s [] s'"
proof -
  obtain r c s1 where 1: "call_async E (hk_tool_call E \<lparr>tc_id = i, tc_name = name, tc_input = input\<rparr>
      (context_of E s)) s = ((r, c), s1)"
    by (metis surj_pair)
  define p where "p = (case r of Inr o' \<Rightarrow> (o', s1)
      | Inl e \<Rightarrow> (CallBlock (''tool hook failed: '' @ e),
                 emit_error E ''tool_call'' (''tool hook failed: '' @ e) s1))"
  obtain o' s2 where p: "p = (o', s2)" by (cases p)
  define inv where "inv = validate_tool_call (schema_check E) c tools"
  define s3 where "s3 = (case inv of Some e \<Rightarrow> emit E (HookError ''tool_call'' e) s2 | None \<Rightarrow> s2)"
  obtain out' s4 where 4: "call_async E (ex_call E tok (tc_name c) (tc_input c)) s3 = (out', s4)"
    by (metis surj_pair)
  have "ran E s [] s1" by (rule call_async_quiet [OF 1])
  then have "ran E s [] s2"
    using p then_error [OF _ alive] by (auto simp: p_def split: sum.splits)
  then have q3: "ran E s [] s3"
    using then_error [OF _ alive] by (auto simp: s3_def emit_error_def split: option.splits)
  have "s' = s3 \<or> s' = s4"
    using run 1 p 4
    by (auto simp: call_tool_def p_def inv_def s3_def emit_error_def Let_def
        split: sum.splits option.splits tool_call_outcome.splits)
  then show ?thesis using q3 then_async [OF q3 4] by auto
qed

end

text \<open>The trace of one steering message, or none.\<close>

definition steer_trace :: "nat \<Rightarrow> nat \<Rightarrow> agent_event list \<Rightarrow> bool" where
  "steer_trace run turn tr \<longleftrightarrow> tr = [] \<or>
     (\<exists>u m. tr = [MessageStart (msg_id run turn ''steer'') (User u),
                  MessageEnd (msg_id run turn ''steer'') m] \<and> role m = ''user'')"

text \<open>
  The trace of the tool calls of an answer: each \<open>ToolUseC\<close> in order is started and ended once,
  under its own identifier, and its result is published as a message; other parts leave no trace.
\<close>

inductive tools_trace ::
  "nat \<Rightarrow> nat \<Rightarrow> message_content list \<Rightarrow> message list \<Rightarrow> agent_event list \<Rightarrow> bool"
  for run turn where
  tools_nil: "tools_trace run turn [] [] []"
| tools_skip: "\<not> is_tool_use c \<Longrightarrow> tools_trace run turn cs rs tr \<Longrightarrow>
     tools_trace run turn (c # cs) rs tr"
| tools_call: "rid = msg_id run turn (''tool:'' @ i) \<Longrightarrow> role m = ''tool_result'' \<Longrightarrow>
     steer_trace run turn st \<Longrightarrow> tools_trace run turn cs rs tr \<Longrightarrow>
     tools_trace run turn (ToolUseC i name input custom item # cs) (m # rs)
       (ToolExecutionStart i name input # ToolExecutionEnd i n d b #
        MessageStart rid (ToolResult t) # MessageEnd rid m # st @ tr)"

inductive_cases tools_trace_nilE: "tools_trace run turn [] rs tr"
inductive_cases tools_trace_singleE: "tools_trace run turn [c] [m] tr"
inductive_cases tools_trace_callE:
  "tools_trace run turn (ToolUseC i name input custom item # cs) rs tr"

lemma tools_trace_results:
  "tools_trace run turn cs rs tr \<Longrightarrow> length rs = length (filter is_tool_use cs)"
  by (induction rule: tools_trace.induct) auto

lemma tools_trace_append:
  assumes "tools_trace run turn [c] [m] a" and "tools_trace run turn cs rs b"
  shows "tools_trace run turn (c # cs) (m # rs) (a @ b)"
  using assms(1)
  by (elim tools_trace_singleE)
    (use assms(2) in \<open>auto elim!: tools_trace_nilE intro: tools_call\<close>)

context session_env begin

lemma take_steer_ran:
  assumes alive: "\<not> s_shutdown_emitted s" and run: "take_steer E run turn s = (r, s')"
  shows "case r of Inl e \<Rightarrow> \<exists>tr. died E s tr e s'
           | Inr _ \<Rightarrow> \<exists>tr. ran E s tr s' \<and> steer_trace run turn tr"
proof (cases "pop_steer (s_queue s)")
  case None
  have "ran E s [] s \<and> steer_trace run turn []" by (simp add: steer_trace_def ran_refl)
  moreover have "r = Inr ()" "s' = s" using run None by (auto simp: take_steer_def)
  ultimately show ?thesis by auto
next
  case (Some p)
  obtain u q where p: "p = (u, q)" by (cases p)
  define i where "i = msg_id run turn ''steer''"
  define t where "t = emit E (MessageStart i (User u)) (s\<lparr>s_queue := q\<rparr>)"
  have t: "ran E s [MessageStart i (User u)] t"
    using then_emit [OF pop_steer_quiet alive] Some p by (fastforce simp: t_def)
  obtain r1 t1 where 1: "persist E i (User u) t = (r1, t1)" by (cases "persist E i (User u) t")
  show ?thesis
  proof (cases r1)
    case (Inl e)
    with 1 then_persist_err [OF t alive] have "died E s [MessageStart i (User u)] e t1" by simp
    then show ?thesis
      using run Some p 1 Inl by (auto simp: take_steer_def i_def t_def Let_def)
  next
    case (Inr m)
    with 1 then_persist [OF t alive] have "ran E s [MessageStart i (User u), MessageEnd i m] t1"
      and "finalized (User u) m" by simp_all
    moreover from this have "steer_trace run turn [MessageStart i (User u), MessageEnd i m]"
      by (auto simp: steer_trace_def i_def finalized_def dest: validate_final_message_role)
    ultimately show ?thesis
      using run Some p 1 Inr by (auto simp: take_steer_def i_def t_def Let_def)
  qed
qed

lemma execute_tool_ran:
  assumes alive: "\<not> s_shutdown_emitted s"
    and run: "execute_tool E run turn tok tools i name input custom s = (r, s')"
  shows "case r of Inl e \<Rightarrow> \<exists>tr. died E s tr e s'
           | Inr m \<Rightarrow> \<exists>tr. ran E s tr s' \<and> tools_trace run turn [ToolUseC i name input custom item] [m] tr"
proof -
  define s1 where "s1 = emit E (ToolExecutionStart i name input) s"
  obtain out call s2 where 2: "call_tool E tok tools i name input s1 = (out, call, s2)"
    by (metis surj_pair)
  define t0 where "t0 = tool_result_of i custom out"
  obtain r3 s3 where 3: "call_async E (hk_tool_result E t0 (context_of E s2)) s2 = (r3, s3)"
    by (metis surj_pair)
  define p where "p = (case r3 of
      Inr working \<Rightarrow> (working, s3) | Inl e \<Rightarrow> (t0, emit_error E ''tool_result'' e s3))"
  obtain t s4 where p: "p = (t, s4)" by (cases p)
  define ev where "ev = ToolExecutionEnd i (tc_name call)
      (case tr_details t of Some d \<Rightarrow> d | None \<Rightarrow> JNull) (tr_is_error t)"
  define rid where "rid = msg_id run turn (''tool:'' @ i)"
  define s6 where "s6 = emit E (MessageStart rid (ToolResult t)) (emit E ev s4)"
  obtain r7 s7 where 7: "persist E rid (ToolResult t) s6 = (r7, s7)" by (metis surj_pair)
  obtain r8 s8 where 8: "take_steer E run turn s7 = (r8, s8)" by (metis surj_pair)
  let ?tr = "[ToolExecutionStart i name input, ev, MessageStart rid (ToolResult t)]"
  have a1: "ran E s [ToolExecutionStart i name input] s1"
    using then_emit [OF ran_refl alive] by (simp add: s1_def)
  have a2: "ran E s [ToolExecutionStart i name input] s2"
    using ran_silent [OF a1 call_tool_quiet [OF _ 2]] alive ran_alive [OF a1] by simp
  have a4: "ran E s [ToolExecutionStart i name input] s4"
    using then_async [OF a2 3] then_error [OF _ alive] p by (auto simp: p_def split: sum.splits)
  have "ran E s [ToolExecutionStart i name input, ev] (emit E ev s4)"
    using then_emit [OF a4 alive, of ev] by (simp add: ev_def)
  from then_emit [OF this alive, of "MessageStart rid (ToolResult t)"]
  have a6: "ran E s ?tr s6" by (simp add: s6_def)
  have rs': "(r, s') = (case r7 of Inl e \<Rightarrow> (Inl e, s7)
      | Inr m \<Rightarrow> (case r8 of Inl e \<Rightarrow> (Inl e, s8) | Inr _ \<Rightarrow> (Inr m, s8)))"
    using run 2 3 p 7 8
    by (auto simp: execute_tool_def Let_def s1_def t0_def p_def s6_def ev_def rid_def
        split: sum.splits)
  show ?thesis
  proof (cases r7)
    case (Inl e)
    then have "died E s ?tr e s'" using rs' then_persist_err [OF a6 alive] 7 by simp
    then show ?thesis using rs' Inl by auto
  next
    case (Inr m)
    then have a7: "ran E s (?tr @ [MessageEnd rid m]) s7" and fin: "finalized (ToolResult t) m"
      using then_persist [OF a6 alive] 7 by simp_all
    have st: "case r8 of Inl e \<Rightarrow> \<exists>tr. died E s7 tr e s8
        | Inr _ \<Rightarrow> \<exists>tr. ran E s7 tr s8 \<and> steer_trace run turn tr"
      using take_steer_ran [OF _ 8] alive ran_alive [OF a7] by simp
    show ?thesis
    proof (cases r8)
      case (Inl e)
      then show ?thesis using rs' \<open>r7 = Inr m\<close> st ran_died [OF a7] by auto
    next
      case (Inr u)
      then obtain tr where tr: "ran E s7 tr s8" "steer_trace run turn tr" using st by auto
      have "role m = ''tool_result''"
        using fin by (auto simp: finalized_def dest: validate_final_message_role)
      then have "tools_trace run turn [ToolUseC i name input custom item] [m]
          (?tr @ [MessageEnd rid m] @ tr)"
        using tools_call [OF rid_def _ tr(2) tools_nil] by (simp add: ev_def)
      then show ?thesis
        using ran_trans [OF a7 tr(1)] rs' \<open>r7 = Inr m\<close> Inr by auto
    qed
  qed
qed

lemma persist_ran:
  assumes "ran E s tr t" and "\<not> s_shutdown_emitted s" and "persist E i m t = (r, t')"
  shows "ends_in E s (\<lambda>m' tr'. tr' = tr @ [MessageEnd i m'] \<and> finalized m m') r t'"
proof (cases r)
  case (Inl e)
  with assms show ?thesis by (auto intro: ends_in_died then_persist_err)
next
  case (Inr m')
  with assms show ?thesis by (auto intro!: ends_in_ran then_persist)
qed

lemma tool_loop_ran:
  "\<not> s_shutdown_emitted s \<Longrightarrow> tool_loop E run turn tok tools cs s = (r, s') \<Longrightarrow>
     ends_in E s (\<lambda>rs tr. tools_trace run turn cs rs tr) r s'"
proof (induction cs arbitrary: s r s')
  case Nil
  then show ?case by (auto intro!: ends_in_ran ran_refl tools_nil)
next
  case (Cons c cs)
  show ?case
  proof (cases "is_tool_use c")
    case False
    with Cons.prems have "tool_loop E run turn tok tools cs s = (r, s')"
      by (cases c) auto
    from Cons.IH [OF Cons.prems(1) this] False show ?thesis
      by (cases r) (auto simp: ends_in_simps intro: tools_skip)
  next
    case True
    then obtain i name input custom item where c: "c = ToolUseC i name input custom item"
      by (cases c) auto
    obtain r1 s1 where 1: "execute_tool E run turn tok tools i name input custom s = (r1, s1)"
      by (metis surj_pair)
    show ?thesis
    proof (cases r1)
      case (Inl e)
      then show ?thesis
        using Cons.prems execute_tool_ran [OF Cons.prems(1) 1] 1 c by (auto simp: ends_in_simps)
    next
      case (Inr m)
      then obtain a where a: "ran E s a s1" "tools_trace run turn [c] [m] a"
        using execute_tool_ran [OF Cons.prems(1) 1] c by auto
      obtain r2 s2 where 2: "tool_loop E run turn tok tools cs s1 = (r2, s2)" by (metis surj_pair)
      have "ends_in E s1 (\<lambda>rs tr. tools_trace run turn cs rs tr) r2 s2"
        using Cons.IH [OF _ 2] Cons.prems(1) ran_alive [OF a(1)] by simp
      then have rest: "ends_in E s1 (\<lambda>rs tr. \<exists>ms. rs = m # ms \<and> tools_trace run turn cs ms tr)
          (map_sum id ((#) m) r2) s2"
        by (cases r2) (auto simp: ends_in_simps)
      have "r = map_sum id ((#) m) r2" "s' = s2"
        using Cons.prems(2) 1 2 Inr c by (cases r2; auto)+
      then show ?thesis
        using ends_in_after [OF a(1) rest] tools_trace_append [OF a(2)] by auto
    qed
  qed
qed

end

section \<open>Turns and runs\<close>

text \<open>Messages published and stored one after the other, each with the role it started with.\<close>

inductive pairs_trace :: "message list \<Rightarrow> agent_event list \<Rightarrow> bool" where
  pairs_nil: "pairs_trace [] []"
| pairs_cons: "role m' = role m \<Longrightarrow> pairs_trace ms tr \<Longrightarrow>
     pairs_trace (m # ms) (MessageStart i m # MessageEnd i m' # tr)"

fun is_update :: "string \<Rightarrow> agent_event \<Rightarrow> bool" where
  "is_update aid (MessageUpdate i _ _ _) = (i = aid)"
| "is_update aid _ = False"

definition blank_answer :: message where
  "blank_answer = Assistant
     \<lparr>am_content = [], am_stop_reason = Stop, am_usage = None, am_error_message = None\<rparr>"

text \<open>The answer: opened blank, updated, and published complete under one identifier.\<close>

definition answer_trace :: "string \<Rightarrow> message \<Rightarrow> agent_event list \<Rightarrow> bool" where
  "answer_trace aid m tr \<longleftrightarrow> role m = ''assistant'' \<and>
     (\<exists>ups. list_all (is_update aid) ups \<and>
        tr = MessageStart aid blank_answer # ups @ [MessageEnd aid m])"

inductive turn_trace :: "nat \<Rightarrow> nat \<Rightarrow> message list \<Rightarrow> message list \<Rightarrow> agent_event list \<Rightarrow> bool" where
  turn: "pairs_trace ins itr \<Longrightarrow> answer_trace (msg_id run turn ''assistant'') m atr \<Longrightarrow>
     tools_trace run turn (content m) rs ttr \<Longrightarrow>
     turn_trace run turn ins rs (TurnStart run turn # itr @ atr @ ttr @ [TurnEnd run turn])"

text \<open>The turns of a run: the last one called no tool, the ones before it did.\<close>

inductive loop_trace :: "nat \<Rightarrow> nat \<Rightarrow> message list \<Rightarrow> agent_event list \<Rightarrow> bool" where
  loop_last: "turn_trace run turn ins [] tr \<Longrightarrow> loop_trace run turn ins tr"
| loop_more: "turn_trace run turn ins rs tr \<Longrightarrow> rs \<noteq> [] \<Longrightarrow> loop_trace run (Suc turn) [] tr' \<Longrightarrow>
     loop_trace run turn ins (tr @ tr')"

text \<open>The messages a turn stores before it asks the provider.\<close>

definition turn_inputs :: "nat \<Rightarrow> user_message \<Rightarrow> message list \<Rightarrow> message list" where
  "turn_inputs turn input injected = (if turn = 0 then User input # injected else [])"

lemma finalized_role: "finalized m m' \<Longrightarrow> role m' = role m"
  by (auto simp: finalized_def dest: validate_final_message_role)

lemma pairs_trace_append:
  "pairs_trace ms tr \<Longrightarrow> pairs_trace ns tr' \<Longrightarrow> pairs_trace (ms @ ns) (tr @ tr')"
  by (induction rule: pairs_trace.induct) (auto intro: pairs_trace.intros)

context session_env begin

lemma publish_message_ran:
  assumes alive: "\<not> s_shutdown_emitted s"
    and run: "persist E i m (emit E (MessageStart i m) s) = (r, s')"
  shows "ends_in E s (\<lambda>m' tr. pairs_trace [m] tr) r s'"
proof -
  have "ran E s [MessageStart i m] (emit E (MessageStart i m) s)"
    using then_emit [OF ran_refl alive, of "MessageStart i m"] by simp
  note p = persist_ran [OF this alive run]
  show ?thesis
  proof (cases r)
    case (Inl e)
    then show ?thesis using p by (simp add: ends_in_simps)
  next
    case (Inr m')
    with p have "ran E s [MessageStart i m, MessageEnd i m'] s'" "role m' = role m"
      by (auto simp: ends_in_simps finalized_role)
    then show ?thesis
      unfolding Inr by (auto intro!: ends_in_ran pairs_trace.intros)
  qed
qed

lemma persist_injected_ran:
  "\<not> s_shutdown_emitted s \<Longrightarrow> persist_injected E run turn ms s = (r, s') \<Longrightarrow>
     ends_in E s (\<lambda>_ tr. pairs_trace ms tr) r s'"
proof (induction ms arbitrary: s)
  case Nil
  then show ?case by (auto intro!: ends_in_ran ran_refl pairs_nil)
next
  case (Cons m ms)
  define i where "i = msg_id run turn
    (''injected:'' @ show_nat (length (st_messages E (s_store s))))"
  obtain r1 s1 where 1: "persist E i m (emit E (MessageStart i m) s) = (r1, s1)"
    by (metis surj_pair)
  note p = publish_message_ran [OF Cons.prems(1) 1]
  show ?case
  proof (cases r1)
    case (Inl e)
    then show ?thesis using Cons.prems 1 p by (auto simp: i_def Let_def ends_in_simps)
  next
    case (Inr m')
    then obtain a where a: "ran E s a s1" "pairs_trace [m] a" using p by (auto simp: ends_in_simps)
    have "ends_in E s1 (\<lambda>_ tr. pairs_trace ms tr) r s'"
      using Cons.IH [of s1] Cons.prems 1 Inr ran_alive [OF a(1)] by (simp add: i_def Let_def)
    then show ?thesis
      by (rule ends_in_after [OF a(1)]) (use pairs_trace_append [OF a(2)] in auto)
  qed
qed

lemma persist_input_ran:
  assumes alive: "\<not> s_shutdown_emitted s"
    and run: "persist_input E run turn u injected s = (r, s')"
  shows "ends_in E s (\<lambda>_ tr. pairs_trace (User u # injected) tr) r s'"
proof -
  define i where "i = msg_id run turn ''user''"
  obtain r1 s1 where 1: "persist E i (User u) (emit E (MessageStart i (User u)) s) = (r1, s1)"
    by (metis surj_pair)
  note p = publish_message_ran [OF alive 1]
  show ?thesis
  proof (cases r1)
    case (Inl e)
    then show ?thesis using run 1 p by (auto simp: persist_input_def i_def Let_def ends_in_simps)
  next
    case (Inr m')
    then obtain a where a: "ran E s a s1" "pairs_trace [User u] a"
      using p by (auto simp: ends_in_simps)
    have "persist_injected E run turn injected s1 = (r, s')"
      using run 1 Inr by (simp add: persist_input_def i_def Let_def)
    then have "ends_in E s1 (\<lambda>_ tr. pairs_trace injected tr) r s'"
      using persist_injected_ran alive ran_alive [OF a(1)] by blast
    then show ?thesis
      by (rule ends_in_after [OF a(1)]) (use pairs_trace_append [OF a(2)] in auto)
  qed
qed

lemma stream_loop_ran:
  "\<not> s_shutdown_emitted s \<Longrightarrow> stream_loop E tok aid n blocks usage s = Some (sr, s') \<Longrightarrow>
     \<exists>ups. ran E s ups s' \<and> list_all (is_update aid) ups"
proof (induction n arbitrary: blocks usage s)
  case (Suc n)
  obtain item s1 where 1: "call_async E (pr_next E tok) s = (item, s1)" by (metis surj_pair)
  have a: "ran E s [] s1" by (rule call_async_quiet [OF 1])
  have fin: "ran E s [] s' \<Longrightarrow> ?case" by (auto intro: exI [of _ "[]"])
  consider (finish) "s' = s1"
    | (usage) u where "stream_loop E tok aid n blocks (Some u) s1 = Some (sr, s')"
    | (delta) i d where "item = Completed (Some (Inr (ContentDelta i d)))"
        "stream_loop E tok aid n (merge_delta blocks i d) usage
           (emit E (MessageUpdate aid i (delta_of d) usage) s1) = Some (sr, s')"
    using Suc.prems(2) 1
    by (auto simp: Let_def split: selected.splits option.splits sum.splits provider_event.splits)
  then show ?case
  proof cases
    case finish
    then show ?thesis using a fin by simp
  next
    case usage
    then obtain ups where "ran E s1 ups s'" "list_all (is_update aid) ups"
      using Suc.IH Suc.prems(1) ran_alive [OF a] by blast
    then show ?thesis using ran_trans [OF a] by auto
  next
    case delta
    let ?ev = "MessageUpdate aid i (delta_of d) usage"
    have b: "ran E s [?ev] (emit E ?ev s1)"
      using then_emit [OF a Suc.prems(1), of ?ev] by simp
    obtain ups where "ran E (emit E ?ev s1) ups s'" "list_all (is_update aid) ups"
      using Suc.IH delta(2) Suc.prems(1) ran_alive [OF b] by blast
    then show ?thesis using ran_trans [OF b] by (intro exI [of _ "[?ev] @ ups"]) auto
  qed
qed simp

lemma run_stream_ran:
  assumes alive: "\<not> s_shutdown_emitted s"
    and run: "run_stream E fuel tok aid sysp ms tools s = Some (sr, s')"
  shows "\<exists>ups. ran E s ups s' \<and> list_all (is_update aid) ups"
proof -
  obtain opened s1 where 1: "call_async E (pr_stream E tok (s_model s) sysp ms tools) s = (opened, s1)"
    by (metis surj_pair)
  have a: "ran E s [] s1" by (rule call_async_quiet [OF 1])
  from run 1 have "s' = s1 \<or> stream_loop E tok aid fuel [] None s1 = Some (sr, s')"
    by (auto simp: run_stream_def Let_def split: selected.splits sum.splits)
  then show ?thesis
  proof
    assume "s' = s1"
    with a show ?thesis by (auto intro: exI [of _ "[]"])
  next
    assume "stream_loop E tok aid fuel [] None s1 = Some (sr, s')"
    then obtain ups where "ran E s1 ups s'" "list_all (is_update aid) ups"
      using stream_loop_ran alive ran_alive [OF a] by blast
    then show ?thesis using ran_trans [OF a] by auto
  qed
qed

lemma answer_turn_ran:
  assumes alive: "\<not> s_shutdown_emitted s"
    and run: "answer_turn E fuel run turn sysp tok tools s = Some (r, s')"
  shows "ends_in E s (\<lambda>m tr. answer_trace (msg_id run turn ''assistant'') m tr) r s'"
proof -
  define ms where "ms = st_messages E (s_store s)"
  define aid where "aid = msg_id run turn ''assistant''"
  obtain r1 s1 where 1: "call_async E (hk_context E ms (context_of E s)) s = (r1, s1)"
    by (metis surj_pair)
  define p where "p = (case r1 of
      Inr working \<Rightarrow> (working, s1) | Inl e \<Rightarrow> (ms, emit_error E ''context'' e s1))"
  obtain ms' s2 where p: "p = (ms', s2)" by (metis surj_pair)
  define s3 where "s3 = emit E (MessageStart aid blank_answer) s2"
  obtain sr s4 where 4: "run_stream E fuel tok aid sysp ms' tools s3 = Some (sr, s4)"
    and rs: "(r, s') = persist E aid (Assistant (assistant_of sr)) s4"
    using run
    by (auto simp: answer_turn_def Let_def 1 [unfolded ms_def] p [unfolded p_def ms_def]
        s3_def aid_def blank_answer_def split: option.splits)
  have "ran E s [] s2"
    using call_async_quiet [OF 1] then_error [OF _ alive] p by (auto simp: p_def split: sum.splits)
  then have a3: "ran E s [MessageStart aid blank_answer] s3"
    using then_emit [OF _ alive, of "[]" s2 "MessageStart aid blank_answer"] by (simp add: s3_def)
  obtain ups where ups: "ran E s3 ups s4" "list_all (is_update aid) ups"
    using run_stream_ran [OF _ 4] alive ran_alive [OF a3] by auto
  note q = persist_ran [OF ran_trans [OF a3 ups(1)] alive rs [symmetric]]
  show ?thesis
  proof (cases r)
    case (Inl e)
    then show ?thesis using q by (simp add: ends_in_simps)
  next
    case (Inr m)
    with q have "ran E s (MessageStart aid blank_answer # ups @ [MessageEnd aid m]) s'"
      and "role m = ''assistant''"
      by (auto simp: ends_in_simps dest: finalized_role)
    then show ?thesis
      unfolding Inr using ups(2) by (auto intro!: ends_in_ran simp: answer_trace_def aid_def)
  qed
qed

lemma agent_turn_ran:
  assumes alive: "\<not> s_shutdown_emitted s"
    and run: "agent_turn E fuel run turn input sysp injected tok s = Some (r, s')"
  shows "ends_in E s (\<lambda>go_on tr. \<exists>rs. go_on = (rs \<noteq> []) \<and>
           turn_trace run turn (turn_inputs turn input injected) rs tr) r s'"
proof -
  define s1 where "s1 = emit E (TurnStart run turn) s"
  obtain r2 s2 where 2: "(if turn = 0 then persist_input E run turn input injected s1
      else (Inr (), s1)) = (r2, s2)" by (metis surj_pair)
  have a1: "ran E s [TurnStart run turn] s1"
    using then_emit [OF ran_refl alive, of "TurnStart run turn"] by (simp add: s1_def)
  then have alive1: "\<not> s_shutdown_emitted s1" using alive ran_alive by blast
  have p2: "ends_in E s1 (\<lambda>_ tr. pairs_trace (turn_inputs turn input injected) tr) r2 s2"
    using 2 persist_input_ran [OF alive1] 
    by (auto simp: turn_inputs_def split: if_splits intro!: ends_in_ran ran_refl pairs_nil)
  show ?thesis
  proof (cases r2)
    case (Inl e)
    with run have "r = Inl e" "s' = s2" by (auto simp: agent_turn_def Let_def 2 [unfolded s1_def])
    then show ?thesis using p2 Inl a1 by (auto simp: ends_in_simps dest: ran_died)
  next
    case (Inr u)
    then obtain itr where i: "ran E s1 itr s2" "pairs_trace (turn_inputs turn input injected) itr"
      using p2 by (auto simp: ends_in_simps)
    have a2: "ran E s (TurnStart run turn # itr) s2" using ran_trans [OF a1 i(1)] by simp
    then have alive2: "\<not> s_shutdown_emitted s2" using alive ran_alive by blast
    define tools where "tools = ex_tool_defs E (s_world s2)"
    obtain r3 s3 where 3: "answer_turn E fuel run turn sysp tok tools s2 = Some (r3, s3)"
      using run Inr
      by (auto simp: agent_turn_def 2 [unfolded s1_def] tools_def Let_def split: option.splits)
    note p3 = answer_turn_ran [OF alive2 3]
    show ?thesis
    proof (cases r3)
      case (Inl e)
      with run 3 \<open>r2 = Inr u\<close> have "r = Inl e" "s' = s3"
        by (auto simp: agent_turn_def 2 [unfolded s1_def] tools_def Let_def)
      then show ?thesis using p3 Inl a2 by (auto simp: ends_in_simps dest: ran_died)
    next
      case (Inr m)
      then obtain atr where atr: "ran E s2 atr s3"
        "answer_trace (msg_id run turn ''assistant'') m atr"
        using p3 by (auto simp: ends_in_simps)
      have a3: "ran E s ((TurnStart run turn # itr) @ atr) s3" by (rule ran_trans [OF a2 atr(1)])
      then have alive3: "\<not> s_shutdown_emitted s3" using alive ran_alive by blast
      obtain r4 s4 where 4: "tool_loop E run turn tok tools (content m) s3 = (r4, s4)"
        by (metis surj_pair)
      note p4 = tool_loop_ran [OF alive3 4]
      show ?thesis
      proof (cases r4)
        case (Inl e)
        with run 3 4 \<open>r2 = Inr u\<close> \<open>r3 = Inr m\<close> have "r = Inl e" "s' = s4"
          by (auto simp: agent_turn_def 2 [unfolded s1_def] tools_def Let_def)
        then show ?thesis using p4 Inl a3 by (auto simp: ends_in_simps dest: ran_died)
      next
        case (Inr rs)
        then obtain ttr where t: "ran E s3 ttr s4" "tools_trace run turn (content m) rs ttr"
          using p4 by (auto simp: ends_in_simps)
        have "ran E s (((TurnStart run turn # itr) @ atr) @ ttr) s4"
          by (rule ran_trans [OF a3 t(1)])
        from then_emit [OF this alive, of "TurnEnd run turn"]
        have a5: "ran E s (TurnStart run turn # itr @ atr @ ttr @ [TurnEnd run turn])
            (emit E (TurnEnd run turn) s4)" by simp
        have "r = Inr (rs \<noteq> [])" "s' = emit E (TurnEnd run turn) s4"
          using run 3 4 \<open>r2 = Inr u\<close> \<open>r3 = Inr m\<close> Inr
          by (auto simp: agent_turn_def 2 [unfolded s1_def] tools_def Let_def)
        then show ?thesis
          using a5 turn [OF i(2) atr(2) t(2)] by (auto intro!: ends_in_ran)
      qed
    qed
  qed
qed

lemma agent_loop_ran:
  "\<not> s_shutdown_emitted s \<Longrightarrow>
   agent_loop E fuel n run turn input sysp injected tok s = Some (r, s') \<Longrightarrow>
     ends_in E s (\<lambda>_ tr. loop_trace run turn (turn_inputs turn input injected) tr) r s'"
proof (induction n arbitrary: turn s)
  case (Suc n)
  obtain r1 s1 where 1: "agent_turn E fuel run turn input sysp injected tok s = Some (r1, s1)"
    using Suc.prems(2) by (auto split: option.splits)
  note p = agent_turn_ran [OF Suc.prems(1) 1]
  show ?case
  proof (cases r1)
    case (Inl e)
    then have "r = Inl e" "s' = s1" using Suc.prems 1 by simp_all
    then show ?thesis using p Inl by (simp add: ends_in_simps)
  next
    case (Inr go_on)
    then obtain rs tr where tr: "go_on = (rs \<noteq> [])" "ran E s tr s1"
      "turn_trace run turn (turn_inputs turn input injected) rs tr"
      using p by (auto simp: ends_in_simps)
    show ?thesis
    proof (cases "rs = []")
      case True
      then have "r = Inr ()" "s' = s1" using Suc.prems 1 Inr tr(1) by simp_all
      then show ?thesis using tr True by (auto intro!: ends_in_ran loop_last)
    next
      case False
      then have "agent_loop E fuel n run (Suc turn) input sysp injected tok s1 = Some (r, s')"
        using Suc.prems 1 Inr tr(1) by simp
      then have "ends_in E s1 (\<lambda>_ tr. loop_trace run (Suc turn) [] tr) r s'"
        using Suc.IH [of s1 "Suc turn"] Suc.prems(1) ran_alive [OF tr(2)]
        by (simp add: turn_inputs_def)
      then show ?thesis
        by (rule ends_in_after [OF tr(2)]) (use loop_more [OF tr(3) False] in auto)
    qed
  qed
qed simp

end

text \<open>A whole run: its number, the messages it starts from, its trace.\<close>

definition run_trace :: "nat \<Rightarrow> message list \<Rightarrow> agent_event list \<Rightarrow> bool" where
  "run_trace run ins tr \<longleftrightarrow>
     (\<exists>lt. loop_trace run 0 ins lt \<and> tr = AgentStart run # lt @ [AgentEnd run, AgentSettled run])"

text \<open>The messages that the \<^verbatim>\<open>before_agent_start\<close> hook injects into a run.\<close>

definition run_injected :: "('w, 's) env \<Rightarrow> user_message \<Rightarrow> ('w, 's) session \<Rightarrow> message list" where
  "run_injected E input s =
     (let s1 = s\<lparr>s_run := Suc (s_run s), s_status := Running,
                 s_queue := set_idle False (s_queue s)\<rparr>;
          before = \<lparr>bas_prompt = message_text input,
                    bas_system_prompt = build_system_prompt E s1, bas_messages = []\<rparr>
      in case fst (hk_before_agent_start E before (context_of E s1) (s_world s)) of
           Inr b \<Rightarrow> bas_messages b | Inl _ \<Rightarrow> [])"

lemma call_async_result: "call_async E op s = (r, s') \<Longrightarrow> r = fst (op (s_world s))"
  by (auto simp: call_async_def split: prod.splits)

context session_env begin

lemma run_agent_ran:
  assumes alive: "\<not> s_shutdown_emitted s"
    and run: "run_agent E fuel input s = Some (r, s')"
  shows "case r of
      Inl e \<Rightarrow> \<exists>tr. died E s tr e s'
    | Inr _ \<Rightarrow> \<exists>tr. run_trace (Suc (s_run s)) (User input # run_injected E input s) tr \<and>
        visible s' = visible s @ tr \<and>
        st_messages E (s_store s') = st_messages E (s_store s) @ ends tr \<and>
        s_status s' = Idle \<and> q_idle (s_queue s') \<and> \<not> s_shutdown_emitted s' \<and>
        s_run s' = Suc (s_run s) \<and> s_started s' = s_started s \<and> s_token s' = s_token s \<and>
        q_closed (s_queue s') = q_closed (s_queue s)"
proof -
  define n where "n = Suc (s_run s)"
  define s1 where "s1 = s\<lparr>s_run := n, s_status := Running, s_queue := set_idle False (s_queue s)\<rparr>"
  have alive1: "\<not> s_shutdown_emitted s1" using alive by (simp add: s1_def)
  define before where "before = \<lparr>bas_prompt = message_text input,
    bas_system_prompt = build_system_prompt E s1, bas_messages = []\<rparr>"
  obtain r2 s2 where 2: "call_async E (hk_before_agent_start E before (context_of E s1)) s1 = (r2, s2)"
    by (metis surj_pair)
  define p where "p = (case r2 of Inr working \<Rightarrow> (working, s2)
    | Inl e \<Rightarrow> (before, emit_error E ''before_agent_start'' e s2))"
  obtain before' s3 where p: "p = (before', s3)" by (metis surj_pair)
  define s4 where "s4 = emit E (AgentStart n) s3"
  have "ran E s1 [] s3"
    using call_async_quiet [OF 2] then_error [OF _ alive1] p by (auto simp: p_def split: sum.splits)
  then have a4: "ran E s1 [AgentStart n] s4"
    using then_emit [OF _ alive1, of "[]" s3 "AgentStart n"] by (simp add: s4_def)
  then have alive4: "\<not> s_shutdown_emitted s4" using alive1 ran_alive by blast
  obtain r5 s5 where 5: "agent_loop E fuel fuel n 0 input (bas_system_prompt before')
      (bas_messages before') (s_token s) s4 = Some (r5, s5)"
    and out: "Some (r, s') = (case r5 of Inl e \<Rightarrow> Some (Inl e, s5)
      | Inr _ \<Rightarrow> Some (Inr (), emit E (AgentSettled n)
          ((emit E (AgentEnd n) s5)\<lparr>s_queue := set_idle True (s_queue (emit E (AgentEnd n) s5)),
                                   s_status := Idle\<rparr>)))"
    using run
    by (auto simp: run_agent_def Let_def n_def [symmetric] 2 [unfolded before_def s1_def]
        p [unfolded p_def before_def s1_def] s4_def [symmetric] split: option.splits sum.splits)
  note p5 = agent_loop_ran [OF alive4 5]
  show ?thesis
  proof (cases r5)
    case (Inl e)
    then have "r = Inl e" "s' = s5" using out by simp_all
    moreover obtain tr where "died E s1 ([AgentStart n] @ tr) e s5"
      using p5 Inl ran_died [OF a4] by (auto simp: ends_in_simps)
    moreover have "visible s1 = visible s" "s_store s1 = s_store s"
      by (simp_all add: s1_def visible_def)
    ultimately show ?thesis by (auto simp: died_def)
  next
    case (Inr u)
    then obtain lt where lt: "ran E s4 lt s5" "loop_trace n 0 (User input # bas_messages before') lt"
      using p5 by (auto simp: ends_in_simps turn_inputs_def)
    define s6 where "s6 = emit E (AgentEnd n) s5"
    define s7 where "s7 = s6\<lparr>s_queue := set_idle True (s_queue s6), s_status := Idle\<rparr>"
    have a6: "ran E s1 (AgentStart n # lt @ [AgentEnd n]) s6"
      using then_emit [OF ran_trans [OF a4 lt(1)] alive1, of "AgentEnd n"] by (simp add: s6_def)
    then have "\<not> s_shutdown_emitted s7" using alive1 ran_alive by (fastforce simp: s7_def)
    then have a8: "ran E s7 [AgentSettled n] (emit E (AgentSettled n) s7)"
      using then_emit [OF ran_refl, of s7 "AgentSettled n"] by simp
    have injected: "bas_messages before' = run_injected E input s"
      using call_async_result [OF 2] p
      by (auto simp: run_injected_def Let_def p_def before_def s1_def n_def split: sum.splits)
    have "r = Inr ()" "s' = emit E (AgentSettled n) s7"
      using out Inr by (simp_all add: s6_def s7_def)
    moreover have "run_trace n (User input # run_injected E input s)
        ((AgentStart n # lt @ [AgentEnd n]) @ [AgentSettled n])"
      using lt(2) injected by (simp add: run_trace_def)
    moreover have "visible s7 = visible s6" by (simp add: s7_def visible_def)
    ultimately show ?thesis
      using a6 a8 alive
      by (auto simp: ran_def same_phase_def s1_def s7_def n_def set_idle_def visible_def
          intro!: exI [of _ "(AgentStart n # lt @ [AgentEnd n]) @ [AgentSettled n]"])
  qed
qed

end

end
