(* ===== verification/Session_Run.thy ===== *)
theory Session_Run
  imports Session_Props
begin

text \<open>
  The properties of the session over the JSONL store: the event protocol of a run, what is stored
  against what is published, failures, tool calls, closing, and the return of a run on a host whose
  provider streams end.
\<close>

interpretation jsonl_session: session_env "jsonl_env enc H" for enc H
  by unfold_locales
    (simp_all add: jsonl.append_message_ok jsonl.append_message_err jsonl.append_custom_ok
      jsonl.append_custom_err)

section \<open>A host that follows a script\<close>

text \<open>Its provider yields the items of a list; its hooks change nothing and no client speaks.\<close>

definition scripted :: "provider_event list host" where
  "scripted = \<lparr>ex_tool_defs = (\<lambda>_. []), ex_system_prompts = (\<lambda>_. []), ex_commands = (\<lambda>_. []),
     ex_command = (\<lambda>_ _ _ w. (Inr (), w)), ex_take_host_actions = (\<lambda>w. ([], w)),
     ex_observe = (\<lambda>_ _ w. (Inr (), w)), ex_call = (\<lambda>_ _ _ w. (Cancelled, w)),
     ex_drop_session = (\<lambda>w. (Inr (), w)), hk_input = (\<lambda>m _ w. (Inr (InputContinue, m), w)),
     hk_before_agent_start = (\<lambda>b _ w. (Inr b, w)), hk_context = (\<lambda>ms _ w. (Inr ms, w)),
     hk_tool_call = (\<lambda>c _ w. ((Inr CallContinue, c), w)), hk_tool_result = (\<lambda>t _ w. (Inr t, w)),
     hk_message_finalizing = (\<lambda>m _ w. (Inr m, w)),
     pr_stream = (\<lambda>_ _ _ _ _ w. (Completed (Inr ()), w)),
     pr_next = (\<lambda>_ w. case w of [] \<Rightarrow> (Completed None, []) | e # es \<Rightarrow> (Completed (Some (Inr e)), es)),
     wall_clock = (\<lambda>_. []), label_time = [], label_cwd = [], schema_check = (\<lambda>_ _. Inr ()), clients = (\<lambda>w. ([], w))\<rparr>"

definition script_env :: "(provider_event list, jsonl_store) env" where
  "script_env = jsonl_env (\<lambda>_. ''{}'') scripted"

definition fresh_session ::
  "io_outcome list \<Rightarrow> provider_event list \<Rightarrow> (provider_event list, jsonl_store) session" where
  "fresh_session sched w = with_store ''/'' ''m'' ''p''
     \<lparr>js_id = 7, js_path = ''s'', js_messages = [], js_entries = [], js_file = None,
      js_schedule = sched\<rparr> w"

lemma script_env_simps [simp]:
  "ex_tool_defs script_env w = []" "ex_system_prompts script_env w = []"
  "ex_commands script_env w = []" "ex_take_host_actions script_env w = ([], w)"
  "ex_observe script_env ev c w = (Inr (), w)" "ex_call script_env k n i w = (Cancelled, w)"
  "ex_drop_session script_env w = (Inr (), w)"
  "hk_input script_env u c w = (Inr (InputContinue, u), w)"
  "hk_before_agent_start script_env b c w = (Inr b, w)" "hk_context script_env ms c w = (Inr ms, w)"
  "hk_tool_call script_env tc c w = ((Inr CallContinue, tc), w)"
  "hk_tool_result script_env t c w = (Inr t, w)"
  "hk_message_finalizing script_env m c w = (Inr m, w)"
  "pr_stream script_env k x y ms ts w = (Completed (Inr ()), w)"
  "pr_next script_env k w =
     (case w of [] \<Rightarrow> (Completed None, []) | e # es \<Rightarrow> (Completed (Some (Inr e)), es))"
  "wall_clock script_env w = []" "clients script_env w = ([], w)"
  "schema_check script_env j txt = Inr ()"
  "st_append_message script_env m st = append_message (\<lambda>_. ''{}'') m st"
  "st_append_custom script_env kind d st = append_custom (\<lambda>_. ''{}'') kind d st"
  "st_id script_env st = show_nat (unat (js_id st))" "st_save script_env st = Inr ()"
  "st_messages script_env st = js_messages st" "st_entries script_env st = js_entries st"
  by (simp_all add: script_env_def jsonl_env_def host.defs env.defs scripted_def)

lemma script_call_async [simp]:
  "call_async script_env op s = (let (r, w) = op (s_world s) in (r, s\<lparr>s_world := w\<rparr>))"
  by (simp add: call_async_def split: prod.splits)

lemma script_emit [simp]:
  "emit script_env ev s = (if s_shutdown_emitted s then s else publish ev s)"
  by (simp add: emit_def Let_def hook_error_def apply_actions_def publish_def)

lemma script_persist [simp]:
  "validate_final_message m m = None \<Longrightarrow> persist script_env i m s =
     (let (r, st) = append_message (\<lambda>_. ''{}'') m (s_store s); s1 = s\<lparr>s_store := st\<rparr>
      in case r of Inl e \<Rightarrow> (Inl e, fatal script_env e s1)
           | Inr _ \<Rightarrow> (Inr m, emit script_env (MessageEnd i m) s1))"
  by (simp add: persist_def Let_def split: prod.splits)

lemmas script_defs = run_agent_def agent_turn_def persist_input_def answer_turn_def run_stream_def
  Let_def set_idle_def fatal_def publish_def assistant_of_def merge_delta_def append_message_def
  store_append_def validate_final_message_def fresh_session_def with_store_def user_text_def
  default_queue_def turn_inputs_def execute_tool_def call_tool_def tool_result_of_def
  tool_result_error_def validate_tool_call_def take_steer_def pop_steer_def emit_error_def

definition hello_run :: "((string + unit) \<times> (provider_event list, jsonl_store) session) option" where
  "hello_run = run_agent script_env 5 (user_text ''hi'')
     (fresh_session [] [ContentDelta 0 (TextC ''yo''), Done Stop])"

definition hello_failed :: "((string + unit) \<times> (provider_event list, jsonl_store) session) option" where
  "hello_failed = run_agent script_env 5 (user_text ''hi'')
     (fresh_session [OpenFails ''no space''] [])"

lemma hello_returns:
  obtains s where "hello_run = Some (Inr (), s)" "js_messages (s_store s) =
    [User (user_text ''hi''),
     Assistant \<lparr>am_content = [TextC ''yo''], am_stop_reason = Stop, am_usage = None,
                am_error_message = None\<rparr>]"
proof -
  have "map_option (\<lambda>(r, s). (r, js_messages (s_store s))) hello_run = Some (Inr (),
    [User (user_text ''hi''),
     Assistant \<lparr>am_content = [TextC ''yo''], am_stop_reason = Stop, am_usage = None,
                am_error_message = None\<rparr>])"
    by (simp add: hello_run_def script_defs eval_nat_numeral)
  with that show thesis by (cases hello_run) auto
qed

lemma hello_fails:
  obtains s where "hello_failed = Some (Inl ''no space'', s)"
proof -
  have "map_option fst hello_failed = Some (Inl ''no space'')"
    by (simp add: hello_failed_def script_defs eval_nat_numeral)
  with that show thesis by (cases hello_failed) auto
qed

lemma fresh_alive: "\<not> s_shutdown_emitted (fresh_session sched w)"
  and fresh_run: "s_run (fresh_session sched w) = 0"
  and fresh_visible: "visible (fresh_session sched w) = []"
  and fresh_messages: "js_messages (s_store (fresh_session sched w)) = []"
  by (simp_all add: fresh_session_def with_store_def visible_def)

section \<open>The event protocol of a run\<close>

text \<open>C28 (functional): the event protocol. A run of the agent that returns \<^verbatim>\<open>Ok\<close> publishes, apart
  from hook errors and queue updates, exactly one sentence of the protocol \<open>run_trace\<close>:
  \<open>AgentStart\<close>; turns numbered from 0, each bracketed by \<open>TurnStart\<close> and \<open>TurnEnd\<close>, the first one
  opening with the user's message and the injected ones, each with one answer opened blank,
  updated and completed under one identifier, then its tool calls in order; only the last turn
  calls no tool; then \<open>AgentEnd\<close> and \<open>AgentSettled\<close>. The session is idle again and its run counter
  grew by one.\<close>

theorem run_agent_protocol:
  assumes "\<not> s_shutdown_emitted s"
    and "run_agent (jsonl_env enc H) fuel input s = Some (Inr u, s')"
  shows "\<exists>tr. run_trace (Suc (s_run s))
                (User input # run_injected (jsonl_env enc H) input s) tr \<and>
      visible s' = visible s @ tr \<and> s_status s' = Idle \<and> q_idle (s_queue s') \<and>
      \<not> s_shutdown_emitted s' \<and> s_run s' = Suc (s_run s)"
  using jsonl_session.run_agent_ran [OF assms] by auto

theorem run_agent_protocol_witness:
  "\<exists>s tr. hello_run = Some (Inr (), s) \<and> run_trace 1 [User (user_text ''hi'')] tr \<and> visible s = tr"
proof -
  obtain s where s: "hello_run = Some (Inr (), s)" by (rule hello_returns)
  from run_agent_protocol [OF fresh_alive this [unfolded hello_run_def script_env_def]] s
  show ?thesis
    by (auto simp: fresh_run fresh_visible run_injected_def script_env_def [symmetric] Let_def)
qed

section \<open>Stored before published\<close>

lemma run_publishes_stored:
  assumes "\<not> s_shutdown_emitted s"
    and "run_agent (jsonl_env enc H) fuel input s = Some (r, s')"
  shows "\<exists>tr. visible s' = visible s @ tr \<and>
      js_messages (s_store s') = js_messages (s_store s) @ ends tr"
proof (cases r)
  case (Inl e)
  then obtain tr where "died (jsonl_env enc H) s tr e s'"
    using jsonl_session.run_agent_ran [OF assms] by auto
  then show ?thesis
    by (intro exI [of _ "tr @ failure_marks e"]) (simp add: died_def)
next
  case (Inr u)
  then show ?thesis using jsonl_session.run_agent_ran [OF assms] by auto
qed

text \<open>C29 (invariant): what observers see is what is stored. Whatever the outcome of a run, the
  messages it appended to the store are exactly the messages of the \<open>MessageEnd\<close> events it
  published, in the same order: no message is announced complete that the file does not hold, and
  none is stored unannounced.\<close>

theorem run_agent_publishes_stored:
  assumes "\<not> s_shutdown_emitted s"
    and "run_agent (jsonl_env enc H) fuel input s = Some (r, s')"
  shows "\<exists>tr. visible s' = visible s @ tr \<and>
      js_messages (s_store s') = js_messages (s_store s) @ ends tr"
  by (rule run_publishes_stored [OF assms])

theorem run_agent_publishes_stored_witness:
  "\<exists>s. hello_run = Some (Inr (), s) \<and> ends (visible s) =
    [User (user_text ''hi''),
     Assistant \<lparr>am_content = [TextC ''yo''], am_stop_reason = Stop, am_usage = None,
                am_error_message = None\<rparr>]"
proof -
  obtain s where s: "hello_run = Some (Inr (), s)" "js_messages (s_store s) =
    [User (user_text ''hi''),
     Assistant \<lparr>am_content = [TextC ''yo''], am_stop_reason = Stop, am_usage = None,
                am_error_message = None\<rparr>]" by (rule hello_returns)
  from run_agent_publishes_stored [OF fresh_alive s(1) [unfolded hello_run_def script_env_def]] s
  show ?thesis by (auto simp: fresh_visible fresh_messages)
qed

section \<open>Persistence failures\<close>

text \<open>C35 (error): a run fails only through a persistence failure, and then for good: the last
  visible events are \<open>PersistenceError\<close> and \<open>SessionFatal\<close> with the error that is returned and
  \<open>SessionShutdown\<close>, the status is \<^verbatim>\<open>Fatal\<close>, and the message queue refuses every message.\<close>

theorem run_agent_failure_is_fatal:
  assumes "\<not> s_shutdown_emitted s"
    and "run_agent (jsonl_env enc H) fuel input s = Some (Inl e, s')"
  shows "\<exists>tr. visible s' = visible s @ tr @ failure_marks e \<and> s_status s' = Fatal \<and>
      s_shutdown_emitted s' \<and> (\<forall>m. push m (s_queue s') = Inl ''session is not accepting messages'') \<and>
      (\<forall>input' n. run_one_trun (jsonl_env enc H) n input' s' =
         Some (Inl ''session is not accepting messages'', s'))"
  using jsonl_session.run_agent_ran [OF assms] by (auto simp: died_def push_def run_one_trun_def)

theorem run_agent_failure_is_fatal_witness:
  "\<exists>s tr. hello_failed = Some (Inl ''no space'', s) \<and> visible s = tr @ failure_marks ''no space'' \<and>
     s_status s = Fatal"
proof -
  obtain s where s: "hello_failed = Some (Inl ''no space'', s)" by (rule hello_fails)
  from run_agent_failure_is_fatal [OF fresh_alive s [unfolded hello_failed_def script_env_def]] s
  show ?thesis by (auto simp: fresh_visible)
qed

section \<open>Tool calls\<close>

definition use_ids :: "message_content list \<Rightarrow> string list" where
  "use_ids cs = List.map_filter (\<lambda>c. case c of ToolUseC i _ _ _ _ \<Rightarrow> Some i | _ \<Rightarrow> None) cs"

text \<open>The identifiers of the tool calls in the answers among the messages.\<close>

definition answer_ids :: "message list \<Rightarrow> string list" where
  "answer_ids ms = concat (map (\<lambda>m. case m of Assistant a \<Rightarrow> use_ids (am_content a) | _ \<Rightarrow> []) ms)"

definition results :: "message list \<Rightarrow> message list" where
  "results ms = filter (\<lambda>m. role m = ''tool_result'') ms"

definition started :: "agent_event list \<Rightarrow> string list" where
  "started tr = List.map_filter
     (\<lambda>ev. case ev of ToolExecutionStart i _ _ \<Rightarrow> Some i | _ \<Rightarrow> None) tr"

definition ended :: "agent_event list \<Rightarrow> string list" where
  "ended tr = List.map_filter
     (\<lambda>ev. case ev of ToolExecutionEnd i _ _ _ \<Rightarrow> Some i | _ \<Rightarrow> None) tr"


lemma started_Cons [simp]: "started (ev # tr) =
    (case ev of ToolExecutionStart i _ _ \<Rightarrow> i # started tr | _ \<Rightarrow> started tr)"
  and ended_Cons [simp]: "ended (ev # tr) =
    (case ev of ToolExecutionEnd i _ _ _ \<Rightarrow> i # ended tr | _ \<Rightarrow> ended tr)"
  by (cases ev; simp add: started_def ended_def List.map_filter_simps)+

lemma trace_nil [simp]: "started [] = []" "ended [] = []" "answer_ids [] = []" "results [] = []"
  by (simp_all add: started_def ended_def answer_ids_def results_def List.map_filter_simps)



lemma updates_trace [simp]:
  "list_all (is_update aid) ups \<Longrightarrow> started ups = [] \<and> ended ups = [] \<and> ends ups = []"
proof (induction ups)
  case (Cons ev ups)
  then show ?case by (cases ev) auto
qed simp











section \<open>Closing\<close>

lemma ensure_started_ran:
  assumes "\<not> s_shutdown_emitted s"
  shows "visible (ensure_started (jsonl_env enc H) s) = visible s @
      (if s_started s then [] else [SessionStart (st_id (jsonl_env enc H) (s_store s))]) \<and>
    \<not> s_shutdown_emitted (ensure_started (jsonl_env enc H) s)"
  using jsonl_session.ran_emit [of "s\<lparr>s_started := True\<rparr>" "SessionStart i" for i] assms
  by (auto simp: ensure_started_def ran_def same_phase_def)

text \<open>Closing. A session that closes without error announces its shutdown once, as
  its last visible event, after its start if it had not started; it is \<^verbatim>\<open>Closed\<close>, its queue refuses
  every message and it accepts no prompt; and closing it again changes nothing.\<close>

theorem close_session_final:
  assumes "\<not> s_shutdown_emitted s"
    and "close_session (jsonl_env enc H) s = (Inr u, s')"
  shows "visible s' = visible s @
      (if s_started s then [] else [SessionStart (st_id (jsonl_env enc H) (s_store s))]) @
      [SessionShutdown] \<and>
    s_status s' = Closed \<and> close_session (jsonl_env enc H) s' = (Inr (), s') \<and>
    (\<forall>m. push m (s_queue s') = Inl ''session is not accepting messages'') \<and>
    (\<forall>input n. run_one_trun (jsonl_env enc H) n input s' =
       Some (Inl ''session is not accepting messages'', s'))"
proof -
  let ?E = "jsonl_env enc H"
  let ?s1 = "ensure_started ?E s"
  obtain r s2 where 2: "call_async ?E (ex_drop_session ?E) ?s1 = (r, s2)" by (metis surj_pair)
  have s': "s' = (publish SessionShutdown
      (s2\<lparr>s_status := Closed, s_queue := close_queue (s_queue s2)\<rparr>))\<lparr>s_shutdown_emitted := True\<rparr>"
    using assms 2 by (auto simp: close_session_def Let_def split: sum.splits)
  have "visible s2 = visible ?s1"
    using call_async_quiet [OF 2] by (simp add: ran_def)
  then show ?thesis
    using ensure_started_ran [OF assms(1), of enc H] unfolding s'
    by (simp add: close_session_def push_def close_queue_def run_one_trun_def)
qed

theorem close_session_final_witness:
  "\<exists>s. close_session script_env (fresh_session [] []) = (Inr (), s) \<and> s_status s = Closed"
proof -
  have "fst (close_session script_env (fresh_session [] [])) = Inr ()"
    by (simp add: close_session_def ensure_started_def fresh_session_def with_store_def
        publish_def Let_def)
  then obtain s where s: "close_session script_env (fresh_session [] []) = (Inr (), s)"
    by (metis prod.collapse)
  from close_session_final [OF fresh_alive s [unfolded script_env_def]] s show ?thesis by blast
qed

section \<open>A failed session and its queue\<close>

text \<open>
  \<^verbatim>\<open>run_queued\<close> does not look at the status. A message that was queued when a persistence failure
  ended the session is still in the queue, and the next \<^verbatim>\<open>Wake\<close> runs it: the session goes back to
  \<^verbatim>\<open>Idle\<close>, its messages are appended to the store, and none of it is published, because the shutdown
  was already announced.
\<close>

definition queued_failure :: "(provider_event list, jsonl_store) session" where
  "queued_failure =
     (case run_agent script_env 5 (user_text ''hi'')
        ((fresh_session [OpenFails ''no space''] [ContentDelta 0 (TextC ''yo''), Done Stop])
           \<lparr>s_queue := \<lparr>q_messages = [FollowUp (user_text ''next'')], q_idle = True,
                       q_closed = False\<rparr>\<rparr>) of
        Some (_, s) \<Rightarrow> s)"

text \<open>A session ended by a persistence failure runs again when a message was left in
  its queue: the status goes from \<^verbatim>\<open>Fatal\<close> back to \<^verbatim>\<open>Idle\<close> and two messages are stored, with no event
  after \<open>SessionShutdown\<close>.\<close>

theorem fatal_session_runs_again:
  "s_status queued_failure = Fatal \<and> last (s_events queued_failure) = SessionShutdown \<and>
   map_option (\<lambda>(r, s). (r, s_status s, length (js_messages (s_store s)),
       s_events s = s_events queued_failure))
     (run_queued script_env 5 5 queued_failure) = Some (Inr (), Idle, 2, True)"
  by (simp add: queued_failure_def script_defs pop_follow_up_def reset_cancellation_def
      close_queue_def eval_nat_numeral)

end
