(* ===== verification/Scheduler.thy ===== *)
theory Scheduler
  imports Messages
begin

text \<open>
  \<^verbatim>\<open>e-agent-node-runtime/src/scheduler.rs\<close>, first part: the deterministic event loop. The macrotask
  queue is a list, the binary heap of timers the list of its entries in the order in which
  \<^verbatim>\<open>pop\<close> yields them (by deadline, then sequence number), the clock its current reading, which
  the environment may set to any value between two operations.
\<close>

section \<open>Data\<close>

record timer_entry =
  te_id :: u64
  te_deadline :: u64
  te_seq :: u64

datatype hostcall_outcome =
    Success json | OutcomeError string string | StreamChunk u64 json bool

datatype macrotask_kind =
    TimerFired u64 | HostcallComplete string hostcall_outcome | InboundEvent string json

record macrotask =
  mt_seq :: u64
  mt_kind :: macrotask_kind

record scheduler =
  sc_seq :: u64
  sc_queue :: "macrotask list"
  sc_heap :: "timer_entry list"
  sc_next_id :: u64
  sc_cancelled :: "u64 set"
  sc_heap_ids :: "u64 set"
  sc_clock :: u64

text \<open>\<^verbatim>\<open>impl Ord for TimerEntry\<close>: earlier deadline first, then smaller sequence number.\<close>

definition timer_before :: "timer_entry \<Rightarrow> timer_entry \<Rightarrow> bool" where
  "timer_before a b \<longleftrightarrow>
     (te_deadline a < te_deadline b \<or> te_deadline a = te_deadline b \<and> te_seq a < te_seq b)"

fun heap_push :: "timer_entry \<Rightarrow> timer_entry list \<Rightarrow> timer_entry list" where
  "heap_push e [] = [e]"
| "heap_push e (x # xs) = (if timer_before e x then e # x # xs else x # heap_push e xs)"

section \<open>Operations\<close>

definition with_clock :: "u64 \<Rightarrow> scheduler" where
  "with_clock now = \<lparr>sc_seq = 0, sc_queue = [], sc_heap = [], sc_next_id = 1, sc_cancelled = {},
     sc_heap_ids = {}, sc_clock = now\<rparr>"

definition next_seq :: "scheduler \<Rightarrow> u64 \<times> scheduler" where
  "next_seq s = (sc_seq s, s\<lparr>sc_seq := sat_inc (sc_seq s)\<rparr>)"

definition live :: "scheduler \<Rightarrow> timer_entry list" where
  "live s = filter (\<lambda>e. te_id e \<notin> sc_cancelled s) (sc_heap s)"

definition has_pending :: "scheduler \<Rightarrow> bool" where
  "has_pending s \<longleftrightarrow> sc_queue s \<noteq> [] \<or> list_ex (\<lambda>e. te_id e \<notin> sc_cancelled s) (sc_heap s)"

definition macrotask_count :: "scheduler \<Rightarrow> nat" where
  "macrotask_count s = length (sc_queue s)"

definition timer_count :: "scheduler \<Rightarrow> nat" where
  "timer_count s = length (live s)"

definition next_id :: "u64 \<Rightarrow> u64" where
  "next_id c = (if c = u64_max then 1 else c + 1)"

text \<open>
  The loop of \<^verbatim>\<open>allocate_timer_id\<close>: the identifier and the next candidate. A candidate that is
  rejected is in use, so one more round than there are identifiers in use is enough.
\<close>

fun alloc_loop :: "nat \<Rightarrow> u64 \<Rightarrow> u64 \<Rightarrow> u64 set \<Rightarrow> (u64 \<times> u64) option" where
  "alloc_loop 0 start candidate in_use = None"
| "alloc_loop (Suc n) start candidate in_use =
     (let nxt = next_id candidate
      in if candidate \<notin> in_use then Some (candidate, nxt)
         else if nxt = start then Some (u64_max, nxt)
         else alloc_loop n start nxt in_use)"

definition allocate_timer_id :: "scheduler \<Rightarrow> (u64 \<times> scheduler) option" where
  "allocate_timer_id s =
     map_option (\<lambda>(i, nxt). (i, s\<lparr>sc_next_id := nxt\<rparr>))
       (alloc_loop (Suc (card (sc_heap_ids s))) (sc_next_id s) (sc_next_id s) (sc_heap_ids s))"

definition set_timeout :: "u64 \<Rightarrow> scheduler \<Rightarrow> (u64 \<times> scheduler) option" where
  "set_timeout delay s =
     map_option (\<lambda>(i, s1).
       let deadline = sat_add (sc_clock s1) delay; (seq, s2) = next_seq s1
       in (i, s2\<lparr>sc_heap := heap_push \<lparr>te_id = i, te_deadline = deadline, te_seq = seq\<rparr> (sc_heap s2),
                 sc_heap_ids := insert i (sc_heap_ids s2)\<rparr>))
       (allocate_timer_id s)"

definition clear_timeout :: "u64 \<Rightarrow> scheduler \<Rightarrow> bool \<times> scheduler" where
  "clear_timeout i s =
     (if i \<in> sc_heap_ids s \<and> i \<notin> sc_cancelled s
      then (True, s\<lparr>sc_cancelled := insert i (sc_cancelled s)\<rparr>) else (False, s))"

definition enqueue_task :: "macrotask_kind \<Rightarrow> scheduler \<Rightarrow> scheduler" where
  "enqueue_task k s =
     (let (seq, s1) = next_seq s
      in s1\<lparr>sc_queue := sc_queue s1 @ [\<lparr>mt_seq = seq, mt_kind = k\<rparr>]\<rparr>)"

definition enqueue_hostcall_complete :: "string \<Rightarrow> hostcall_outcome \<Rightarrow> scheduler \<Rightarrow> scheduler" where
  "enqueue_hostcall_complete call_id out s = enqueue_task (HostcallComplete call_id out) s"

definition enqueue_hostcall_completions ::
  "(string \<times> hostcall_outcome) list \<Rightarrow> scheduler \<Rightarrow> scheduler" where
  "enqueue_hostcall_completions cs s =
     fold (\<lambda>(call_id, out). enqueue_hostcall_complete call_id out) cs s"

definition enqueue_stream_chunk :: "string \<Rightarrow> u64 \<Rightarrow> json \<Rightarrow> bool \<Rightarrow> scheduler \<Rightarrow> scheduler" where
  "enqueue_stream_chunk call_id n chunk is_final s =
     enqueue_hostcall_complete call_id (StreamChunk n chunk is_final) s"

definition enqueue_event :: "string \<Rightarrow> json \<Rightarrow> scheduler \<Rightarrow> scheduler" where
  "enqueue_event event_id payload s = enqueue_task (InboundEvent event_id payload) s"

text \<open>The loop of \<^verbatim>\<open>move_due_timers\<close>, over the entries in the order of \<^verbatim>\<open>pop\<close>.\<close>

fun move_due :: "u64 \<Rightarrow> timer_entry list \<Rightarrow> scheduler \<Rightarrow> scheduler" where
  "move_due now [] s = s\<lparr>sc_heap := []\<rparr>"
| "move_due now (e # es) s =
     (if te_deadline e > now then s\<lparr>sc_heap := e # es\<rparr>
      else let s1 = s\<lparr>sc_heap_ids := sc_heap_ids s - {te_id e}\<rparr>
           in if te_id e \<in> sc_cancelled s1
              then move_due now es (s1\<lparr>sc_cancelled := sc_cancelled s1 - {te_id e}\<rparr>)
              else move_due now es (enqueue_task (TimerFired (te_id e)) s1))"

definition move_due_timers :: "scheduler \<Rightarrow> scheduler" where
  "move_due_timers s = move_due (sc_clock s) (sc_heap s) s"

definition tick :: "scheduler \<Rightarrow> macrotask option \<times> scheduler" where
  "tick s =
     (let s1 = move_due_timers s
      in case sc_queue s1 of [] \<Rightarrow> (None, s1) | t # ts \<Rightarrow> (Some t, s1\<lparr>sc_queue := ts\<rparr>))"

definition next_timer_deadline :: "scheduler \<Rightarrow> u64 option" where
  "next_timer_deadline s =
     (case map te_deadline (live s) of [] \<Rightarrow> None | d # ds \<Rightarrow> Some (fold min ds d))"

definition time_until_next_timer :: "scheduler \<Rightarrow> u64 option" where
  "time_until_next_timer s = map_option (\<lambda>d. sat_sub d (sc_clock s)) (next_timer_deadline s)"

section \<open>The invariant\<close>

text \<open>
  Sequence numbers drawn so far are below the counter and each queue is in their order; this is
  lost only when the counter has saturated after \<open>2 ^ 64 - 1\<close> draws.
\<close>

definition heap_ok :: "timer_entry list \<Rightarrow> bool" where
  "heap_ok h \<longleftrightarrow> sorted_wrt (\<lambda>a b. \<not> timer_before b a) h"

definition sched_ok :: "scheduler \<Rightarrow> bool" where
  [wf_defs]: "sched_ok s \<longleftrightarrow>
     heap_ok (sc_heap s) \<and> distinct (map te_id (sc_heap s)) \<and>
     sc_heap_ids s = te_id ` set (sc_heap s) \<and> sc_cancelled s \<subseteq> sc_heap_ids s \<and>
     sc_next_id s \<noteq> 0 \<and> 0 \<notin> sc_heap_ids s"

definition issued_ok :: "macrotask list \<Rightarrow> scheduler \<Rightarrow> bool" where
  [wf_defs]: "issued_ok past s \<longleftrightarrow>
     (sc_seq s \<noteq> u64_max \<longrightarrow>
       sorted_wrt (<) (map mt_seq (past @ sc_queue s)) \<and>
       (\<forall>t \<in> set (past @ sc_queue s). mt_seq t < sc_seq s))"

lemma timer_before_trans: "timer_before a b \<Longrightarrow> \<not> timer_before c b \<Longrightarrow> timer_before a c"
  by (auto simp: timer_before_def)

lemma timer_before_asym: "timer_before a b \<Longrightarrow> \<not> timer_before b a"
  by (auto simp: timer_before_def)

lemma set_heap_push [simp]: "set (heap_push e h) = insert e (set h)"
  by (induction h) auto

lemma mset_heap_push [simp]: "mset (heap_push e h) = add_mset e (mset h)"
  by (induction h) auto

lemma heap_push_ok [simp]: "heap_ok h \<Longrightarrow> heap_ok (heap_push e h)"
  by (induction h) (auto simp: heap_ok_def timer_before_asym dest: timer_before_trans)

lemma distinct_heap_push:
  "distinct (map te_id (heap_push e h)) \<longleftrightarrow> te_id e \<notin> te_id ` set h \<and> distinct (map te_id h)"
  by (induction h) auto

lemma heap_ok_tl: "heap_ok (e # h) \<Longrightarrow> heap_ok h"
  by (simp add: heap_ok_def)

lemma sched_ok_with_clock: "sched_ok (with_clock now)" "issued_ok [] (with_clock now)"
  by (simp_all add: with_clock_def heap_ok_def wf_defs)

lemma enqueue_task_simps [simp]:
  "sc_heap (enqueue_task k s) = sc_heap s" "sc_next_id (enqueue_task k s) = sc_next_id s"
  "sc_cancelled (enqueue_task k s) = sc_cancelled s"
  "sc_heap_ids (enqueue_task k s) = sc_heap_ids s" "sc_clock (enqueue_task k s) = sc_clock s"
  "sc_seq (enqueue_task k s) = sat_inc (sc_seq s)"
  "sc_queue (enqueue_task k s) = sc_queue s @ [\<lparr>mt_seq = sc_seq s, mt_kind = k\<rparr>]"
  by (simp_all add: enqueue_task_def next_seq_def)

lemma enqueue_task_ok: "sched_ok s \<Longrightarrow> sched_ok (enqueue_task k s)"
  by (auto simp: wf_defs)

lemma sat_inc_less': "sat_inc a \<noteq> u64_max \<Longrightarrow> a < sat_inc a"
  by (cases "a = u64_max") (simp_all add: sat_inc_less)

lemma issued_enqueue_task: "issued_ok past s \<Longrightarrow> issued_ok past (enqueue_task k s)"
  by (auto simp: issued_ok_def sorted_wrt_append less_sat_inc_trans sat_inc_less')

section \<open>Timer identifiers\<close>

text \<open>Candidates run through the nonzero words: \<open>start\<close>, the next one, and so on, cyclically.\<close>

definition nth_id :: "u64 \<Rightarrow> nat \<Rightarrow> u64" where
  "nth_id start k = of_nat ((unat start - 1 + k) mod (2 ^ 64 - 1) + 1)"

lemma unat_nth_id: "unat (nth_id start k) = (unat start - 1 + k) mod (2 ^ 64 - 1) + 1"
proof -
  have "(unat start - 1 + k) mod (2 ^ 64 - 1) + 1 < (2 :: nat) ^ 64"
    using mod_less_divisor [of "2 ^ 64 - 1" "unat start - 1 + k"] by simp
  then show ?thesis
    unfolding nth_id_def unat_of_nat by (intro mod_less) simp
qed

lemma nth_id_nonzero: "nth_id start k \<noteq> 0"
  using unat_nth_id [of start k] by auto

lemma nth_id_0: "start \<noteq> 0 \<Longrightarrow> nth_id start 0 = start"
proof (rule unsigned_word_eqI)
  assume "start \<noteq> 0"
  then have "0 < unat start" by (simp add: unat_gt_0)
  then show "unat (nth_id start 0) = unat start"
    using unat_lt_2p64 [of start] unat_nth_id [of start 0] by simp
qed

lemma nth_id_Suc: "nth_id start (Suc k) = next_id (nth_id start k)"
proof -
  let ?a = "unat start - 1 + k"
  have step: "Suc ?a mod (2 ^ 64 - 1) =
      (if Suc (?a mod (2 ^ 64 - 1)) = 2 ^ 64 - 1 then 0 else Suc (?a mod (2 ^ 64 - 1)))"
    by (rule mod_Suc)
  have "unat (nth_id start (Suc k)) = unat (next_id (nth_id start k))"
  proof (cases "nth_id start k = u64_max")
    case True
    then have "unat (nth_id start k) = 2 ^ 64 - 1" by (simp add: unat_u64_max)
    then have "Suc (?a mod (2 ^ 64 - 1)) = 2 ^ 64 - 1" by (simp add: unat_nth_id)
    then show ?thesis using True step by (simp add: next_id_def unat_nth_id)
  next
    case False
    then have "Suc (?a mod (2 ^ 64 - 1)) \<noteq> 2 ^ 64 - 1"
      using unat_nth_id [of start k] by (auto simp: u64_max_iff)
    moreover have "unat (nth_id start k + 1) = unat (nth_id start k) + 1"
      using False unat_le_u64_max [of "nth_id start k"]
      by (simp add: unat_word_ariths u64_max_iff)
    ultimately show ?thesis using False step by (simp add: next_id_def unat_nth_id)
  qed
  then show ?thesis by (rule unsigned_word_eqI)
qed

lemma nth_id_inj:
  assumes "j < k" "k < 2 ^ 64 - 1"
  shows "nth_id start j \<noteq> nth_id start k"
proof
  assume eq: "nth_id start j = nth_id start k"
  have "(unat start - 1 + k) mod (2 ^ 64 - 1) = (unat start - 1 + j) mod (2 ^ 64 - 1)"
    using arg_cong [OF eq, of unat] by (simp add: unat_nth_id)
  then have "(2 ^ 64 - 1) dvd (k - j)"
    using assms(1) mod_eq_dvd_iff_nat [of "unat start - 1 + j" "unat start - 1 + k" "2 ^ 64 - 1"]
    by simp
  then show False
    using assms by (auto dest!: dvd_imp_le)
qed

text \<open>The loop returns, and the identifier is fresh unless every nonzero identifier is in use.\<close>

lemma alloc_loop_returns:
  assumes "finite ids" and "card ids < 2 ^ 64 - 1" and "0 \<notin> ids" and "start \<noteq> 0"
    and "\<forall>j < k. nth_id start j \<in> ids" and "k < 2 ^ 64 - 1" and "n + k = Suc (card ids)"
  shows "\<exists>i nxt. alloc_loop n start (nth_id start k) ids = Some (i, nxt) \<and> i \<notin> ids \<and> i \<noteq> 0 \<and> nxt \<noteq> 0"
  using assms(5-7)
proof (induction n arbitrary: k)
  case 0
  have "inj_on (nth_id start) {..<k}"
  proof (rule linorder_inj_onI')
    fix i j assume "i \<in> {..<k}" "j \<in> {..<k}" "i < j"
    then show "nth_id start i \<noteq> nth_id start j" using nth_id_inj 0 by auto
  qed
  moreover have "nth_id start ` {..<k} \<subseteq> ids" using 0 by auto
  ultimately have "k \<le> card ids"
    using card_inj_on_le [of "nth_id start" "{..<k}" ids] assms(1) by simp
  then show ?case using 0 by simp
next
  case (Suc n)
  have nz: "next_id (nth_id start k) \<noteq> 0"
    using nth_id_nonzero [of start "Suc k"] by (simp add: nth_id_Suc)
  show ?case
  proof (cases "nth_id start k \<in> ids")
    case False
    then show ?thesis using nth_id_nonzero nz by simp
  next
    case True
    then have all: "\<forall>j < Suc k. nth_id start j \<in> ids" using Suc.prems by (auto simp: less_Suc_eq)
    have inj: "inj_on (nth_id start) {..<Suc k}"
    proof (rule linorder_inj_onI')
      fix i j assume "i \<in> {..<Suc k}" "j \<in> {..<Suc k}" "i < j"
      then show "nth_id start i \<noteq> nth_id start j" using nth_id_inj Suc.prems by auto
    qed
    then have "Suc k \<le> card ids"
      using card_inj_on_le [of "nth_id start" "{..<Suc k}" ids] all assms(1) by auto
    then have k: "Suc k < 2 ^ 64 - 1" using assms(2) by simp
    have "next_id (nth_id start k) \<noteq> start"
      using nth_id_inj [of 0 "Suc k" start] k nth_id_0 [OF assms(4)] by (simp add: nth_id_Suc)
    then show ?thesis
      using True Suc.IH [OF all k] Suc.prems by (simp add: nth_id_Suc)
  qed
qed

lemma allocate_timer_id_fresh:
  assumes "finite (sc_heap_ids s)" and "card (sc_heap_ids s) < 2 ^ 64 - 1" and "0 \<notin> sc_heap_ids s"
    and "sc_next_id s \<noteq> 0"
  obtains i nxt where "allocate_timer_id s = Some (i, s\<lparr>sc_next_id := nxt\<rparr>)"
    "i \<notin> sc_heap_ids s" "i \<noteq> 0" "nxt \<noteq> 0"
  using alloc_loop_returns [OF assms(1-4), of 0 "Suc (card (sc_heap_ids s))"] that
  by (auto simp: allocate_timer_id_def nth_id_0 [OF assms(4)] simp del: alloc_loop.simps)

section \<open>What one operation does\<close>

definition due :: "scheduler \<Rightarrow> timer_entry \<Rightarrow> bool" where
  "due s e \<longleftrightarrow> te_deadline e \<le> sc_clock s"

definition fired :: "macrotask list \<Rightarrow> u64 list" where
  "fired ts = List.map_filter (\<lambda>t. case mt_kind t of TimerFired i \<Rightarrow> Some i | _ \<Rightarrow> None) ts"

lemma fired_simps [simp]:
  "fired [] = []" "fired (a @ b) = fired a @ fired b"
  "fired (t # ts) = (case mt_kind t of TimerFired i \<Rightarrow> i # fired ts | _ \<Rightarrow> fired ts)"
  by (auto simp: fired_def List.map_filter_def split: macrotask_kind.splits)

text \<open>The loop of \<^verbatim>\<open>move_due_timers\<close> in closed form.\<close>

definition due_front :: "u64 \<Rightarrow> timer_entry list \<Rightarrow> timer_entry list" where
  "due_front now h = takeWhile (\<lambda>e. te_deadline e \<le> now) h"

lemma due_front_simps [simp]:
  "due_front now [] = []"
  "due_front now (e # es) = (if te_deadline e \<le> now then e # due_front now es else [])"
  by (simp_all add: due_front_def)

lemma set_due_front: "e \<in> set (due_front now h) \<Longrightarrow> e \<in> set h"
  by (auto simp: due_front_def dest: set_takeWhileD)

lemma distinct_ids: "distinct (map te_id (e # es)) \<Longrightarrow> e' \<in> set es \<Longrightarrow> te_id e' \<noteq> te_id e"
  by (metis distinct.simps(2) image_eqI list.map(2) set_map)

lemma move_due_frame [simp]:
  "sc_heap (move_due now h s) = dropWhile (\<lambda>e. te_deadline e \<le> now) h"
  "sc_heap_ids (move_due now h s) = sc_heap_ids s - te_id ` set (due_front now h)"
  "sc_cancelled (move_due now h s) = sc_cancelled s - te_id ` set (due_front now h)"
  "sc_next_id (move_due now h s) = sc_next_id s"
  "sc_clock (move_due now h s) = sc_clock s"
proof (induction h arbitrary: s)
  case (Cons e es)
  {
    case 1 then show ?case using Cons by (simp add: Let_def not_less [symmetric])
  next
    case 2 then show ?case using Cons by (auto simp: Let_def not_less [symmetric])
  next
    case 3 then show ?case using Cons by (auto simp: Let_def not_less [symmetric])
  next
    case 4 then show ?case using Cons by (simp add: Let_def)
  next
    case 5 then show ?case using Cons by (simp add: Let_def)
  }
qed simp_all

lemma move_due_issued: "issued_ok past s \<Longrightarrow> issued_ok past (move_due now h s)"
proof (induction h arbitrary: s)
  case (Cons e es)
  let ?s1 = "s\<lparr>sc_heap_ids := sc_heap_ids s - {te_id e}\<rparr>"
  have "issued_ok past ?s1" "issued_ok past (?s1\<lparr>sc_cancelled := sc_cancelled s - {te_id e}\<rparr>)"
    "issued_ok past (s\<lparr>sc_heap := e # es\<rparr>)"
    using Cons.prems by (simp_all add: issued_ok_def)
  then show ?case
    by (simp add: Let_def Cons.IH issued_enqueue_task)
qed (simp add: issued_ok_def)

lemma move_due_queue:
  "distinct (map te_id h) \<Longrightarrow> \<exists>new. sc_queue (move_due now h s) = sc_queue s @ new \<and>
     map mt_kind new =
       map (\<lambda>e. TimerFired (te_id e)) (filter (\<lambda>e. te_id e \<notin> sc_cancelled s) (due_front now h))"
proof (induction h arbitrary: s)
  case (Cons e es)
  show ?case
  proof (cases "te_deadline e \<le> now")
    case False
    moreover from this have "now < te_deadline e" by simp
    ultimately show ?thesis by simp
  next
    case True
    let ?s1 = "s\<lparr>sc_heap_ids := sc_heap_ids s - {te_id e}\<rparr>"
    let ?s2 = "?s1\<lparr>sc_cancelled := sc_cancelled s - {te_id e}\<rparr>"
    let ?s3 = "enqueue_task (TimerFired (te_id e)) ?s1"
    have filt: "filter (\<lambda>e'. te_id e' \<notin> sc_cancelled s - {te_id e}) (due_front now es) =
        filter (\<lambda>e. te_id e \<notin> sc_cancelled s) (due_front now es)"
      using distinct_ids [OF Cons.prems]
      by (intro filter_cong) (auto dest: set_due_front)
    show ?thesis
    proof (cases "te_id e \<in> sc_cancelled s")
      case cancelled: True
      then have "move_due now (e # es) s = move_due now es ?s2"
        using True by (simp add: not_less)
      then show ?thesis using Cons.IH [of ?s2] Cons.prems cancelled True filt by simp
    next
      case False
      then have step: "move_due now (e # es) s = move_due now es ?s3"
        using True by (simp add: not_less)
      obtain new where "sc_queue (move_due now es ?s3) = sc_queue ?s3 @ new"
        "map mt_kind new = map (\<lambda>e. TimerFired (te_id e))
           (filter (\<lambda>e. te_id e \<notin> sc_cancelled s) (due_front now es))"
        using Cons.IH [of ?s3] Cons.prems by auto
      then show ?thesis
        unfolding step using False True
        by (intro exI [of _ "\<lparr>mt_seq = sc_seq s, mt_kind = TimerFired (te_id e)\<rparr> # new"]) simp
    qed
  qed
qed simp

lemma heap_ok_due:
  assumes "heap_ok (e # h)" and "te_deadline e > now" and "x \<in> set h"
  shows "te_deadline x > now"
  using assms by (fastforce simp: heap_ok_def timer_before_def not_less)

lemma heap_ok_takeWhile: "heap_ok h \<Longrightarrow> due_front now h = filter (\<lambda>e. te_deadline e \<le> now) h"
proof (induction h)
  case (Cons e h)
  show ?case
  proof (cases "te_deadline e \<le> now")
    case False
    then have "\<forall>x \<in> set h. \<not> te_deadline x \<le> now"
      using heap_ok_due [OF Cons.prems] by (auto simp: not_le)
    with False show ?thesis by (simp add: filter_empty_conv)
  qed (use Cons heap_ok_tl in auto)
qed simp

lemma heap_ok_dropWhile:
  "heap_ok h \<Longrightarrow> dropWhile (\<lambda>e. te_deadline e \<le> now) h = filter (\<lambda>e. \<not> te_deadline e \<le> now) h"
proof (induction h)
  case (Cons e h)
  show ?case
  proof (cases "te_deadline e \<le> now")
    case False
    then have "\<forall>x \<in> set h. \<not> te_deadline x \<le> now"
      using heap_ok_due [OF Cons.prems] by (auto simp: not_le)
    with False show ?thesis by (simp add: filter_id_conv)
  qed (use Cons heap_ok_tl in auto)
qed simp

lemma live_move_due:
  assumes "sched_ok s"
  shows "live (move_due_timers s) = filter (\<lambda>e. \<not> due s e) (live s)"
proof -
  let ?h = "sc_heap s" and ?d = "\<lambda>e. te_deadline e \<le> sc_clock s"
  have "te_id e \<notin> te_id ` set (due_front (sc_clock s) ?h)" if "e \<in> set ?h" "\<not> ?d e" for e
  proof
    assume "te_id e \<in> te_id ` set (due_front (sc_clock s) ?h)"
    then obtain e' where e': "e' \<in> set ?h" "?d e'" "te_id e' = te_id e"
      using assms by (auto simp: wf_defs heap_ok_takeWhile)
    then have "e' = e"
      using assms that(1) by (auto simp: wf_defs distinct_map dest: inj_onD)
    with e' that(2) show False by simp
  qed
  then have "filter (\<lambda>e. te_id e \<notin> sc_cancelled (move_due_timers s)) (filter (\<lambda>e. \<not> ?d e) ?h) =
      filter (\<lambda>e. te_id e \<notin> sc_cancelled s) (filter (\<lambda>e. \<not> ?d e) ?h)"
    by (intro filter_cong) (auto simp: move_due_timers_def)
  then show ?thesis
    using assms
    by (simp add: live_def due_def move_due_timers_def wf_defs heap_ok_dropWhile conj_commute)
qed

lemma move_due_timers_ok:
  assumes "sched_ok s"
  shows "sched_ok (move_due_timers s)"
proof -
  let ?h = "sc_heap s" and ?d = "\<lambda>e. te_deadline e \<le> sc_clock s"
  have part: "te_id ` set ?h - te_id ` set (filter ?d ?h) = te_id ` set (filter (\<lambda>e. \<not> ?d e) ?h)"
    using assms by (auto simp: wf_defs distinct_map inj_on_def image_iff)
  have "heap_ok (filter (\<lambda>e. \<not> ?d e) ?h)" "distinct (map te_id (filter (\<lambda>e. \<not> ?d e) ?h))"
    using assms by (auto simp: wf_defs heap_ok_def sorted_wrt_filter distinct_map_filter)
  moreover have "sc_cancelled s - te_id ` set (filter ?d ?h) \<subseteq> te_id ` set (filter (\<lambda>e. \<not> ?d e) ?h)"
    unfolding part [symmetric] using assms by (intro Diff_mono) (auto simp: wf_defs)
  moreover have "0 \<notin> te_id ` set (filter (\<lambda>e. \<not> ?d e) ?h)"
    unfolding part [symmetric] using assms by (auto simp: wf_defs)
  ultimately show ?thesis
    using assms part
    by (simp add: sched_ok_def move_due_timers_def heap_ok_dropWhile heap_ok_takeWhile
        del: set_filter)
qed

lemma tick_cases:
  obtains (idle) "sc_queue (move_due_timers s) = []" "tick s = (None, move_due_timers s)"
  | (task) t ts where "sc_queue (move_due_timers s) = t # ts"
      "tick s = (Some t, (move_due_timers s)\<lparr>sc_queue := ts\<rparr>)"
  by (cases "sc_queue (move_due_timers s)") (simp_all add: tick_def)

lemma clear_timeout_ok: "sched_ok s \<Longrightarrow> sched_ok (snd (clear_timeout i s))"
  by (auto simp: wf_defs clear_timeout_def)

lemma set_timeout_cases:
  assumes "set_timeout d s = Some (i, s')"
  obtains e nxt where
    "allocate_timer_id s = Some (i, s\<lparr>sc_next_id := nxt\<rparr>)" "te_id e = i"
    "te_deadline e = sat_add (sc_clock s) d" "te_seq e = sc_seq s"
    "s' = s\<lparr>sc_seq := sat_inc (sc_seq s), sc_heap := heap_push e (sc_heap s), sc_next_id := nxt,
           sc_heap_ids := insert i (sc_heap_ids s)\<rparr>"
proof -
  from assms obtain i' s1 where a: "allocate_timer_id s = Some (i', s1)"
    by (auto simp: set_timeout_def)
  then obtain nxt where s1: "s1 = s\<lparr>sc_next_id := nxt\<rparr>"
    by (auto simp: allocate_timer_id_def)
  show thesis
    by (rule that [of nxt "\<lparr>te_id = i, te_deadline = sat_add (sc_clock s) d, te_seq = sc_seq s\<rparr>"])
      (use assms a s1 in \<open>auto simp: set_timeout_def next_seq_def Let_def\<close>)
qed

lemma set_timeout_ok:
  assumes ok: "sched_ok s" and room: "length (sc_heap s) < 2 ^ 64 - 1"
  obtains i s' where "set_timeout d s = Some (i, s')" "sched_ok s'" "i \<notin> sc_heap_ids s"
    "mset (map te_id (live s')) = add_mset i (mset (map te_id (live s)))"
    "length (sc_heap s') = Suc (length (sc_heap s))" "sc_queue s' = sc_queue s"
    "sc_cancelled s' = sc_cancelled s"
proof -
  have "card (sc_heap_ids s) \<le> length (sc_heap s)"
    using ok by (auto simp: wf_defs intro: order_trans [OF card_image_le] card_length)
  then have "card (sc_heap_ids s) < 2 ^ 64 - 1" using room by simp
  moreover have "finite (sc_heap_ids s)" "0 \<notin> sc_heap_ids s" "sc_next_id s \<noteq> 0"
    using ok by (auto simp: wf_defs)
  ultimately obtain i nxt where a: "allocate_timer_id s = Some (i, s\<lparr>sc_next_id := nxt\<rparr>)"
    "i \<notin> sc_heap_ids s" "i \<noteq> 0" "nxt \<noteq> 0"
    using allocate_timer_id_fresh [of s] by blast
  obtain i' s' where s': "set_timeout d s = Some (i', s')"
    using a by (auto simp: set_timeout_def next_seq_def Let_def)
  then obtain e nxt' where e: "allocate_timer_id s = Some (i', s\<lparr>sc_next_id := nxt'\<rparr>)" "te_id e = i'"
    "s' = s\<lparr>sc_seq := sat_inc (sc_seq s), sc_heap := heap_push e (sc_heap s), sc_next_id := nxt',
           sc_heap_ids := insert i' (sc_heap_ids s)\<rparr>"
    by (rule set_timeout_cases)
  have i: "i' = i" "nxt' = nxt"
    using a(1) e(1) by (auto dest: arg_cong [of _ _ sc_next_id])
  have "i \<notin> sc_cancelled s" using a(2) ok by (auto simp: wf_defs)
  then have "mset (map te_id (live s')) = add_mset i (mset (map te_id (live s)))"
    using e i by (simp add: live_def)
  moreover have "sched_ok s'"
    using ok a e i by (auto simp: sched_ok_def distinct_heap_push)
  moreover have "length (heap_push e (sc_heap s)) = Suc (length (sc_heap s))"
    by (metis mset_heap_push size_add_mset size_mset)
  ultimately show thesis
    using that [of i s'] s' a e i by simp
qed

section \<open>Runs of the event loop\<close>

datatype sched_op =
    SetTimeout u64
  | ClearTimeout u64
  | HostcallDone string hostcall_outcome
  | Inbound string json
  | ClockTo u64
  | Tick

text \<open>What a run leaves behind: identifiers handed out, timers cancelled, macrotasks executed.\<close>

record sched_log =
  lg_set :: "u64 list"
  lg_cleared :: "u64 list"
  lg_ran :: "macrotask list"

fun sched_step :: "sched_op \<Rightarrow> sched_log \<times> scheduler \<Rightarrow> (sched_log \<times> scheduler) option" where
  "sched_step (SetTimeout d) (lg, s) =
     map_option (\<lambda>(i, s'). (lg\<lparr>lg_set := lg_set lg @ [i]\<rparr>, s')) (set_timeout d s)"
| "sched_step (ClearTimeout i) (lg, s) =
     (let (b, s') = clear_timeout i s
      in Some (if b then lg\<lparr>lg_cleared := lg_cleared lg @ [i]\<rparr> else lg, s'))"
| "sched_step (HostcallDone c out) (lg, s) = Some (lg, enqueue_hostcall_complete c out s)"
| "sched_step (Inbound ev p) (lg, s) = Some (lg, enqueue_event ev p s)"
| "sched_step (ClockTo t) (lg, s) = Some (lg, s\<lparr>sc_clock := t\<rparr>)"
| "sched_step Tick (lg, s) =
     (case tick s of
        (None, s') \<Rightarrow> Some (lg, s')
      | (Some t, s') \<Rightarrow> Some (lg\<lparr>lg_ran := lg_ran lg @ [t]\<rparr>, s'))"

fun sched_run :: "sched_op list \<Rightarrow> sched_log \<times> scheduler \<Rightarrow> (sched_log \<times> scheduler) option" where
  "sched_run [] x = Some x"
| "sched_run (op # ops) x =
     (case sched_step op x of None \<Rightarrow> None | Some y \<Rightarrow> sched_run ops y)"

definition empty_log :: sched_log where
  "empty_log = \<lparr>lg_set = [], lg_cleared = [], lg_ran = []\<rparr>"

subsection \<open>One total order\<close>

lemma issued_tick:
  assumes "issued_ok past s"
  shows "issued_ok (past @ (case fst (tick s) of None \<Rightarrow> [] | Some t \<Rightarrow> [t])) (snd (tick s))"
proof -
  have m: "issued_ok past (move_due_timers s)"
    using move_due_issued [OF assms] by (simp add: move_due_timers_def)
  show ?thesis
    by (rule tick_cases [of s]) (use m in \<open>simp_all add: issued_ok_def\<close>)
qed

lemma issued_step:
  assumes "issued_ok (lg_ran lg) s" and "sched_step op (lg, s) = Some (lg', s')"
  shows "issued_ok (lg_ran lg') s'"
proof (cases op)
  case (SetTimeout d)
  then obtain i where i: "set_timeout d s = Some (i, s')" "lg_ran lg' = lg_ran lg"
    using assms(2) by auto
  then obtain e nxt where "s' = s\<lparr>sc_seq := sat_inc (sc_seq s), sc_heap := heap_push e (sc_heap s),
      sc_next_id := nxt, sc_heap_ids := insert i (sc_heap_ids s)\<rparr>"
    by (elim set_timeout_cases)
  then show ?thesis
    using assms(1) i by (auto simp: issued_ok_def less_sat_inc_trans)
next
  case (ClearTimeout i)
  then show ?thesis
    using assms by (auto simp: clear_timeout_def issued_ok_def split: if_splits)
next
  case Tick
  then show ?thesis
    using assms issued_tick [OF assms(1)] by (auto split: prod.splits option.splits)
next
  case (ClockTo t)
  then show ?thesis using assms by (auto simp: issued_ok_def)
qed (use assms issued_enqueue_task in
  \<open>auto simp: enqueue_hostcall_complete_def enqueue_event_def\<close>)

lemma issued_run:
  "issued_ok (lg_ran lg) s \<Longrightarrow> sched_run ops (lg, s) = Some (lg', s') \<Longrightarrow> issued_ok (lg_ran lg') s'"
proof (induction ops arbitrary: lg s)
  case (Cons op ops)
  then obtain lg1 s1 where "sched_step op (lg, s) = Some (lg1, s1)"
    "sched_run ops (lg1, s1) = Some (lg', s')"
    by (auto split: option.splits)
  then show ?case using Cons issued_step by blast
qed simp

text \<open>One total order (I5 of the module). In every run, whatever the clock does, the
  macrotasks executed so far and then those waiting have strictly increasing sequence numbers, so
  that execution follows the order in which timers became due, hostcalls completed and events
  arrived; for as long as the 64-bit counter has not saturated.\<close>

theorem macrotasks_totally_ordered:
  assumes "sched_run ops (empty_log, with_clock now) = Some (lg, s)"
    and "sc_seq s \<noteq> u64_max"
  shows "sorted_wrt (<) (map mt_seq (lg_ran lg @ sc_queue s)) \<and>
    (\<forall>t \<in> set (lg_ran lg @ sc_queue s). mt_seq t < sc_seq s)"
proof -
  have "issued_ok (lg_ran empty_log) (with_clock now)"
    using sched_ok_with_clock(2) by (simp add: empty_log_def)
  from issued_run [OF this assms(1)] assms(2) show ?thesis by (simp add: issued_ok_def)
qed

definition sample_ops :: "sched_op list" where
  "sample_ops = [SetTimeout 10, SetTimeout 5, SetTimeout 7, ClearTimeout 3,
                 Inbound ''e'' JNull, ClockTo 20, Tick, Tick]"

definition sample_run :: "(sched_log \<times> scheduler) option" where
  "sample_run = sched_run sample_ops (empty_log, with_clock 0)"

lemma alloc_loop_numeral [simp]:
  "alloc_loop (numeral k) start candidate in_use =
     (let nxt = next_id candidate
      in if candidate \<notin> in_use then Some (candidate, nxt)
         else if nxt = start then Some (u64_max, nxt)
         else alloc_loop (pred_numeral k) start nxt in_use)"
  by (simp add: numeral_eq_Suc)

lemmas sched_run_defs = set_timeout_def allocate_timer_id_def next_id_def next_seq_def
  timer_before_def clear_timeout_def enqueue_task_def enqueue_event_def
  enqueue_hostcall_complete_def tick_def move_due_timers_def sat_inc_def sat_add_def Let_def

lemma sample_run_eq: "map_option (\<lambda>(lg, s).
    (map mt_kind (lg_ran lg), map mt_kind (sc_queue s), lg_set lg, lg_cleared lg, sc_seq s)) sample_run =
  Some ([InboundEvent ''e'' JNull, TimerFired 2], [TimerFired 1], [1, 2, 3], [3], 6)"
  by (simp add: sample_run_def sample_ops_def with_clock_def empty_log_def sched_run_defs)

theorem macrotasks_totally_ordered_witness:
  "\<exists>lg s. sample_run = Some (lg, s) \<and> length (lg_ran lg) = 2 \<and>
     sorted_wrt (<) (map mt_seq (lg_ran lg @ sc_queue s))"
proof -
  obtain lg s where r: "sample_run = Some (lg, s)" "sc_seq s = 6" "length (lg_ran lg) = 2"
    using sample_run_eq by (auto simp: map_eq_Cons_conv)
  then show ?thesis
    using macrotasks_totally_ordered [OF r(1) [unfolded sample_run_def]] by auto
qed

subsection \<open>Every timer fires once, is cancelled, or is still to come\<close>

definition balanced :: "sched_log \<Rightarrow> scheduler \<Rightarrow> bool" where
  "balanced lg s \<longleftrightarrow>
     mset (lg_set lg) = mset (fired (lg_ran lg @ sc_queue s)) + mset (map te_id (live s)) +
       mset (lg_cleared lg)"

lemma fired_kinds:
  "map mt_kind new = map (\<lambda>e. TimerFired (te_id e)) es \<Longrightarrow> fired new = map te_id es"
proof (induction es arbitrary: new)
  case (Cons e es)
  then show ?case by (cases new) auto
qed simp

lemma move_due_timers_queue:
  assumes "sched_ok s"
  obtains new where "sc_queue (move_due_timers s) = sc_queue s @ new"
    "map mt_kind new = map (\<lambda>e. TimerFired (te_id e)) (filter (due s) (live s))"
proof -
  have "filter (\<lambda>e. te_id e \<notin> sc_cancelled s) (due_front (sc_clock s) (sc_heap s)) =
      filter (due s) (live s)"
    using assms by (simp add: wf_defs heap_ok_takeWhile live_def due_def conj_commute)
  then show thesis
    using move_due_queue [of "sc_heap s" "sc_clock s" s] assms that
    by (auto simp: move_due_timers_def wf_defs)
qed

lemma mset_live_split:
  "mset (map te_id (live s)) = mset (map te_id (filter (due s) (live s))) +
     mset (map te_id (filter (\<lambda>e. \<not> due s e) (live s)))"
  by (simp add: image_mset_union [symmetric] multiset_partition [symmetric])

lemma balanced_move:
  assumes "sched_ok s" and "balanced lg s"
  shows "balanced lg (move_due_timers s)"
proof -
  obtain new where "sc_queue (move_due_timers s) = sc_queue s @ new"
    "fired new = map te_id (filter (due s) (live s))"
    using move_due_timers_queue [OF assms(1)] fired_kinds by metis
  then show ?thesis
    using assms(2) mset_live_split [of s] live_move_due [OF assms(1)]
    by (simp add: balanced_def del: mset_map mset_filter)
qed

lemma live_update [simp]: "live (s\<lparr>sc_queue := q\<rparr>) = live s" "live (enqueue_task k s) = live s"
  "live (s\<lparr>sc_clock := t\<rparr>) = live s"
  by (simp_all add: live_def)

lemma balanced_clear:
  assumes ok: "sched_ok s" and bal: "balanced lg s" and run: "clear_timeout i s = (b, s')"
  shows "balanced (if b then lg\<lparr>lg_cleared := lg_cleared lg @ [i]\<rparr> else lg) s'"
proof (cases b)
  case False
  then show ?thesis using bal run by (auto simp: clear_timeout_def split: if_splits)
next
  case True
  then have i: "i \<in> sc_heap_ids s" "i \<notin> sc_cancelled s"
    and s': "s' = s\<lparr>sc_cancelled := insert i (sc_cancelled s)\<rparr>"
    using run by (auto simp: clear_timeout_def split: if_splits)
  have dist: "distinct (map te_id (live s))"
    using ok by (simp add: wf_defs live_def distinct_map_filter)
  have "map te_id (live s') = filter (\<lambda>j. j \<noteq> i) (map te_id (live s))"
    by (simp add: s' live_def filter_map o_def) (meson insert_iff)
  then have "mset (map te_id (live s')) = mset (remove1 i (map te_id (live s)))"
    using dist by (simp add: distinct_remove1_removeAll removeAll_filter_not_eq
        eq_commute [of i] del: mset_map)
  moreover have "i \<in> set (map te_id (live s))"
    using i ok by (auto simp: wf_defs live_def)
  ultimately have "mset (map te_id (live s)) = add_mset i (mset (map te_id (live s')))"
    by (simp del: mset_map set_map)
  then show ?thesis
    using bal True by (simp add: balanced_def s' del: mset_map)
qed

lemma step_balanced:
  assumes "sched_ok s" and "balanced lg s" and "length (sc_heap s) \<le> n" and "n < 2 ^ 64 - 1"
  shows "\<exists>lg' s'. sched_step op (lg, s) = Some (lg', s') \<and> sched_ok s' \<and> balanced lg' s' \<and>
    length (sc_heap s') \<le> Suc n"
proof (cases op)
  case (SetTimeout d)
  obtain i s' where "set_timeout d s = Some (i, s')" "sched_ok s'"
    "mset (map te_id (live s')) = add_mset i (mset (map te_id (live s)))"
    "length (sc_heap s') = Suc (length (sc_heap s))" "sc_queue s' = sc_queue s"
    by (rule set_timeout_ok [OF assms(1), of d]) (use assms(3,4) in auto)
  then show ?thesis
    using SetTimeout assms by (simp add: balanced_def del: mset_map)
next
  case (ClearTimeout i)
  obtain b s' where c: "clear_timeout i s = (b, s')" by (metis surj_pair)
  then have "sched_ok s'" "sc_heap s' = sc_heap s"
    using clear_timeout_ok [OF assms(1), of i] by (auto simp: clear_timeout_def split: if_splits)
  then show ?thesis
    using ClearTimeout c balanced_clear [OF assms(1,2) c] assms(3) by simp
next
  case Tick
  let ?m = "move_due_timers s"
  have m: "sched_ok ?m" "balanced lg ?m" "length (sc_heap ?m) \<le> Suc n"
    using move_due_timers_ok [OF assms(1)] balanced_move [OF assms(1,2)] assms(3)
      length_dropWhile_le [of "\<lambda>e. te_deadline e \<le> sc_clock s" "sc_heap s"]
    by (simp_all add: move_due_timers_def)
  show ?thesis
    by (rule tick_cases [of s])
      (use m Tick in \<open>auto simp: balanced_def wf_defs split: macrotask_kind.splits\<close>)
next
  case (ClockTo t)
  then show ?thesis using assms by (auto simp: wf_defs balanced_def)
qed (use assms enqueue_task_ok in
  \<open>auto simp: enqueue_hostcall_complete_def enqueue_event_def balanced_def\<close>)

lemma run_balanced:
  "sched_ok s \<Longrightarrow> balanced lg s \<Longrightarrow> length (sc_heap s) + length ops < 2 ^ 64 \<Longrightarrow>
     \<exists>lg' s'. sched_run ops (lg, s) = Some (lg', s') \<and> sched_ok s' \<and> balanced lg' s'"
proof (induction ops arbitrary: lg s)
  case (Cons op ops)
  then obtain lg1 s1 where "sched_step op (lg, s) = Some (lg1, s1)" "sched_ok s1" "balanced lg1 s1"
    "length (sc_heap s1) \<le> Suc (length (sc_heap s))"
    using step_balanced [OF Cons.prems(1,2) order_refl, of op] by auto
  then show ?case using Cons.IH [of s1 lg1] Cons.prems by simp
qed simp

text \<open>C37 (safety): no timer is lost, none fires twice, and a cancelled one never fires. Every run of
  fewer than \<open>2 ^ 64\<close> operations goes through (identifiers never run out), and the identifiers
  handed out by \<^verbatim>\<open>set_timeout\<close> are, with multiplicity, those of the timers that fired (executed
  or waiting in the macrotask queue), those still pending in the heap, and those for which
  \<^verbatim>\<open>clear_timeout\<close> returned true.\<close>

theorem timers_conserved:
  assumes "length ops < 2 ^ 64"
  shows "\<exists>lg s. sched_run ops (empty_log, with_clock now) = Some (lg, s) \<and> sched_ok s \<and>
    mset (lg_set lg) = mset (fired (lg_ran lg @ sc_queue s)) + mset (map te_id (live s)) +
      mset (lg_cleared lg)"
proof -
  have "balanced empty_log (with_clock now)"
    by (simp add: balanced_def empty_log_def with_clock_def live_def)
  then show ?thesis
    using run_balanced [OF sched_ok_with_clock(1), of empty_log now ops] assms
    by (simp add: balanced_def with_clock_def del: mset_map)
qed

theorem timers_conserved_witness:
  "\<exists>lg s. sample_run = Some (lg, s) \<and> mset (lg_set lg) = {#1, 2, 3#} \<and>
     mset (lg_set lg) = mset (fired (lg_ran lg @ sc_queue s)) + mset (map te_id (live s)) +
       mset (lg_cleared lg)"
proof -
  have "length sample_ops < 2 ^ 64" by (simp add: sample_ops_def)
  from timers_conserved [OF this, of 0] obtain lg s where r: "sample_run = Some (lg, s)"
    "mset (lg_set lg) = mset (fired (lg_ran lg @ sc_queue s)) + mset (map te_id (live s)) +
       mset (lg_cleared lg)"
    by (auto simp: sample_run_def)
  moreover have "lg_set lg = [1, 2, 3]" using sample_run_eq unfolding r(1) by simp
  ultimately show ?thesis by (intro exI [of _ lg] exI [of _ s] conjI) simp_all
qed

section \<open>What a tick does with due timers\<close>

text \<open>Stable timers (I3 of the module). At the beginning of a tick, the due timers
  that were not cancelled leave the heap and join the end of the macrotask queue, all of them, in
  the order of their deadlines and, for equal deadlines, of their sequence numbers; the others
  stay. The tick then executes one macrotask, the oldest (I1).\<close>

theorem tick_fires_due_timers:
  assumes "sched_ok s"
  shows "\<exists>new. map mt_kind new = map (\<lambda>e. TimerFired (te_id e)) (filter (due s) (live s)) \<and>
      sorted_wrt (\<lambda>a b. \<not> timer_before b a) (filter (due s) (live s)) \<and>
      live (snd (tick s)) = filter (\<lambda>e. \<not> due s e) (live s) \<and>
      (case fst (tick s) of
         None \<Rightarrow> sc_queue s @ new = [] \<and> sc_queue (snd (tick s)) = []
       | Some t \<Rightarrow> sc_queue s @ new = t # sc_queue (snd (tick s)))"
proof -
  obtain new where new: "sc_queue (move_due_timers s) = sc_queue s @ new"
    "map mt_kind new = map (\<lambda>e. TimerFired (te_id e)) (filter (due s) (live s))"
    using move_due_timers_queue [OF assms] .
  have "sorted_wrt (\<lambda>a b. \<not> timer_before b a) (filter (due s) (live s))"
    using assms by (simp add: wf_defs heap_ok_def live_def sorted_wrt_filter)
  then show ?thesis
    by (rule_tac tick_cases [of s]) (use new live_move_due [OF assms] in auto)
qed

definition sample_sched :: scheduler where
  "sample_sched = \<lparr>sc_seq = 3, sc_queue = [],
     sc_heap = [\<lparr>te_id = 2, te_deadline = 5, te_seq = 1\<rparr>, \<lparr>te_id = 3, te_deadline = 7, te_seq = 2\<rparr>],
     sc_next_id = 4, sc_cancelled = {3}, sc_heap_ids = {2, 3}, sc_clock = 9\<rparr>"

lemma sample_sched_ok: "sched_ok sample_sched"
  by (auto simp: sample_sched_def wf_defs heap_ok_def timer_before_def)

theorem tick_fires_due_timers_witness:
  "map_option mt_kind (fst (tick sample_sched)) = Some (TimerFired 2) \<and>
   live (snd (tick sample_sched)) = []"
proof -
  have l: "filter (due sample_sched) (live sample_sched) =
      [\<lparr>te_id = 2, te_deadline = 5, te_seq = 1\<rparr>]"
    "filter (\<lambda>e. \<not> due sample_sched e) (live sample_sched) = []" "sc_queue sample_sched = []"
    by (simp_all add: sample_sched_def live_def due_def)
  from tick_fires_due_timers [OF sample_sched_ok] show ?thesis
    unfolding l by (auto split: option.splits)
qed

text \<open>\<open>n\<close> ticks in a row, at a clock that stands still.\<close>

fun ticks :: "nat \<Rightarrow> scheduler \<Rightarrow> macrotask list \<times> scheduler" where
  "ticks 0 s = ([], s)"
| "ticks (Suc n) s =
     (case tick s of
        (None, s1) \<Rightarrow> ticks n s1
      | (Some t, s1) \<Rightarrow> (let (ts, s2) = ticks n s1 in (t # ts, s2)))"

lemma move_due_none:
  assumes "\<And>e. e \<in> set (sc_heap s) \<Longrightarrow> \<not> te_deadline e \<le> sc_clock s"
  shows "move_due_timers s = s"
proof (cases "sc_heap s")
  case (Cons e es)
  then have "te_deadline e > sc_clock s" using assms [of e] by simp
  then show ?thesis using Cons by (simp add: move_due_timers_def)
qed (simp add: move_due_timers_def)

lemma ticks_no_due:
  "(\<And>e. e \<in> set (sc_heap s) \<Longrightarrow> \<not> te_deadline e \<le> sc_clock s) \<Longrightarrow> n \<le> length (sc_queue s) \<Longrightarrow>
     fst (ticks n s) = take n (sc_queue s)"
proof (induction n arbitrary: s)
  case (Suc n)
  obtain t ts where q: "sc_queue s = t # ts" using Suc.prems(2) by (cases "sc_queue s") auto
  have "tick s = (Some t, s\<lparr>sc_queue := ts\<rparr>)"
    using q move_due_none [OF Suc.prems(1)] by (simp add: tick_def)
  then show ?case
    using Suc.IH [of "s\<lparr>sc_queue := ts\<rparr>"] Suc.prems q by (simp add: case_prod_unfold)
qed simp

lemma ticks_take:
  assumes "sched_ok s" and "n \<le> length (sc_queue (move_due_timers s))"
  shows "fst (ticks n s) = take n (sc_queue (move_due_timers s))"
proof (cases n)
  case (Suc m)
  obtain t ts where q: "sc_queue (move_due_timers s) = t # ts"
    using assms(2) Suc by (cases "sc_queue (move_due_timers s)") auto
  let ?s1 = "(move_due_timers s)\<lparr>sc_queue := ts\<rparr>"
  have "\<not> te_deadline e \<le> sc_clock ?s1" if "e \<in> set (sc_heap ?s1)" for e
    using that assms(1) by (simp add: move_due_timers_def wf_defs heap_ok_dropWhile)
  then have "fst (ticks m ?s1) = take m ts"
    using ticks_no_due [of ?s1 m] assms(2) Suc q by simp
  moreover have "tick s = (Some t, ?s1)" using q by (simp add: tick_def)
  ultimately show ?thesis using Suc q by (simp add: case_prod_unfold)
qed simp

text \<open>No starvation. A pending timer whose deadline has passed is executed after
  finitely many ticks, at most as many as there are macrotasks waiting and timers in the heap,
  whatever else is waiting.\<close>

theorem due_timer_executes:
  assumes "sched_ok s" and "e \<in> set (live s)" and "te_deadline e \<le> sc_clock s"
  shows "\<exists>n \<le> length (sc_queue s) + length (sc_heap s).
    te_id e \<in> set (fired (fst (ticks n s)))"
proof -
  obtain new where new: "sc_queue (move_due_timers s) = sc_queue s @ new"
    "map mt_kind new = map (\<lambda>e. TimerFired (te_id e)) (filter (due s) (live s))"
    using move_due_timers_queue [OF assms(1)] .
  let ?n = "length (sc_queue s) + length new"
  have "length new = length (filter (due s) (live s))"
    using arg_cong [OF new(2), of length] by simp
  then have "?n \<le> length (sc_queue s) + length (sc_heap s)"
    using length_filter_le [of "due s" "live s"]
      length_filter_le [of "\<lambda>e. te_id e \<notin> sc_cancelled s" "sc_heap s"]
    by (simp add: live_def)
  moreover have "fst (ticks ?n s) = sc_queue s @ new"
    using ticks_take [OF assms(1), of ?n] new(1) by simp
  moreover have "te_id e \<in> set (fired new)"
    using fired_kinds [OF new(2)] assms(2,3) by (auto simp: due_def)
  ultimately show ?thesis by (intro exI [of _ ?n]) simp
qed

theorem due_timer_executes_witness:
  "\<exists>n \<le> 2. 2 \<in> set (fired (fst (ticks n sample_sched)))"
proof -
  let ?e = "\<lparr>te_id = 2, te_deadline = 5, te_seq = 1\<rparr> :: timer_entry"
  have "?e \<in> set (live sample_sched)" "te_deadline ?e \<le> sc_clock sample_sched"
    and n: "length (sc_queue sample_sched) + length (sc_heap sample_sched) = 2"
    by (simp_all add: sample_sched_def live_def)
  from due_timer_executes [OF sample_sched_ok this(1,2)] show ?thesis
    unfolding n by simp
qed

text \<open>The wait the host is told is exact. The event loop has something to run at
  once exactly when a macrotask waits or the time until the next timer is zero; a cancelled timer
  never wakes it.\<close>

theorem tick_idle_iff:
  assumes "sched_ok s"
  shows "(fst (tick s) = None) \<longleftrightarrow> sc_queue s = [] \<and> time_until_next_timer s \<noteq> Some 0"
proof -
  obtain new where new: "sc_queue (move_due_timers s) = sc_queue s @ new"
    "map mt_kind new = map (\<lambda>e. TimerFired (te_id e)) (filter (due s) (live s))"
    using move_due_timers_queue [OF assms] .
  have "new = [] \<longleftrightarrow> filter (due s) (live s) = []" using new(2) by auto
  moreover have "time_until_next_timer s = Some 0 \<longleftrightarrow> filter (due s) (live s) \<noteq> []"
  proof (cases "live s")
    case Nil
    then show ?thesis by (simp add: time_until_next_timer_def next_timer_deadline_def)
  next
    case (Cons e es)
    let ?D = "te_deadline ` set (live s)"
    have "next_timer_deadline s = Some (Min ?D)"
      using Cons by (simp add: next_timer_deadline_def Min.set_eq_fold [symmetric])
    moreover have "sat_sub d (sc_clock s) = 0 \<longleftrightarrow> d \<le> sc_clock s" for d
      by (auto simp: sat_sub_def)
    moreover have "Min ?D \<le> sc_clock s \<longleftrightarrow> (\<exists>e \<in> set (live s). due s e)"
      using Cons by (subst Min_le_iff) (auto simp: due_def)
    ultimately show ?thesis by (simp add: time_until_next_timer_def filter_empty_conv)
  qed
  ultimately show ?thesis
    by (rule_tac tick_cases [of s]) (use new in auto)
qed

theorem tick_idle_iff_witness: "fst (tick sample_sched) \<noteq> None"
  using tick_idle_iff [OF sample_sched_ok]
  by (simp add: sample_sched_def time_until_next_timer_def next_timer_deadline_def live_def
      sat_sub_def)

end
