(* ===== verification/Fifo.thy ===== *)
theory Fifo
  imports Prelude
begin

text \<open>
  The contract of a first-in first-out queue that may refuse an element, and what every sequence
  of operations on such a queue does. The queues of the runtime are interpretations.
\<close>

text \<open>A run: \<open>Some x\<close> offers \<open>x\<close>, \<open>None\<close> takes. The result: accepted, taken, the queue.\<close>

fun fifo_run ::
  "('a \<Rightarrow> 'q \<Rightarrow> 'q option) \<Rightarrow> ('q \<Rightarrow> ('a \<times> 'q) option) \<Rightarrow> 'a option list \<Rightarrow> 'q \<Rightarrow>
   'a list \<times> 'a list \<times> 'q" where
  "fifo_run offer take_one [] q = ([], [], q)"
| "fifo_run offer take_one (Some x # ops) q =
     (case offer x q of
        None \<Rightarrow> fifo_run offer take_one ops q
      | Some q1 \<Rightarrow> (let (xs, ys, q2) = fifo_run offer take_one ops q1 in (x # xs, ys, q2)))"
| "fifo_run offer take_one (None # ops) q =
     (case take_one q of
        None \<Rightarrow> fifo_run offer take_one ops q
      | Some (y, q1) \<Rightarrow> (let (xs, ys, q2) = fifo_run offer take_one ops q1 in (xs, y # ys, q2)))"

locale fifo =
  fixes offer :: "'a \<Rightarrow> 'q \<Rightarrow> 'q option"
    and take_one :: "'q \<Rightarrow> ('a \<times> 'q) option"
    and elems :: "'q \<Rightarrow> 'a list"
    and ok :: "'q \<Rightarrow> bool"
  assumes offer_elems: "ok q \<Longrightarrow> offer x q = Some q' \<Longrightarrow> ok q' \<and> elems q' = elems q @ [x]"
    and take_elems: "ok q \<Longrightarrow> take_one q = Some (y, q') \<Longrightarrow> ok q' \<and> elems q = y # elems q'"
    and take_empty: "ok q \<Longrightarrow> take_one q = None \<Longrightarrow> elems q = []"
begin

lemma run_elems:
  "ok q \<Longrightarrow> fifo_run offer take_one ops q = (xs, ys, q') \<Longrightarrow>
     ok q' \<and> elems q @ xs = ys @ elems q'"
proof (induction ops arbitrary: q xs ys)
  case (Cons op ops)
  show ?case
  proof (cases op)
    case (Some x)
    show ?thesis
    proof (cases "offer x q")
      case None
      then show ?thesis using Cons Some by simp
    next
      case (Some q1)
      then obtain xs1 where "fifo_run offer take_one ops q1 = (xs1, ys, q')" "xs = x # xs1"
        using Cons.prems \<open>op = Some x\<close> by (auto split: prod.splits)
      then show ?thesis
        using Cons.IH [of q1 xs1 ys] offer_elems [OF Cons.prems(1) Some] by simp
    qed
  next
    case None
    show ?thesis
    proof (cases "take_one q")
      case None
      then show ?thesis using Cons \<open>op = None\<close> by simp
    next
      case (Some p)
      obtain y q1 where p: "p = (y, q1)" by (cases p)
      then obtain ys1 where "fifo_run offer take_one ops q1 = (xs, ys1, q')" "ys = y # ys1"
        using Cons.prems Some \<open>op = None\<close> by (auto split: prod.splits)
      then show ?thesis
        using Cons.IH [of q1 xs ys1] take_elems [OF Cons.prems(1)] Some p by simp
    qed
  qed
qed simp

text \<open>What comes out is a prefix of what was in and what was accepted.\<close>

lemma run_prefix:
  "ok q \<Longrightarrow> fifo_run offer take_one ops q = (xs, ys, q') \<Longrightarrow>
     ys = take (length ys) (elems q @ xs) \<and> elems q' = drop (length ys) (elems q @ xs)"
  using run_elems [of q ops xs ys q'] by simp

end

text \<open>
  The more general contract of a system whose steps take elements in and give elements out: each
  step keeps the order. A queue with refusals is the special case of two kinds of steps.
\<close>

fun steps_run ::
  "('op \<Rightarrow> 'q \<Rightarrow> 'a list \<times> 'a list \<times> 'q) \<Rightarrow> 'op list \<Rightarrow> 'q \<Rightarrow> 'a list \<times> 'a list \<times> 'q" where
  "steps_run step [] q = ([], [], q)"
| "steps_run step (op # ops) q =
     (let (xs, ys, q1) = step op q; (xs', ys', q2) = steps_run step ops q1
      in (xs @ xs', ys @ ys', q2))"

locale fifo_steps =
  fixes step :: "'op \<Rightarrow> 'q \<Rightarrow> 'a list \<times> 'a list \<times> 'q"
    and elems :: "'q \<Rightarrow> 'a list"
    and ok :: "'q \<Rightarrow> bool"
  assumes step_elems: "ok q \<Longrightarrow> step op q = (xs, ys, q') \<Longrightarrow> ok q' \<and> elems q @ xs = ys @ elems q'"
begin

lemma steps_run_elems:
  "ok q \<Longrightarrow> steps_run step ops q = (xs, ys, q') \<Longrightarrow> ok q' \<and> elems q @ xs = ys @ elems q'"
proof (induction ops arbitrary: q xs ys)
  case (Cons op ops)
  obtain xs1 ys1 q1 where s: "step op q = (xs1, ys1, q1)" by (metis prod_cases3)
  obtain xs2 ys2 q2 where r: "steps_run step ops q1 = (xs2, ys2, q2)" by (metis prod_cases3)
  have eqs: "xs = xs1 @ xs2" "ys = ys1 @ ys2" "q' = q2" using Cons.prems(2) s r by simp_all
  note e = step_elems [OF Cons.prems(1) s]
  with Cons.IH [of q1 xs2 ys2] r eqs have "ok q'" "elems q1 @ xs2 = ys2 @ elems q'" by simp_all
  with e eqs show ?case by (metis append.assoc)
qed simp

end

definition fifo_step ::
  "('a \<Rightarrow> 'q \<Rightarrow> 'q option) \<Rightarrow> ('q \<Rightarrow> ('a \<times> 'q) option) \<Rightarrow> 'a option \<Rightarrow> 'q \<Rightarrow>
   'a list \<times> 'a list \<times> 'q" where
  "fifo_step offer take_one op q =
     (case op of
        Some x \<Rightarrow> (case offer x q of None \<Rightarrow> ([], [], q) | Some q1 \<Rightarrow> ([x], [], q1))
      | None \<Rightarrow> (case take_one q of None \<Rightarrow> ([], [], q) | Some (y, q1) \<Rightarrow> ([], [y], q1)))"

sublocale fifo \<subseteq> steps: fifo_steps "fifo_step offer take_one" elems ok
proof
  fix q q' op xs ys
  assume "ok q" "fifo_step offer take_one op q = (xs, ys, q')"
  note a = this
  show "ok q' \<and> elems q @ xs = ys @ elems q'"
  proof (cases op)
    case (Some x)
    then show ?thesis using a offer_elems [OF a(1), of x q']
      by (cases "offer x q") (simp_all add: fifo_step_def)
  next
    case None
    then show ?thesis using a take_elems [OF a(1), of _ q']
      by (cases "take_one q") (auto simp: fifo_step_def)
  qed
qed

end
