(* ===== verification/Reactor.thy ===== *)
theory Reactor
  imports Scheduler Fifo
begin

text \<open>
  \<^verbatim>\<open>scheduler.rs\<close>, second part: the placement of reactor shards on cores, the bounded
  single-producer lanes, and the reactor mesh that routes completions and events to shards and
  drains them per shard or in global order. \<^verbatim>\<open>usize\<close> is \<^typ>\<open>nat\<close>, except for the round-robin
  cursor, which wraps.
\<close>

unbundle bit_operations_syntax

section \<open>Placement\<close>

record topology_core =
  tp_core :: nat
  tp_numa :: nat

datatype fallback_reason = TopologyUnavailable | TopologyEmpty | SingleNumaNode

record shard_binding =
  sb_shard :: nat
  sb_core :: nat
  sb_numa :: nat

record placement =
  pm_shards :: nat
  pm_nodes :: nat
  pm_bindings :: "shard_binding list"
  pm_fallback :: "fallback_reason option"

definition from_core_node_pairs :: "(nat \<times> nat) list \<Rightarrow> topology_core list" where
  "from_core_node_pairs ps =
     map (\<lambda>(c, n). \<lparr>tp_core = c, tp_numa = n\<rparr>) (remdups_adj (sort ps))"

definition by_node :: "topology_core list \<Rightarrow> (nat, nat list) bmap" where
  "by_node cores =
     fold (\<lambda>c m. bm_put (tp_numa c)
            ((case bm_get m (tp_numa c) of None \<Rightarrow> [] | Some l \<Rightarrow> l) @ [tp_core c]) m) cores []"

definition node_cores :: "topology_core list \<Rightarrow> (nat \<times> nat list) list" where
  "node_cores cores =
     filter (\<lambda>(_, l). l \<noteq> []) (map (\<lambda>(n, l). (n, remdups_adj (sort l))) (by_node cores))"

definition flat_plan :: "nat \<Rightarrow> fallback_reason \<Rightarrow> placement" where
  "flat_plan n reason = \<lparr>pm_shards = n, pm_nodes = 1,
     pm_bindings = map (\<lambda>i. \<lparr>sb_shard = i, sb_core = i, sb_numa = 0\<rparr>) [0..<n],
     pm_fallback = Some reason\<rparr>"

definition plan :: "nat \<Rightarrow> topology_core list option \<Rightarrow> placement" where
  "plan n topology =
     (if n = 0 then \<lparr>pm_shards = 0, pm_nodes = 0, pm_bindings = [], pm_fallback = None\<rparr>
      else case topology of
        None \<Rightarrow> flat_plan n TopologyUnavailable
      | Some cores \<Rightarrow>
          if cores = [] then flat_plan n TopologyEmpty
          else let nodes = node_cores cores
               in if nodes = [] then flat_plan n TopologyEmpty
                  else \<lparr>pm_shards = n, pm_nodes = length nodes,
                        pm_bindings = map (\<lambda>i.
                          let (numa, cs) = nodes ! (i mod length nodes)
                          in \<lparr>sb_shard = i, sb_core = cs ! ((i div length nodes) mod length cs),
                              sb_numa = numa\<rparr>) [0..<n],
                        pm_fallback = (if length nodes = 1 then Some SingleNumaNode else None)\<rparr>)"

definition numa_node_for_shard :: "placement \<Rightarrow> nat \<Rightarrow> nat option" where
  "numa_node_for_shard p i =
     map_option sb_numa (List.find (\<lambda>b. sb_shard b = i) (pm_bindings p))"

datatype affinity = Advisory | Strict | AffinityDisabled

record affinity_advice =
  aa_shard :: nat
  aa_core :: nat
  aa_numa :: nat
  aa_enforcement :: affinity

definition affinity_of :: "placement \<Rightarrow> affinity \<Rightarrow> affinity_advice list" where
  "affinity_of p enf = map (\<lambda>b. \<lparr>aa_shard = sb_shard b, aa_core = sb_core b, aa_numa = sb_numa b,
     aa_enforcement = enf\<rparr>) (pm_bindings p)"

section \<open>Lanes\<close>

record 'a lane =
  ln_capacity :: nat
  ln_queue :: "'a list"
  ln_max_depth :: nat

definition lane_new :: "nat \<Rightarrow> 'a lane" where
  "lane_new c = \<lparr>ln_capacity = c, ln_queue = [], ln_max_depth = 0\<rparr>"

definition lane_push :: "'a \<Rightarrow> 'a lane \<Rightarrow> nat + 'a lane" where
  "lane_push x l =
     (if length (ln_queue l) \<ge> ln_capacity l then Inl (length (ln_queue l))
      else let q = ln_queue l @ [x]
           in Inr (l\<lparr>ln_queue := q, ln_max_depth := max (ln_max_depth l) (length q)\<rparr>))"

definition lane_pop :: "'a lane \<Rightarrow> ('a \<times> 'a lane) option" where
  "lane_pop l = (case ln_queue l of [] \<Rightarrow> None | x # q \<Rightarrow> Some (x, l\<lparr>ln_queue := q\<rparr>))"

section \<open>The mesh\<close>

record envelope =
  ev_global :: u64
  ev_shard_seq :: u64
  ev_shard :: nat
  ev_task :: macrotask_kind

record backpressure =
  bp_shard :: nat
  bp_depth :: nat
  bp_capacity :: nat

record mesh =
  ms_seq :: u64
  ms_lanes :: "envelope lane list"
  ms_shard_seq :: "u64 list"
  ms_rr :: u64
  ms_rejected :: u64
  ms_placement :: placement

definition mesh_new :: "nat \<Rightarrow> nat \<Rightarrow> topology_core list option \<Rightarrow> mesh" where
  "mesh_new shards capacity topology =
     (if shards = 0 \<or> capacity = 0
      then \<lparr>ms_seq = 0, ms_lanes = [], ms_shard_seq = [], ms_rr = 0, ms_rejected = 0,
            ms_placement = plan 0 topology\<rparr>
      else \<lparr>ms_seq = 0, ms_lanes = replicate shards (lane_new capacity),
            ms_shard_seq = replicate shards 0, ms_rr = 0, ms_rejected = 0,
            ms_placement = plan shards topology\<rparr>)"

definition total_depth :: "mesh \<Rightarrow> nat" where
  "total_depth m = sum_list (map (\<lambda>l. length (ln_queue l)) (ms_lanes m))"

definition queue_depth :: "mesh \<Rightarrow> nat \<Rightarrow> nat option" where
  "queue_depth m i =
     (if i < length (ms_lanes m) then Some (length (ln_queue (ms_lanes m ! i))) else None)"

definition next_global_seq :: "mesh \<Rightarrow> u64 \<times> mesh" where
  "next_global_seq m = (ms_seq m, m\<lparr>ms_seq := sat_inc (ms_seq m)\<rparr>)"

definition next_shard_seq :: "nat \<Rightarrow> mesh \<Rightarrow> u64 \<times> mesh" where
  "next_shard_seq i m =
     (if i < length (ms_shard_seq m)
      then (ms_shard_seq m ! i,
            m\<lparr>ms_shard_seq := (ms_shard_seq m)[i := sat_inc (ms_shard_seq m ! i)]\<rparr>)
      else (0, m))"

text \<open>\<^verbatim>\<open>as_bytes\<close>: UTF-8 of the alphabet.\<close>

definition stable_hash :: "string \<Rightarrow> u64" where
  "stable_hash t =
     fold (\<lambda>b h. (h XOR of_nat b) * 0x100000001b3) (utf8 t) 0xcbf29ce484222325"

definition hash_route :: "string \<Rightarrow> mesh \<Rightarrow> nat" where
  "hash_route call_id m =
     (if length (ms_lanes m) \<le> 1 then 0
      else let lanes = (if length (ms_lanes m) < 2 ^ 64 then of_nat (length (ms_lanes m)) else 1)
           in unat (stable_hash call_id mod lanes))"

definition rr_route :: "mesh \<Rightarrow> nat \<times> mesh" where
  "rr_route m =
     (if length (ms_lanes m) \<le> 1 then (0, m)
      else (unat (ms_rr m) mod length (ms_lanes m), m\<lparr>ms_rr := ms_rr m + 1\<rparr>))"

definition enqueue_with_route ::
  "nat \<Rightarrow> macrotask_kind \<Rightarrow> mesh \<Rightarrow> (backpressure + envelope) \<times> mesh" where
  "enqueue_with_route i task m =
     (let (g, m1) = next_global_seq m; (n, m2) = next_shard_seq i m1;
          e = \<lparr>ev_global = g, ev_shard_seq = n, ev_shard = i, ev_task = task\<rparr>;
          reject = (\<lambda>d c. (Inl \<lparr>bp_shard = i, bp_depth = d, bp_capacity = c\<rparr>,
                           m2\<lparr>ms_rejected := sat_inc (ms_rejected m2)\<rparr>))
      in if i < length (ms_lanes m2)
         then (case lane_push e (ms_lanes m2 ! i) of
                 Inr l \<Rightarrow> (Inr e, m2\<lparr>ms_lanes := (ms_lanes m2)[i := l]\<rparr>)
               | Inl d \<Rightarrow> reject d (ln_capacity (ms_lanes m2 ! i)))
         else reject 0 0)"

definition mesh_hostcall ::
  "string \<Rightarrow> hostcall_outcome \<Rightarrow> mesh \<Rightarrow> (backpressure + envelope) \<times> mesh" where
  "mesh_hostcall call_id out m =
     enqueue_with_route (hash_route call_id m) (HostcallComplete call_id out) m"

definition mesh_event ::
  "string \<Rightarrow> json \<Rightarrow> mesh \<Rightarrow> (backpressure + envelope) \<times> mesh" where
  "mesh_event event_id payload m =
     (let (i, m1) = rr_route m in enqueue_with_route i (InboundEvent event_id payload) m1)"

definition drain_shard :: "nat \<Rightarrow> nat \<Rightarrow> mesh \<Rightarrow> envelope list \<times> mesh" where
  "drain_shard i budget m =
     (if i < length (ms_lanes m)
      then let l = ms_lanes m ! i
           in (take budget (ln_queue l),
               m\<lparr>ms_lanes := (ms_lanes m)[i := l\<lparr>ln_queue := drop budget (ln_queue l)\<rparr>]\<rparr>)
      else ([], m))"

text \<open>The scan of \<^verbatim>\<open>drain_global_order\<close> for the lane whose front has the least global number.\<close>

fun best_lane :: "nat \<Rightarrow> (nat \<times> u64) option \<Rightarrow> envelope lane list \<Rightarrow> (nat \<times> u64) option" where
  "best_lane i best [] = best"
| "best_lane i best (l # ls) =
     best_lane (Suc i)
       (case ln_queue l of
          [] \<Rightarrow> best
        | e # _ \<Rightarrow>
            (case best of
               None \<Rightarrow> Some (i, ev_global e)
             | Some (_, seq) \<Rightarrow> if ev_global e < seq then Some (i, ev_global e) else best)) ls"

fun drain_global_order :: "nat \<Rightarrow> mesh \<Rightarrow> envelope list \<times> mesh" where
  "drain_global_order 0 m = ([], m)"
| "drain_global_order (Suc n) m =
     (case best_lane 0 None (ms_lanes m) of
        None \<Rightarrow> ([], m)
      | Some (i, _) \<Rightarrow>
          (case lane_pop (ms_lanes m ! i) of
             None \<Rightarrow> drain_global_order n m
           | Some (e, l) \<Rightarrow>
               (let (es, m') = drain_global_order n (m\<lparr>ms_lanes := (ms_lanes m)[i := l]\<rparr>)
                in (e # es, m'))))"

definition preferred_numa_node :: "mesh \<Rightarrow> nat \<Rightarrow> nat" where
  "preferred_numa_node m i =
     (case numa_node_for_shard (ms_placement m) i of Some n \<Rightarrow> n | None \<Rightarrow> 0)"

section \<open>Placement covers every shard on real cores\<close>

lemma set_remdups_adj_sort [simp]: "set (remdups_adj (sort l)) = set l"
  by simp

lemma by_node_inv:
  "bm_ok m \<Longrightarrow> (\<forall>(n, l) \<in> set m. l \<noteq> [] \<and> (\<forall>c \<in> set l. (c, n) \<in> S)) \<Longrightarrow>
   (\<forall>c \<in> set cores. (tp_core c, tp_numa c) \<in> S) \<Longrightarrow>
   m' = fold (\<lambda>c m. bm_put (tp_numa c)
      ((case bm_get m (tp_numa c) of None \<Rightarrow> [] | Some l \<Rightarrow> l) @ [tp_core c]) m) cores m \<Longrightarrow>
   bm_ok m' \<and> (\<forall>(n, l) \<in> set m'. l \<noteq> [] \<and> (\<forall>c \<in> set l. (c, n) \<in> S)) \<and>
   fst ` set m' = fst ` set m \<union> tp_numa ` set cores"
proof (induction cores arbitrary: m)
  case (Cons c cores)
  let ?l = "(case bm_get m (tp_numa c) of None \<Rightarrow> [] | Some l \<Rightarrow> l) @ [tp_core c]"
  let ?m1 = "bm_put (tp_numa c) ?l m"
  have ok: "bm_ok ?m1" using Cons.prems by simp
  have "\<forall>(n, l) \<in> set ?m1. l \<noteq> [] \<and> (\<forall>c \<in> set l. (c, n) \<in> S)"
  proof (clarify)
    fix n l assume "(n, l) \<in> set ?m1"
    then have "bm_get ?m1 n = Some l" by (rule iffD2 [OF bm_get_in [OF ok]])
    then show "l \<noteq> [] \<and> (\<forall>c \<in> set l. (c, n) \<in> S)"
      using Cons.prems(1-3) by (fastforce simp: bm_get_in split: if_splits option.splits)
  qed
  then show ?case
    using Cons.IH [OF ok] Cons.prems(3,4) by (auto simp: bm_keys_put)
qed auto

lemma by_node_spec:
  "bm_ok (by_node cores)"
  "(n, l) \<in> set (by_node cores) \<Longrightarrow>
     l \<noteq> [] \<and> (\<forall>c \<in> set l. \<lparr>tp_core = c, tp_numa = n\<rparr> \<in> set cores)"
  "fst ` set (by_node cores) = tp_numa ` set cores"
proof -
  note * = by_node_inv [of "[]" "{(c, n). \<lparr>tp_core = c, tp_numa = n\<rparr> \<in> set cores}" cores
      "by_node cores", OF bm_ok_Nil]
  have pre: "\<forall>c \<in> set cores. (tp_core c, tp_numa c) \<in> {(c, n). \<lparr>tp_core = c, tp_numa = n\<rparr> \<in> set cores}"
  proof
    fix c assume c: "c \<in> set cores"
    have eq: "\<lparr>tp_core = tp_core c, tp_numa = tp_numa c\<rparr> = c" by (cases c) simp
    show "(tp_core c, tp_numa c) \<in> {(c, n). \<lparr>tp_core = c, tp_numa = n\<rparr> \<in> set cores}"
      unfolding mem_Collect_eq case_prod_conv eq by (rule c)
  qed
  show "bm_ok (by_node cores)" "fst ` set (by_node cores) = tp_numa ` set cores"
    using * pre by (simp_all add: by_node_def)
  show "(n, l) \<in> set (by_node cores) \<Longrightarrow>
     l \<noteq> [] \<and> (\<forall>c \<in> set l. \<lparr>tp_core = c, tp_numa = n\<rparr> \<in> set cores)"
    using * pre by (fastforce simp: by_node_def)
qed

lemma node_cores_spec:
  assumes "(n, cs) \<in> set (node_cores cores)"
  shows "cs \<noteq> []" and "c \<in> set cs \<Longrightarrow> \<lparr>tp_core = c, tp_numa = n\<rparr> \<in> set cores"
  using assms by (auto simp: node_cores_def dest: by_node_spec(2))

lemma node_cores_fst: "map fst (node_cores cores) = map fst (by_node cores)"
proof -
  have "(\<lambda>(n, l). l \<noteq> []) x" if "x \<in> set (map (\<lambda>(n, l). (n, remdups_adj (sort l))) (by_node cores))" for x
    using that by (auto simp flip: set_empty dest: by_node_spec(2))
  then have "node_cores cores = map (\<lambda>(n, l). (n, remdups_adj (sort l))) (by_node cores)"
    unfolding node_cores_def by (intro filter_True) auto
  then show ?thesis by (simp add: case_prod_unfold o_def)
qed

lemma node_cores_nodes: "fst ` set (node_cores cores) = tp_numa ` set cores"
  by (metis node_cores_fst by_node_spec(3) list.set_map)

lemma node_cores_distinct: "distinct (map fst (node_cores cores))"
  by (simp add: node_cores_fst bm_ok_distinct by_node_spec(1))

text \<open>Placement. A plan for \<open>n\<close> shards on a known, nonempty topology binds the
  shards \<open>0 .. n - 1\<close>, each exactly once and in order, to a core that the topology has, on that
  core's own NUMA node; as many nodes are used as the topology has, and shards that are
  consecutive modulo that number go to different nodes (round robin).\<close>

theorem plan_binds_real_cores:
  assumes "0 < n" and "cores \<noteq> []"
  shows "map sb_shard (pm_bindings (plan n (Some cores))) = [0..<n] \<and>
    (\<forall>b \<in> set (pm_bindings (plan n (Some cores))).
       \<lparr>tp_core = sb_core b, tp_numa = sb_numa b\<rparr> \<in> set cores) \<and>
    pm_nodes (plan n (Some cores)) = card (tp_numa ` set cores) \<and>
    (\<forall>i < n. \<forall>j < n.
       sb_numa (pm_bindings (plan n (Some cores)) ! i) = sb_numa (pm_bindings (plan n (Some cores)) ! j) \<longleftrightarrow>
       i mod pm_nodes (plan n (Some cores)) = j mod pm_nodes (plan n (Some cores)))"
proof -
  let ?N = "node_cores cores"
  have ne: "?N \<noteq> []"
    using node_cores_nodes [of cores] assms(2) by (cases "?N") auto
  define bind where "bind i = (let (numa, cs) = ?N ! (i mod length ?N)
      in \<lparr>sb_shard = i, sb_core = cs ! ((i div length ?N) mod length cs), sb_numa = numa\<rparr>)" for i
  have bindings: "pm_bindings (plan n (Some cores)) = map bind [0..<n]"
    and nodes: "pm_nodes (plan n (Some cores)) = length ?N"
    using assms ne by (simp_all add: plan_def Let_def bind_def)
  have real: "\<lparr>tp_core = sb_core (bind i), tp_numa = sb_numa (bind i)\<rparr> \<in> set cores" for i
  proof -
    obtain numa cs where p: "?N ! (i mod length ?N) = (numa, cs)" by (metis surj_pair)
    have "(numa, cs) \<in> set ?N"
      using ne nth_mem [of "i mod length ?N" ?N] by (simp add: p)
    note spec = node_cores_spec [OF this]
    have "cs ! ((i div length ?N) mod length cs) \<in> set cs"
      using spec(1) by (intro nth_mem) simp
    then show ?thesis using spec(2) by (simp add: bind_def p)
  qed
  have numa: "sb_numa (bind i) = map fst ?N ! (i mod length ?N)" for i
    using ne by (simp add: bind_def case_prod_unfold Let_def)
  have "sb_numa (bind i) = sb_numa (bind j) \<longleftrightarrow> i mod length ?N = j mod length ?N" for i j
    unfolding numa using ne nth_eq_iff_index_eq [OF node_cores_distinct, of "i mod length ?N" cores
        "j mod length ?N"] by simp
  moreover have "length ?N = card (tp_numa ` set cores)"
    by (metis distinct_card length_map list.set_map node_cores_distinct node_cores_nodes)
  moreover have "map sb_shard (map bind [0..<n]) = [0..<n]"
    by (simp add: bind_def case_prod_unfold Let_def o_def)
  ultimately show ?thesis
    unfolding bindings nodes using real by simp
qed

theorem plan_binds_real_cores_witness:
  "map sb_core (pm_bindings (plan 3 (Some [\<lparr>tp_core = 4, tp_numa = 0\<rparr>, \<lparr>tp_core = 5, tp_numa = 1\<rparr>]))) =
     [4, 5, 4] \<and>
   pm_nodes (plan 3 (Some [\<lparr>tp_core = 4, tp_numa = 0\<rparr>, \<lparr>tp_core = 5, tp_numa = 1\<rparr>])) = 2"
  using plan_binds_real_cores [of 3 "[\<lparr>tp_core = 4, tp_numa = 0\<rparr>, \<lparr>tp_core = 5, tp_numa = 1\<rparr>]"]
  by (simp add: plan_def node_cores_def by_node_def eval_nat_numeral)

section \<open>A lane is a bounded queue\<close>

definition lane_ok :: "'a lane \<Rightarrow> bool" where
  "lane_ok l \<longleftrightarrow> length (ln_queue l) \<le> ln_max_depth l \<and> ln_max_depth l \<le> ln_capacity l"

definition lane_offer :: "'a \<Rightarrow> 'a lane \<Rightarrow> 'a lane option" where
  "lane_offer x l = (case lane_push x l of Inl _ \<Rightarrow> None | Inr l' \<Rightarrow> Some l')"

interpretation lane: fifo lane_offer lane_pop ln_queue "\<lambda>l. lane_ok l \<and> ln_capacity l = c" for c
  by unfold_locales
    (auto simp: lane_offer_def lane_push_def lane_pop_def lane_ok_def Let_def
      split: if_splits list.splits)

text \<open>A lane is a bounded first-in first-out queue. Whatever is pushed and popped,
  the elements accepted are those popped, in the same order, followed by those still in the lane;
  and neither the lane nor its recorded maximum ever exceeds the capacity.\<close>

theorem lane_is_bounded_fifo:
  assumes "fifo_run lane_offer lane_pop ops (lane_new c) = (accepted, popped, l)"
  shows "accepted = popped @ ln_queue l \<and> length (ln_queue l) \<le> ln_max_depth l \<and> ln_max_depth l \<le> c"
  using lane.run_elems [of "lane_new c" c ops accepted popped l] assms
  by (auto simp: lane_ok_def lane_new_def)

theorem lane_is_bounded_fifo_witness:
  "\<exists>l. fifo_run lane_offer lane_pop [Some 1, Some 2, Some (3 :: nat), None] (lane_new 2) = ([1, 2], [1], l) \<and>
     length (ln_queue l) \<le> 2"
proof -
  have "fifo_run lane_offer lane_pop [Some 1, Some 2, Some (3 :: nat), None] (lane_new 2) =
      ([1, 2], [1], \<lparr>ln_capacity = 2, ln_queue = [2], ln_max_depth = 2\<rparr>)"
    by (simp add: lane_offer_def lane_push_def lane_pop_def lane_new_def)
  from lane_is_bounded_fifo [OF this] this show ?thesis by auto
qed

section \<open>The mesh: invariant and global drain\<close>

definition pool :: "mesh \<Rightarrow> envelope list" where
  "pool m = concat (map ln_queue (ms_lanes m))"

text \<open>
  Each lane holds envelopes in the order of their global numbers, which are distinct and below the
  counter, as long as it has not saturated.
\<close>

definition mesh_ok :: "mesh \<Rightarrow> bool" where
  [wf_defs]: "mesh_ok m \<longleftrightarrow>
     list_all lane_ok (ms_lanes m) \<and> length (ms_shard_seq m) = length (ms_lanes m) \<and>
     (ms_seq m \<noteq> u64_max \<longrightarrow>
        (\<forall>l \<in> set (ms_lanes m). sorted_wrt (<) (map ev_global (ln_queue l))) \<and>
        distinct (map ev_global (pool m)) \<and> (\<forall>e \<in> set (pool m). ev_global e < ms_seq m))"

lemma mesh_new_ok [simp]: "mesh_ok (mesh_new n c t)"
  by (auto simp: mesh_new_def mesh_ok_def pool_def lane_ok_def lane_new_def list_all_iff)

lemma mset_concat_update:
  "i < length ls \<Longrightarrow>
     mset (concat (map f ls)) + mset (f l) = mset (concat (map f (ls[i := l]))) + mset (f (ls ! i))"
proof (induction ls arbitrary: i)
  case (Cons x ls)
  then show ?case by (cases i) auto
qed simp

lemma pool_update:
  assumes "i < length (ms_lanes m)"
  shows "mset (pool m) + mset (ln_queue l) =
    mset (pool (m\<lparr>ms_lanes := (ms_lanes m)[i := l]\<rparr>)) + mset (ln_queue (ms_lanes m ! i))"
  using mset_concat_update [OF assms, of ln_queue l] by (simp add: pool_def)

lemma best_lane_None: "best_lane i best ls = None \<longleftrightarrow> best = None \<and> (\<forall>l \<in> set ls. ln_queue l = [])"
  by (induction ls arbitrary: i best) (auto split: list.splits option.splits)

lemma best_lane_Some:
  "best_lane i best ls = Some (j, s) \<Longrightarrow>
     (best = Some (j, s) \<or>
      i \<le> j \<and> j < i + length ls \<and> ln_queue (ls ! (j - i)) \<noteq> [] \<and> s = ev_global (hd (ln_queue (ls ! (j - i))))) \<and>
     (\<forall>k s0. best = Some (k, s0) \<longrightarrow> s \<le> s0) \<and>
     (\<forall>l \<in> set ls. ln_queue l \<noteq> [] \<longrightarrow> s \<le> ev_global (hd (ln_queue l)))"
proof (induction ls arbitrary: i best)
  case (Cons l ls)
  define best' where "best' = (case ln_queue l of [] \<Rightarrow> best
    | e # _ \<Rightarrow> (case best of None \<Rightarrow> Some (i, ev_global e)
        | Some (_, seq) \<Rightarrow> if ev_global e < seq then Some (i, ev_global e) else best))"
  have cases: "best' = best \<or> ln_queue l \<noteq> [] \<and> best' = Some (i, ev_global (hd (ln_queue l)))"
    by (auto simp: best'_def split: list.splits option.splits)
  have le: "\<exists>k s1. best' = Some (k, s1) \<and> s1 \<le> s0" if "best = Some (k0, s0)" for k0 s0
    using that by (auto simp: best'_def split: list.splits)
  have le': "\<exists>k s1. best' = Some (k, s1) \<and> s1 \<le> ev_global (hd (ln_queue l))" if "ln_queue l \<noteq> []"
    using that by (auto simp: best'_def not_less split: list.splits option.splits)
  have "best_lane (Suc i) best' ls = Some (j, s)"
    using Cons.prems by (simp add: best'_def)
  note IH = Cons.IH [OF this]
  have bound: "s \<le> s1" if "best' = Some (k, s1)" for k s1 using IH that by blast
  have "s \<le> s0" if b: "best = Some (k, s0)" for k s0
  proof -
    obtain k' s1 where "best' = Some (k', s1)" "s1 \<le> s0" using le [OF b] by blast
    with bound [of k' s1] show ?thesis by simp
  qed
  moreover have "s \<le> ev_global (hd (ln_queue l))" if b: "ln_queue l \<noteq> []"
  proof -
    obtain k' s1 where "best' = Some (k', s1)" "s1 \<le> ev_global (hd (ln_queue l))"
      using le' [OF b] by blast
    with bound [of k' s1] show ?thesis by simp
  qed
  moreover have "best = Some (j, s) \<or> i \<le> j \<and> j < i + length (l # ls) \<and>
      ln_queue ((l # ls) ! (j - i)) \<noteq> [] \<and> s = ev_global (hd (ln_queue ((l # ls) ! (j - i))))"
    using IH cases by (auto simp: nth_Cons' Suc_le_eq)
  ultimately show ?case using IH by simp
qed simp

lemma best_lane_front:
  assumes ok: "mesh_ok m" and room: "ms_seq m \<noteq> u64_max"
    and best: "best_lane 0 None (ms_lanes m) = Some (i, s)"
  obtains e q where "i < length (ms_lanes m)" "ln_queue (ms_lanes m ! i) = e # q"
    "\<And>x. x \<in> set (pool m) \<Longrightarrow> ev_global e \<le> ev_global x"
proof -
  from best_lane_Some [OF best] have i: "i < length (ms_lanes m)" "ln_queue (ms_lanes m ! i) \<noteq> []"
    "s = ev_global (hd (ln_queue (ms_lanes m ! i)))"
    and least: "\<And>l. l \<in> set (ms_lanes m) \<Longrightarrow> ln_queue l \<noteq> [] \<Longrightarrow> s \<le> ev_global (hd (ln_queue l))"
    by auto
  have "s \<le> ev_global x" if x: "x \<in> set (pool m)" for x
  proof -
    obtain l where l: "l \<in> set (ms_lanes m)" "x \<in> set (ln_queue l)"
      using x by (auto simp: pool_def)
    then obtain f r where fr: "ln_queue l = f # r" by (cases "ln_queue l") auto
    then have "ev_global f \<le> ev_global x"
      using ok room l by (auto simp: mesh_ok_def less_imp_le)
    then show ?thesis using least [OF l(1)] fr by force
  qed
  then show thesis
    using that i by (cases "ln_queue (ms_lanes m ! i)") auto
qed

lemma mesh_ok_pop:
  assumes ok: "mesh_ok m" and i: "i < length (ms_lanes m)" and q: "ln_queue (ms_lanes m ! i) = e # q"
  defines "m' \<equiv> m\<lparr>ms_lanes := (ms_lanes m)[i := (ms_lanes m ! i)\<lparr>ln_queue := q\<rparr>]\<rparr>"
  shows "mesh_ok m'" and "mset (pool m) = add_mset e (mset (pool m'))"
proof -
  show ms: "mset (pool m) = add_mset e (mset (pool m'))"
    using pool_update [OF i, of "(ms_lanes m ! i)\<lparr>ln_queue := q\<rparr>"] q by (simp add: m'_def)
  then have set: "set (pool m) = insert e (set (pool m'))"
    by (metis set_mset_add_mset_insert set_mset_mset)
  have dist: "distinct (map ev_global (pool m))" if "ms_seq m \<noteq> u64_max"
    using ok that by (simp add: mesh_ok_def)
  have "mset (map ev_global (pool m)) = mset (ev_global e # map ev_global (pool m'))"
    using ms by simp
  from mset_eq_imp_distinct_iff [OF this]
  have dist': "distinct (map ev_global (pool m'))" if "ms_seq m \<noteq> u64_max"
    using dist [OF that] by simp
  have l: "ms_lanes m ! i \<in> set (ms_lanes m)" using i by simp
  then have "lane_ok ((ms_lanes m ! i)\<lparr>ln_queue := q\<rparr>)"
    using ok q by (auto simp: mesh_ok_def list_all_iff lane_ok_def)
  moreover have "sorted_wrt (<) (map ev_global q)" if "ms_seq m \<noteq> u64_max"
  proof -
    have "sorted_wrt (<) (map ev_global (e # q))"
      using ok that l q unfolding mesh_ok_def by metis
    then show ?thesis by simp
  qed
  ultimately show "mesh_ok m'"
    using ok dist' set unfolding mesh_ok_def m'_def
    by (auto simp: list_all_iff dest!: set_update_subset_insert [THEN subsetD])
qed

lemma drain_global_order_spec:
  "mesh_ok m \<Longrightarrow> ms_seq m \<noteq> u64_max \<Longrightarrow> drain_global_order n m = (es, m') \<Longrightarrow>
     mesh_ok m' \<and> ms_seq m' = ms_seq m \<and> mset (pool m) = mset es + mset (pool m') \<and>
     sorted_wrt (<) (map ev_global es) \<and>
     (\<forall>e \<in> set es. \<forall>x \<in> set (pool m'). ev_global e < ev_global x) \<and>
     length es = min n (length (pool m))"
proof (induction n arbitrary: m es)
  case (Suc n)
  show ?case
  proof (cases "best_lane 0 None (ms_lanes m)")
    case None
    then have "pool m = []" by (simp add: best_lane_None pool_def)
    then show ?thesis using Suc.prems None by simp
  next
    case (Some p)
    obtain i s where p: "p = (i, s)" by (cases p)
    obtain e q where f: "i < length (ms_lanes m)" "ln_queue (ms_lanes m ! i) = e # q"
      "\<And>x. x \<in> set (pool m) \<Longrightarrow> ev_global e \<le> ev_global x"
      using best_lane_front [OF Suc.prems(1,2)] Some p by metis
    define m1 where "m1 = m\<lparr>ms_lanes := (ms_lanes m)[i := (ms_lanes m ! i)\<lparr>ln_queue := q\<rparr>]\<rparr>"
    note pop = mesh_ok_pop [OF Suc.prems(1) f(1,2), folded m1_def]
    have seq: "ms_seq m1 = ms_seq m" by (simp add: m1_def)
    obtain es1 where es1: "drain_global_order n m1 = (es1, m')" "es = e # es1"
      using Suc.prems(3) Some p f(2) by (auto simp: lane_pop_def m1_def split: prod.splits)
    note IH = Suc.IH [OF pop(1) _ es1(1), unfolded seq, OF Suc.prems(2)]
    have "distinct (map ev_global (pool m))"
      using Suc.prems(1,2) by (simp add: mesh_ok_def)
    then have "ev_global e \<notin> ev_global ` set (pool m1)"
      using pop(2) by (metis distinct.simps(2) list.simps(9) list.set_map mset.simps(2) mset_map
          mset_eq_imp_distinct_iff)
    moreover have sub: "set (pool m1) \<subseteq> set (pool m)"
      using pop(2) by (metis set_mset_mset set_mset_add_mset_insert subset_insertI)
    ultimately have less: "ev_global e < ev_global x" if "x \<in> set (pool m1)" for x
      using f(3) that by (metis image_eqI order_le_imp_less_or_eq subsetD)
    have parts: "set es1 \<subseteq> set (pool m1)" "set (pool m') \<subseteq> set (pool m1)"
      using IH by (metis set_mset_mset set_mset_union sup_ge1, metis set_mset_mset set_mset_union sup_ge2)
    have "length (pool m) = Suc (length (pool m1))"
      using pop(2) by (metis size_add_mset size_mset)
    then show ?thesis
      using IH pop(2) less parts es1(2) by auto
  qed
qed simp

text \<open>C40 (functional): the global drain. While the counter has not saturated,
  \<^verbatim>\<open>drain_global_order\<close> with a budget returns the envelopes with the smallest global numbers across
  all lanes, in increasing order, exactly as many as the budget and the backlog allow; everything
  else stays queued.\<close>

theorem drain_global_order_least:
  assumes "mesh_ok m" and "ms_seq m \<noteq> u64_max" and "drain_global_order n m = (es, m')"
  shows "sorted_wrt (<) (map ev_global es) \<and> length es = min n (length (pool m)) \<and>
    mset (pool m) = mset es + mset (pool m') \<and> mesh_ok m' \<and>
    (\<forall>e \<in> set es. \<forall>x \<in> set (pool m'). ev_global e < ev_global x)"
  using drain_global_order_spec [OF assms] by blast

definition sample_mesh :: mesh where
  "sample_mesh = snd (mesh_event ''b'' JNull (snd (mesh_event ''a'' JNull (mesh_new 2 4 None))))"

lemma replicate_2: "replicate 2 x = [x, x]"
  by (simp add: numeral_2_eq_2)

theorem drain_global_order_least_witness:
  "sorted_wrt (<) (map ev_global (fst (drain_global_order 1 sample_mesh))) \<and>
   length (fst (drain_global_order 1 sample_mesh)) = 1"
proof -
  have m: "sample_mesh = \<lparr>ms_seq = 2,
      ms_lanes = [\<lparr>ln_capacity = 4, ln_queue = [\<lparr>ev_global = 0, ev_shard_seq = 0, ev_shard = 0,
                     ev_task = InboundEvent ''a'' JNull\<rparr>], ln_max_depth = 1\<rparr>,
                  \<lparr>ln_capacity = 4, ln_queue = [\<lparr>ev_global = 1, ev_shard_seq = 0, ev_shard = 1,
                     ev_task = InboundEvent ''b'' JNull\<rparr>], ln_max_depth = 1\<rparr>],
      ms_shard_seq = [1, 1], ms_rr = 2, ms_rejected = 0, ms_placement = plan 2 None\<rparr>"
    by (simp add: sample_mesh_def mesh_event_def mesh_new_def rr_route_def enqueue_with_route_def
        next_global_seq_def next_shard_seq_def lane_push_def lane_new_def sat_inc_def sat_add_def
        Let_def replicate_2)
  have "mesh_ok sample_mesh" "ms_seq sample_mesh \<noteq> u64_max" "length (pool sample_mesh) = 2"
    unfolding m by (auto simp: mesh_ok_def pool_def lane_ok_def)
  then show ?thesis
    using drain_global_order_least [of sample_mesh 1] by (metis min_def one_le_numeral prod.collapse)
qed

section \<open>Nothing is lost in the mesh\<close>

lemma lane_push_Inr:
  "lane_push e l = Inr l' \<Longrightarrow> ln_queue l' = ln_queue l @ [e] \<and> (lane_ok l \<longrightarrow> lane_ok l')"
  by (auto simp: lane_push_def lane_ok_def Let_def split: if_splits)

lemma mesh_ok_rejected [simp]: "mesh_ok (m\<lparr>ms_rejected := n\<rparr>) = mesh_ok m"
  "mesh_ok (m\<lparr>ms_rr := c\<rparr>) = mesh_ok m" "pool (m\<lparr>ms_rejected := n\<rparr>) = pool m"
  "pool (m\<lparr>ms_rr := c\<rparr>) = pool m"
  by (simp_all add: mesh_ok_def pool_def)

lemma mesh_ok_draw:
  assumes "mesh_ok m"
  shows "mesh_ok (m\<lparr>ms_seq := sat_inc (ms_seq m), ms_shard_seq := ss\<rparr>) \<longleftrightarrow> length ss = length (ms_lanes m)"
proof -
  have "mesh_ok (m\<lparr>ms_seq := sat_inc (ms_seq m), ms_shard_seq := ss\<rparr>)" if "length ss = length (ms_lanes m)"
    using assms that less_sat_inc_trans sat_inc_less' [of "ms_seq m"]
    by (auto simp: mesh_ok_def pool_def)
  then show ?thesis by (auto simp: mesh_ok_def)
qed

lemma mesh_ok_push:
  assumes ok: "mesh_ok m" and i: "i < length (ms_lanes m)"
    and push: "lane_push e (ms_lanes m ! i) = Inr l" and e: "ev_global e = ms_seq m"
    and ss: "length ss = length (ms_lanes m)"
  defines "m' \<equiv> m\<lparr>ms_seq := sat_inc (ms_seq m), ms_shard_seq := ss, ms_lanes := (ms_lanes m)[i := l]\<rparr>"
  shows "mesh_ok m'" and "mset (pool m') = add_mset e (mset (pool m))"
proof -
  note l = lane_push_Inr [OF push]
  have lm: "ms_lanes m ! i \<in> set (ms_lanes m)" using i by simp
  show ms: "mset (pool m') = add_mset e (mset (pool m))"
    using mset_concat_update [OF i, of ln_queue l] l by (simp add: m'_def pool_def)
  then have set: "set (pool m') = insert e (set (pool m))"
    by (metis set_mset_add_mset_insert set_mset_mset)
  have lanes: "list_all lane_ok (ms_lanes m')"
    using ok l lm
    by (auto simp: m'_def mesh_ok_def list_all_iff dest!: set_update_subset_insert [THEN subsetD])
  show "mesh_ok m'"
  proof (cases "sat_inc (ms_seq m) = u64_max")
    case True
    then show ?thesis using lanes ss by (simp add: mesh_ok_def m'_def)
  next
    case False
    then have room: "ms_seq m \<noteq> u64_max" and less: "ms_seq m < sat_inc (ms_seq m)"
      using sat_inc_less' by auto
    have below: "ev_global x < ms_seq m" if "x \<in> set (pool m)" for x
      using ok room that by (simp add: mesh_ok_def)
    have sub: "set (ln_queue k) \<subseteq> set (pool m)" if "k \<in> set (ms_lanes m)" for k
      using that by (auto simp: pool_def)
    have "sorted_wrt (<) (map ev_global (ln_queue l))"
      using l e ok room lm below sub [OF lm]
      by (auto simp: mesh_ok_def sorted_wrt_append)
    then have "\<forall>k \<in> set (ms_lanes m'). sorted_wrt (<) (map ev_global (ln_queue k))"
      using ok room by (auto simp: m'_def mesh_ok_def dest!: set_update_subset_insert [THEN subsetD])
    moreover have "distinct (map ev_global (pool m'))"
    proof -
      have "mset (map ev_global (pool m')) = mset (ev_global e # map ev_global (pool m))"
        using ms by simp
      moreover have "ev_global e \<notin> ev_global ` set (pool m)" using below e by fastforce
      ultimately show ?thesis
        using ok room mset_eq_imp_distinct_iff [of "map ev_global (pool m')"
            "ev_global e # map ev_global (pool m)"] by (simp add: mesh_ok_def)
    qed
    moreover have "\<forall>x \<in> set (pool m'). ev_global x < ms_seq m'"
      using set e below less by (auto simp: m'_def intro: less_trans)
    ultimately show ?thesis
      using lanes ss unfolding mesh_ok_def by (simp add: m'_def)
  qed
qed

lemma enqueue_with_route_spec:
  assumes ok: "mesh_ok m" and run: "enqueue_with_route i task m = (r, m')"
  shows "mesh_ok m' \<and>
    (case r of
       Inr e \<Rightarrow> mset (pool m') = add_mset e (mset (pool m)) \<and> ms_rejected m' = ms_rejected m
     | Inl b \<Rightarrow> pool m' = pool m \<and> ms_rejected m' = sat_inc (ms_rejected m) \<and>
         (\<exists>l. i < length (ms_lanes m) \<longrightarrow> l = ms_lanes m ! i \<and> length (ln_queue l) \<ge> ln_capacity l))"
proof -
  define n where "n = fst (next_shard_seq i m)"
  define ss where "ss = ms_shard_seq (snd (next_shard_seq i m))"
  have len: "length ss = length (ms_lanes m)"
    using ok by (simp add: ss_def next_shard_seq_def mesh_ok_def)
  have draw: "next_shard_seq i (m\<lparr>ms_seq := sat_inc (ms_seq m)\<rparr>) =
      (n, m\<lparr>ms_seq := sat_inc (ms_seq m), ms_shard_seq := ss\<rparr>)"
    by (simp add: next_shard_seq_def n_def ss_def)
  let ?m2 = "m\<lparr>ms_seq := sat_inc (ms_seq m), ms_shard_seq := ss\<rparr>"
  let ?e = "\<lparr>ev_global = ms_seq m, ev_shard_seq = n, ev_shard = i, ev_task = task\<rparr>"
  have ok2: "mesh_ok ?m2" using mesh_ok_draw [OF ok] len by simp
  have pool2: "pool ?m2 = pool m" by (simp add: pool_def)
  show ?thesis
  proof (cases "\<exists>l. i < length (ms_lanes m) \<and> lane_push ?e (ms_lanes m ! i) = Inr l")
    case True
    then obtain l where l: "i < length (ms_lanes m)" "lane_push ?e (ms_lanes m ! i) = Inr l" by blast
    from mesh_ok_push [OF ok l _ len] l run show ?thesis
      by (auto simp: enqueue_with_route_def next_global_seq_def draw Let_def)
  next
    case False
    then have "m' = ?m2\<lparr>ms_rejected := sat_inc (ms_rejected m)\<rparr>" "\<exists>b. r = Inl b"
      using run
      by (auto simp: enqueue_with_route_def next_global_seq_def draw Let_def split: if_splits sum.splits)
    moreover have "i < length (ms_lanes m) \<Longrightarrow>
        length (ln_queue (ms_lanes m ! i)) \<ge> ln_capacity (ms_lanes m ! i)"
      using False by (auto simp: lane_push_def Let_def split: if_splits)
    ultimately show ?thesis using ok2 pool2 by auto
  qed
qed

lemma drain_shard_spec:
  assumes ok: "mesh_ok m" and run: "drain_shard i b m = (es, m')"
  shows "mesh_ok m' \<and> mset (pool m) = mset es + mset (pool m') \<and> ms_rejected m' = ms_rejected m"
proof (cases "i < length (ms_lanes m)")
  case False
  then show ?thesis using assms by (simp add: drain_shard_def)
next
  case True
  let ?l = "ms_lanes m ! i"
  let ?l' = "?l\<lparr>ln_queue := drop b (ln_queue ?l)\<rparr>"
  have m': "m' = m\<lparr>ms_lanes := (ms_lanes m)[i := ?l']\<rparr>" "es = take b (ln_queue ?l)"
    using run True by (simp_all add: drain_shard_def Let_def)
  have lm: "?l \<in> set (ms_lanes m)" using True by simp
  have "mset (pool m) + mset (drop b (ln_queue ?l)) = mset (pool m') + mset (ln_queue ?l)"
    using pool_update [OF True, of ?l'] m' by simp
  also have "mset (ln_queue ?l) = mset es + mset (drop b (ln_queue ?l))"
    unfolding m'(2) by (simp flip: mset_append)
  finally have ms: "mset (pool m) = mset (pool m') + mset es" by simp
  then have "mset (map ev_global (pool m)) = mset (map ev_global (pool m' @ es))"
    by simp
  from mset_eq_imp_distinct_iff [OF this]
  have dist: "distinct (map ev_global (pool m')) \<and> set (pool m') \<subseteq> set (pool m)" if "ms_seq m \<noteq> u64_max"
    using ok that ms by (metis distinct_append map_append mesh_ok_def set_mset_mset
        set_mset_union sup_ge1)
  have "sorted_wrt (<) (map ev_global (drop b (ln_queue ?l)))" if "ms_seq m \<noteq> u64_max"
    using ok that lm by (simp add: mesh_ok_def drop_map [symmetric] sorted_wrt_drop)
  moreover have "lane_ok ?l'" using ok lm by (auto simp: mesh_ok_def list_all_iff lane_ok_def)
  ultimately have "mesh_ok m'"
    using ok dist unfolding mesh_ok_def m'(1)
    by (auto simp: list_all_iff dest!: set_update_subset_insert [THEN subsetD])
  then show ?thesis using ms m' by (simp add: union_commute)
qed

datatype mesh_op =
    MeshHostcall string hostcall_outcome
  | MeshEvent string json
  | DrainShard nat nat
  | DrainGlobal nat

text \<open>A run of the mesh: envelopes accepted, envelopes drained, enqueues refused, the mesh.\<close>

definition mesh_report ::
  "(backpressure + envelope) \<times> mesh \<Rightarrow> envelope list \<times> envelope list \<times> nat \<times> mesh" where
  "mesh_report x = (case x of (Inr e, m) \<Rightarrow> ([e], [], 0, m) | (Inl _, m) \<Rightarrow> ([], [], 1, m))"

fun mesh_step :: "mesh_op \<Rightarrow> mesh \<Rightarrow> envelope list \<times> envelope list \<times> nat \<times> mesh" where
  "mesh_step (MeshHostcall c r) m = mesh_report (mesh_hostcall c r m)"
| "mesh_step (MeshEvent i p) m = mesh_report (mesh_event i p m)"
| "mesh_step (DrainShard i b) m = (case drain_shard i b m of (es, m1) \<Rightarrow> ([], es, 0, m1))"
| "mesh_step (DrainGlobal b) m = (case drain_global_order b m of (es, m1) \<Rightarrow> ([], es, 0, m1))"

fun mesh_run :: "mesh_op list \<Rightarrow> mesh \<Rightarrow> envelope list \<times> envelope list \<times> nat \<times> mesh" where
  "mesh_run [] m = ([], [], 0, m)"
| "mesh_run (op # ops) m =
     (let (new, out, refused, m1) = mesh_step op m; (news, outs, refuseds, m2) = mesh_run ops m1
      in (new @ news, out @ outs, refused + refuseds, m2))"

lemma drain_global_conserves:
  "mesh_ok m \<Longrightarrow> drain_global_order n m = (es, m') \<Longrightarrow>
     mesh_ok m' \<and> mset (pool m) = mset es + mset (pool m') \<and> ms_rejected m' = ms_rejected m"
proof (induction n arbitrary: m es)
  case (Suc n)
  show ?case
  proof (cases "best_lane 0 None (ms_lanes m)")
    case None
    then show ?thesis using Suc.prems by simp
  next
    case (Some p)
    obtain i s where p: "p = (i, s)" by (cases p)
    from best_lane_Some [of 0 None "ms_lanes m" i s] Some p
    have i: "i < length (ms_lanes m)" "ln_queue (ms_lanes m ! i) \<noteq> []" by auto
    then obtain e q where q: "ln_queue (ms_lanes m ! i) = e # q"
      by (cases "ln_queue (ms_lanes m ! i)") auto
    let ?m1 = "m\<lparr>ms_lanes := (ms_lanes m)[i := (ms_lanes m ! i)\<lparr>ln_queue := q\<rparr>]\<rparr>"
    obtain es1 where es1: "drain_global_order n ?m1 = (es1, m')" "es = e # es1"
      using Suc.prems Some p q by (auto simp: lane_pop_def split: prod.splits)
    then show ?thesis
      using Suc.IH [OF _ es1(1)] mesh_ok_pop [OF Suc.prems(1) i(1) q] by simp
  qed
qed simp

lemma mesh_run_conserves:
  "mesh_ok m \<Longrightarrow> mesh_run ops m = (acc, out, refused, m') \<Longrightarrow>
     mesh_ok m' \<and> mset (pool m) + mset acc = mset out + mset (pool m') \<and>
     unat (ms_rejected m') = min (unat (ms_rejected m) + refused) (2 ^ 64 - 1)"
proof (induction ops arbitrary: m acc out refused)
  case Nil
  then show ?case using unat_le_u64_max [of "ms_rejected m"] by (simp add: min_def)
next
  case (Cons op ops)
  obtain new out1 refused1 m1 where 1: "mesh_step op m = (new, out1, refused1, m1)"
    by (cases "mesh_step op m")
  obtain acc2 out2 refused2 where 2: "mesh_run ops m1 = (acc2, out2, refused2, m')"
    "acc = new @ acc2" "out = out1 @ out2" "refused = refused1 + refused2"
    using Cons.prems(2) 1 by (auto split: prod.splits)
  have route: "mesh_ok m1 \<and> mset (pool m) + mset new = mset out1 + mset (pool m1) \<and>
      unat (ms_rejected m1) = min (unat (ms_rejected m) + refused1) (2 ^ 64 - 1)"
    if "mesh_ok m0" "pool m0 = pool m" "ms_rejected m0 = ms_rejected m"
      "mesh_report (enqueue_with_route i t m0) = (new, out1, refused1, m1)"
    for i t m0
  proof -
    obtain r m2 where r: "enqueue_with_route i t m0 = (r, m2)" by (metis surj_pair)
    from enqueue_with_route_spec [OF that(1) r] that r show ?thesis
      using unat_le_u64_max [of "ms_rejected m"]
      by (cases r) (auto simp: mesh_report_def unat_sat_inc min_def)
  qed
  have step: "mesh_ok m1 \<and> mset (pool m) + mset new = mset out1 + mset (pool m1) \<and>
      unat (ms_rejected m1) = min (unat (ms_rejected m) + refused1) (2 ^ 64 - 1)"
  proof (cases op)
    case (MeshHostcall c r)
    then show ?thesis using route [of m] Cons.prems(1) 1 by (simp add: mesh_hostcall_def)
  next
    case (MeshEvent i p)
    have "mesh_ok (snd (rr_route m))" "pool (snd (rr_route m)) = pool m"
      "ms_rejected (snd (rr_route m)) = ms_rejected m"
      using Cons.prems(1) by (auto simp: rr_route_def)
    then show ?thesis using route [of "snd (rr_route m)"] MeshEvent 1
      by (simp add: mesh_event_def case_prod_unfold Let_def)
  next
    case (DrainShard i b)
    then show ?thesis
      using 1 drain_shard_spec [OF Cons.prems(1), of i b] unat_le_u64_max [of "ms_rejected m"]
      by (auto simp: min_def split: prod.splits)
  next
    case (DrainGlobal b)
    then show ?thesis
      using 1 drain_global_conserves [OF Cons.prems(1), of b] unat_le_u64_max [of "ms_rejected m"]
      by (auto simp: min_def split: prod.splits)
  qed
  then have rest: "mesh_ok m'" "mset (pool m1) + mset acc2 = mset out2 + mset (pool m')"
    "unat (ms_rejected m') = min (unat (ms_rejected m1) + refused2) (2 ^ 64 - 1)"
    using Cons.IH [OF _ 2(1)] by blast+
  have "mset (pool m) + mset acc = (mset out1 + mset (pool m1)) + mset acc2"
    using step 2(2) by (simp add: add.assoc [symmetric])
  also have "\<dots> = mset out + mset (pool m')"
    using rest(2) 2(3) by (simp add: add.assoc)
  finally have "mset (pool m) + mset acc = mset out + mset (pool m')" .
  moreover have "unat (ms_rejected m') = min (unat (ms_rejected m) + refused) (2 ^ 64 - 1)"
    using rest(3) step 2(4) by (simp add: min_def)
  ultimately show ?case using rest(1) by simp
qed

text \<open>Nothing is lost in the mesh. For every sequence of completions, events and
  drains, the envelopes accepted are, with multiplicity, those drained and those still queued; the
  refused ones are counted (up to saturation of the 64-bit counter); and no lane ever holds more
  than its capacity.\<close>

theorem mesh_conserves_envelopes:
  assumes "mesh_run ops (mesh_new shards capacity topology) = (accepted, drained, refused, m)"
  shows "mset accepted = mset drained + mset (pool m) \<and>
    unat (ms_rejected m) = min refused (2 ^ 64 - 1) \<and>
    (\<forall>l \<in> set (ms_lanes m). length (ln_queue l) \<le> ln_capacity l)"
proof -
  have "pool (mesh_new shards capacity topology) = []" "ms_rejected (mesh_new shards capacity topology) = 0"
    by (auto simp: mesh_new_def pool_def lane_new_def)
  then show ?thesis
    using mesh_run_conserves [OF mesh_new_ok assms]
    by (auto simp: mesh_ok_def list_all_iff lane_ok_def)
qed

theorem mesh_conserves_envelopes_witness:
  "\<exists>accepted drained m. mesh_run [MeshEvent ''a'' JNull, MeshEvent ''b'' JNull, DrainGlobal 1]
      (mesh_new 1 1 None) = (accepted, drained, 1, m) \<and>
     mset accepted = mset drained + mset (pool m) \<and> ms_rejected m = 1"
proof -
  let ?e = "\<lparr>ev_global = 0, ev_shard_seq = 0, ev_shard = 0, ev_task = InboundEvent ''a'' JNull\<rparr>"
  have "mesh_run [MeshEvent ''a'' JNull, MeshEvent ''b'' JNull, DrainGlobal 1] (mesh_new 1 1 None) =
     ([?e], [?e], 1, \<lparr>ms_seq = 2, ms_lanes = [\<lparr>ln_capacity = 1, ln_queue = [], ln_max_depth = 1\<rparr>],
        ms_shard_seq = [2], ms_rr = 0, ms_rejected = 1, ms_placement = plan 1 None\<rparr>)"
    by (simp add: mesh_event_def mesh_new_def rr_route_def enqueue_with_route_def
        next_global_seq_def next_shard_seq_def lane_push_def lane_pop_def lane_new_def mesh_report_def
        sat_inc_def sat_add_def Let_def)
  from mesh_conserves_envelopes [OF this] this show ?thesis by auto
qed

end
