(* ===== verification/Numa_Slab.thy ===== *)
theory Numa_Slab
  imports Reactor
begin

text \<open>
  \<^verbatim>\<open>scheduler.rs\<close>, third part: the NUMA-aware slab pool. A slab hands out slots as handles with a
  generation; a handle frees its slot only while the slot's generation is its own. The size
  arithmetic of \<^verbatim>\<open>checked_mul\<close> is written out for a 64-bit \<^verbatim>\<open>usize\<close>.
\<close>

section \<open>Huge pages\<close>

record hugepage_config =
  hc_page_size :: nat
  hc_enabled :: bool

datatype hugepage_fallback =
    HugepageDisabled | DetectionUnavailable | InsufficientHugepages | AlignmentMismatch

record hugepage_status =
  hs_total :: u64
  hs_free :: u64
  hs_page_size :: nat
  hs_active :: bool
  hs_fallback :: "hugepage_fallback option"

definition hugepage_evaluate :: "hugepage_config \<Rightarrow> u64 \<Rightarrow> u64 \<Rightarrow> hugepage_status" where
  "hugepage_evaluate c tot free =
     (let inactive = (\<lambda>t f r. \<lparr>hs_total = t, hs_free = f, hs_page_size = hc_page_size c,
                               hs_active = False, hs_fallback = Some r\<rparr>)
      in if \<not> hc_enabled c then inactive tot free HugepageDisabled
         else if tot = 0 \<and> free = 0 then inactive 0 0 DetectionUnavailable
         else if free = 0 then inactive tot 0 InsufficientHugepages
         else \<lparr>hs_total = tot, hs_free = free, hs_page_size = hc_page_size c,
               hs_active = True, hs_fallback = None\<rparr>)"

record slab_config =
  nc_capacity :: nat
  nc_entry_size :: nat
  nc_hugepage :: hugepage_config

definition slab_footprint :: "slab_config \<Rightarrow> nat option" where
  "slab_footprint c =
     (let n = nc_capacity c * nc_entry_size c in if n < 2 ^ 64 then Some n else None)"

definition alignment_ok :: "slab_config \<Rightarrow> bool" where
  "alignment_ok c =
     (if \<not> hc_enabled (nc_hugepage c) then True
      else if hc_page_size (nc_hugepage c) = 0 then False
      else case slab_footprint c of
        Some b \<Rightarrow> b \<noteq> 0 \<and> b mod hc_page_size (nc_hugepage c) = 0 | None \<Rightarrow> False)"

definition alignment_mismatch :: "slab_config \<Rightarrow> hugepage_status" where
  "alignment_mismatch c = \<lparr>hs_total = 0, hs_free = 0, hs_page_size = hc_page_size (nc_hugepage c),
     hs_active = False, hs_fallback = Some AlignmentMismatch\<rparr>"

section \<open>Slabs\<close>

record slab_handle =
  sh_node :: nat
  sh_slot :: nat
  sh_gen :: u64

record slab =
  sl_node :: nat
  sl_capacity :: nat
  sl_gens :: "u64 list"
  sl_allocated :: "bool list"
  sl_free :: "nat list"      \<comment> \<open>the stack, top first\<close>
  sl_allocs :: u64
  sl_frees :: u64
  sl_high :: nat

definition slab_new :: "nat \<Rightarrow> nat \<Rightarrow> slab" where
  "slab_new node capacity =
     (let c = max capacity 1
      in \<lparr>sl_node = node, sl_capacity = c, sl_gens = replicate c 0,
          sl_allocated = replicate c False, sl_free = [0..<c], sl_allocs = 0, sl_frees = 0,
          sl_high = 0\<rparr>)"

definition in_use :: "slab \<Rightarrow> nat" where
  "in_use s = sl_capacity s - length (sl_free s)"

definition has_capacity :: "slab \<Rightarrow> bool" where
  "has_capacity s \<longleftrightarrow> sl_free s \<noteq> []"

definition slab_allocate :: "slab \<Rightarrow> (slab_handle \<times> slab) option" where
  "slab_allocate s =
     (case sl_free s of
        [] \<Rightarrow> None
      | i # free \<Rightarrow>
          (let g = sat_inc (sl_gens s ! i);
               s1 = s\<lparr>sl_free := free, sl_allocated := (sl_allocated s)[i := True],
                      sl_gens := (sl_gens s)[i := g], sl_allocs := sat_inc (sl_allocs s)\<rparr>
           in Some (\<lparr>sh_node = sl_node s, sh_slot = i, sh_gen = g\<rparr>,
                    s1\<lparr>sl_high := max (sl_high s1) (in_use s1)\<rparr>)))"

definition slab_deallocate :: "slab_handle \<Rightarrow> slab \<Rightarrow> bool \<times> slab" where
  "slab_deallocate h s =
     (if sh_node h \<noteq> sl_node s then (False, s)
      else if sh_slot h \<ge> sl_capacity s then (False, s)
      else if \<not> sl_allocated s ! sh_slot h then (False, s)
      else if sl_gens s ! sh_slot h \<noteq> sh_gen h then (False, s)
      else (True, s\<lparr>sl_allocated := (sl_allocated s)[sh_slot h := False],
                    sl_free := sh_slot h # sl_free s, sl_frees := sat_inc (sl_frees s)\<rparr>))"

section \<open>The pool\<close>

datatype cross_node_reason = LocalExhausted

record slab_pool =
  sp_slabs :: "slab list"
  sp_config :: slab_config
  sp_hugepage :: hugepage_status
  sp_cross :: u64
  sp_backed :: u64

definition pool_from_manifest :: "placement \<Rightarrow> slab_config \<Rightarrow> slab_pool" where
  "pool_from_manifest p c =
     (let ids = remdups_adj (sort (map sb_numa (pm_bindings p)));
          ids' = (if ids = [] then [0] else ids)
      in \<lparr>sp_slabs = map (\<lambda>n. slab_new n (nc_capacity c)) ids', sp_config = c,
          sp_hugepage = (if hc_enabled (nc_hugepage c) \<and> \<not> alignment_ok c
                         then alignment_mismatch c else hugepage_evaluate (nc_hugepage c) 0 0),
          sp_cross = 0, sp_backed = 0\<rparr>)"

definition set_hugepage_status :: "hugepage_status \<Rightarrow> slab_pool \<Rightarrow> slab_pool" where
  "set_hugepage_status st p =
     p\<lparr>sp_hugepage :=
       (if \<not> hc_enabled (nc_hugepage (sp_config p))
        then hugepage_evaluate (nc_hugepage (sp_config p)) (hs_total st) (hs_free st)
        else if \<not> alignment_ok (sp_config p) then alignment_mismatch (sp_config p)
        else st)\<rparr>"

definition count_backed :: "slab_pool \<Rightarrow> slab_pool" where
  "count_backed p = (if hs_active (sp_hugepage p) then p\<lparr>sp_backed := sat_inc (sp_backed p)\<rparr> else p)"

text \<open>The first slab of the preferred node, if it has a free slot.\<close>

fun allocate_local :: "nat \<Rightarrow> slab list \<Rightarrow> (slab_handle \<times> slab list) option" where
  "allocate_local node [] = None"
| "allocate_local node (s # ss) =
     (if sl_node s = node
      then map_option (\<lambda>(h, s'). (h, s' # ss)) (slab_allocate s)
      else map_option (\<lambda>(h, ss'). (h, s # ss')) (allocate_local node ss))"

text \<open>The first slab of another node with a free slot.\<close>

fun allocate_remote :: "nat \<Rightarrow> slab list \<Rightarrow> (slab_handle \<times> slab list) option" where
  "allocate_remote node [] = None"
| "allocate_remote node (s # ss) =
     (case (if sl_node s = node then None else slab_allocate s) of
        Some (h, s') \<Rightarrow> Some (h, s' # ss)
      | None \<Rightarrow> map_option (\<lambda>(h, ss'). (h, s # ss')) (allocate_remote node ss))"

definition pool_allocate ::
  "nat \<Rightarrow> slab_pool \<Rightarrow> ((slab_handle \<times> cross_node_reason option) \<times> slab_pool) option" where
  "pool_allocate node p =
     (case allocate_local node (sp_slabs p) of
        Some (h, ss) \<Rightarrow> Some ((h, None), count_backed (p\<lparr>sp_slabs := ss\<rparr>))
      | None \<Rightarrow>
          (case allocate_remote node (sp_slabs p) of
             Some (h, ss) \<Rightarrow>
               Some ((h, Some LocalExhausted),
                     count_backed (p\<lparr>sp_slabs := ss, sp_cross := sat_inc (sp_cross p)\<rparr>))
           | None \<Rightarrow> None))"

fun deallocate_in :: "slab_handle \<Rightarrow> slab list \<Rightarrow> bool \<times> slab list" where
  "deallocate_in h [] = (False, [])"
| "deallocate_in h (s # ss) =
     (if sl_node s = sh_node h then (let (b, s') = slab_deallocate h s in (b, s' # ss))
      else (let (b, ss') = deallocate_in h ss in (b, s # ss')))"

definition pool_deallocate :: "slab_handle \<Rightarrow> slab_pool \<Rightarrow> bool \<times> slab_pool" where
  "pool_deallocate h p = (let (b, ss) = deallocate_in h (sp_slabs p) in (b, p\<lparr>sp_slabs := ss\<rparr>))"

section \<open>Telemetry\<close>

definition ratio_basis_points :: "u64 \<Rightarrow> u64 \<Rightarrow> u64" where
  "ratio_basis_points numerator denominator =
     (if denominator = 0 then 0
      else let scaled = unat numerator * 10000 div unat denominator
           in if scaled < 2 ^ 64 then of_nat scaled else 10000)"

definition pressure_band :: "u64 \<Rightarrow> string" where
  "pressure_band v = (if v \<ge> 7500 then ''high'' else if v \<ge> 2500 then ''medium'' else ''low'')"

definition local_remote_bps :: "u64 \<Rightarrow> u64 \<Rightarrow> u64 \<times> u64" where
  "local_remote_bps cross allocs =
     (let remote = min cross allocs; near = sat_sub allocs remote
      in (ratio_basis_points near allocs, ratio_basis_points remote allocs))"

section \<open>Slabs keep their books\<close>

definition slab_ok :: "slab \<Rightarrow> bool" where
  [wf_defs]: "slab_ok s \<longleftrightarrow>
     length (sl_gens s) = sl_capacity s \<and> length (sl_allocated s) = sl_capacity s \<and>
     distinct (sl_free s) \<and> set (sl_free s) = {i. i < sl_capacity s \<and> \<not> sl_allocated s ! i} \<and>
     in_use s \<le> sl_high s \<and> sl_high s \<le> sl_capacity s"

text \<open>The handles that are out.\<close>

definition handle_at :: "slab \<Rightarrow> nat \<Rightarrow> slab_handle" where
  "handle_at s i = \<lparr>sh_node = sl_node s, sh_slot = i, sh_gen = sl_gens s ! i\<rparr>"

definition held :: "slab \<Rightarrow> slab_handle list" where
  "held s = map (handle_at s) (filter (\<lambda>i. sl_allocated s ! i) [0..<sl_capacity s])"

lemma slab_new_ok [simp]: "slab_ok (slab_new n c)" "held (slab_new n c) = []"
  by (auto simp: slab_ok_def slab_new_def in_use_def held_def Let_def filter_empty_conv)

lemma held_iff:
  "h \<in> set (held s) \<longleftrightarrow> sh_node h = sl_node s \<and> sh_slot h < sl_capacity s \<and>
     sl_allocated s ! sh_slot h \<and> sl_gens s ! sh_slot h = sh_gen h"
  by (cases h) (auto simp: held_def handle_at_def image_iff)

lemma distinct_held: "distinct (held s)"
  by (auto simp: held_def distinct_map handle_at_def intro: inj_onI)

lemma in_use_held:
  assumes "slab_ok s"
  shows "in_use s = length (held s)"
proof -
  have "length (sl_free s) = card {i. i < sl_capacity s \<and> \<not> sl_allocated s ! i}"
    using assms by (metis slab_ok_def distinct_card)
  moreover have "length (held s) = card {i. i < sl_capacity s \<and> sl_allocated s ! i}"
    by (simp add: held_def distinct_card [symmetric] Collect_conj_eq Int_commute lessThan_def
        flip: atLeast0LessThan)
  moreover have "card {i. i < sl_capacity s \<and> \<not> sl_allocated s ! i} +
      card {i. i < sl_capacity s \<and> sl_allocated s ! i} = sl_capacity s"
    by (subst card_Un_disjoint [symmetric]) (auto intro: arg_cong [of _ "{..<sl_capacity s}" card, THEN trans])
  ultimately show ?thesis by (simp add: in_use_def)
qed

lemma slab_deallocate_iff: "fst (slab_deallocate h s) \<longleftrightarrow> h \<in> set (held s)"
  by (auto simp: slab_deallocate_def held_iff)

lemma mset_insert_eq:
  "distinct zs \<Longrightarrow> distinct (x # ys) \<Longrightarrow> set zs = set (x # ys) \<Longrightarrow> mset zs = add_mset x (mset ys)"
  by (metis mset.simps(2) set_eq_iff_mset_eq_distinct)

lemma slab_allocate_spec:
  assumes ok: "slab_ok s" and run: "slab_allocate s = Some (h, s')"
  shows "slab_ok s' \<and> sl_node s' = sl_node s \<and> sl_capacity s' = sl_capacity s \<and>
    h \<notin> set (held s) \<and> mset (held s') = add_mset h (mset (held s)) \<and>
    sh_node h = sl_node s \<and> sh_slot h < sl_capacity s \<and>
    sh_gen h = sat_inc (sl_gens s ! sh_slot h) \<and>
    sl_gens s' = (sl_gens s)[sh_slot h := sh_gen h]"
proof -
  obtain i free where free: "sl_free s = i # free" using run by (auto simp: slab_allocate_def split: list.splits)
  let ?g = "sat_inc (sl_gens s ! i)"
  let ?s1 = "s\<lparr>sl_free := free, sl_allocated := (sl_allocated s)[i := True],
      sl_gens := (sl_gens s)[i := ?g], sl_allocs := sat_inc (sl_allocs s)\<rparr>"
  have s': "s' = ?s1\<lparr>sl_high := max (sl_high ?s1) (in_use ?s1)\<rparr>"
    and h: "h = \<lparr>sh_node = sl_node s, sh_slot = i, sh_gen = ?g\<rparr>"
    using run free by (auto simp: slab_allocate_def Let_def)
  have set_free: "insert i (set free) = {j. j < sl_capacity s \<and> \<not> sl_allocated s ! j}" "i \<notin> set free" "distinct free"
    using ok free by (auto simp: slab_ok_def)
  then have i: "i < sl_capacity s" "\<not> sl_allocated s ! i" by auto
  have len: "length (sl_allocated s) = sl_capacity s" using ok by (simp add: slab_ok_def)
  have "set free = {j. j < sl_capacity s \<and> \<not> sl_allocated s ! j} - {i}"
    using set_free(1,2) by blast
  also have "\<dots> = {j. j < sl_capacity s \<and> \<not> (sl_allocated s)[i := True] ! j}"
    using i len by (auto simp: nth_list_update)
  finally have "set free = {j. j < sl_capacity s \<and> \<not> (sl_allocated s)[i := True] ! j}" .
  then have "slab_ok s'"
    using ok set_free(3) free by (simp add: s' slab_ok_def in_use_def)
  moreover have "h \<notin> set (held s)" using i by (auto simp: held_iff h)
  moreover have "mset (held s') = add_mset h (mset (held s))"
  proof (rule mset_insert_eq)
    show "distinct (held s')" by (rule distinct_held)
    show "distinct (h # held s)" using calculation by (simp add: distinct_held)
    have f: "sl_allocated s' = (sl_allocated s)[i := True]" "sl_gens s' = (sl_gens s)[i := ?g]"
      "sl_capacity s' = sl_capacity s" "sl_node s' = sl_node s"
      "length (sl_allocated s) = sl_capacity s" "length (sl_gens s) = sl_capacity s"
      using ok by (simp_all add: s' slab_ok_def)
    show "set (held s') = set (h # held s)"
    proof (rule set_eqI)
      fix x :: slab_handle
      show "x \<in> set (held s') \<longleftrightarrow> x \<in> set (h # held s)"
        by (cases x, cases "sh_slot x = i") (use i in \<open>auto simp: held_iff f h\<close>)
    qed
  qed
  ultimately show ?thesis using i by (simp add: s' h)
qed

lemma slab_deallocate_spec:
  assumes ok: "slab_ok s" and run: "slab_deallocate h s = (b, s')"
  shows "slab_ok s' \<and> sl_node s' = sl_node s \<and> sl_capacity s' = sl_capacity s \<and>
    sl_gens s' = sl_gens s \<and> b = (h \<in> set (held s)) \<and>
    (if b then mset (held s) = add_mset h (mset (held s')) else s' = s)"
proof (cases b)
  case False
  then have "s' = s" using run by (auto simp: slab_deallocate_def split: if_splits)
  then show ?thesis using ok False run slab_deallocate_iff [of h s] by simp
next
  case True
  let ?i = "sh_slot h"
  have s': "s' = s\<lparr>sl_allocated := (sl_allocated s)[?i := False], sl_free := ?i # sl_free s,
      sl_frees := sat_inc (sl_frees s)\<rparr>"
    using run True by (auto simp: slab_deallocate_def split: if_splits)
  have h: "h \<in> set (held s)" using run True slab_deallocate_iff [of h s] by simp
  then have i: "?i < sl_capacity s" "sl_allocated s ! ?i" by (auto simp: held_iff)
  have len: "length (sl_allocated s) = sl_capacity s" using ok by (simp add: slab_ok_def)
  have "set (sl_free s') = insert ?i {j. j < sl_capacity s \<and> \<not> sl_allocated s ! j}"
    using ok by (simp add: s' slab_ok_def)
  also have "\<dots> = {j. j < sl_capacity s \<and> \<not> (sl_allocated s)[?i := False] ! j}"
    using i len by (auto simp: nth_list_update)
  finally have free: "set (sl_free s') = {j. j < sl_capacity s \<and> \<not> sl_allocated s' ! j}"
    by (simp add: s')
  have "distinct (sl_free s')" using ok i by (simp add: s' slab_ok_def)
  moreover have "in_use s \<le> sl_high s" "sl_high s \<le> sl_capacity s"
    using ok by (simp_all add: slab_ok_def)
  then have "in_use s' \<le> sl_high s'" "sl_high s' \<le> sl_capacity s'"
    by (simp_all add: s' in_use_def)
  moreover have "length (sl_gens s') = sl_capacity s'" "length (sl_allocated s') = sl_capacity s'"
    using ok by (simp_all add: slab_ok_def s')
  ultimately have "slab_ok s'"
    using free by (simp add: slab_ok_def s')
  moreover have "mset (held s) = add_mset h (mset (held s'))"
  proof (rule mset_insert_eq)
    show "distinct (held s)" by (rule distinct_held)
    show "distinct (h # held s')"
      using i ok by (simp add: distinct_held held_iff s' slab_ok_def)
    have f: "sl_allocated s' = (sl_allocated s)[?i := False]" "sl_gens s' = sl_gens s"
      "sl_capacity s' = sl_capacity s" "sl_node s' = sl_node s"
      "length (sl_allocated s) = sl_capacity s"
      using ok by (simp_all add: s' slab_ok_def)
    show "set (held s) = set (h # held s')"
    proof (rule set_eqI)
      fix x :: slab_handle
      show "x \<in> set (held s) \<longleftrightarrow> x \<in> set (h # held s')"
        by (cases x, cases h, cases "sh_slot x = ?i") (use i h in \<open>auto simp: held_iff f\<close>)
    qed
  qed
  ultimately show ?thesis using True h by (simp add: s')
qed

section \<open>The pool\<close>

definition pool_held :: "slab_pool \<Rightarrow> slab_handle list" where
  "pool_held p = concat (map held (sp_slabs p))"

definition pool_ok :: "slab_pool \<Rightarrow> bool" where
  [wf_defs]: "pool_ok p \<longleftrightarrow> list_all slab_ok (sp_slabs p) \<and> distinct (map sl_node (sp_slabs p))"

lemma pool_from_manifest_ok [simp]:
  "pool_ok (pool_from_manifest pl c)" "pool_held (pool_from_manifest pl c) = []"
proof -
  have "map sl_node (map (\<lambda>n. slab_new n k) ns) = ns" for k ns
    by (simp add: slab_new_def Let_def o_def)
  moreover have "distinct (remdups_adj (sort xs))" for xs :: "nat list"
    by (simp add: distinct_remdups_adj_sorted)
  ultimately show "pool_ok (pool_from_manifest pl c)" "pool_held (pool_from_manifest pl c) = []"
    by (auto simp: pool_ok_def pool_from_manifest_def pool_held_def list_all_iff Let_def)
qed

lemma allocate_local_spec:
  "allocate_local node ss = Some (h, ss') \<Longrightarrow>
     \<exists>i s'. i < length ss \<and> sl_node (ss ! i) = node \<and> slab_allocate (ss ! i) = Some (h, s') \<and>
       ss' = ss[i := s']"
proof (induction ss arbitrary: ss')
  case (Cons s ss)
  show ?case
  proof (cases "sl_node s = node")
    case True
    then show ?thesis using Cons.prems by (auto intro!: exI [of _ 0])
  next
    case False
    then obtain ss1 where "allocate_local node ss = Some (h, ss1)" "ss' = s # ss1"
      using Cons.prems by auto
    then show ?thesis using Cons.IH [of ss1] by (metis Suc_less_eq length_Cons list_update_code(3) nth_Cons_Suc)
  qed
qed simp

lemma allocate_local_None:
  "distinct (map sl_node ss) \<Longrightarrow> allocate_local node ss = None \<Longrightarrow> s \<in> set ss \<Longrightarrow>
     sl_node s = node \<Longrightarrow> sl_free s = []"
proof (induction ss)
  case (Cons s1 ss)
  then show ?case
    by (cases "sl_node s1 = node")
      (force simp: slab_allocate_def Let_def split: list.splits)+
qed simp

lemma allocate_remote_spec:
  "allocate_remote node ss = Some (h, ss') \<Longrightarrow>
     \<exists>i s'. i < length ss \<and> sl_node (ss ! i) \<noteq> node \<and> slab_allocate (ss ! i) = Some (h, s') \<and>
       ss' = ss[i := s']"
proof (induction ss arbitrary: ss')
  case (Cons s ss)
  show ?case
  proof (cases "if sl_node s = node then None else slab_allocate s")
    case (Some x)
    then show ?thesis using Cons.prems by (cases x) (auto intro!: exI [of _ 0] split: if_splits)
  next
    case None
    then obtain ss1 where "allocate_remote node ss = Some (h, ss1)" "ss' = s # ss1"
      using Cons.prems by auto
    then show ?thesis using Cons.IH [of ss1] by (metis Suc_less_eq length_Cons list_update_code(3) nth_Cons_Suc)
  qed
qed simp

lemma allocate_remote_None:
  "allocate_remote node ss = None \<Longrightarrow> s \<in> set ss \<Longrightarrow> sl_node s \<noteq> node \<Longrightarrow> sl_free s = []"
proof (induction ss)
  case (Cons s1 ss)
  have 1: "(if sl_node s1 = node then None else slab_allocate s1) = None"
    using Cons.prems(1) by (auto split: option.splits)
  then have 2: "allocate_remote node ss = None" using Cons.prems(1) by simp
  show ?case
  proof (cases "s = s1")
    case True
    then show ?thesis using 1 Cons.prems(3) by (auto simp: slab_allocate_def Let_def split: list.splits)
  qed (use Cons 2 in auto)
qed simp

lemma count_backed_slabs [simp]: "sp_slabs (count_backed p) = sp_slabs p"
  by (simp add: count_backed_def)

text \<open>Every allocation takes one slot of one slab.\<close>

lemma pool_allocate_slab:
  assumes "pool_allocate node p = Some ((h, r), p')"
  obtains i s' where "i < length (sp_slabs p)" "slab_allocate (sp_slabs p ! i) = Some (h, s')"
    "sp_slabs p' = (sp_slabs p)[i := s']" "r = None \<longleftrightarrow> sl_node (sp_slabs p ! i) = node"
proof (cases "allocate_local node (sp_slabs p)")
  case (Some x)
  then obtain ss where ss: "allocate_local node (sp_slabs p) = Some (h, ss)" "r = None" "sp_slabs p' = ss"
    using assms by (cases x) (auto simp: pool_allocate_def)
  from allocate_local_spec [OF ss(1)] ss that show ?thesis by auto
next
  case None
  then obtain ss where ss: "allocate_remote node (sp_slabs p) = Some (h, ss)" "r = Some LocalExhausted"
    "sp_slabs p' = ss"
    using assms by (auto simp: pool_allocate_def split: option.splits)
  from allocate_remote_spec [OF ss(1)] ss that show ?thesis by auto
qed

text \<open>Local first. The pool serves a request from the preferred node as long as
  that node has a free slot; only then from another node, saying so; and it fails exactly when no
  slab has a free slot.\<close>

theorem pool_allocate_prefers_local:
  assumes "pool_ok p"
  shows "case pool_allocate node p of
      None \<Rightarrow> \<forall>s \<in> set (sp_slabs p). \<not> has_capacity s
    | Some ((h, None), p') \<Rightarrow> sh_node h = node
    | Some ((h, Some _), p') \<Rightarrow> sh_node h \<noteq> node \<and>
        (\<forall>s \<in> set (sp_slabs p). sl_node s = node \<longrightarrow> \<not> has_capacity s)"
proof (cases "pool_allocate node p")
  case None
  then have "allocate_local node (sp_slabs p) = None" "allocate_remote node (sp_slabs p) = None"
    by (auto simp: pool_allocate_def split: option.splits)
  then have "\<forall>s \<in> set (sp_slabs p). \<not> has_capacity s"
    using assms allocate_local_None [of "sp_slabs p" node] allocate_remote_None [of node "sp_slabs p"]
    unfolding has_capacity_def pool_ok_def by metis
  then show ?thesis using None by simp
next
  case (Some x)
  obtain h r p' where x: "x = ((h, r), p')" by (metis surj_pair)
  obtain i s' where i: "i < length (sp_slabs p)" "slab_allocate (sp_slabs p ! i) = Some (h, s')"
    "r = None \<longleftrightarrow> sl_node (sp_slabs p ! i) = node"
    using pool_allocate_slab Some x by metis
  have "slab_ok (sp_slabs p ! i)" using assms i(1) by (simp add: pool_ok_def list_all_length)
  then have node: "sh_node h = sl_node (sp_slabs p ! i)" using slab_allocate_spec i(2) by blast
  show ?thesis
  proof (cases r)
    case None
    then show ?thesis using Some x i node by simp
  next
    case (Some y)
    then have "allocate_local node (sp_slabs p) = None"
      using \<open>pool_allocate node p = Some x\<close> x by (auto simp: pool_allocate_def split: option.splits)
    then have "\<forall>s \<in> set (sp_slabs p). sl_node s = node \<longrightarrow> \<not> has_capacity s"
      using assms allocate_local_None by (auto simp: has_capacity_def pool_ok_def)
    then show ?thesis using \<open>pool_allocate node p = Some x\<close> x i node Some by simp
  qed
qed

definition sample_pool :: slab_pool where
  "sample_pool = pool_from_manifest (plan 2 (Some [\<lparr>tp_core = 0, tp_numa = 0\<rparr>, \<lparr>tp_core = 1, tp_numa = 1\<rparr>]))
     \<lparr>nc_capacity = 1, nc_entry_size = 512, nc_hugepage = \<lparr>hc_page_size = 512, hc_enabled = True\<rparr>\<rparr>"

theorem pool_allocate_prefers_local_witness:
  "\<exists>h p'. pool_allocate 1 sample_pool = Some ((h, None), p') \<and> sh_node h = 1"
proof -
  have "\<exists>h p'. pool_allocate 1 sample_pool = Some ((h, None), p')"
    by (simp add: sample_pool_def pool_from_manifest_def plan_def node_cores_def by_node_def
        slab_new_def pool_allocate_def slab_allocate_def Let_def eval_nat_numeral)
  then obtain h p' where "pool_allocate 1 sample_pool = Some ((h, None), p')" by blast
  with pool_allocate_prefers_local [of sample_pool 1] show ?thesis by (simp add: sample_pool_def)
qed

section \<open>No slot has two owners\<close>

datatype pool_op = PoolAlloc nat | PoolFree slab_handle

text \<open>A run of the pool: handles issued, handles freed, the pool.\<close>

fun pool_step ::
  "pool_op \<Rightarrow> slab_handle list \<times> slab_handle list \<times> slab_pool \<Rightarrow>
   slab_handle list \<times> slab_handle list \<times> slab_pool" where
  "pool_step (PoolAlloc node) (issued, freed, p) =
     (case pool_allocate node p of
        None \<Rightarrow> (issued, freed, p) | Some ((h, _), p') \<Rightarrow> (h # issued, freed, p'))"
| "pool_step (PoolFree h) (issued, freed, p) =
     (case pool_deallocate h p of (b, p') \<Rightarrow> (issued, if b then h # freed else freed, p'))"

definition pool_inv :: "nat \<Rightarrow> slab_handle list \<times> slab_handle list \<times> slab_pool \<Rightarrow> bool" where
  [wf_defs]: "pool_inv n x = (case x of (issued, freed, p) \<Rightarrow>
     pool_ok p \<and> mset issued = mset freed + mset (pool_held p) \<and> distinct issued \<and>
     (\<forall>h \<in> set issued. \<exists>s \<in> set (sp_slabs p).
        sl_node s = sh_node h \<and> sh_slot h < sl_capacity s \<and> sh_gen h \<le> sl_gens s ! sh_slot h) \<and>
     (\<forall>s \<in> set (sp_slabs p). \<forall>g \<in> set (sl_gens s). unat g \<le> n))"

lemma pool_held_update:
  assumes "i < length (sp_slabs p)"
  shows "mset (concat (map held (sp_slabs p))) + mset (held s') =
    mset (concat (map held ((sp_slabs p)[i := s']))) + mset (held (sp_slabs p ! i))"
  using mset_concat_update [OF assms, of held s'] by simp

lemma pool_ok_update:
  assumes "pool_ok p" and "i < length (sp_slabs p)" and "slab_ok s'"
    and "sl_node s' = sl_node (sp_slabs p ! i)" and "sp_slabs p' = (sp_slabs p)[i := s']"
  shows "pool_ok p'"
proof -
  have "map sl_node ((sp_slabs p)[i := s']) = map sl_node (sp_slabs p)"
    using assms(2,4) by (metis list_update_id map_update nth_map)
  then show ?thesis
    using assms by (auto simp: pool_ok_def list_all_iff dest!: set_update_subset_insert [THEN subsetD])
qed

lemma deallocate_in_spec:
  "list_all slab_ok ss \<Longrightarrow> distinct (map sl_node ss) \<Longrightarrow> deallocate_in h ss = (b, ss') \<Longrightarrow>
     b = (h \<in> set (concat (map held ss))) \<and> list_all slab_ok ss' \<and>
     map sl_node ss' = map sl_node ss \<and> map sl_capacity ss' = map sl_capacity ss \<and>
     map sl_gens ss' = map sl_gens ss \<and>
     (if b then mset (concat (map held ss)) = add_mset h (mset (concat (map held ss'))) else ss' = ss)"
proof (induction ss arbitrary: ss' b)
  case (Cons s ss)
  have other: "h \<notin> set (held x)" if "sl_node x \<noteq> sh_node h" for x
    using that by (auto simp: held_iff)
  show ?case
  proof (cases "sl_node s = sh_node h")
    case True
    obtain b' s' where d: "slab_deallocate h s = (b', s')" by (metis surj_pair)
    have "h \<notin> set (held x)" if "x \<in> set ss" for x
      using Cons.prems(2) True that by (intro other) (auto simp: image_iff)
    then have "h \<notin> set (concat (map held ss))" by auto
    then show ?thesis
      using Cons.prems True d slab_deallocate_spec [of s h b' s'] by auto
  next
    case False
    obtain b' ss1 where d: "deallocate_in h ss = (b', ss1)" by (metis surj_pair)
    then show ?thesis
      using Cons.IH [OF _ _ d] Cons.prems False other [OF False] by auto
  qed
qed auto

lemma pool_step_alloc_inv:
  assumes inv: "pool_inv n (issued, freed, p)" and n: "n < 2 ^ 64 - 1"
    and a: "pool_allocate node p = Some ((h, r), p')"
  shows "pool_inv (Suc n) (h # issued, freed, p')"
proof -
  from inv have ok: "pool_ok p" and bal: "mset issued = mset freed + mset (pool_held p)"
    and dist: "distinct issued"
    and known: "\<And>h. h \<in> set issued \<Longrightarrow> \<exists>s \<in> set (sp_slabs p).
        sl_node s = sh_node h \<and> sh_slot h < sl_capacity s \<and> sh_gen h \<le> sl_gens s ! sh_slot h"
    and gens: "\<And>s g. s \<in> set (sp_slabs p) \<Longrightarrow> g \<in> set (sl_gens s) \<Longrightarrow> unat g \<le> n"
    by (auto simp: pool_inv_def)
  from a obtain i s' where i: "i < length (sp_slabs p)"
    "slab_allocate (sp_slabs p ! i) = Some (h, s')" "sp_slabs p' = (sp_slabs p)[i := s']"
    by (rule pool_allocate_slab)
  let ?s = "sp_slabs p ! i"
  have s: "?s \<in> set (sp_slabs p)" using i(1) by simp
  have sok: "slab_ok ?s" using ok s by (simp add: pool_ok_def list_all_iff)
  note spec = slab_allocate_spec [OF sok i(2)]
  have slot: "sh_slot h < length (sl_gens ?s)" using sok spec by (simp add: slab_ok_def)
  let ?g = "sl_gens ?s ! sh_slot h"
  have "unat ?g \<le> n" using gens [OF s] slot by simp
  then have g: "?g \<noteq> u64_max" "unat (sh_gen h) = Suc (unat ?g)"
    using n spec by (auto simp: u64_max_iff unat_sat_inc)
  have new: "h \<notin> set issued"
  proof
    assume "h \<in> set issued"
    then obtain s0 where s0: "s0 \<in> set (sp_slabs p)" "sl_node s0 = sh_node h"
      "sh_gen h \<le> sl_gens s0 ! sh_slot h" using known by blast
    have "s0 = ?s"
      using ok s s0 spec by (auto simp: pool_ok_def distinct_map dest: inj_onD)
    then show False using s0(3) g by (simp add: word_le_nat_alt)
  qed
  have "mset (pool_held p') = add_mset h (mset (pool_held p))"
    using pool_held_update [OF i(1), of s'] spec i(3) by (simp add: pool_held_def)
  then have bal': "mset (h # issued) = mset freed + mset (pool_held p')" using bal by simp
  have ok': "pool_ok p'" using pool_ok_update [OF ok i(1) _ _ i(3)] spec by blast
  have gens': "unat g' \<le> Suc n" if "x \<in> set (sp_slabs p')" "g' \<in> set (sl_gens x)" for x g'
  proof -
    from that(1) have "x = s' \<or> x \<in> set (sp_slabs p)"
      using i(3) by (auto dest: set_update_subset_insert [THEN subsetD])
    then show ?thesis
    proof
      assume "x = s'"
      then have "g' = sh_gen h \<or> g' \<in> set (sl_gens ?s)"
        using that(2) spec by (auto dest: set_update_subset_insert [THEN subsetD])
      then show ?thesis using gens [OF s] g \<open>unat ?g \<le> n\<close> by (auto intro: le_SucI)
    next
      assume "x \<in> set (sp_slabs p)"
      then show ?thesis using gens that(2) by (auto intro: le_SucI)
    qed
  qed
  have s'in: "s' \<in> set (sp_slabs p')" using i(1,3) by (simp add: set_update_memI)
  have known': "\<exists>x \<in> set (sp_slabs p'). sl_node x = sh_node k \<and> sh_slot k < sl_capacity x \<and>
      sh_gen k \<le> sl_gens x ! sh_slot k" if "k \<in> set (h # issued)" for k
  proof (cases "k = h")
    case True
    then show ?thesis using s'in spec slot by (intro bexI [of _ s']) auto
  next
    case False
    then obtain x where x: "x \<in> set (sp_slabs p)" "sl_node x = sh_node k" "sh_slot k < sl_capacity x"
      "sh_gen k \<le> sl_gens x ! sh_slot k" using known \<open>k \<in> set (h # issued)\<close> by auto
    show ?thesis
    proof (cases "x = ?s")
      case True
      have "?g \<le> sh_gen h" using g by (simp add: word_le_nat_alt)
      then have "sh_gen k \<le> sl_gens s' ! sh_slot k"
        using x(4) True spec slot by (cases "sh_slot k = sh_slot h") (auto simp: le_sat_inc_trans)
      then show ?thesis using x True spec s'in by (intro bexI [of _ s']) auto
    next
      case False
      then have "x \<in> set (sp_slabs p')"
        using x(1) i by (metis in_set_conv_nth length_list_update nth_list_update_neq)
      then show ?thesis using x by blast
    qed
  qed
  show ?thesis
    using ok' bal' dist new known' gens' unfolding pool_inv_def by auto
qed

lemma map_eq_nth: "map f xs = map g ys \<Longrightarrow> \<forall>i < length xs. f (xs ! i) = g (ys ! i)"
  by (metis length_map nth_map)

lemma pool_step_free_inv:
  assumes inv: "pool_inv n (issued, freed, p)" and d: "pool_deallocate h p = (b, p')"
  shows "pool_inv n (issued, if b then h # freed else freed, p') \<and> b = (h \<in> set (pool_held p))"
proof -
  from d obtain ss where ss: "deallocate_in h (sp_slabs p) = (b, ss)" "sp_slabs p' = ss"
    by (auto simp: pool_deallocate_def split: prod.splits)
  have ok: "list_all slab_ok (sp_slabs p)" "distinct (map sl_node (sp_slabs p))"
    using inv by (simp_all add: pool_inv_def pool_ok_def)
  note spec = deallocate_in_spec [OF ok ss(1)]
  have len: "length ss = length (sp_slabs p)" using spec by (metis length_map)
  define view where "view x = (sl_node x, sl_capacity x, sl_gens x)" for x :: slab
  have "map view ss = map view (sp_slabs p)"
    using spec len by (intro nth_equalityI) (auto simp: view_def dest!: map_eq_nth)
  then have views: "view ` set ss = view ` set (sp_slabs p)" by (metis list.set_map)
  have "\<exists>x \<in> set ss. sl_node x = sh_node k \<and> sh_slot k < sl_capacity x \<and> sh_gen k \<le> sl_gens x ! sh_slot k"
    if k: "k \<in> set issued" for k
  proof -
    obtain x where x: "x \<in> set (sp_slabs p)" "sl_node x = sh_node k" "sh_slot k < sl_capacity x"
      "sh_gen k \<le> sl_gens x ! sh_slot k" using inv k by (auto simp: pool_inv_def)
    have "view x \<in> view ` set ss" unfolding views using x(1) by (rule imageI)
    then obtain y where "view x = view y" "y \<in> set ss" by (rule imageE)
    with x show ?thesis by (intro bexI [of _ y]) (auto simp: view_def)
  qed
  moreover have "unat g \<le> n" if "x \<in> set ss" "g \<in> set (sl_gens x)" for x g
  proof -
    have "view x \<in> view ` set (sp_slabs p)" unfolding views [symmetric] using that(1) by (rule imageI)
    then obtain y where y: "view x = view y" "y \<in> set (sp_slabs p)" by (rule imageE)
    then have "g \<in> set (sl_gens y)" using that(2) by (simp add: view_def)
    with inv y(2) show ?thesis by (auto simp: pool_inv_def)
  qed
  ultimately show ?thesis
    using inv spec ss(2) by (auto simp: pool_inv_def pool_ok_def pool_held_def split: if_splits)
qed

lemma pool_run_inv:
  "pool_inv n x \<Longrightarrow> n + length ops < 2 ^ 64 \<Longrightarrow> pool_inv (n + length ops) (fold pool_step ops x)"
proof (induction ops arbitrary: n x)
  case (Cons op ops)
  obtain issued freed p where x: "x = (issued, freed, p)" by (metis surj_pair)
  have weaken: "pool_inv n y \<Longrightarrow> pool_inv (Suc n) y" for y
    by (fastforce simp: pool_inv_def)
  have "pool_inv (Suc n) (pool_step op x)"
  proof (cases op)
    case (PoolAlloc node)
    show ?thesis
    proof (cases "pool_allocate node p")
      case None
      then show ?thesis using Cons.prems weaken PoolAlloc x by simp
    next
      case (Some y)
      obtain h r p' where y: "y = ((h, r), p')" by (metis surj_pair)
      then show ?thesis
        using pool_step_alloc_inv [of n issued freed p node h r p'] Cons.prems PoolAlloc x Some by simp
    qed
  next
    case (PoolFree h)
    obtain b p' where d: "pool_deallocate h p = (b, p')" by (metis surj_pair)
    then have "pool_inv n (issued, if b then h # freed else freed, p')"
      using pool_step_free_inv Cons.prems(1) x by blast
    then show ?thesis using weaken PoolFree x d by (simp split del: if_split)
  qed
  then show ?case using Cons.IH [of "Suc n"] Cons.prems by simp
qed simp

text \<open>C39 (safety): no slot has two owners. Along every run of fewer than \<open>2 ^ 64 - 1\<close> allocations and
  frees on a pool built from any placement, all handles ever issued are different; those issued
  are, with multiplicity, those freed and those that hold a slot; and a free succeeds exactly for
  a handle that was issued and not freed since: a stale handle (its slot reused, a newer
  generation) and a forged one are refused and change nothing.\<close>

theorem pool_handles_unique:
  assumes "length ops < 2 ^ 64 - 1"
    and "fold pool_step ops ([], [], pool_from_manifest pl c) = (issued, freed, p)"
  shows "distinct issued \<and> mset issued = mset freed + mset (pool_held p) \<and>
    (\<forall>h. fst (pool_deallocate h p) \<longleftrightarrow> h \<in> set issued \<and> h \<notin> set freed) \<and>
    (\<forall>h. \<not> fst (pool_deallocate h p) \<longrightarrow> snd (pool_deallocate h p) = p)"
proof -
  have "unat g = 0" if "s \<in> set (sp_slabs (pool_from_manifest pl c))" "g \<in> set (sl_gens s)" for s g
    using that by (auto simp: pool_from_manifest_def slab_new_def Let_def split: if_splits)
  then have "pool_inv 0 ([], [], pool_from_manifest pl c)"
    by (auto simp: pool_inv_def)
  then have inv: "pool_inv (length ops) (issued, freed, p)"
    using pool_run_inv [of 0 "([], [], pool_from_manifest pl c)" ops] assms by simp
  then have dist: "distinct issued" and bal: "mset issued = mset (freed @ pool_held p)"
    by (simp_all add: pool_inv_def)
  have disj: "distinct (freed @ pool_held p)" using dist mset_eq_imp_distinct_iff [OF bal] by simp
  have set: "set issued = set freed \<union> set (pool_held p)" using bal by (metis set_append set_mset_mset)
  have iff: "fst (pool_deallocate h p) \<longleftrightarrow> h \<in> set (pool_held p)" for h
    using pool_step_free_inv [OF inv] by (metis prod.collapse)
  have "\<not> fst (pool_deallocate h p) \<Longrightarrow> snd (pool_deallocate h p) = p" for h
    using deallocate_in_spec [of "sp_slabs p" h] inv
    by (auto simp: pool_deallocate_def pool_inv_def pool_ok_def split: prod.splits)
  then show ?thesis using dist bal iff set disj by auto
qed

lemma sample_pool_slabs: "sp_slabs sample_pool =
   [\<lparr>sl_node = 0, sl_capacity = 1, sl_gens = [0], sl_allocated = [False], sl_free = [0],
     sl_allocs = 0, sl_frees = 0, sl_high = 0\<rparr>,
    \<lparr>sl_node = 1, sl_capacity = 1, sl_gens = [0], sl_allocated = [False], sl_free = [0],
     sl_allocs = 0, sl_frees = 0, sl_high = 0\<rparr>]"
  by (simp add: sample_pool_def pool_from_manifest_def plan_def node_cores_def by_node_def
      slab_new_def Let_def eval_nat_numeral)

theorem pool_handles_unique_witness:
  "\<exists>issued freed p h1 h2. fold pool_step [PoolAlloc 0, PoolFree \<lparr>sh_node = 0, sh_slot = 0, sh_gen = 1\<rparr>, PoolAlloc 0]
      ([], [], sample_pool) = (issued, freed, p) \<and> issued = [h2, h1] \<and> freed = [h1] \<and>
     \<not> fst (pool_deallocate h1 p) \<and> fst (pool_deallocate h2 p)"
proof -
  let ?ops = "[PoolAlloc 0, PoolFree \<lparr>sh_node = 0, sh_slot = 0, sh_gen = 1\<rparr>, PoolAlloc 0]"
  let ?h = "\<lambda>g. \<lparr>sh_node = 0, sh_slot = 0, sh_gen = g\<rparr>"
  obtain issued freed p where run: "fold pool_step ?ops ([], [], sample_pool) = (issued, freed, p)"
    by (metis surj_pair)
  then have log: "issued = [?h 2, ?h 1]" "freed = [?h 1]"
    by (auto simp: sample_pool_slabs pool_allocate_def slab_allocate_def pool_deallocate_def
        slab_deallocate_def in_use_def sat_inc_def sat_add_def Let_def)
  have "length ?ops < 2 ^ 64 - 1" by simp
  from pool_handles_unique [OF this run [unfolded sample_pool_def]]
  have "\<not> fst (pool_deallocate (?h 1) p) \<and> fst (pool_deallocate (?h 2) p)" by (simp add: log)
  then show ?thesis using run log by blast
qed

section \<open>Telemetry ratios\<close>

lemma unat_ratio:
  assumes "a \<le> b" and "b \<noteq> 0"
  shows "unat (ratio_basis_points a b) = unat a * 10000 div unat b \<and> unat (ratio_basis_points a b) \<le> 10000"
proof -
  have ab: "unat a \<le> unat b" "0 < unat b" using assms by (simp_all add: word_le_nat_alt unat_gt_0)
  have "unat a * 10000 div unat b \<le> unat b * 10000 div unat b"
    by (rule div_le_mono) (use ab in simp)
  then have le: "unat a * 10000 div unat b \<le> 10000" using ab by simp
  then have lt: "unat a * 10000 div unat b < 2 ^ 64" by (rule le_less_trans) simp
  then have "unat (of_nat (unat a * 10000 div unat b) :: u64) = unat a * 10000 div unat b"
    unfolding unat_of_nat by (intro mod_less) simp
  then show ?thesis using assms le lt by (simp add: ratio_basis_points_def Let_def)
qed

text \<open>The telemetry ratios. Whatever the counters hold, the local and the remote share of
  the allocations are at most 10000 basis points each, and with at least one allocation they add
  up to 10000, or to 9999 because each is rounded down; without allocations both are 0.\<close>

theorem allocation_shares_add_up:
  "case local_remote_bps cross allocs of (near, remote) \<Rightarrow>
     unat near \<le> 10000 \<and> unat remote \<le> 10000 \<and>
     unat near + unat remote \<in> (if allocs = 0 then {0} else {9999, 10000})"
proof (cases "allocs = 0")
  case True
  then show ?thesis by (simp add: local_remote_bps_def ratio_basis_points_def Let_def)
next
  case False
  let ?r = "min cross allocs" and ?l = "sat_sub allocs (min cross allocs)"
  have le: "?r \<le> allocs" "?l \<le> allocs"
    by simp (simp add: word_le_nat_alt unat_sat_sub)
  have sum: "unat ?l + unat ?r = unat allocs"
    using le(1) by (simp add: unat_sat_sub word_le_nat_alt)
  let ?n = "unat allocs" and ?a = "unat ?l" and ?b = "unat ?r"
  have n: "0 < ?n" using False by (simp add: unat_gt_0)
  let ?x = "?a * 10000" and ?y = "?b * 10000"
  have "?x + ?y = 10000 * ?n" using sum by (metis add_mult_distrib mult.commute)
  then have "(?x + ?y) div ?n = 10000" using n by simp
  then have total: "?x div ?n + ?y div ?n + (?x mod ?n + ?y mod ?n) div ?n = 10000"
    unfolding div_add1_eq [of ?x ?y ?n] .
  have "?x mod ?n + ?y mod ?n < 2 * ?n"
    using mod_less_divisor [OF n, of ?x] mod_less_divisor [OF n, of ?y] by linarith
  then have "(?x mod ?n + ?y mod ?n) div ?n < 2" by (rule less_mult_imp_div_less)
  with total have "?x div ?n + ?y div ?n \<in> {9999, 10000}" by auto
  then show ?thesis
    using unat_ratio [OF le(2) False] unat_ratio [OF le(1) False] False
    by (simp add: local_remote_bps_def Let_def)
qed

end
