(* ===== verification/Bravo.thy ===== *)
theory Bravo
  imports Prelude
begin

text \<open>
  The lock bias policy of \<^verbatim>\<open>hostcall_queue.rs\<close> (\<^verbatim>\<open>BravoContentionState\<close>): a controller with
  three modes, fed one observation window at a time. A \<^verbatim>\<open>u32\<close> is a natural number that
  saturates at \<^verbatim>\<open>u32::MAX\<close>.
\<close>

datatype bias_mode = Balanced | ReadBiased | WriterRecovery

datatype contention_signature =
    InsufficientSamples | ReadDominant | MixedContention | WriterStarvationRisk | WriteDominant

record contention_sample =
  read_acquires :: u64
  write_acquires :: u64
  read_wait_p95 :: u64
  write_wait_p95 :: u64
  write_timeouts :: u64

definition total_acquires :: "contention_sample \<Rightarrow> u64" where
  "total_acquires s = sat_add (read_acquires s) (write_acquires s)"

definition read_ratio_permille :: "contention_sample \<Rightarrow> nat" where
  "read_ratio_permille s =
     (if total_acquires s = 0 then 0
      else let ratio = unat (read_acquires s) * 1000 div unat (total_acquires s)
           in if ratio < 2 ^ 32 then ratio else 1000)"

record bravo_config =
  bc_min_acquires :: u64
  bc_read_dominant :: nat
  bc_mixed_floor :: nat
  bc_mixed_ceiling :: nat
  bc_starvation_wait :: u64
  bc_starvation_timeouts :: u64
  bc_max_read_windows :: nat
  bc_recovery_windows :: nat

definition bravo_default_config :: bravo_config where
  "bravo_default_config =
     \<lparr>bc_min_acquires = 32, bc_read_dominant = 800, bc_mixed_floor = 450, bc_mixed_ceiling = 799,
      bc_starvation_wait = 8000, bc_starvation_timeouts = 2, bc_max_read_windows = 5,
      bc_recovery_windows = 2\<rparr>"

definition classify :: "contention_sample \<Rightarrow> bravo_config \<Rightarrow> contention_signature" where
  "classify s c =
     (if total_acquires s < bc_min_acquires c then InsufficientSamples
      else if write_wait_p95 s \<ge> bc_starvation_wait c \<or> write_timeouts s \<ge> bc_starvation_timeouts c
      then WriterStarvationRisk
      else let r = read_ratio_permille s
           in if r \<ge> min (bc_read_dominant c) 1000 then ReadDominant
              else let lo = min (bc_mixed_floor c) 1000;
                       hi = max lo (min (bc_mixed_ceiling c) 1000)
                   in if lo \<le> r \<and> r \<le> hi then MixedContention else WriteDominant)"

record bravo =
  bv_config :: bravo_config
  bv_mode :: bias_mode
  bv_transitions :: u64
  bv_rollbacks :: u64
  bv_windows :: u64
  bv_read_windows :: nat
  bv_recovery :: nat
  bv_last :: contention_signature

record bravo_decision =
  bd_previous :: bias_mode
  bd_next :: bias_mode
  bd_signature :: contention_signature
  bd_switched :: bool
  bd_rollback :: bool

definition bravo_new :: "bravo_config \<Rightarrow> bravo" where
  "bravo_new c = \<lparr>bv_config = c, bv_mode = Balanced, bv_transitions = 0, bv_rollbacks = 0,
     bv_windows = 0, bv_read_windows = 0, bv_recovery = 0, bv_last = InsufficientSamples\<rparr>"

definition u32_inc :: "nat \<Rightarrow> nat" where
  "u32_inc n = min (Suc n) (2 ^ 32 - 1)"

definition enter_recovery :: "bravo \<Rightarrow> bravo" where
  "enter_recovery b = b\<lparr>bv_mode := WriterRecovery,
     bv_recovery := max (bc_recovery_windows (bv_config b)) 1, bv_read_windows := 0\<rparr>"

definition count_rollback :: "bravo \<Rightarrow> bravo" where
  "count_rollback b = b\<lparr>bv_rollbacks := sat_inc (bv_rollbacks b)\<rparr>"

text \<open>The match of \<^verbatim>\<open>observe\<close> on the mode: the new state and whether a rollback was triggered.\<close>

definition observe_mode :: "contention_signature \<Rightarrow> bravo \<Rightarrow> bravo \<times> bool" where
  "observe_mode sig b =
     (case bv_mode b of
        Balanced \<Rightarrow>
          (case sig of
             WriterStarvationRisk \<Rightarrow> (count_rollback (enter_recovery b), True)
           | ReadDominant \<Rightarrow> (b\<lparr>bv_mode := ReadBiased, bv_read_windows := 1\<rparr>, False)
           | MixedContention \<Rightarrow> (b\<lparr>bv_mode := ReadBiased, bv_read_windows := 1\<rparr>, False)
           | InsufficientSamples \<Rightarrow> (b\<lparr>bv_read_windows := 0\<rparr>, False)
           | WriteDominant \<Rightarrow> (b\<lparr>bv_read_windows := 0\<rparr>, False))
      | ReadBiased \<Rightarrow>
          (let n = u32_inc (bv_read_windows b);
               starving = (sig = WriterStarvationRisk);
               b1 = b\<lparr>bv_read_windows := n\<rparr>
           in if starving \<or> n \<ge> max (bc_max_read_windows (bv_config b)) 1
              then ((if starving then count_rollback (enter_recovery b1) else enter_recovery b1),
                    starving)
              else if sig = InsufficientSamples \<or> sig = WriteDominant
              then (b1\<lparr>bv_mode := Balanced, bv_read_windows := 0\<rparr>, False)
              else (b1, False))
      | WriterRecovery \<Rightarrow>
          (let b1 = b\<lparr>bv_read_windows := 0\<rparr>;
               left = (if sig = WriterStarvationRisk then max (bc_recovery_windows (bv_config b)) 1
                       else bv_recovery b - 1);
               b2 = b1\<lparr>bv_recovery := left\<rparr>
           in ((if left = 0 then b2\<lparr>bv_mode := Balanced\<rparr> else b2), False)))"

definition observe :: "contention_sample \<Rightarrow> bravo \<Rightarrow> bravo_decision \<times> bravo" where
  "observe s b =
     (let sig = classify s (bv_config b);
          (b1, rollback) = observe_mode sig (b\<lparr>bv_windows := sat_inc (bv_windows b)\<rparr>);
          switched = (bv_mode b1 \<noteq> bv_mode b);
          b2 = (if switched then b1\<lparr>bv_transitions := sat_inc (bv_transitions b1)\<rparr> else b1)
      in (\<lparr>bd_previous = bv_mode b, bd_next = bv_mode b2, bd_signature = sig,
           bd_switched = switched, bd_rollback = rollback\<rparr>, b2\<lparr>bv_last := sig\<rparr>))"

text \<open>A sequence of windows: the decisions and the last state.\<close>

fun observe_all :: "contention_sample list \<Rightarrow> bravo \<Rightarrow> bravo_decision list \<times> bravo" where
  "observe_all [] b = ([], b)"
| "observe_all (s # ss) b =
     (let (d, b1) = observe s b; (ds, b2) = observe_all ss b1 in (d # ds, b2))"

section \<open>The invariant\<close>

definition read_budget :: "bravo_config \<Rightarrow> nat" where
  "read_budget c = max (bc_max_read_windows c - 1) 1"

definition bravo_ok :: "bravo \<Rightarrow> bool" where
  [wf_defs]: "bravo_ok b \<longleftrightarrow>
     (bv_mode b = WriterRecovery \<longleftrightarrow> bv_recovery b > 0) \<and>
     bv_recovery b \<le> max (bc_recovery_windows (bv_config b)) 1 \<and>
     (bv_mode b = ReadBiased \<longleftrightarrow> bv_read_windows b > 0) \<and>
     bv_read_windows b \<le> read_budget (bv_config b)"

lemmas observe_defs = observe_def observe_mode_def enter_recovery_def count_rollback_def

lemma bravo_new_ok [simp]: "bravo_ok (bravo_new c)"
  by (simp add: bravo_ok_def bravo_new_def)

lemma observe_config [frame]: "observe s b = (d, b') \<Longrightarrow> bv_config b' = bv_config b"
  by (cases "classify s (bv_config b)"; cases "bv_mode b")
    (auto simp: observe_defs Let_def split: if_splits)

text \<open>One window, by the mode it starts in.\<close>

lemma observe_balanced:
  assumes "bv_mode b = Balanced" and "observe s b = (d, b')"
  shows "bv_mode b' = (case classify s (bv_config b) of WriterStarvationRisk \<Rightarrow> WriterRecovery
      | ReadDominant \<Rightarrow> ReadBiased | MixedContention \<Rightarrow> ReadBiased | _ \<Rightarrow> Balanced)"
    and "bv_read_windows b' = (if bv_mode b' = ReadBiased then 1 else 0)"
    and "bv_recovery b' = (if bv_mode b' = WriterRecovery
      then max (bc_recovery_windows (bv_config b)) 1 else bv_recovery b)"
    and "bd_rollback d \<longleftrightarrow> bv_mode b' = WriterRecovery"
    and "bv_rollbacks b' = (if bd_rollback d then sat_inc (bv_rollbacks b) else bv_rollbacks b)"
  using assms by (cases "classify s (bv_config b)"; force simp: observe_defs Let_def)+

lemma observe_read_biased:
  assumes "bv_mode b = ReadBiased" and "observe s b = (d, b')"
  defines "starving \<equiv> classify s (bv_config b) = WriterStarvationRisk"
    and "n \<equiv> u32_inc (bv_read_windows b)"
  shows "bv_mode b' = (if starving \<or> n \<ge> max (bc_max_read_windows (bv_config b)) 1 then WriterRecovery
      else if classify s (bv_config b) \<in> {InsufficientSamples, WriteDominant} then Balanced
      else ReadBiased)"
    and "bv_read_windows b' = (if bv_mode b' = ReadBiased then n else 0)"
    and "bv_recovery b' = (if bv_mode b' = WriterRecovery
      then max (bc_recovery_windows (bv_config b)) 1 else bv_recovery b)"
    and "bd_rollback d \<longleftrightarrow> starving"
    and "bv_rollbacks b' = (if bd_rollback d then sat_inc (bv_rollbacks b) else bv_rollbacks b)"
  using assms(1,2) unfolding starving_def n_def
  by (auto simp: observe_defs Let_def split: if_splits)

lemma observe_recovery:
  assumes "bv_mode b = WriterRecovery" and "observe s b = (d, b')"
  shows "bv_recovery b' = (if classify s (bv_config b) = WriterStarvationRisk
      then max (bc_recovery_windows (bv_config b)) 1 else bv_recovery b - 1)"
    and "bv_mode b' = (if bv_recovery b' = 0 then Balanced else WriterRecovery)"
    and "bv_read_windows b' = 0"
    and "\<not> bd_rollback d"
    and "bv_rollbacks b' = bv_rollbacks b"
  using assms by (auto simp: observe_defs Let_def split: if_splits)

text \<open>The part common to all modes.\<close>

lemma observe_common:
  assumes "observe s b = (d, b')"
  shows "bd_previous d = bv_mode b" and "bd_next d = bv_mode b'"
    and "bd_signature d = classify s (bv_config b)"
    and "bd_switched d \<longleftrightarrow> bv_mode b' \<noteq> bv_mode b"
    and "bv_windows b' = sat_inc (bv_windows b)"
    and "bv_transitions b' = (if bd_switched d then sat_inc (bv_transitions b) else bv_transitions b)"
    and "bv_last b' = bd_signature d"
  using assms
  by (cases "classify s (bv_config b)"; cases "bv_mode b"; force simp: observe_defs Let_def split: if_splits)+

lemma observe_rollback:
  assumes "observe s b = (d, b')"
  shows "bd_rollback d \<longleftrightarrow> bd_signature d = WriterStarvationRisk \<and> bv_mode b \<noteq> WriterRecovery"
    and "bd_rollback d \<Longrightarrow> bv_mode b' = WriterRecovery"
    and "bv_rollbacks b' = (if bd_rollback d then sat_inc (bv_rollbacks b) else bv_rollbacks b)"
  using observe_common [OF assms] observe_balanced [OF _ assms] observe_read_biased [OF _ assms]
    observe_recovery [OF _ assms]
  by (cases "bv_mode b"; cases "classify s (bv_config b)"; simp)+

lemma observe_ok:
  assumes "bravo_ok b" and "observe s b = (d, b')" and "bc_max_read_windows (bv_config b) < 2 ^ 32"
  shows "bravo_ok b'"
proof (cases "bv_mode b")
  case Balanced
  note st = observe_balanced [OF this assms(2)] observe_config [OF assms(2)]
  show ?thesis using assms(1) Balanced st(1-3,6)
    by (auto simp: bravo_ok_def read_budget_def split: contention_signature.splits)
next
  case ReadBiased
  note st = observe_read_biased [OF this assms(2)] observe_config [OF assms(2)]
  have "u32_inc (bv_read_windows b) \<le> read_budget (bv_config b) \<or>
      u32_inc (bv_read_windows b) \<ge> max (bc_max_read_windows (bv_config b)) 1"
    using assms(3) unfolding u32_inc_def read_budget_def by linarith
  moreover have "0 < u32_inc (bv_read_windows b)" by (simp add: u32_inc_def)
  ultimately show ?thesis using assms(1) ReadBiased st(1-3,6)
    by (auto simp: bravo_ok_def split: if_splits)
next
  case WriterRecovery
  note st = observe_recovery [OF this assms(2)] observe_config [OF assms(2)]
  show ?thesis using assms(1) WriterRecovery st(1-3,6)
    by (auto simp: bravo_ok_def split: if_splits)
qed

lemma observe_all_append:
  "observe_all (xs @ ys) b =
     (let (ds, b1) = observe_all xs b; (es, b2) = observe_all ys b1 in (ds @ es, b2))"
  by (induction xs arbitrary: b) (auto simp: Let_def split: prod.splits)

lemma observe_all_frame:
  "observe_all ss b = (ds, b') \<Longrightarrow> bv_config b' = bv_config b \<and> length ds = length ss"
  by (induction ss arbitrary: b ds) (auto simp: Let_def observe_config split: prod.splits)

lemma observe_all_ok:
  "bravo_ok b \<Longrightarrow> bc_max_read_windows (bv_config b) < 2 ^ 32 \<Longrightarrow> observe_all ss b = (ds, b') \<Longrightarrow>
   bravo_ok b'"
proof (induction ss arbitrary: b ds)
  case (Cons s ss)
  obtain d b1 where s: "observe s b = (d, b1)" by fastforce
  then obtain ds1 where "observe_all ss b1 = (ds1, b')"
    using Cons.prems(3) by (auto simp: Let_def split: prod.splits)
  with Cons.IH observe_ok [OF Cons.prems(1) s Cons.prems(2)] observe_config [OF s] Cons.prems(2)
  show ?case by simp
qed simp

section \<open>The read bias is bounded\<close>

lemma read_windows_left:
  "bravo_ok b \<Longrightarrow> bc_max_read_windows (bv_config b) < 2 ^ 32 \<Longrightarrow> observe_all ss b = (ds, b') \<Longrightarrow>
   map bd_next ds = replicate n ReadBiased @ vs \<Longrightarrow>
   n + bv_read_windows b \<le> read_budget (bv_config b)"
proof (induction n arbitrary: b ss ds)
  case 0
  then show ?case by (simp add: bravo_ok_def)
next
  case (Suc n)
  obtain s ss1 where ss: "ss = s # ss1"
    using Suc.prems(3,4) by (cases ss) auto
  obtain d b1 where s: "observe s b = (d, b1)" by fastforce
  then obtain ds1 where run: "observe_all ss1 b1 = (ds1, b')" "ds = d # ds1"
    using Suc.prems(3) ss by (auto simp: Let_def split: prod.splits)
  have next1: "bv_mode b1 = ReadBiased" "map bd_next ds1 = replicate n ReadBiased @ vs"
    using Suc.prems(4) run(2) observe_common(2) [OF s] by auto
  have "n + bv_read_windows b1 \<le> read_budget (bv_config b1)"
    using Suc.IH [OF _ _ run(1) next1(2)] observe_ok [OF Suc.prems(1) s Suc.prems(2)]
      observe_config [OF s] Suc.prems(2) by simp
  moreover have "bv_read_windows b1 = Suc (bv_read_windows b)"
  proof (cases "bv_mode b")
    case Balanced
    then show ?thesis using observe_balanced(2) [OF Balanced s] next1(1) Suc.prems(1)
      by (simp add: bravo_ok_def)
  next
    case ReadBiased
    have "bv_read_windows b \<le> read_budget (bv_config b)" using Suc.prems(1) by (simp add: bravo_ok_def)
    then have "u32_inc (bv_read_windows b) = Suc (bv_read_windows b)"
      using Suc.prems(2) by (auto simp: u32_inc_def read_budget_def min_def max_def split: if_splits)
    then show ?thesis using observe_read_biased(2) [OF ReadBiased s] next1(1) by simp
  next
    case WriterRecovery
    then show ?thesis using observe_recovery(2) [OF WriterRecovery s] next1(1) by (simp split: if_splits)
  qed
  ultimately show ?case using observe_config [OF s] by simp
qed

text \<open>Readers are never favoured for longer than the configured budget. In every run of
  the policy, at most \<open>max (bc_max_read_windows - 1) 1\<close> successive windows end in the read-biased
  mode, whatever the observed samples are.\<close>

theorem read_bias_bounded:
  assumes "bc_max_read_windows c < 2 ^ 32"
    and "observe_all ss (bravo_new c) = (ds, b)"
    and "map bd_next ds = us @ replicate n ReadBiased @ vs"
  shows "n \<le> read_budget c"
proof -
  have len: "length ss = length (map bd_next ds)" using observe_all_frame [OF assms(2)] by simp
  define k where "k = length us"
  obtain ds1 b1 where run1: "observe_all (take k ss) (bravo_new c) = (ds1, b1)" by fastforce
  obtain ds2 b2 where run2: "observe_all (drop k ss) b1 = (ds2, b2)" by fastforce
  have "ds = ds1 @ ds2"
    using observe_all_append [of "take k ss" "drop k ss" "bravo_new c"] assms(2) run1 run2 by simp
  moreover have "length ds1 = k"
    using observe_all_frame [OF run1] len assms(3) by (simp add: k_def)
  ultimately have "map bd_next ds2 = replicate n ReadBiased @ vs"
    using assms(3) unfolding k_def by (simp add: append_eq_append_conv)
  then have "n + bv_read_windows b1 \<le> read_budget (bv_config b1)"
    using read_windows_left [OF _ _ run2, of n vs] observe_all_ok [OF bravo_new_ok _ run1]
      observe_all_frame [OF run1] assms(1) by (simp add: bravo_new_def)
  then show ?thesis using observe_all_frame [OF run1] by (simp add: bravo_new_def)
qed

definition demo_sample :: "u64 \<Rightarrow> u64 \<Rightarrow> u64 \<Rightarrow> contention_sample" where
  "demo_sample reads writes timeouts =
     \<lparr>read_acquires = reads, write_acquires = writes, read_wait_p95 = 0, write_wait_p95 = 0,
      write_timeouts = timeouts\<rparr>"

lemma demo_classify:
  "classify (demo_sample 90 10 0) bravo_default_config = ReadDominant"
  "classify (demo_sample 10 90 0) bravo_default_config = WriteDominant"
  "classify (demo_sample 90 10 5) bravo_default_config = WriterStarvationRisk"
  by (simp_all add: classify_def demo_sample_def bravo_default_config_def total_acquires_def
      sat_add_def read_ratio_permille_def Let_def)

lemmas bravo_run = observe_defs bravo_new_def demo_classify u32_inc_def Let_def

lemma read_bias_bounded_witness:
  "map bd_next (fst (observe_all (replicate 5 (demo_sample 90 10 0)) (bravo_new bravo_default_config)))
     = [] @ replicate 4 ReadBiased @ [WriterRecovery] \<and> 4 \<le> read_budget bravo_default_config"
proof -
  have five: "replicate 5 x = [x, x, x, x, x]" "replicate 4 y = [y, y, y, y]" for x :: 'x and y :: 'y
    by (simp_all add: numeral_eq_Suc)
  have max: "bc_max_read_windows bravo_default_config = 5" by (simp add: bravo_default_config_def)
  have run: "map bd_next (fst (observe_all (replicate 5 (demo_sample 90 10 0))
      (bravo_new bravo_default_config))) = [] @ replicate 4 ReadBiased @ [WriterRecovery]"
    unfolding five by (simp add: bravo_run max)
  have "bc_max_read_windows bravo_default_config < 2 ^ 32" by (simp add: max)
  from read_bias_bounded [OF this prod.collapse [symmetric] run] run show ?thesis by blast
qed

section \<open>Writers recover\<close>

definition starving :: "bravo_config \<Rightarrow> contention_sample \<Rightarrow> bool" where
  "starving c s \<longleftrightarrow> classify s c = WriterStarvationRisk"

lemma starving_enters_recovery:
  "observe s b = (d, b') \<Longrightarrow> starving (bv_config b) s \<Longrightarrow>
   bv_mode b' = WriterRecovery \<and> bv_recovery b' = max (bc_recovery_windows (bv_config b)) 1"
  using observe_balanced(1,3) [of b s d b'] observe_read_biased(1,3) [of b s d b']
    observe_recovery(1,2) [of b s d b']
  by (cases "bv_mode b") (auto simp: starving_def)

lemma calm_recovery_counts_down:
  "bv_mode b = WriterRecovery \<Longrightarrow> bv_recovery b = Suc n \<Longrightarrow> length ss = Suc n \<Longrightarrow>
   \<forall>s \<in> set ss. \<not> starving (bv_config b) s \<Longrightarrow> observe_all ss b = (ds, b') \<Longrightarrow>
   map bd_next ds = replicate n WriterRecovery @ [Balanced]"
proof (induction n arbitrary: b ss ds)
  case 0
  then obtain s where ss: "ss = [s]" by (cases ss) auto
  obtain d b1 where s: "observe s b = (d, b1)" by fastforce
  show ?case
    using observe_recovery(1,2) [OF "0.prems"(1) s] observe_common(2) [OF s] "0.prems" ss s
    by (auto simp: starving_def)
next
  case (Suc n)
  obtain s ss1 where ss: "ss = s # ss1" "length ss1 = Suc n"
    using Suc.prems(3) by (cases ss) auto
  obtain d b1 where s: "observe s b = (d, b1)" by fastforce
  then obtain ds1 where run: "observe_all ss1 b1 = (ds1, b')" "ds = d # ds1"
    using Suc.prems(5) ss by (auto simp: Let_def split: prod.splits)
  have b1: "bv_recovery b1 = Suc n" "bv_mode b1 = WriterRecovery" "bd_next d = WriterRecovery"
    using observe_recovery(1,2) [OF Suc.prems(1) s] observe_common(2) [OF s] Suc.prems(2,4) ss
    by (simp_all add: starving_def)
  then have "map bd_next ds1 = replicate n WriterRecovery @ [Balanced]"
    using Suc.IH [OF b1(2,1) ss(2) _ run(1)] Suc.prems(4) ss observe_config [OF s] by simp
  with b1 run(2) show ?case by simp
qed

text \<open>Writers are served. From every state, a window with a risk of writer
  starvation puts the policy into writer recovery for the configured number of windows, at least
  one; when no further window shows the risk, the policy is balanced again exactly after them.\<close>

theorem writer_recovery_served:
  assumes "starving (bv_config b) s" and "\<forall>t \<in> set ss. \<not> starving (bv_config b) t"
    and "length ss = max (bc_recovery_windows (bv_config b)) 1"
    and "observe_all (s # ss) b = (ds, b')"
  shows "map bd_next ds = replicate (max (bc_recovery_windows (bv_config b)) 1) WriterRecovery @ [Balanced]"
proof -
  obtain d b1 where s: "observe s b = (d, b1)" by fastforce
  then obtain ds1 where run: "observe_all ss b1 = (ds1, b')" "ds = d # ds1"
    using assms(4) by (auto simp: Let_def split: prod.splits)
  note b1 = starving_enters_recovery [OF s assms(1)] observe_config [OF s] observe_common(2) [OF s]
  obtain n where n: "max (bc_recovery_windows (bv_config b)) 1 = Suc n"
    by (metis Suc_diff_1 less_le_trans max.cobounded2 zero_less_one)
  have "map bd_next ds1 = replicate n WriterRecovery @ [Balanced]"
    using calm_recovery_counts_down [OF _ _ _ _ run(1), of n] b1 n assms(2,3) by simp
  then show ?thesis using run(2) b1 n by simp
qed

lemma writer_recovery_served_witness:
  "map bd_next (fst (observe_all
      (demo_sample 90 10 5 # [demo_sample 90 10 0, demo_sample 10 90 0])
      (bravo_new bravo_default_config)))
     = replicate (max (bc_recovery_windows bravo_default_config) 1) WriterRecovery @ [Balanced]"
proof -
  have two: "max (bc_recovery_windows bravo_default_config) 1 = 2" by (simp add: bravo_default_config_def)
  have conf: "bv_config (bravo_new bravo_default_config) = bravo_default_config"
    by (simp add: bravo_new_def)
  show ?thesis
    using writer_recovery_served [of "bravo_new bravo_default_config" "demo_sample 90 10 5"
      "[demo_sample 90 10 0, demo_sample 10 90 0]", OF _ _ _ prod.collapse [symmetric]]
    unfolding conf two by (simp only: starving_def demo_classify list.set list.size ball_simps
        contention_signature.distinct simp_thms add_0 add_Suc One_nat_def numeral_2_eq_2 add_0_right add_Suc_right)
qed

section \<open>The counters\<close>

lemma unat_sat_inc_count: "unat a = min n (2 ^ 64 - 1) \<Longrightarrow> unat (sat_inc a) = min (Suc n) (2 ^ 64 - 1)"
  by (simp add: unat_sat_inc)

lemma observe_all_counts:
  assumes "observe_all ss b = (ds, b')"
    and "unat (bv_windows b) = min w (2 ^ 64 - 1)" and "unat (bv_transitions b) = min t (2 ^ 64 - 1)"
    and "unat (bv_rollbacks b) = min r (2 ^ 64 - 1)"
  shows "unat (bv_windows b') = min (w + length ds) (2 ^ 64 - 1) \<and>
    unat (bv_transitions b') = min (t + length (filter bd_switched ds)) (2 ^ 64 - 1) \<and>
    unat (bv_rollbacks b') = min (r + length (filter bd_rollback ds)) (2 ^ 64 - 1) \<and>
    map bd_previous ds @ [bv_mode b'] = bv_mode b # map bd_next ds"
  using assms
proof (induction ss arbitrary: b ds w t r)
  case (Cons s ss)
  obtain d b1 where s: "observe s b = (d, b1)" by fastforce
  then obtain ds1 where run: "observe_all ss b1 = (ds1, b')" "ds = d # ds1"
    using Cons.prems(1) by (auto simp: Let_def split: prod.splits)
  note c = observe_common [OF s] observe_rollback(3) [OF s]
  have w1: "unat (bv_windows b1) = min (Suc w) (2 ^ 64 - 1)"
    unfolding c(5) by (rule unat_sat_inc_count [OF Cons.prems(2)])
  have t1: "unat (bv_transitions b1) = min (if bd_switched d then Suc t else t) (2 ^ 64 - 1)"
    unfolding c(6) using unat_sat_inc_count [OF Cons.prems(3)] Cons.prems(3) by presburger
  have r1: "unat (bv_rollbacks b1) = min (if bd_rollback d then Suc r else r) (2 ^ 64 - 1)"
    unfolding c(8) using unat_sat_inc_count [OF Cons.prems(4)] Cons.prems(4) by presburger
  show ?case
    using Cons.IH [OF run(1) w1 t1 r1] run(2) c(1,2)
    by (cases "bd_switched d"; cases "bd_rollback d"; simp only: list.size filter.simps if_True
        if_False add_Suc_right add_Suc add_0_right list.map append_Cons simp_thms)
qed simp

definition decision_ok :: "bravo_decision \<Rightarrow> bool" where
  "decision_ok d \<longleftrightarrow>
     (bd_switched d \<longleftrightarrow> bd_next d \<noteq> bd_previous d) \<and>
     (bd_rollback d \<longleftrightarrow> bd_signature d = WriterStarvationRisk \<and> bd_previous d \<noteq> WriterRecovery) \<and>
     (bd_signature d = WriterStarvationRisk \<longrightarrow> bd_next d = WriterRecovery)"

lemma observe_all_decisions:
  "observe_all ss b = (ds, b') \<Longrightarrow>
   list_all decision_ok ds \<and> map bd_signature ds = map (\<lambda>s. classify s (bv_config b)) ss"
proof (induction ss arbitrary: b ds)
  case (Cons s ss)
  obtain d b1 where s: "observe s b = (d, b1)" by fastforce
  then obtain ds1 where run: "observe_all ss b1 = (ds1, b')" "ds = d # ds1"
    using Cons.prems(1) by (auto simp: Let_def split: prod.splits)
  have "decision_ok d"
    using observe_common(1-4) [OF s] observe_rollback(1) [OF s] starving_enters_recovery [OF s]
    by (auto simp: starving_def decision_ok_def)
  then show ?case
    using Cons.IH [OF run(1)] run(2) observe_common(3) [OF s] observe_config [OF s] by simp
qed simp

text \<open>The decisions of a run form a chain that starts balanced, a decision is a
  switch exactly when its two modes differ, a rollback is a starving window outside of writer
  recovery and leads into it, and the counters of the policy are the numbers of the windows, the
  switches and the rollbacks, saturating at 64 bits.\<close>

theorem bravo_counters_exact:
  assumes "observe_all ss (bravo_new c) = (ds, b)"
  shows "map bd_previous ds @ [bv_mode b] = Balanced # map bd_next ds \<and>
    map bd_signature ds = map (\<lambda>s. classify s c) ss \<and>
    list_all decision_ok ds \<and>
    unat (bv_windows b) = min (length ss) (2 ^ 64 - 1) \<and>
    unat (bv_transitions b) = min (length (filter bd_switched ds)) (2 ^ 64 - 1) \<and>
    unat (bv_rollbacks b) = min (length (filter bd_rollback ds)) (2 ^ 64 - 1)"
proof -
  have counts: "unat (bv_windows b) = min (0 + length ds) (2 ^ 64 - 1) \<and>
    unat (bv_transitions b) = min (0 + length (filter bd_switched ds)) (2 ^ 64 - 1) \<and>
    unat (bv_rollbacks b) = min (0 + length (filter bd_rollback ds)) (2 ^ 64 - 1) \<and>
    map bd_previous ds @ [bv_mode b] = bv_mode (bravo_new c) # map bd_next ds"
    by (rule observe_all_counts [OF assms]) (simp_all add: bravo_new_def)
  then show ?thesis
    using observe_all_frame [OF assms] observe_all_decisions [OF assms]
    by (simp add: bravo_new_def)
qed

lemma bravo_counters_exact_witness:
  "unat (bv_rollbacks (snd (observe_all [demo_sample 90 10 0, demo_sample 90 10 5]
      (bravo_new bravo_default_config)))) =
   min (length (filter bd_rollback (fst (observe_all [demo_sample 90 10 0, demo_sample 90 10 5]
      (bravo_new bravo_default_config))))) (2 ^ 64 - 1)"
  using bravo_counters_exact [OF prod.collapse [symmetric]] by blast

end
