(* ===== verification/Ghost_List.thy ===== *)
theory Ghost_List
  imports Messages
begin

text \<open>
  The ghost list that \<^verbatim>\<open>hostcall_queue.rs\<close> (\<^verbatim>\<open>record_ghost\<close>, \<^verbatim>\<open>consume_ghost_hit\<close>) and
  \<^verbatim>\<open>hostcall_s3_fifo.rs\<close> (\<^verbatim>\<open>push_ghost\<close>, \<^verbatim>\<open>remove_ghost\<close>) both keep as two ordered maps, by
  generation and by key, with a 64-bit generation counter; and its contract: a bounded list of
  distinct keys, the least recently recorded first.
\<close>

record 'k ghosts =
  gh_order :: "(u64, 'k) bmap"
  gh_lookup :: "('k, u64) bmap"
  gh_gen :: u64

definition no_ghosts :: "'k ghosts" where
  "no_ghosts = \<lparr>gh_order = [], gh_lookup = [], gh_gen = 0\<rparr>"

definition ghost_depth :: "'k ghosts \<Rightarrow> nat" where
  "ghost_depth g = length (gh_lookup g)"

text \<open>The trimming loop: the oldest generations go until the map fits.\<close>

fun ghost_trim ::
  "nat \<Rightarrow> (u64, 'k) bmap \<Rightarrow> ('k, u64) bmap \<Rightarrow> (u64, 'k) bmap \<times> ('k, u64) bmap" where
  "ghost_trim cap [] l = ([], l)"
| "ghost_trim cap ((i, k) # order) l =
     (if length l > cap then ghost_trim cap order (bm_del k l) else ((i, k) # order, l))"

definition ghost_push :: "nat \<Rightarrow> 'k::linorder \<Rightarrow> 'k ghosts \<Rightarrow> 'k ghosts" where
  "ghost_push cap k g =
     (let g0 = (if gh_gen g = u64_max then no_ghosts else g);
          i = sat_inc (gh_gen g0);
          (order, lookup) =
            (case bm_get (gh_lookup g0) k of
               Some old \<Rightarrow>
                 ((case bm_get (gh_order g0) old of
                     Some reused \<Rightarrow> bm_put i reused (bm_del old (gh_order g0))
                   | None \<Rightarrow> gh_order g0),
                  bm_put k i (gh_lookup g0))
             | None \<Rightarrow> (bm_put i k (gh_order g0), bm_put k i (gh_lookup g0)));
          (order', lookup') = ghost_trim cap order lookup
      in \<lparr>gh_order = order', gh_lookup = lookup', gh_gen = i\<rparr>)"

definition ghost_remove :: "'k::linorder \<Rightarrow> 'k ghosts \<Rightarrow> bool \<times> 'k ghosts" where
  "ghost_remove k g =
     (case bm_get (gh_lookup g) k of
        Some i \<Rightarrow> (True, g\<lparr>gh_lookup := bm_del k (gh_lookup g), gh_order := bm_del i (gh_order g)\<rparr>)
      | None \<Rightarrow> (False, g))"

section \<open>The invariant and the abstract list\<close>

text \<open>The two maps are inverse to each other, and no generation is ahead of the counter.\<close>

definition ghosts_ok :: "'k::linorder ghosts \<Rightarrow> bool" where
  [wf_defs]: "ghosts_ok g \<longleftrightarrow>
     bm_ok (gh_order g) \<and> bm_ok (gh_lookup g) \<and>
     (\<forall>k i. bm_get (gh_lookup g) k = Some i \<longleftrightarrow> bm_get (gh_order g) i = Some k) \<and>
     (\<forall>i \<in> fst ` set (gh_order g). i \<le> gh_gen g)"

definition ghost_keys :: "'k ghosts \<Rightarrow> 'k list" where
  "ghost_keys g = map snd (gh_order g)"

lemma no_ghosts_ok [simp]: "ghosts_ok no_ghosts" "ghost_keys no_ghosts = []" "ghost_depth no_ghosts = 0"
  by (simp_all add: wf_defs no_ghosts_def ghost_keys_def ghost_depth_def)

lemma bm_get_order_in: "ghosts_ok g \<Longrightarrow> bm_get (gh_order g) i = Some k \<longleftrightarrow> (i, k) \<in> set (gh_order g)"
  by (simp add: ghosts_ok_def bm_get_in)

lemma inverse_length:
  assumes "bm_ok order" and "bm_ok lookup"
    and "\<And>k i. bm_get lookup k = Some i \<longleftrightarrow> bm_get order i = Some k"
  shows "length lookup = length order"
proof -
  have "bij_betw (\<lambda>k. the (bm_get lookup k)) (dom (bm_get lookup)) (dom (bm_get order))"
    unfolding bij_betw_def
  proof
    show "inj_on (\<lambda>k. the (bm_get lookup k)) (dom (bm_get lookup))"
      using assms(3) by (intro inj_onI) (metis domD option.inject option.sel)
    show "(\<lambda>k. the (bm_get lookup k)) ` dom (bm_get lookup) = dom (bm_get order)"
    proof (intro set_eqI iffI)
      fix i
      assume "i \<in> (\<lambda>k. the (bm_get lookup k)) ` dom (bm_get lookup)"
      then obtain k where "bm_get lookup k = Some i" by auto
      then show "i \<in> dom (bm_get order)" using assms(3) by auto
    next
      fix i
      assume "i \<in> dom (bm_get order)"
      then obtain k where "bm_get lookup k = Some i" using assms(3) by auto
      then show "i \<in> (\<lambda>k. the (bm_get lookup k)) ` dom (bm_get lookup)"
        by (intro image_eqI [of _ _ k]) auto
    qed
  qed
  then show ?thesis
    using bm_length [OF assms(1)] bm_length [OF assms(2)] bij_betw_same_card by metis
qed

lemma ghost_trim_spec:
  "bm_ok order \<Longrightarrow> bm_ok lookup \<Longrightarrow>
   (\<And>k i. bm_get lookup k = Some i \<longleftrightarrow> bm_get order i = Some k) \<Longrightarrow>
   ghost_trim cap order lookup = (order', lookup') \<Longrightarrow>
     bm_ok order' \<and> bm_ok lookup' \<and>
     (\<forall>k i. bm_get lookup' k = Some i \<longleftrightarrow> bm_get order' i = Some k) \<and>
     order' = drop (length order - cap) order \<and> length lookup' \<le> cap"
proof (induction order arbitrary: lookup)
  case Nil
  then have "length lookup = 0" using inverse_length [of "[]" lookup] by simp
  with Nil show ?case by auto
next
  case (Cons p order)
  obtain i k where p: "p = (i, k)" by (cases p)
  have len: "length lookup = Suc (length order)"
    using inverse_length [OF Cons.prems(1-3)] by simp
  show ?case
  proof (cases "length lookup > cap")
    case False
    then show ?thesis using Cons.prems p len by auto
  next
    case True
    have "bm_ok order" using Cons.prems(1) by (rule bm_ok_tl)
    moreover have "bm_ok (bm_del k lookup)" using Cons.prems(2) by simp
    moreover have "bm_get (bm_del k lookup) k' = Some j \<longleftrightarrow> bm_get order j = Some k'" for k' j
    proof -
      have ki: "bm_get lookup k = Some i" using Cons.prems(3) p by simp
      have "bm_get order i = None"
        using Cons.prems(1) p by (auto simp: bm_ok_Cons bm_get_None)
      moreover have "bm_get lookup k' = Some j \<longleftrightarrow> bm_get (p # order) j = Some k'"
        by (rule Cons.prems(3))
      moreover have "j \<noteq> i" if "k' \<noteq> k" "bm_get lookup k' = Some j"
        using that Cons.prems(3) p by auto
      moreover have "j = i" if "k' = k" "bm_get lookup k' = Some j"
        using that ki by simp
      ultimately show ?thesis using p ki by (auto split: if_splits)
    qed
    moreover have "ghost_trim cap order (bm_del k lookup) = (order', lookup')"
      using Cons.prems(4) p True by simp
    ultimately have "bm_ok order' \<and> bm_ok lookup' \<and>
        (\<forall>k i. bm_get lookup' k = Some i \<longleftrightarrow> bm_get order' i = Some k) \<and>
        order' = drop (length order - cap) order \<and> length lookup' \<le> cap"
      by (rule Cons.IH)
    moreover have "length (p # order) - cap = Suc (length order - cap)" using True len by simp
    ultimately show ?thesis by (metis drop_Suc_Cons)
  qed
qed

section \<open>Recording and consuming a key\<close>

lemma ghost_depth_eq: "ghosts_ok g \<Longrightarrow> ghost_depth g = length (gh_order g)"
  unfolding ghosts_ok_def ghost_depth_def by (intro inverse_length) auto

lemma ghost_keys_distinct: "ghosts_ok g \<Longrightarrow> distinct (ghost_keys g)"
proof -
  assume ok: "ghosts_ok g"
  have "inj_on snd (set (gh_order g))"
  proof (intro inj_onI)
    fix x y
    assume xy: "x \<in> set (gh_order g)" "y \<in> set (gh_order g)" "snd x = snd y"
    have "(fst x, snd x) \<in> set (gh_order g)" using xy(1) by simp
    moreover have "(fst y, snd x) \<in> set (gh_order g)" using xy(2,3) by (metis prod.collapse)
    ultimately have "bm_get (gh_order g) (fst x) = Some (snd x)" "bm_get (gh_order g) (fst y) = Some (snd x)"
      by (simp_all add: bm_get_order_in [OF ok])
    then have "bm_get (gh_lookup g) (snd x) = Some (fst x)" "bm_get (gh_lookup g) (snd x) = Some (fst y)"
      using ok by (simp_all add: ghosts_ok_def)
    then show "x = y" using xy(3) by (simp add: prod_eq_iff)
  qed
  moreover have "distinct (gh_order g)"
    using ok bm_ok_distinct distinct_map unfolding ghosts_ok_def by blast
  ultimately show ?thesis by (simp add: ghost_keys_def distinct_map)
qed

lemma ghost_lookup_iff: "ghosts_ok g \<Longrightarrow> bm_get (gh_lookup g) k \<noteq> None \<longleftrightarrow> k \<in> set (ghost_keys g)"
proof -
  assume ok: "ghosts_ok g"
  have "bm_get (gh_lookup g) k \<noteq> None \<longleftrightarrow> (\<exists>i. bm_get (gh_order g) i = Some k)"
    using ok unfolding ghosts_ok_def by (metis not_None_eq)
  then show ?thesis using bm_get_order_in [OF ok] by (force simp: ghost_keys_def)
qed

lemma filter_other_key:
  assumes "ghosts_ok g" and "bm_get (gh_lookup g) k = Some i"
  shows "filter (\<lambda>e. fst e \<noteq> i) (gh_order g) = filter (\<lambda>e. snd e \<noteq> k) (gh_order g)"
proof (rule filter_cong)
  fix e assume "e \<in> set (gh_order g)"
  then have "bm_get (gh_order g) (fst e) = Some (snd e)"
    by (simp add: bm_get_order_in [OF assms(1)])
  moreover have "bm_get (gh_lookup g) k' = Some j \<longleftrightarrow> bm_get (gh_order g) j = Some k'" for k' j
    using assms(1) by (simp add: ghosts_ok_def)
  ultimately show "fst e \<noteq> i \<longleftrightarrow> snd e \<noteq> k"
    using assms(2) by (metis option.inject)
qed simp

lemma ghost_remove_spec:
  assumes ok: "ghosts_ok g" and r: "ghost_remove k g = (hit, g')"
  shows "ghosts_ok g' \<and> gh_gen g' = gh_gen g \<and> (hit \<longleftrightarrow> k \<in> set (ghost_keys g)) \<and>
    ghost_keys g' = filter (\<lambda>x. x \<noteq> k) (ghost_keys g)"
proof (cases "bm_get (gh_lookup g) k")
  case None
  then have "k \<notin> set (ghost_keys g)" using ghost_lookup_iff [OF ok, of k] by simp
  moreover from this have "filter (\<lambda>x. x \<noteq> k) (ghost_keys g) = ghost_keys g"
    by (auto simp: filter_id_conv)
  ultimately show ?thesis using r None ok by (simp add: ghost_remove_def)
next
  case (Some i)
  have inv: "bm_get (gh_lookup g) k' = Some j \<longleftrightarrow> bm_get (gh_order g) j = Some k'" for k' j
    using ok by (simp add: ghosts_ok_def)
  have g': "g' = g\<lparr>gh_lookup := bm_del k (gh_lookup g), gh_order := bm_del i (gh_order g)\<rparr>" and hit
    using r Some by (auto simp: ghost_remove_def)
  have "ghosts_ok g'"
    unfolding ghosts_ok_def g'
  proof (intro conjI allI)
    fix k' j
    show "bm_get (gh_lookup (g\<lparr>gh_lookup := bm_del k (gh_lookup g), gh_order := bm_del i (gh_order g)\<rparr>)) k'
        = Some j \<longleftrightarrow>
      bm_get (gh_order (g\<lparr>gh_lookup := bm_del k (gh_lookup g), gh_order := bm_del i (gh_order g)\<rparr>)) j
        = Some k'"
      using inv [of k i] inv [of k' j] inv [of k' i] inv [of k j] Some by auto
  qed (use ok in \<open>auto simp: ghosts_ok_def bm_keys_del\<close>)
  moreover have "k \<in> set (ghost_keys g)" using ghost_lookup_iff [OF ok, of k] Some by simp
  moreover have "ghost_keys g' = filter (\<lambda>x. x \<noteq> k) (ghost_keys g)"
    using filter_other_key [OF ok Some]
    by (simp add: g' ghost_keys_def bm_del_def filter_map o_def)
  ultimately show ?thesis using \<open>hit\<close> g' by simp
qed

text \<open>The entries a push has before it trims: the key is re-recorded as the newest.\<close>

lemma ghost_insert_spec:
  fixes g :: "'k::linorder ghosts"
  assumes ok: "ghosts_ok g" and fresh: "gh_gen g \<noteq> u64_max"
    and old: "order = (case bm_get (gh_lookup g) k of Some j \<Rightarrow> bm_del j (gh_order g) | None \<Rightarrow> gh_order g)"
  defines "i \<equiv> sat_inc (gh_gen g)"
  shows "bm_put i k order = order @ [(i, k)]" and "bm_ok (bm_put i k order)"
    and "bm_get (bm_put k i (gh_lookup g)) k' = Some j' \<longleftrightarrow> bm_get (bm_put i k order) j' = Some k'"
    and "map snd order = filter (\<lambda>x. x \<noteq> k) (ghost_keys g)"
    and "\<forall>j \<in> fst ` set order. j \<le> gh_gen g"
proof -
  obtain hit g' where r: "ghost_remove k g = (hit, g')" by fastforce
  have sp: "ghosts_ok g'" "ghost_keys g' = filter (\<lambda>x. x \<noteq> k) (ghost_keys g)" "gh_gen g' = gh_gen g"
    using ghost_remove_spec [OF ok r] by auto
  have ord: "order = gh_order g'"
    using r old by (auto simp: ghost_remove_def split: option.splits)
  show le: "\<forall>j \<in> fst ` set order. j \<le> gh_gen g"
    using sp(1,3) ord by (simp add: ghosts_ok_def)
  have lt: "gh_gen g < i" using sat_inc_less [OF fresh] by (simp add: i_def)
  show "bm_put i k order = order @ [(i, k)]"
    using le lt by (intro bm_put_last) auto
  show "bm_ok (bm_put i k order)" using sp(1) ord by (simp add: ghosts_ok_def)
  show "map snd order = filter (\<lambda>x. x \<noteq> k) (ghost_keys g)"
    using sp(2) ord by (simp add: ghost_keys_def)
  have inv: "bm_get (gh_lookup g') a = Some b \<longleftrightarrow> bm_get (gh_order g') b = Some a" for a b
    using sp(1) by (simp add: ghosts_ok_def)
  have lk: "bm_get (bm_put k i (gh_lookup g)) = (bm_get (gh_lookup g'))(k \<mapsto> i)"
    using r by (auto simp: ghost_remove_def fun_eq_iff split: option.splits)
  have "bm_get (gh_order g') i = None"
    using le lt ord by (auto simp: bm_get_None)
  moreover have "bm_get (gh_lookup g') k = None"
    using r by (auto simp: ghost_remove_def split: option.splits)
  ultimately show "bm_get (bm_put k i (gh_lookup g)) k' = Some j' \<longleftrightarrow>
      bm_get (bm_put i k order) j' = Some k'"
    using inv [of k' j'] inv [of k j'] inv [of k' i] lk ord by auto
qed

lemma ghost_push_spec:
  assumes ok: "ghosts_ok g"
  shows "ghosts_ok (ghost_push cap k g) \<and> ghost_depth (ghost_push cap k g) \<le> cap \<and>
    (let kept = (if gh_gen g = u64_max then [] else ghost_keys g);
         l = filter (\<lambda>x. x \<noteq> k) kept @ [k]
     in ghost_keys (ghost_push cap k g) = drop (length l - cap) l)"
proof -
  define g0 where "g0 = (if gh_gen g = u64_max then no_ghosts else g)"
  have ok0: "ghosts_ok g0" and fresh: "gh_gen g0 \<noteq> u64_max"
    using ok by (auto simp: g0_def no_ghosts_def ghosts_ok_def)
  define order where "order =
    (case bm_get (gh_lookup g0) k of Some j \<Rightarrow> bm_del j (gh_order g0) | None \<Rightarrow> gh_order g0)"
  define i where "i = sat_inc (gh_gen g0)"
  note ins = ghost_insert_spec [OF ok0 fresh order_def, folded i_def]
  have inv: "bm_get (gh_lookup g0) a = Some b \<longleftrightarrow> bm_get (gh_order g0) b = Some a" for a b
    using ok0 by (simp add: ghosts_ok_def)
  obtain order' lookup' where tr: "ghost_trim cap (bm_put i k order) (bm_put k i (gh_lookup g0))
      = (order', lookup')" by fastforce
  have push: "ghost_push cap k g = \<lparr>gh_order = order', gh_lookup = lookup', gh_gen = i\<rparr>"
  proof (cases "bm_get (gh_lookup g0) k")
    case None
    then show ?thesis using tr
      by (simp add: ghost_push_def Let_def g0_def [symmetric] i_def [symmetric] order_def)
  next
    case (Some old)
    then have "bm_get (gh_order g0) old = Some k" using inv by simp
    with Some show ?thesis using tr
      by (simp add: ghost_push_def Let_def g0_def [symmetric] i_def [symmetric] order_def)
  qed
  have ok_l: "bm_ok (bm_put k i (gh_lookup g0))" using ok0 by (simp add: ghosts_ok_def)
  note t = ghost_trim_spec [OF ins(2) ok_l ins(3) tr]
  have sub: "fst ` set order' \<subseteq> insert i (fst ` set order)"
    using t bm_keys_put [of i k order] in_set_dropD by (metis (no_types, lifting) image_mono set_drop_subset)
  have lt: "gh_gen g0 < i" using sat_inc_less [OF fresh] by (simp add: i_def)
  have "\<forall>j \<in> fst ` set order'. j \<le> i" using sub ins(5) lt by fastforce
  moreover have "bm_ok order'" "bm_ok lookup'"
    "\<forall>a b. bm_get lookup' a = Some b \<longleftrightarrow> bm_get order' b = Some a" using t by blast+
  ultimately have "ghosts_ok (ghost_push cap k g)" by (simp add: push ghosts_ok_def)
  moreover have "ghost_keys (ghost_push cap k g)
      = drop (length (order @ [(i, k)]) - cap) (map snd order @ [k])"
    using t push ins(1) by (simp add: ghost_keys_def drop_map [symmetric])
  moreover have "length (order @ [(i, k)]) = length (map snd order @ [k])" by simp
  ultimately show ?thesis
    using t push ins(4) by (auto simp: ghost_depth_def Let_def g0_def split: if_splits)
qed

end
