(* ===== verification/S3_Policy.thy ===== *)
theory S3_Policy
  imports Ghost_List
begin

text \<open>
  The admission policy of \<^verbatim>\<open>hostcall_s3_fifo.rs\<close>: probationary and protected live entries, the
  ghost list of the entries evicted from them, a budget of live entries per owner, and the
  fallback that a window of bad signals triggers.
\<close>

datatype s3_fallback_reason = SignalQualityInsufficient | FairnessInstability

datatype s3_tier = Small | Main | Ghost | Fallback

datatype s3_kind =
    AdmitSmall | PromoteSmallToMain | HitMain | AdmitFromGhost | RejectFairnessBudget
  | FallbackBypass

record s3_decision =
  sd_kind :: s3_kind
  sd_tier :: s3_tier
  sd_ghost_hit :: bool
  sd_fallback :: "s3_fallback_reason option"
  sd_live_depth :: nat
  sd_small_depth :: nat
  sd_main_depth :: nat
  sd_ghost_depth :: nat

record s3_config =
  s3_live_capacity :: nat
  s3_small_capacity :: nat
  s3_ghost_capacity :: nat
  s3_max_per_owner :: nat
  s3_window :: nat
  s3_min_ghost_hits :: nat
  s3_max_rejections :: nat

definition s3_default_config :: s3_config where
  "s3_default_config =
     \<lparr>s3_live_capacity = 256, s3_small_capacity = 64, s3_ghost_capacity = 512,
      s3_max_per_owner = 64, s3_window = 32, s3_min_ghost_hits = 2, s3_max_rejections = 12\<rparr>"

datatype live_tier = LiveSmall | LiveMain

record decision_signal =
  sg_ghost_hit :: bool
  sg_rejected :: bool

record 'k s3_policy =
  sp_cfg :: s3_config
  sp_small :: "'k list"
  sp_main :: "'k list"
  sp_ghost :: "'k ghosts"
  sp_tiers :: "('k, live_tier) bmap"
  sp_owners :: "('k, string) bmap"
  sp_counts :: "(string, nat) bmap"
  sp_signals :: "decision_signal list"
  sp_fallback :: "s3_fallback_reason option"
  sp_ghost_hits :: u64
  sp_admissions :: u64
  sp_promotions :: u64
  sp_rejections :: u64

definition s3_new :: "s3_config \<Rightarrow> 'k s3_policy" where
  "s3_new c =
     (let live = max (s3_live_capacity c) 2;
          floor = max (live - 1) 1;
          window = max (s3_window c) 1
      in \<lparr>sp_cfg = \<lparr>s3_live_capacity = live,
             s3_small_capacity = min (max (s3_small_capacity c) 1) floor,
             s3_ghost_capacity = max (s3_ghost_capacity c) 1,
             s3_max_per_owner = max (s3_max_per_owner c) 1, s3_window = window,
             s3_min_ghost_hits = min (s3_min_ghost_hits c) window,
             s3_max_rejections = min (s3_max_rejections c) window\<rparr>,
          sp_small = [], sp_main = [], sp_ghost = no_ghosts, sp_tiers = [], sp_owners = [],
          sp_counts = [], sp_signals = [], sp_fallback = None, sp_ghost_hits = 0,
          sp_admissions = 0, sp_promotions = 0, sp_rejections = 0\<rparr>)"

record s3_telemetry =
  st_fallback :: "s3_fallback_reason option"
  st_small_depth :: nat
  st_main_depth :: nat
  st_ghost_depth :: nat
  st_live_depth :: nat
  st_ghost_hits :: u64
  st_admissions :: u64
  st_promotions :: u64
  st_rejections :: u64
  st_owner_counts :: "(string, nat) bmap"

definition live_depth :: "'k s3_policy \<Rightarrow> nat" where
  "live_depth p = length (sp_small p) + length (sp_main p)"

definition s3_telemetry_of :: "'k s3_policy \<Rightarrow> s3_telemetry" where
  "s3_telemetry_of p =
     \<lparr>st_fallback = sp_fallback p, st_small_depth = length (sp_small p),
      st_main_depth = length (sp_main p), st_ghost_depth = ghost_depth (sp_ghost p),
      st_live_depth = live_depth p, st_ghost_hits = sp_ghost_hits p,
      st_admissions = sp_admissions p, st_promotions = sp_promotions p,
      st_rejections = sp_rejections p, st_owner_counts = sp_counts p\<rparr>"

definition clear_fallback :: "'k s3_policy \<Rightarrow> 'k s3_policy" where
  "clear_fallback p = p\<lparr>sp_fallback := None, sp_signals := []\<rparr>"

fun resolve_tier :: "s3_kind \<Rightarrow> bool \<Rightarrow> s3_tier" where
  "resolve_tier HitMain hit = Main"
| "resolve_tier PromoteSmallToMain hit = Main"
| "resolve_tier AdmitFromGhost hit = Main"
| "resolve_tier AdmitSmall hit = Small"
| "resolve_tier RejectFairnessBudget hit = (if hit then Ghost else Small)"
| "resolve_tier FallbackBypass hit = Fallback"

definition s3_decide ::
  "s3_kind \<Rightarrow> s3_tier \<Rightarrow> bool \<Rightarrow> s3_fallback_reason option \<Rightarrow> 'k s3_policy \<Rightarrow> s3_decision" where
  "s3_decide kind tier hit reason p =
     \<lparr>sd_kind = kind, sd_tier = tier, sd_ghost_hit = hit, sd_fallback = reason,
      sd_live_depth = live_depth p, sd_small_depth = length (sp_small p),
      sd_main_depth = length (sp_main p), sd_ghost_depth = ghost_depth (sp_ghost p)\<rparr>"

definition owner_count :: "string \<Rightarrow> 'k s3_policy \<Rightarrow> nat" where
  "owner_count owner p = (case bm_get (sp_counts p) owner of Some n \<Rightarrow> n | None \<Rightarrow> 0)"

definition owner_at_budget :: "string \<Rightarrow> 'k s3_policy \<Rightarrow> bool" where
  "owner_at_budget owner p \<longleftrightarrow> owner_count owner p \<ge> s3_max_per_owner (sp_cfg p)"

definition main_capacity :: "'k s3_policy \<Rightarrow> nat" where
  "main_capacity p = s3_live_capacity (sp_cfg p) - s3_small_capacity (sp_cfg p)"

section \<open>Owners and ghosts\<close>

definition increment_owner :: "string \<Rightarrow> 'k s3_policy \<Rightarrow> 'k s3_policy" where
  "increment_owner owner p =
     (case bm_get (sp_counts p) owner of
        Some n \<Rightarrow> p\<lparr>sp_counts := bm_put owner (Suc n) (sp_counts p)\<rparr>
      | None \<Rightarrow> p\<lparr>sp_counts := bm_put owner 1 (sp_counts p)\<rparr>)"

definition decrement_owner :: "string \<Rightarrow> 'k s3_policy \<Rightarrow> 'k s3_policy" where
  "decrement_owner owner p =
     (case bm_get (sp_counts p) owner of
        Some n \<Rightarrow>
          (if n > 1 then p\<lparr>sp_counts := bm_put owner (n - 1) (sp_counts p)\<rparr>
           else p\<lparr>sp_counts := bm_del owner (sp_counts p)\<rparr>)
      | None \<Rightarrow> p)"

definition remove_owner_for_key :: "'k \<Rightarrow> 'k s3_policy \<Rightarrow> 'k s3_policy" where
  "remove_owner_for_key k p =
     (case bm_get (sp_owners p) k of
        Some owner \<Rightarrow> decrement_owner owner (p\<lparr>sp_owners := bm_del k (sp_owners p)\<rparr>)
      | None \<Rightarrow> p)"

definition push_ghost :: "'k::linorder \<Rightarrow> 'k s3_policy \<Rightarrow> 'k s3_policy" where
  "push_ghost k p = p\<lparr>sp_ghost := ghost_push (s3_ghost_capacity (sp_cfg p)) k (sp_ghost p)\<rparr>"

definition remove_ghost :: "'k::linorder \<Rightarrow> 'k s3_policy \<Rightarrow> 'k s3_policy" where
  "remove_ghost k p = p\<lparr>sp_ghost := snd (ghost_remove k (sp_ghost p))\<rparr>"

definition remove_from_queue :: "'k \<Rightarrow> 'k list \<Rightarrow> 'k list" where
  "remove_from_queue k q = remove1 k q"

section \<open>Eviction\<close>

definition evict_small :: "'k::linorder s3_policy \<Rightarrow> 'k s3_policy" where
  "evict_small p =
     (case sp_small p of
        [] \<Rightarrow> p
      | k # ks \<Rightarrow> push_ghost k (remove_owner_for_key k
          (p\<lparr>sp_small := ks, sp_tiers := bm_del k (sp_tiers p)\<rparr>)))"

definition evict_main :: "'k::linorder s3_policy \<Rightarrow> 'k s3_policy" where
  "evict_main p =
     (case sp_main p of
        [] \<Rightarrow> p
      | k # ks \<Rightarrow> push_ghost k (remove_owner_for_key k
          (p\<lparr>sp_main := ks, sp_tiers := bm_del k (sp_tiers p)\<rparr>)))"

lemma remove_owner_frame [frame]:
  "sp_small (remove_owner_for_key k p) = sp_small p" "sp_main (remove_owner_for_key k p) = sp_main p"
  "sp_cfg (remove_owner_for_key k p) = sp_cfg p" "sp_ghost (remove_owner_for_key k p) = sp_ghost p"
  "sp_tiers (remove_owner_for_key k p) = sp_tiers p"
  "sp_signals (remove_owner_for_key k p) = sp_signals p"
  "sp_fallback (remove_owner_for_key k p) = sp_fallback p"
  "sp_owners (remove_owner_for_key k p) = bm_del k (sp_owners p)"
  by (auto simp: remove_owner_for_key_def decrement_owner_def bm_del_None split: option.splits)

lemma evict_frame [frame]:
  "sp_small (evict_small p) = tl (sp_small p)" "sp_main (evict_small p) = sp_main p"
  "sp_main (evict_main p) = tl (sp_main p)" "sp_small (evict_main p) = sp_small p"
  "sp_cfg (evict_small p) = sp_cfg p" "sp_cfg (evict_main p) = sp_cfg p"
  "sp_signals (evict_small p) = sp_signals p" "sp_signals (evict_main p) = sp_signals p"
  "sp_fallback (evict_small p) = sp_fallback p" "sp_fallback (evict_main p) = sp_fallback p"
  by (simp_all add: evict_small_def evict_main_def push_ghost_def frame split: list.splits)

function enforce_small :: "'k::linorder s3_policy \<Rightarrow> 'k s3_policy" where
  "enforce_small p =
     (if length (sp_small p) > s3_small_capacity (sp_cfg p) then enforce_small (evict_small p)
      else p)"
  by auto
termination by (relation "measure (\<lambda>p. length (sp_small p))") (auto simp: frame)

function enforce_main :: "'k::linorder s3_policy \<Rightarrow> 'k s3_policy" where
  "enforce_main p =
     (if length (sp_main p) > main_capacity p then enforce_main (evict_main p) else p)"
  by auto
termination by (relation "measure (\<lambda>p. length (sp_main p))") (auto simp: frame)

function enforce_live :: "'k::linorder s3_policy \<Rightarrow> 'k s3_policy" where
  "enforce_live p =
     (if live_depth p > s3_live_capacity (sp_cfg p)
      then enforce_live (if sp_small p = [] then evict_main p else evict_small p)
      else p)"
  by auto
termination
  by (relation "measure live_depth") (auto simp: frame live_depth_def neq_Nil_conv)

declare enforce_small.simps [simp del] enforce_main.simps [simp del] enforce_live.simps [simp del]

section \<open>Accesses\<close>

definition remove_live_key :: "'k::linorder \<Rightarrow> 'k s3_policy \<Rightarrow> 'k s3_policy" where
  "remove_live_key k p =
     (case bm_get (sp_tiers p) k of
        None \<Rightarrow> p
      | Some t \<Rightarrow>
          (let p1 = p\<lparr>sp_tiers := bm_del k (sp_tiers p)\<rparr>;
               p2 = (case t of
                  LiveSmall \<Rightarrow> p1\<lparr>sp_small := remove_from_queue k (sp_small p1)\<rparr>
                | LiveMain \<Rightarrow> p1\<lparr>sp_main := remove_from_queue k (sp_main p1)\<rparr>)
           in remove_owner_for_key k p2))"

definition purge_key :: "'k::linorder \<Rightarrow> 'k s3_policy \<Rightarrow> 'k s3_policy" where
  "purge_key k p = remove_ghost k (remove_live_key k p)"

definition admit_small :: "string \<Rightarrow> 'k::linorder \<Rightarrow> 'k s3_policy \<Rightarrow> 'k s3_policy" where
  "admit_small owner k p =
     (let p1 = purge_key k p;
          p2 = p1\<lparr>sp_small := sp_small p1 @ [k], sp_tiers := bm_put k LiveSmall (sp_tiers p1),
                  sp_owners := bm_put k owner (sp_owners p1)\<rparr>
      in enforce_live (enforce_small (increment_owner owner p2)))"

definition admit_from_ghost :: "string \<Rightarrow> 'k::linorder \<Rightarrow> 'k s3_policy \<Rightarrow> 'k s3_policy" where
  "admit_from_ghost owner k p =
     (let p1 = remove_ghost k p;
          p2 = p1\<lparr>sp_main := sp_main p1 @ [k], sp_tiers := bm_put k LiveMain (sp_tiers p1),
                  sp_owners := bm_put k owner (sp_owners p1)\<rparr>
      in enforce_live (enforce_main (increment_owner owner p2)))"

definition promote_small_to_main :: "'k::linorder \<Rightarrow> 'k s3_policy \<Rightarrow> 'k s3_policy" where
  "promote_small_to_main k p =
     enforce_live (enforce_main
       (p\<lparr>sp_small := remove_from_queue k (sp_small p), sp_main := sp_main p @ [k],
          sp_tiers := bm_put k LiveMain (sp_tiers p)\<rparr>))"

definition touch_main :: "'k \<Rightarrow> 'k s3_policy \<Rightarrow> 'k s3_policy" where
  "touch_main k p = p\<lparr>sp_main := remove_from_queue k (sp_main p) @ [k]\<rparr>"

definition record_signal :: "decision_signal \<Rightarrow> 'k s3_policy \<Rightarrow> 'k s3_policy" where
  "record_signal sig p =
     (let l = sp_signals p @ [sig] in p\<lparr>sp_signals := drop (length l - s3_window (sp_cfg p)) l\<rparr>)"

definition evaluate_fallback :: "'k s3_policy \<Rightarrow> 'k s3_policy" where
  "evaluate_fallback p =
     (if sp_fallback p \<noteq> None \<or> length (sp_signals p) < s3_window (sp_cfg p) then p
      else let hits = length (filter sg_ghost_hit (sp_signals p));
               rejections = length (filter sg_rejected (sp_signals p))
           in if hits < s3_min_ghost_hits (sp_cfg p)
              then p\<lparr>sp_fallback := Some SignalQualityInsufficient\<rparr>
              else if rejections > s3_max_rejections (sp_cfg p)
              then p\<lparr>sp_fallback := Some FairnessInstability\<rparr>
              else p)"

definition count_admission :: "'k s3_policy \<Rightarrow> 'k s3_policy" where
  "count_admission p = p\<lparr>sp_admissions := sat_inc (sp_admissions p)\<rparr>"

definition count_rejection :: "'k s3_policy \<Rightarrow> 'k s3_policy" where
  "count_rejection p = p\<lparr>sp_rejections := sat_inc (sp_rejections p)\<rparr>"

text \<open>The chain of conditions of \<^verbatim>\<open>access\<close>: the decision, whether the key was a ghost, the policy.\<close>

definition access_live ::
  "string \<Rightarrow> 'k::linorder \<Rightarrow> 'k s3_policy \<Rightarrow> s3_kind \<times> bool \<times> 'k s3_policy" where
  "access_live owner k p =
     (if bm_get (sp_tiers p) k = Some LiveMain then (HitMain, False, touch_main k p)
      else if bm_get (sp_tiers p) k = Some LiveSmall then
        (let p1 = promote_small_to_main k p
         in (PromoteSmallToMain, False, p1\<lparr>sp_promotions := sat_inc (sp_promotions p1)\<rparr>))
      else if bm_get (gh_lookup (sp_ghost p)) k \<noteq> None then
        (let p1 = p\<lparr>sp_ghost_hits := sat_inc (sp_ghost_hits p)\<rparr>
         in if owner_at_budget owner p1 then (RejectFairnessBudget, True, count_rejection p1)
            else (AdmitFromGhost, True, count_admission (admit_from_ghost owner k p1)))
      else if owner_at_budget owner p then (RejectFairnessBudget, False, count_rejection p)
      else (AdmitSmall, False, count_admission (admit_small owner k p)))"

definition access :: "string \<Rightarrow> 'k::linorder \<Rightarrow> 'k s3_policy \<Rightarrow> s3_decision \<times> 'k s3_policy" where
  "access owner k p =
     (case sp_fallback p of
        Some reason \<Rightarrow> (s3_decide FallbackBypass Fallback False (Some reason) p, p)
      | None \<Rightarrow>
          (let (kind, hit, p1) = access_live owner k p;
               p2 = evaluate_fallback (record_signal
                 \<lparr>sg_ghost_hit = hit, sg_rejected = (kind = RejectFairnessBudget)\<rparr> p1)
           in (s3_decide kind (resolve_tier kind hit) hit (sp_fallback p2) p2, p2)))"

section \<open>The invariant\<close>

text \<open>The queues, the two maps over the live keys and the counts of the owners agree, and no key
  is both live and a ghost.\<close>

definition live_keys :: "'k s3_policy \<Rightarrow> 'k list" where
  "live_keys p = sp_small p @ sp_main p"

definition tier_in :: "'k list \<Rightarrow> 'k list \<Rightarrow> 'k \<Rightarrow> live_tier option" where
  "tier_in small main k =
     (if k \<in> set small then Some LiveSmall else if k \<in> set main then Some LiveMain else None)"

definition counts_ok :: "('k, string) bmap \<Rightarrow> (string, nat) bmap \<Rightarrow> bool" where
  "counts_ok owners counts \<longleftrightarrow>
     (\<forall>w. bm_get counts w = (if bm_count w owners = 0 then None else Some (bm_count w owners)))"

definition tables_ok :: "'k::linorder s3_policy \<Rightarrow> bool" where
  [wf_defs]: "tables_ok p \<longleftrightarrow>
     bm_ok (sp_tiers p) \<and> bm_ok (sp_owners p) \<and> bm_ok (sp_counts p) \<and> ghosts_ok (sp_ghost p) \<and>
     distinct (live_keys p) \<and> bm_get (sp_tiers p) = tier_in (sp_small p) (sp_main p) \<and>
     dom (bm_get (sp_owners p)) = set (live_keys p) \<and> counts_ok (sp_owners p) (sp_counts p) \<and>
     set (live_keys p) \<inter> set (ghost_keys (sp_ghost p)) = {}"

definition s3_config_ok :: "s3_config \<Rightarrow> bool" where
  "s3_config_ok c \<longleftrightarrow>
     1 \<le> s3_small_capacity c \<and> s3_small_capacity c < s3_live_capacity c \<and>
     1 \<le> s3_ghost_capacity c \<and> 1 \<le> s3_max_per_owner c \<and> 1 \<le> s3_window c \<and>
     s3_min_ghost_hits c \<le> s3_window c \<and> s3_max_rejections c \<le> s3_window c"

definition bounds_ok :: "'k::linorder s3_policy \<Rightarrow> bool" where
  [wf_defs]: "bounds_ok p \<longleftrightarrow>
     length (sp_small p) \<le> s3_small_capacity (sp_cfg p) \<and>
     length (sp_main p) \<le> main_capacity p \<and>
     ghost_depth (sp_ghost p) \<le> s3_ghost_capacity (sp_cfg p) \<and>
     length (sp_signals p) \<le> s3_window (sp_cfg p) \<and>
     (\<forall>w. bm_count w (sp_owners p) \<le> s3_max_per_owner (sp_cfg p))"

definition policy_ok :: "'k::linorder s3_policy \<Rightarrow> bool" where
  "policy_ok p \<longleftrightarrow> s3_config_ok (sp_cfg p) \<and> tables_ok p \<and> bounds_ok p"

lemma s3_new_ok [simp]: "policy_ok (s3_new c)"
  by (auto simp: policy_ok_def wf_defs s3_config_ok_def s3_new_def Let_def live_keys_def tier_in_def
      counts_ok_def no_ghosts_def ghost_keys_def ghost_depth_def)

lemma counts_increment:
  "counts_ok owners counts \<Longrightarrow> bm_get owners k = None \<Longrightarrow>
   counts_ok (bm_put k w owners)
     (case bm_get counts w of Some n \<Rightarrow> bm_put w (Suc n) counts | None \<Rightarrow> bm_put w 1 counts)"
  by (auto simp: counts_ok_def bm_count_put split: option.splits if_splits)

lemma counts_decrement:
  assumes "counts_ok owners counts" and "bm_ok owners" and "bm_get owners k = Some w"
  shows "counts_ok (bm_del k owners)
     (case bm_get counts w of
        Some n \<Rightarrow> (if n > 1 then bm_put w (n - 1) counts else bm_del w counts) | None \<Rightarrow> counts)"
proof -
  have c: "bm_count v owners = bm_count v (bm_del k owners) + (if w = v then 1 else 0)" for v
    by (rule bm_count_del [OF assms(2,3)])
  then have "bm_get counts w = Some (Suc (bm_count w (bm_del k owners)))"
    using assms(1) by (simp add: counts_ok_def)
  with c show ?thesis using assms(1) by (auto simp: counts_ok_def)
qed

lemma counts_remove_owner:
  assumes "counts_ok (sp_owners p) (sp_counts p)" and "bm_ok (sp_owners p)"
  shows "counts_ok (sp_owners (remove_owner_for_key k p)) (sp_counts (remove_owner_for_key k p))"
  using assms counts_decrement [OF assms, of k]
  by (auto simp: remove_owner_for_key_def decrement_owner_def split: option.splits)

lemma remove_owner_counts_ok [simp]: "bm_ok (sp_counts p) \<Longrightarrow> bm_ok (sp_counts (remove_owner_for_key k p))"
  by (auto simp: remove_owner_for_key_def decrement_owner_def split: option.splits)

section \<open>Every operation keeps the tables\<close>

lemma ghost_push_keys:
  assumes "ghosts_ok g"
  shows "set (ghost_keys (ghost_push c k g)) \<subseteq> insert k (set (ghost_keys g))"
proof -
  define l where "l = filter (\<lambda>x. x \<noteq> k) (if gh_gen g = u64_max then [] else ghost_keys g) @ [k]"
  have "ghost_keys (ghost_push c k g) = drop (length l - c) l"
    using ghost_push_spec [OF assms, of c k] unfolding l_def Let_def by blast
  then have "set (ghost_keys (ghost_push c k g)) \<subseteq> set l" by (simp add: set_drop_subset)
  also have "\<dots> \<subseteq> insert k (set (ghost_keys g))" by (auto simp: l_def)
  finally show ?thesis .
qed

lemma ghost_push_ok:
  assumes "ghosts_ok g" shows "ghosts_ok (ghost_push c k g)" and "ghost_depth (ghost_push c k g) \<le> c"
  using ghost_push_spec [OF assms, of c k] by blast+

lemma push_ghost_tables:
  "tables_ok p \<Longrightarrow> k \<notin> set (live_keys p) \<Longrightarrow> tables_ok (push_ghost k p)"
  using ghost_push_keys [of "sp_ghost p" "s3_ghost_capacity (sp_cfg p)" k] ghost_push_ok
  by (fastforce simp: tables_ok_def push_ghost_def live_keys_def)

lemma remove_ghost_tables:
  assumes "tables_ok p"
  shows "tables_ok (remove_ghost k p) \<and>
    ghost_keys (sp_ghost (remove_ghost k p)) = filter (\<lambda>x. x \<noteq> k) (ghost_keys (sp_ghost p))"
proof -
  obtain hit g where r: "ghost_remove k (sp_ghost p) = (hit, g)" by fastforce
  then show ?thesis using assms ghost_remove_spec [OF _ r]
    by (fastforce simp: tables_ok_def remove_ghost_def live_keys_def)
qed

text \<open>Taking a live key out of its queue, its tier, its owner and the owner's count.\<close>

lemma retire_tables:
  assumes "tables_ok p" and "k \<in> set (live_keys p)" and "distinct (small @ main)"
    and "set (small @ main) = set (live_keys p) - {k}"
    and "tier_in small main = (tier_in (sp_small p) (sp_main p))(k := None)"
  defines "q \<equiv> remove_owner_for_key k
      (p\<lparr>sp_small := small, sp_main := main, sp_tiers := bm_del k (sp_tiers p)\<rparr>)"
  shows "tables_ok q"
proof -
  have "counts_ok (sp_owners q) (sp_counts q)"
    unfolding q_def using assms(1) by (intro counts_remove_owner) (auto simp: tables_ok_def)
  then show ?thesis
    using assms unfolding q_def by (auto simp: tables_ok_def frame live_keys_def)
qed

lemma evict_small_eq:
  "sp_small p = k # ks \<Longrightarrow>
   evict_small p = push_ghost k (remove_owner_for_key k
     (p\<lparr>sp_small := ks, sp_main := sp_main p, sp_tiers := bm_del k (sp_tiers p)\<rparr>))"
  by (simp add: evict_small_def)

lemma evict_main_eq:
  "sp_main p = k # ks \<Longrightarrow>
   evict_main p = push_ghost k (remove_owner_for_key k
     (p\<lparr>sp_small := sp_small p, sp_main := ks, sp_tiers := bm_del k (sp_tiers p)\<rparr>))"
  by (simp add: evict_main_def)

lemma evict_small_tables:
  assumes "tables_ok p" and "sp_small p = k # ks"
  shows "tables_ok (evict_small p)"
  unfolding evict_small_eq [OF assms(2)]
proof (intro push_ghost_tables retire_tables)
  show "tier_in ks (sp_main p) = (tier_in (sp_small p) (sp_main p))(k := None)"
    using assms by (auto simp: tables_ok_def live_keys_def tier_in_def fun_eq_iff)
qed (use assms in \<open>auto simp: tables_ok_def live_keys_def frame\<close>)

lemma evict_main_tables:
  assumes "tables_ok p" and "sp_main p = k # ks"
  shows "tables_ok (evict_main p)"
  unfolding evict_main_eq [OF assms(2)]
proof (intro push_ghost_tables retire_tables)
  show "tier_in (sp_small p) ks = (tier_in (sp_small p) (sp_main p))(k := None)"
    using assms by (auto simp: tables_ok_def live_keys_def tier_in_def fun_eq_iff)
qed (use assms in \<open>auto simp: tables_ok_def live_keys_def frame\<close>)

lemma evict_rest:
  "sp_small p = k # ks \<Longrightarrow>
     sp_owners (evict_small p) = bm_del k (sp_owners p) \<and>
     sp_ghost (evict_small p) = ghost_push (s3_ghost_capacity (sp_cfg p)) k (sp_ghost p)"
  "sp_main p = k # ks \<Longrightarrow>
     sp_owners (evict_main p) = bm_del k (sp_owners p) \<and>
     sp_ghost (evict_main p) = ghost_push (s3_ghost_capacity (sp_cfg p)) k (sp_ghost p)"
  by (simp_all add: evict_small_eq evict_main_eq push_ghost_def frame)

text \<open>A key that is neither live nor a ghost joins one of the queues.\<close>

lemma join_tables:
  assumes "tables_ok p" and "k \<notin> set (live_keys p)" and "k \<notin> set (ghost_keys (sp_ghost p))"
    and "(small, main) = (case t of LiveSmall \<Rightarrow> (sp_small p @ [k], sp_main p)
                                  | LiveMain \<Rightarrow> (sp_small p, sp_main p @ [k]))"
  shows "tables_ok (increment_owner owner (p\<lparr>sp_small := small, sp_main := main,
      sp_tiers := bm_put k t (sp_tiers p), sp_owners := bm_put k owner (sp_owners p)\<rparr>))"
proof -
  let ?q = "p\<lparr>sp_small := small, sp_main := main,
      sp_tiers := bm_put k t (sp_tiers p), sp_owners := bm_put k owner (sp_owners p)\<rparr>"
  have fresh: "bm_get (sp_owners p) k = None"
    using assms(1,2) by (auto simp: tables_ok_def)
  have eq: "increment_owner owner ?q = ?q\<lparr>sp_counts := (case bm_get (sp_counts p) owner of
      Some n \<Rightarrow> bm_put owner (Suc n) (sp_counts p) | None \<Rightarrow> bm_put owner 1 (sp_counts p))\<rparr>"
    by (simp add: increment_owner_def split: option.splits)
  have "tier_in small main = (tier_in (sp_small p) (sp_main p))(k \<mapsto> t)"
    using assms(2,4) by (cases t) (auto simp: tier_in_def live_keys_def fun_eq_iff)
  moreover have "distinct (small @ main)" "set (small @ main) = insert k (set (live_keys p))"
    using assms(1,2,4) by (cases t; auto simp: tables_ok_def live_keys_def)+
  ultimately show ?thesis
    unfolding eq using assms(1,3) counts_increment [of "sp_owners p" "sp_counts p" k owner] fresh
    by (auto simp: tables_ok_def live_keys_def split: option.splits)
qed

section \<open>The eviction loops\<close>

text \<open>What the tables and the budgets promise while a queue may be one entry too long.\<close>

definition mid_ok :: "'k::linorder s3_policy \<Rightarrow> bool" where
  [wf_defs]: "mid_ok p \<longleftrightarrow> tables_ok p \<and> ghost_depth (sp_ghost p) \<le> s3_ghost_capacity (sp_cfg p) \<and>
     (\<forall>w. bm_count w (sp_owners p) \<le> s3_max_per_owner (sp_cfg p))"

lemma bm_count_del_le: "bm_count v (bm_del k m) \<le> bm_count v m"
  by (induction m) (auto simp: bm_count_def bm_del_def)

lemma evict_mid:
  assumes "mid_ok p"
  shows "mid_ok (evict_small p)" and "mid_ok (evict_main p)"
proof -
  have g: "ghost_depth (ghost_push c k (sp_ghost p)) \<le> c" for c k
    using assms by (intro ghost_push_ok) (simp add: mid_ok_def tables_ok_def)
  have del: "bm_count w (bm_del k (sp_owners p)) \<le> s3_max_per_owner (sp_cfg p)" for w k
    using assms bm_count_del_le [of w k "sp_owners p"] order_trans by (fastforce simp: mid_ok_def)
  show "mid_ok (evict_small p)"
  proof (cases "sp_small p")
    case Nil
    then show ?thesis using assms by (simp add: evict_small_def)
  next
    case (Cons k ks)
    have "tables_ok (evict_small p)" using assms evict_small_tables Cons by (auto simp: mid_ok_def)
    then show ?thesis using evict_rest(1) [OF Cons] g del by (simp add: mid_ok_def frame)
  qed
  show "mid_ok (evict_main p)"
  proof (cases "sp_main p")
    case Nil
    then show ?thesis using assms by (simp add: evict_main_def)
  next
    case (Cons k ks)
    have "tables_ok (evict_main p)" using assms evict_main_tables Cons by (auto simp: mid_ok_def)
    then show ?thesis using evict_rest(2) [OF Cons] g del by (simp add: mid_ok_def frame)
  qed
qed

lemma enforce_small_one:
  "length (sp_small p) \<le> Suc (s3_small_capacity (sp_cfg p)) \<Longrightarrow>
   enforce_small p = (if length (sp_small p) > s3_small_capacity (sp_cfg p) then evict_small p else p)"
  by (subst enforce_small.simps, subst enforce_small.simps) (simp add: frame)

lemma enforce_main_one:
  "length (sp_main p) \<le> Suc (main_capacity p) \<Longrightarrow>
   enforce_main p = (if length (sp_main p) > main_capacity p then evict_main p else p)"
  by (subst enforce_main.simps, subst enforce_main.simps) (simp add: frame main_capacity_def)

lemma enforce_live_idle: "live_depth p \<le> s3_live_capacity (sp_cfg p) \<Longrightarrow> enforce_live p = p"
  by (subst enforce_live.simps) simp

text \<open>With the small and the main queue at their bounds, the total bound never evicts.\<close>

lemma after_small:
  assumes "mid_ok p" and "s3_config_ok (sp_cfg p)"
    and "length (sp_small p) \<le> Suc (s3_small_capacity (sp_cfg p))"
    and "length (sp_main p) \<le> main_capacity p"
  defines "q \<equiv> enforce_live (enforce_small p)"
  shows "q = (if length (sp_small p) > s3_small_capacity (sp_cfg p) then evict_small p else p)"
    and "mid_ok q" and "length (sp_small q) \<le> s3_small_capacity (sp_cfg q)"
    and "length (sp_main q) \<le> main_capacity q" and "sp_cfg q = sp_cfg p"
    and "sp_signals q = sp_signals p"
proof -
  define r where "r = (if length (sp_small p) > s3_small_capacity (sp_cfg p) then evict_small p else p)"
  have r: "length (sp_small r) \<le> s3_small_capacity (sp_cfg p)" "sp_main r = sp_main p"
    "sp_cfg r = sp_cfg p" "sp_signals r = sp_signals p"
    using assms(3) by (auto simp: frame r_def)
  then have "live_depth r \<le> s3_live_capacity (sp_cfg r)"
    using assms(2,4) by (auto simp: live_depth_def main_capacity_def s3_config_ok_def)
  then have q: "q = r"
    unfolding q_def enforce_small_one [OF assms(3)] r_def by (rule enforce_live_idle)
  then show "q = (if length (sp_small p) > s3_small_capacity (sp_cfg p) then evict_small p else p)"
    by (simp only: r_def)
  show "mid_ok q" unfolding q r_def using evict_mid [OF assms(1)] assms(1) by simp
  show "length (sp_small q) \<le> s3_small_capacity (sp_cfg q)" "length (sp_main q) \<le> main_capacity q"
    "sp_cfg q = sp_cfg p" "sp_signals q = sp_signals p"
    using r assms(4) q by (simp_all only: main_capacity_def)
qed

lemma after_main:
  assumes "mid_ok p" and "s3_config_ok (sp_cfg p)"
    and "length (sp_small p) \<le> s3_small_capacity (sp_cfg p)"
    and "length (sp_main p) \<le> Suc (main_capacity p)"
  defines "q \<equiv> enforce_live (enforce_main p)"
  shows "q = (if length (sp_main p) > main_capacity p then evict_main p else p)"
    and "mid_ok q" and "length (sp_small q) \<le> s3_small_capacity (sp_cfg q)"
    and "length (sp_main q) \<le> main_capacity q" and "sp_cfg q = sp_cfg p"
    and "sp_signals q = sp_signals p"
proof -
  define r where "r = (if length (sp_main p) > main_capacity p then evict_main p else p)"
  have r: "length (sp_main r) \<le> main_capacity p" "sp_small r = sp_small p"
    "sp_cfg r = sp_cfg p" "sp_signals r = sp_signals p"
    using assms(4) by (auto simp: frame r_def)
  then have "live_depth r \<le> s3_live_capacity (sp_cfg r)"
    using assms(2,3) by (auto simp: live_depth_def main_capacity_def s3_config_ok_def)
  then have q: "q = r"
    unfolding q_def enforce_main_one [OF assms(4)] r_def by (rule enforce_live_idle)
  then show "q = (if length (sp_main p) > main_capacity p then evict_main p else p)"
    by (simp only: r_def)
  show "mid_ok q" unfolding q r_def using evict_mid [OF assms(1)] assms(1) by simp
  show "length (sp_small q) \<le> s3_small_capacity (sp_cfg q)" "length (sp_main q) \<le> main_capacity q"
    "sp_cfg q = sp_cfg p" "sp_signals q = sp_signals p"
    using r assms(3) q by (simp_all only: main_capacity_def)
qed

section \<open>The states before eviction\<close>

definition small_joined :: "string \<Rightarrow> 'k::linorder \<Rightarrow> 'k s3_policy \<Rightarrow> 'k s3_policy" where
  "small_joined owner k p = increment_owner owner
     (p\<lparr>sp_small := sp_small p @ [k], sp_tiers := bm_put k LiveSmall (sp_tiers p),
        sp_owners := bm_put k owner (sp_owners p)\<rparr>)"

definition main_joined :: "string \<Rightarrow> 'k::linorder \<Rightarrow> 'k s3_policy \<Rightarrow> 'k s3_policy" where
  "main_joined owner k p = increment_owner owner
     (p\<lparr>sp_main := sp_main p @ [k], sp_tiers := bm_put k LiveMain (sp_tiers p),
        sp_owners := bm_put k owner (sp_owners p)\<rparr>)"

lemma increment_owner_frame [frame]:
  "sp_small (increment_owner w p) = sp_small p" "sp_main (increment_owner w p) = sp_main p"
  "sp_cfg (increment_owner w p) = sp_cfg p" "sp_ghost (increment_owner w p) = sp_ghost p"
  "sp_owners (increment_owner w p) = sp_owners p" "sp_signals (increment_owner w p) = sp_signals p"
  "sp_fallback (increment_owner w p) = sp_fallback p"
  by (simp_all add: increment_owner_def split: option.splits)

lemma joined_mid:
  assumes "mid_ok p" and "k \<notin> set (live_keys p)" and "k \<notin> set (ghost_keys (sp_ghost p))"
    and "bm_count owner (sp_owners p) < s3_max_per_owner (sp_cfg p)"
  shows "mid_ok (small_joined owner k p)" and "mid_ok (main_joined owner k p)"
proof -
  have "bm_get (sp_owners p) k = None"
    using assms(1,2) by (auto simp: mid_ok_def tables_ok_def)
  then have n: "bm_count w (bm_put k owner (sp_owners p)) \<le> s3_max_per_owner (sp_cfg p)" for w
    using assms(1,4) by (auto simp: bm_count_put mid_ok_def)
  have t: "tables_ok p" using assms(1) by (simp add: mid_ok_def)
  show "mid_ok (small_joined owner k p)"
    using join_tables [OF t assms(2,3), of "sp_small p @ [k]" "sp_main p" LiveSmall owner] n assms(1)
    by (simp add: small_joined_def mid_ok_def frame)
  show "mid_ok (main_joined owner k p)"
    using join_tables [OF t assms(2,3), of "sp_small p" "sp_main p @ [k]" LiveMain owner] n assms(1)
    by (simp add: main_joined_def mid_ok_def frame)
qed

definition promoted :: "'k::linorder \<Rightarrow> 'k s3_policy \<Rightarrow> 'k s3_policy" where
  "promoted k p = p\<lparr>sp_small := remove_from_queue k (sp_small p), sp_main := sp_main p @ [k],
     sp_tiers := bm_put k LiveMain (sp_tiers p)\<rparr>"

lemma remove_from_queue_set:
  "distinct q \<Longrightarrow> remove_from_queue k q = filter (\<lambda>x. x \<noteq> k) q"
proof (induction q)
  case (Cons x q)
  then have "filter (\<lambda>y. y \<noteq> x) q = q" by (auto simp: filter_id_conv)
  with Cons show ?case by (auto simp: remove_from_queue_def)
qed (simp add: remove_from_queue_def)

lemma promoted_mid:
  assumes "mid_ok p" and "k \<in> set (sp_small p)"
  shows "mid_ok (promoted k p)"
proof -
  have d: "distinct (sp_small p)" "k \<notin> set (sp_main p)"
    using assms by (auto simp: mid_ok_def tables_ok_def live_keys_def)
  have "tier_in (remove_from_queue k (sp_small p)) (sp_main p @ [k])
      = (tier_in (sp_small p) (sp_main p))(k \<mapsto> LiveMain)"
    using d by (auto simp: tier_in_def fun_eq_iff remove_from_queue_set)
  then show ?thesis
    using assms d unfolding mid_ok_def tables_ok_def promoted_def live_keys_def
    by (auto simp: remove_from_queue_set)
qed

lemma touched_mid:
  assumes "mid_ok p" and "k \<in> set (sp_main p)"
  shows "mid_ok (touch_main k p)"
proof -
  have d: "distinct (sp_main p)" using assms by (simp add: mid_ok_def tables_ok_def live_keys_def)
  have "tier_in (sp_small p) (remove_from_queue k (sp_main p) @ [k]) = tier_in (sp_small p) (sp_main p)"
    using d assms(2) by (auto simp: tier_in_def fun_eq_iff remove_from_queue_set)
  then show ?thesis
    using assms d unfolding mid_ok_def tables_ok_def touch_main_def live_keys_def
    by (auto simp: remove_from_queue_set)
qed

section \<open>Accesses keep the invariant\<close>

lemma policy_ok_mid: "policy_ok p \<longleftrightarrow> s3_config_ok (sp_cfg p) \<and> mid_ok p \<and>
    length (sp_small p) \<le> s3_small_capacity (sp_cfg p) \<and> length (sp_main p) \<le> main_capacity p \<and>
    length (sp_signals p) \<le> s3_window (sp_cfg p)"
  by (auto simp: policy_ok_def wf_defs)

lemma tables_tier:
  assumes "tables_ok p"
  shows "bm_get (sp_tiers p) k = Some LiveSmall \<longleftrightarrow> k \<in> set (sp_small p)"
    and "bm_get (sp_tiers p) k = Some LiveMain \<longleftrightarrow> k \<in> set (sp_main p)"
    and "bm_get (sp_tiers p) k = None \<longleftrightarrow> k \<notin> set (live_keys p)"
  using assms by (auto simp: tables_ok_def tier_in_def live_keys_def)

lemma tables_ghost:
  "tables_ok p \<Longrightarrow> bm_get (gh_lookup (sp_ghost p)) k \<noteq> None \<longleftrightarrow> k \<in> set (ghost_keys (sp_ghost p))"
  by (rule ghost_lookup_iff) (simp add: tables_ok_def)

lemma at_budget_iff:
  "tables_ok p \<Longrightarrow> owner_at_budget w p \<longleftrightarrow> s3_max_per_owner (sp_cfg p) \<le> bm_count w (sp_owners p)"
  by (auto simp: owner_at_budget_def owner_count_def tables_ok_def counts_ok_def)

lemma purge_absent:
  assumes "tables_ok p" and "k \<notin> set (live_keys p)" and "k \<notin> set (ghost_keys (sp_ghost p))"
  shows "purge_key k p = p"
proof -
  have "bm_get (gh_lookup (sp_ghost p)) k = None" using tables_ghost [OF assms(1), of k] assms(3) by simp
  moreover have "bm_get (sp_tiers p) k = None" using tables_tier(3) [OF assms(1)] assms(2) by simp
  ultimately show ?thesis
    by (simp add: purge_key_def remove_live_key_def remove_ghost_def ghost_remove_def)
qed

lemma remove_ghost_mid:
  assumes "mid_ok p"
  shows "mid_ok (remove_ghost k p)"
    and "ghost_keys (sp_ghost (remove_ghost k p)) = filter (\<lambda>x. x \<noteq> k) (ghost_keys (sp_ghost p))"
proof -
  have t: "tables_ok p" using assms by (simp add: mid_ok_def)
  note r = remove_ghost_tables [OF t, of k]
  show keys: "ghost_keys (sp_ghost (remove_ghost k p)) = filter (\<lambda>x. x \<noteq> k) (ghost_keys (sp_ghost p))"
    using r by simp
  have len: "ghost_depth (sp_ghost p') = length (ghost_keys (sp_ghost p'))" if "tables_ok p'" for p' :: "'a s3_policy"
    using that ghost_depth_eq by (auto simp: tables_ok_def ghost_keys_def)
  have "ghost_depth (sp_ghost (remove_ghost k p)) \<le> ghost_depth (sp_ghost p)"
    using len t r keys by simp
  with r assms show "mid_ok (remove_ghost k p)" by (simp add: mid_ok_def remove_ghost_def)
qed

lemma remove_ghost_frame [frame]:
  "sp_small (remove_ghost k p) = sp_small p" "sp_main (remove_ghost k p) = sp_main p"
  "sp_cfg (remove_ghost k p) = sp_cfg p" "sp_owners (remove_ghost k p) = sp_owners p"
  "sp_signals (remove_ghost k p) = sp_signals p" "sp_fallback (remove_ghost k p) = sp_fallback p"
  "live_keys (remove_ghost k p) = live_keys p"
  by (simp_all add: remove_ghost_def live_keys_def)

text \<open>What each branch of \<^verbatim>\<open>access\<close> yields: the state before eviction, then at most one eviction.\<close>

lemma admit_small_eq:
  assumes "policy_ok p" and "k \<notin> set (live_keys p)" and "k \<notin> set (ghost_keys (sp_ghost p))"
    and "\<not> owner_at_budget owner p"
  defines "j \<equiv> small_joined owner k p"
  shows "admit_small owner k p =
      (if length (sp_small p) < s3_small_capacity (sp_cfg p) then j else evict_small j)"
    and "policy_ok (admit_small owner k p)" and "mid_ok j"
proof -
  have t: "tables_ok p" and m: "mid_ok p" using assms(1) by (simp_all add: policy_ok_mid mid_ok_def)
  have eq: "admit_small owner k p = enforce_live (enforce_small j)"
    using purge_absent [OF t assms(2,3)] by (simp add: admit_small_def j_def small_joined_def Let_def)
  have j: "sp_cfg j = sp_cfg p" "length (sp_small j) = Suc (length (sp_small p))" "sp_main j = sp_main p"
    "sp_signals j = sp_signals p" "main_capacity j = main_capacity p"
    by (simp_all add: j_def small_joined_def frame main_capacity_def)
  show mj: "mid_ok j"
    unfolding j_def using assms(4) at_budget_iff [OF t] by (intro joined_mid m assms(2,3)) simp
  have pre: "s3_config_ok (sp_cfg j)" "length (sp_small j) \<le> Suc (s3_small_capacity (sp_cfg j))"
    "length (sp_main j) \<le> main_capacity j"
    using assms(1) j by (simp_all add: policy_ok_mid)
  note a = after_small [OF mj pre, folded eq]
  show "admit_small owner k p =
      (if length (sp_small p) < s3_small_capacity (sp_cfg p) then j else evict_small j)"
    using a(1) j by auto
  show "policy_ok (admit_small owner k p)" using a(2-6) pre(1) j assms(1) by (simp add: policy_ok_mid)
qed

lemma admit_from_ghost_eq:
  assumes "policy_ok p" and "k \<in> set (ghost_keys (sp_ghost p))" and "\<not> owner_at_budget owner p"
  defines "j \<equiv> main_joined owner k (remove_ghost k p)"
  shows "admit_from_ghost owner k p =
      (if length (sp_main p) < main_capacity p then j else evict_main j)"
    and "policy_ok (admit_from_ghost owner k p)" and "mid_ok j"
proof -
  have t: "tables_ok p" and m: "mid_ok p" using assms(1) by (simp_all add: policy_ok_mid mid_ok_def)
  have eq: "admit_from_ghost owner k p = enforce_live (enforce_main j)"
    by (simp add: admit_from_ghost_def j_def main_joined_def Let_def)
  have j: "sp_cfg j = sp_cfg p" "length (sp_main j) = Suc (length (sp_main p))" "sp_small j = sp_small p"
    "sp_signals j = sp_signals p" "main_capacity j = main_capacity p"
    by (simp_all add: j_def main_joined_def frame main_capacity_def)
  have "k \<notin> set (live_keys p)" using t assms(2) by (auto simp: tables_ok_def)
  then show mj: "mid_ok j"
    unfolding j_def using assms(3) at_budget_iff [OF t] remove_ghost_mid [OF m, of k]
    by (intro joined_mid) (simp_all add: frame)
  have pre: "s3_config_ok (sp_cfg j)" "length (sp_small j) \<le> s3_small_capacity (sp_cfg j)"
    "length (sp_main j) \<le> Suc (main_capacity j)"
    using assms(1) j by (simp_all add: policy_ok_mid)
  note a = after_main [OF mj pre, folded eq]
  show "admit_from_ghost owner k p =
      (if length (sp_main p) < main_capacity p then j else evict_main j)"
    using a(1) j by auto
  show "policy_ok (admit_from_ghost owner k p)" using a(2-6) pre(1) j assms(1) by (simp add: policy_ok_mid)
qed

lemma promote_eq:
  assumes "policy_ok p" and "k \<in> set (sp_small p)"
  shows "promote_small_to_main k p =
      (if length (sp_main p) < main_capacity p then promoted k p else evict_main (promoted k p))"
    and "policy_ok (promote_small_to_main k p)" and "mid_ok (promoted k p)"
proof -
  have m: "mid_ok p" using assms(1) by (simp add: policy_ok_mid)
  let ?j = "promoted k p"
  have eq: "promote_small_to_main k p = enforce_live (enforce_main ?j)"
    by (simp add: promote_small_to_main_def promoted_def)
  have j: "sp_cfg ?j = sp_cfg p" "length (sp_main ?j) = Suc (length (sp_main p))"
    "length (sp_small ?j) \<le> length (sp_small p)" "sp_signals ?j = sp_signals p"
    "main_capacity ?j = main_capacity p"
    by (simp_all add: promoted_def main_capacity_def remove_from_queue_def length_remove1)
  show mj: "mid_ok ?j" by (rule promoted_mid [OF m assms(2)])
  have pre: "s3_config_ok (sp_cfg ?j)" "length (sp_small ?j) \<le> s3_small_capacity (sp_cfg ?j)"
    "length (sp_main ?j) \<le> Suc (main_capacity ?j)"
    using assms(1) j by (auto simp: policy_ok_mid)
  note a = after_main [OF mj pre, folded eq]
  show "promote_small_to_main k p =
      (if length (sp_main p) < main_capacity p then promoted k p else evict_main (promoted k p))"
    using a(1) j by auto
  show "policy_ok (promote_small_to_main k p)" using a(2-6) pre(1) j assms(1) by (simp add: policy_ok_mid)
qed

lemma touch_ok:
  assumes "policy_ok p" and "k \<in> set (sp_main p)"
  shows "policy_ok (touch_main k p)"
proof -
  have "mid_ok (touch_main k p)" using assms by (intro touched_mid) (simp_all add: policy_ok_mid)
  moreover have "length (sp_main (touch_main k p)) = length (sp_main p)"
    using assms(2) length_pos_if_in_set [OF assms(2)]
    by (simp add: touch_main_def remove_from_queue_def length_remove1)
  ultimately show ?thesis using assms(1)
    by (simp add: policy_ok_mid touch_main_def main_capacity_def)
qed

lemma policy_ok_counters [simp]:
  "policy_ok (p\<lparr>sp_promotions := n\<rparr>) \<longleftrightarrow> policy_ok p"
  "policy_ok (p\<lparr>sp_ghost_hits := n\<rparr>) \<longleftrightarrow> policy_ok p"
  "policy_ok (count_admission p) \<longleftrightarrow> policy_ok p"
  "policy_ok (count_rejection p) \<longleftrightarrow> policy_ok p"
  by (simp_all add: policy_ok_def wf_defs live_keys_def main_capacity_def count_admission_def
      count_rejection_def)

lemma access_live_ok:
  assumes "policy_ok p" and "access_live owner k p = (kind, hit, p')"
  shows "policy_ok p'"
proof -
  have t: "tables_ok p" using assms(1) by (simp add: policy_ok_def)
  let ?h = "p\<lparr>sp_ghost_hits := sat_inc (sp_ghost_hits p)\<rparr>"
  have h: "policy_ok ?h" using assms(1) by simp
  show ?thesis
  proof (cases "bm_get (sp_tiers p) k")
    case (Some t')
    then show ?thesis
      using assms touch_ok [OF assms(1), of k] promote_eq(2) [OF assms(1), of k] tables_tier [OF t, of k]
      by (cases t') (auto simp: access_live_def Let_def)
  next
    case None
    then have dead: "k \<notin> set (live_keys p)" using tables_tier(3) [OF t] by simp
    show ?thesis
    proof (cases "k \<in> set (ghost_keys (sp_ghost p))")
      case True
      then have "bm_get (gh_lookup (sp_ghost p)) k \<noteq> None" using tables_ghost [OF t] by simp
      then show ?thesis using assms(2) None True admit_from_ghost_eq(2) [OF h, of k owner] assms(1)
        by (auto simp: access_live_def Let_def split: if_splits)
    next
      case False
      then have "bm_get (gh_lookup (sp_ghost p)) k = None" using tables_ghost [OF t, of k] by simp
      then show ?thesis using assms(2) None admit_small_eq(2) [OF assms(1) dead False, of owner] assms(1)
        by (auto simp: access_live_def Let_def split: if_splits)
    qed
  qed
qed

lemma signal_ok:
  "policy_ok p \<Longrightarrow> policy_ok (evaluate_fallback (record_signal sig p))"
  by (auto simp: evaluate_fallback_def record_signal_def policy_ok_def wf_defs live_keys_def
      main_capacity_def Let_def)

lemma access_ok:
  assumes "policy_ok p" and "access owner k p = (d, p')"
  shows "policy_ok p'"
proof (cases "sp_fallback p")
  case (Some r)
  then show ?thesis using assms by (simp add: access_def)
next
  case None
  obtain kind hit p1 where a: "access_live owner k p = (kind, hit, p1)" by (metis prod_cases3)
  then show ?thesis using assms(2) None signal_ok [OF access_live_ok [OF assms(1) a]]
    by (auto simp: access_def Let_def)
qed

text \<open>The runs of a policy: accesses, and clearings of the fallback.\<close>

datatype 'k s3_op = Access string 'k | ClearFallback

fun s3_step :: "'k::linorder s3_op \<Rightarrow> 'k s3_policy \<Rightarrow> 'k s3_policy" where
  "s3_step (Access owner k) p = snd (access owner k p)"
| "s3_step ClearFallback p = clear_fallback p"

definition s3_run :: "'k::linorder s3_op list \<Rightarrow> 'k s3_policy \<Rightarrow> 'k s3_policy" where
  "s3_run ops p = fold s3_step ops p"

lemma s3_run_ok: "policy_ok p \<Longrightarrow> policy_ok (s3_run ops p)"
  unfolding s3_run_def
proof (induction ops arbitrary: p)
  case (Cons op ops)
  have "policy_ok (s3_step op p)"
  proof (cases op)
    case (Access owner k)
    then show ?thesis using access_ok [OF Cons.prems prod.collapse [symmetric]] by simp
  next
    case ClearFallback
    then show ?thesis using Cons.prems
      by (simp add: clear_fallback_def policy_ok_def wf_defs live_keys_def main_capacity_def)
  qed
  then show ?case using Cons.IH by simp
qed simp

text \<open>Whatever the configuration and the accesses, no key is in two of the three
  queues or twice in one, the live entries stay within the live capacity with the probationary ones
  within theirs, the ghost list stays within its capacity, the recorded tiers and owners are those
  of the live keys, and the recorded counts are exactly the numbers of live entries per owner, none
  above the owner's budget.\<close>

theorem s3_policy_invariant:
  "let p = s3_run ops (s3_new c)
   in distinct (sp_small p @ sp_main p @ ghost_keys (sp_ghost p)) \<and>
      length (sp_small p) \<le> s3_small_capacity (sp_cfg p) \<and>
      live_depth p \<le> s3_live_capacity (sp_cfg p) \<and>
      length (ghost_keys (sp_ghost p)) \<le> s3_ghost_capacity (sp_cfg p) \<and>
      bm_get (sp_tiers p) = tier_in (sp_small p) (sp_main p) \<and>
      dom (bm_get (sp_owners p)) = set (sp_small p @ sp_main p) \<and>
      owner_count w p = bm_count w (sp_owners p) \<and> owner_count w p \<le> s3_max_per_owner (sp_cfg p)"
proof -
  define p where "p = s3_run ops (s3_new c)"
  have ok: "policy_ok p" unfolding p_def by (rule s3_run_ok) simp
  then have t: "tables_ok p" and b: "bounds_ok p" and c: "s3_config_ok (sp_cfg p)"
    by (simp_all add: policy_ok_def)
  have g: "ghosts_ok (sp_ghost p)" using t by (simp add: tables_ok_def)
  have "length (ghost_keys (sp_ghost p)) \<le> s3_ghost_capacity (sp_cfg p)"
    using b ghost_depth_eq [OF g] by (simp add: bounds_ok_def ghost_keys_def)
  moreover have "distinct (sp_small p @ sp_main p @ ghost_keys (sp_ghost p))"
    using t ghost_keys_distinct [OF g] by (auto simp: tables_ok_def live_keys_def)
  moreover have "owner_count w p = bm_count w (sp_owners p)"
    using t by (auto simp: owner_count_def tables_ok_def counts_ok_def)
  moreover have "live_depth p \<le> s3_live_capacity (sp_cfg p)"
    using b c by (auto simp: bounds_ok_def live_depth_def main_capacity_def s3_config_ok_def)
  ultimately show ?thesis using t b
    by (simp add: tables_ok_def bounds_ok_def live_keys_def Let_def flip: p_def)
qed

section \<open>Refinement of three bounded lists\<close>

record 'k s3_view =
  vw_small :: "'k list"
  vw_main :: "'k list"
  vw_ghost :: "'k list"
  vw_owners :: "('k, string) bmap"

definition s3_view_of :: "'k s3_policy \<Rightarrow> 'k s3_view" where
  "s3_view_of p = \<lparr>vw_small = sp_small p, vw_main = sp_main p, vw_ghost = ghost_keys (sp_ghost p),
     vw_owners = sp_owners p\<rparr>"

definition without :: "'k \<Rightarrow> 'k list \<Rightarrow> 'k list" where
  "without k l = filter (\<lambda>x. x \<noteq> k) l"

definition demote :: "nat \<Rightarrow> 'k \<Rightarrow> 'k s3_view \<Rightarrow> 'k s3_view" where
  "demote cap k v =
     (let l = without k (vw_ghost v) @ [k]
      in v\<lparr>vw_ghost := drop (length l - cap) l, vw_owners := bm_del k (vw_owners v)\<rparr>)"

definition join_small :: "s3_config \<Rightarrow> 'k \<Rightarrow> 'k s3_view \<Rightarrow> 'k s3_view" where
  "join_small c k v =
     (if length (vw_small v) < s3_small_capacity c then v\<lparr>vw_small := vw_small v @ [k]\<rparr>
      else demote (s3_ghost_capacity c) (hd (vw_small v)) (v\<lparr>vw_small := tl (vw_small v) @ [k]\<rparr>))"

definition join_main :: "s3_config \<Rightarrow> 'k \<Rightarrow> 'k s3_view \<Rightarrow> 'k s3_view" where
  "join_main c k v =
     (if length (vw_main v) < s3_live_capacity c - s3_small_capacity c
      then v\<lparr>vw_main := vw_main v @ [k]\<rparr>
      else demote (s3_ghost_capacity c) (hd (vw_main v)) (v\<lparr>vw_main := tl (vw_main v) @ [k]\<rparr>))"

definition s3_spec :: "s3_config \<Rightarrow> string \<Rightarrow> 'k::linorder \<Rightarrow> 'k s3_view \<Rightarrow> s3_kind \<times> 'k s3_view" where
  "s3_spec c owner k v =
     (if k \<in> set (vw_main v) then (HitMain, v\<lparr>vw_main := without k (vw_main v) @ [k]\<rparr>)
      else if k \<in> set (vw_small v)
        then (PromoteSmallToMain, join_main c k (v\<lparr>vw_small := without k (vw_small v)\<rparr>))
      else if bm_count owner (vw_owners v) \<ge> s3_max_per_owner c then (RejectFairnessBudget, v)
      else let v1 = v\<lparr>vw_owners := bm_put k owner (vw_owners v)\<rparr>
           in if k \<in> set (vw_ghost v)
              then (AdmitFromGhost, join_main c k (v1\<lparr>vw_ghost := without k (vw_ghost v)\<rparr>))
              else (AdmitSmall, join_small c k v1))"

lemma view_evict_small:
  assumes "mid_ok p" and "gh_gen (sp_ghost p) \<noteq> u64_max" and "sp_small p = k # ks"
  shows "s3_view_of (evict_small p) = demote (s3_ghost_capacity (sp_cfg p)) k
    ((s3_view_of p)\<lparr>vw_small := ks\<rparr>)"
  using assms ghost_push_spec [of "sp_ghost p" "s3_ghost_capacity (sp_cfg p)" k]
  by (simp add: s3_view_of_def demote_def without_def frame evict_rest(1) [OF assms(3)] Let_def
      mid_ok_def tables_ok_def)

lemma view_evict_main:
  assumes "mid_ok p" and "gh_gen (sp_ghost p) \<noteq> u64_max" and "sp_main p = k # ks"
  shows "s3_view_of (evict_main p) = demote (s3_ghost_capacity (sp_cfg p)) k
    ((s3_view_of p)\<lparr>vw_main := ks\<rparr>)"
  using assms ghost_push_spec [of "sp_ghost p" "s3_ghost_capacity (sp_cfg p)" k]
  by (simp add: s3_view_of_def demote_def without_def frame evict_rest(2) [OF assms(3)] Let_def
      mid_ok_def tables_ok_def)

text \<open>Joining a queue and the eviction after it, in the code and in the list.\<close>

lemma view_joined_main:
  assumes "mid_ok j" and "gh_gen (sp_ghost j) \<noteq> u64_max" and "sp_main j = q @ [k]"
    and "s3_config_ok (sp_cfg j)" and "length q \<le> main_capacity j"
  shows "s3_view_of (if length q < main_capacity j then j else evict_main j)
    = join_main (sp_cfg j) k ((s3_view_of j)\<lparr>vw_main := q\<rparr>)"
proof (cases "length q < main_capacity j")
  case True
  then show ?thesis using assms(3) by (simp add: join_main_def s3_view_of_def main_capacity_def)
next
  case False
  then have "q \<noteq> []" using assms(4,5) by (auto simp: main_capacity_def s3_config_ok_def)
  then have q: "sp_main j = hd q # (tl q @ [k])" using assms(3) by simp
  show ?thesis using False view_evict_main [OF assms(1,2) q]
    by (simp add: join_main_def main_capacity_def s3_view_of_def)
qed

lemma view_joined_small:
  assumes "mid_ok j" and "gh_gen (sp_ghost j) \<noteq> u64_max" and "sp_small j = q @ [k]"
    and "s3_config_ok (sp_cfg j)" and "length q \<le> s3_small_capacity (sp_cfg j)"
  shows "s3_view_of (if length q < s3_small_capacity (sp_cfg j) then j else evict_small j)
    = join_small (sp_cfg j) k ((s3_view_of j)\<lparr>vw_small := q\<rparr>)"
proof (cases "length q < s3_small_capacity (sp_cfg j)")
  case True
  then show ?thesis using assms(3) by (simp add: join_small_def s3_view_of_def)
next
  case False
  then have "q \<noteq> []" using assms(4,5) by (auto simp: s3_config_ok_def)
  then have q: "sp_small j = hd q # (tl q @ [k])" using assms(3) by simp
  show ?thesis using False view_evict_small [OF assms(1,2) q]
    by (simp add: join_small_def s3_view_of_def)
qed

lemma view_signal [simp]:
  "s3_view_of (evaluate_fallback (record_signal sig p)) = s3_view_of p"
  by (simp add: evaluate_fallback_def record_signal_def s3_view_of_def Let_def)

lemma view_counters [simp]:
  "s3_view_of (p\<lparr>sp_promotions := n\<rparr>) = s3_view_of p"
  "s3_view_of (p\<lparr>sp_ghost_hits := n\<rparr>) = s3_view_of p"
  "s3_view_of (count_admission p) = s3_view_of p" "s3_view_of (count_rejection p) = s3_view_of p"
  by (simp_all add: s3_view_of_def count_admission_def count_rejection_def)

lemma remove_ghost_gen [simp]: "gh_gen (sp_ghost (remove_ghost k p)) = gh_gen (sp_ghost p)"
  by (simp add: remove_ghost_def ghost_remove_def split: option.splits)

lemma main_capacity_eqs [simp]:
  "main_capacity (main_joined w k p) = main_capacity p" "main_capacity (promoted k p) = main_capacity p"
  "main_capacity (remove_ghost k p) = main_capacity p"
  by (simp_all add: main_capacity_def main_joined_def promoted_def frame)

lemma view_fields [simp]:
  "vw_main (s3_view_of p) = sp_main p" "vw_small (s3_view_of p) = sp_small p"
  "vw_ghost (s3_view_of p) = ghost_keys (sp_ghost p)" "vw_owners (s3_view_of p) = sp_owners p"
  by (simp_all add: s3_view_of_def)

lemma policy_okD:
  assumes "policy_ok p"
  shows "tables_ok p" and "mid_ok p" and "s3_config_ok (sp_cfg p)"
    and "length (sp_main p) \<le> main_capacity p"
    and "length (sp_small p) \<le> s3_small_capacity (sp_cfg p)"
    and "distinct (sp_small p)" and "distinct (sp_main p)"
  using assms by (auto simp: policy_ok_mid mid_ok_def tables_ok_def live_keys_def)

lemma view_hit_main:
  assumes "policy_ok p" and "k \<in> set (sp_main p)" and "access_live owner k p = (kind, hit, p')"
  shows "s3_spec (sp_cfg p) owner k (s3_view_of p) = (kind, s3_view_of p')"
proof -
  have "kind = HitMain" "p' = touch_main k p"
    using assms(2,3) tables_tier(2) [OF policy_okD(1) [OF assms(1)]] by (auto simp: access_live_def)
  then show ?thesis using assms(2) policy_okD(7) [OF assms(1)]
    by (simp add: s3_spec_def touch_main_def remove_from_queue_set without_def s3_view_of_def)
qed

lemma view_promote:
  assumes ok: "policy_ok p" and gen: "gh_gen (sp_ghost p) \<noteq> u64_max"
    and k: "k \<in> set (sp_small p)" "k \<notin> set (sp_main p)" and a: "access_live owner k p = (kind, hit, p')"
  shows "s3_spec (sp_cfg p) owner k (s3_view_of p) = (kind, s3_view_of p')"
proof -
  note o = policy_okD [OF ok]
  have kp: "kind = PromoteSmallToMain" "s3_view_of p' = s3_view_of (promote_small_to_main k p)"
    using a k tables_tier [OF o(1), of k] by (auto simp: access_live_def Let_def split: if_splits)
  have j: "sp_main (promoted k p) = sp_main p @ [k]" "sp_cfg (promoted k p) = sp_cfg p"
    "sp_ghost (promoted k p) = sp_ghost p"
    by (simp_all add: promoted_def)
  have "s3_view_of (promote_small_to_main k p)
      = join_main (sp_cfg p) k ((s3_view_of (promoted k p))\<lparr>vw_main := sp_main p\<rparr>)"
    unfolding promote_eq(1) [OF ok k(1)]
    using view_joined_main [OF promote_eq(3) [OF ok k(1)] _ j(1)] gen o(3,4) j(2,3) by simp
  moreover have "(s3_view_of (promoted k p))\<lparr>vw_main := sp_main p\<rparr>
      = (s3_view_of p)\<lparr>vw_small := without k (sp_small p)\<rparr>"
    using o(6) by (simp add: s3_view_of_def promoted_def remove_from_queue_set without_def)
  ultimately show ?thesis using k kp by (simp add: s3_spec_def)
qed

lemma view_from_ghost:
  assumes ok: "policy_ok p" and gen: "gh_gen (sp_ghost p) \<noteq> u64_max"
    and k: "k \<notin> set (live_keys p)" "k \<in> set (ghost_keys (sp_ghost p))"
    and a: "access_live owner k p = (kind, hit, p')"
  shows "s3_spec (sp_cfg p) owner k (s3_view_of p) = (kind, s3_view_of p')"
proof -
  note o = policy_okD [OF ok]
  define h where "h = p\<lparr>sp_ghost_hits := sat_inc (sp_ghost_hits p)\<rparr>"
  have okh: "policy_ok h" and hg: "sp_ghost h = sp_ghost p" using ok by (simp_all add: h_def)
  have look: "bm_get (gh_lookup (sp_ghost p)) k \<noteq> None" using tables_ghost [OF o(1)] k(2) by simp
  have tier: "bm_get (sp_tiers p) k = None" using tables_tier(3) [OF o(1)] k(1) by simp
  have nk: "k \<notin> set (sp_main p)" "k \<notin> set (sp_small p)" using k(1) by (auto simp: live_keys_def)
  have bud: "owner_at_budget owner h \<longleftrightarrow> s3_max_per_owner (sp_cfg p) \<le> bm_count owner (sp_owners p)"
    using at_budget_iff [OF policy_okD(1) [OF okh], of owner] by (simp add: h_def)
  show ?thesis
  proof (cases "owner_at_budget owner h")
    case True
    then have "kind = RejectFairnessBudget" "s3_view_of p' = s3_view_of p"
      using a tier look by (auto simp: access_live_def Let_def h_def)
    then show ?thesis using True bud nk by (simp add: s3_spec_def)
  next
    case False
    define j where "j = main_joined owner k (remove_ghost k h)"
    have kp: "kind = AdmitFromGhost" "s3_view_of p' = s3_view_of (admit_from_ghost owner k h)"
      using a tier look False by (auto simp: access_live_def Let_def h_def)
    have gk: "k \<in> set (ghost_keys (sp_ghost h))" using k(2) hg by simp
    note e = admit_from_ghost_eq [OF okh gk False, folded j_def]
    have j: "sp_main j = sp_main p @ [k]" "sp_cfg j = sp_cfg p"
      "gh_gen (sp_ghost j) = gh_gen (sp_ghost p)" "main_capacity j = main_capacity p"
      "main_capacity h = main_capacity p" "sp_main h = sp_main p"
      by (simp_all add: j_def h_def main_joined_def frame main_capacity_def)
    have "s3_view_of (admit_from_ghost owner k h)
        = join_main (sp_cfg p) k ((s3_view_of j)\<lparr>vw_main := sp_main p\<rparr>)"
      unfolding e(1) using view_joined_main [OF e(3) _ j(1)] gen o(3,4) j(2-6) by simp
    moreover have "(s3_view_of j)\<lparr>vw_main := sp_main p\<rparr> = (s3_view_of p)
        \<lparr>vw_owners := bm_put k owner (sp_owners p), vw_ghost := without k (ghost_keys (sp_ghost p))\<rparr>"
      using remove_ghost_mid(2) [OF policy_okD(2) [OF okh], of k]
      by (simp add: s3_view_of_def j_def h_def main_joined_def frame without_def)
    ultimately show ?thesis using k nk kp False bud by (simp add: s3_spec_def)
  qed
qed

lemma view_new:
  assumes ok: "policy_ok p" and gen: "gh_gen (sp_ghost p) \<noteq> u64_max"
    and k: "k \<notin> set (live_keys p)" "k \<notin> set (ghost_keys (sp_ghost p))"
    and a: "access_live owner k p = (kind, hit, p')"
  shows "s3_spec (sp_cfg p) owner k (s3_view_of p) = (kind, s3_view_of p')"
proof -
  note o = policy_okD [OF ok]
  have look: "bm_get (gh_lookup (sp_ghost p)) k = None" using tables_ghost [OF o(1), of k] k(2) by simp
  have tier: "bm_get (sp_tiers p) k = None" using tables_tier(3) [OF o(1)] k(1) by simp
  note bud = at_budget_iff [OF o(1), of owner]
  have nk: "k \<notin> set (sp_main p)" "k \<notin> set (sp_small p)" using k(1) by (auto simp: live_keys_def)
  show ?thesis
  proof (cases "owner_at_budget owner p")
    case True
    then have "kind = RejectFairnessBudget" "s3_view_of p' = s3_view_of p"
      using a tier look by (auto simp: access_live_def Let_def)
    then show ?thesis using True bud nk by (simp add: s3_spec_def)
  next
    case False
    define j where "j = small_joined owner k p"
    have kp: "kind = AdmitSmall" "s3_view_of p' = s3_view_of (admit_small owner k p)"
      using a tier look False by (auto simp: access_live_def Let_def)
    have j: "sp_small j = sp_small p @ [k]" "sp_cfg j = sp_cfg p" "sp_ghost j = sp_ghost p"
      by (simp_all add: j_def small_joined_def frame)
    note e = admit_small_eq [OF ok k False, folded j_def]
    have "s3_view_of (admit_small owner k p)
        = join_small (sp_cfg p) k ((s3_view_of j)\<lparr>vw_small := sp_small p\<rparr>)"
      unfolding e(1) using view_joined_small [OF e(3) _ j(1)] gen o(3,5) j(2,3) by simp
    moreover have "(s3_view_of j)\<lparr>vw_small := sp_small p\<rparr>
        = (s3_view_of p)\<lparr>vw_owners := bm_put k owner (sp_owners p)\<rparr>"
      by (simp add: s3_view_of_def j_def small_joined_def frame)
    ultimately show ?thesis using k nk kp False bud by (simp add: s3_spec_def)
  qed
qed

lemma view_access_live:
  assumes "policy_ok p" and "gh_gen (sp_ghost p) \<noteq> u64_max"
    and "access_live owner k p = (kind, hit, p')"
  shows "s3_spec (sp_cfg p) owner k (s3_view_of p) = (kind, s3_view_of p')"
  using view_hit_main view_promote view_from_ghost view_new assms by (metis Un_iff live_keys_def set_append)

lemma enforce_small_frame [frame]:
  "sp_cfg (enforce_small p) = sp_cfg p" "sp_signals (enforce_small p) = sp_signals p"
  "sp_fallback (enforce_small p) = sp_fallback p"
  by (induction p rule: enforce_small.induct; subst enforce_small.simps; simp add: frame)+

lemma enforce_main_frame [frame]:
  "sp_cfg (enforce_main p) = sp_cfg p" "sp_signals (enforce_main p) = sp_signals p"
  "sp_fallback (enforce_main p) = sp_fallback p"
  by (induction p rule: enforce_main.induct; subst enforce_main.simps; simp add: frame)+

lemma enforce_live_frame [frame]:
  "sp_cfg (enforce_live p) = sp_cfg p" "sp_signals (enforce_live p) = sp_signals p"
  "sp_fallback (enforce_live p) = sp_fallback p"
  by (induction p rule: enforce_live.induct; subst enforce_live.simps; simp add: frame)+

lemma access_live_cfg: "access_live owner k p = (kind, hit, p') \<Longrightarrow> sp_cfg p' = sp_cfg p"
  by (auto simp: access_live_def touch_main_def promote_small_to_main_def count_admission_def
      count_rejection_def admit_from_ghost_def admit_small_def purge_key_def remove_live_key_def
      frame Let_def split: if_splits option.splits live_tier.splits) (metis live_tier.exhaust)

text \<open>C33 (refinement): outside of the fallback, an access of a reachable policy does to its three
  queues and its owners exactly what the bounded lists of \<open>s3_spec\<close> do, and decides the same: a
  protected key moves to the back, a probationary one is promoted, an owner at its budget is
  refused, a ghost is admitted as protected and any other key as probationary; a full queue demotes
  its oldest key to the ghost list, which forgets its oldest key when it is full. The entry with
  the maximal generation, which would clear the ghost list, is excluded.\<close>

theorem access_refines_lists:
  assumes "sp_fallback (s3_run ops (s3_new c)) = None"
    and "gh_gen (sp_ghost (s3_run ops (s3_new c))) \<noteq> u64_max"
    and "access owner k (s3_run ops (s3_new c)) = (d, p')"
  shows "s3_spec (sp_cfg p') owner k (s3_view_of (s3_run ops (s3_new c))) = (sd_kind d, s3_view_of p')"
proof -
  define p where "p = s3_run ops (s3_new c)"
  have ok: "policy_ok p" unfolding p_def by (rule s3_run_ok) simp
  obtain kind hit p1 where a: "access_live owner k p = (kind, hit, p1)" by (metis prod_cases3)
  have p': "sd_kind d = kind" "s3_view_of p' = s3_view_of p1" "sp_cfg p' = sp_cfg p1"
    using assms(1,3) a by (auto simp: access_def p_def Let_def s3_decide_def evaluate_fallback_def record_signal_def)
  have "sp_cfg p1 = sp_cfg p" using access_live_cfg [OF a] .
  with view_access_live [OF ok _ a] assms(2) p' show ?thesis unfolding p_def by simp
qed

lemmas s3_eval = s3_run_def s3_new_def s3_default_config_def access_def access_live_def no_ghosts_def
  owner_at_budget_def owner_count_def admit_small_def purge_key_def remove_live_key_def
  remove_ghost_def ghost_remove_def increment_owner_def count_admission_def record_signal_def
  evaluate_fallback_def Let_def enforce_small.simps enforce_live.simps live_depth_def s3_decide_def

definition demo_policy :: "nat s3_policy" where
  "demo_policy = s3_run [Access ''a'' 1] (s3_new s3_default_config)"

lemma access_refines_lists_witness:
  "s3_spec (sp_cfg (snd (access ''a'' 2 demo_policy))) ''a'' 2 (s3_view_of demo_policy)
   = (sd_kind (fst (access ''a'' 2 demo_policy)), s3_view_of (snd (access ''a'' 2 demo_policy)))"
  unfolding demo_policy_def
  by (rule access_refines_lists [OF _ _ prod.collapse [symmetric]]) (simp_all add: s3_eval)

section \<open>The fallback\<close>

fun access_all ::
  "(string \<times> 'k::linorder) list \<Rightarrow> 'k s3_policy \<Rightarrow> s3_decision list \<times> 'k s3_policy" where
  "access_all [] p = ([], p)"
| "access_all ((owner, k) # xs) p =
     (let (d, p1) = access owner k p; (ds, p2) = access_all xs p1 in (d # ds, p2))"

definition signal_of :: "s3_decision \<Rightarrow> decision_signal" where
  "signal_of d = \<lparr>sg_ghost_hit = sd_ghost_hit d, sg_rejected = (sd_kind d = RejectFairnessBudget)\<rparr>"

text \<open>The verdict on a full window of decisions.\<close>

definition window_verdict :: "s3_config \<Rightarrow> s3_decision list \<Rightarrow> s3_fallback_reason option" where
  "window_verdict c ds =
     (if length (filter sd_ghost_hit ds) < s3_min_ghost_hits c then Some SignalQualityInsufficient
      else if length (filter (\<lambda>d. sd_kind d = RejectFairnessBudget) ds) > s3_max_rejections c
      then Some FairnessInstability else None)"

lemma access_live_signals:
  "access_live owner k p = (kind, hit, p') \<Longrightarrow>
   sp_signals p' = sp_signals p \<and> sp_fallback p' = sp_fallback p"
  by (auto simp: access_live_def touch_main_def promote_small_to_main_def count_admission_def
      count_rejection_def admit_from_ghost_def admit_small_def purge_key_def remove_live_key_def
      frame Let_def split: if_splits option.splits live_tier.splits) (metis live_tier.exhaust)+

lemma access_signals:
  assumes "sp_fallback p = None" and "access owner k p = (d, p')"
    and "length (sp_signals p) < s3_window (sp_cfg p)" and "sp_signals p = map signal_of ds"
  shows "sp_signals p' = map signal_of (ds @ [d])" and "sp_cfg p' = sp_cfg p"
    and "sp_fallback p' = (if Suc (length ds) < s3_window (sp_cfg p) then None
      else window_verdict (sp_cfg p) (ds @ [d]))"
proof -
  obtain kind hit p1 where a: "access_live owner k p = (kind, hit, p1)" by (metis prod_cases3)
  let ?s = "\<lparr>sg_ghost_hit = hit, sg_rejected = (kind = RejectFairnessBudget)\<rparr>"
  have p': "p' = evaluate_fallback (record_signal ?s p1)" and d: "signal_of d = ?s"
    using assms(1,2) a by (auto simp: access_def Let_def s3_decide_def signal_of_def)
  note f = access_live_signals [OF a] access_live_cfg [OF a]
  have rs: "sp_signals (record_signal ?s p1) = map signal_of (ds @ [d])"
    using f assms(3,4) d by (simp add: record_signal_def Let_def)
  then show "sp_signals p' = map signal_of (ds @ [d])" "sp_cfg p' = sp_cfg p"
    using f by (simp_all add: p' evaluate_fallback_def record_signal_def Let_def)
  have n: "length (filter sg_ghost_hit (map signal_of es)) = length (filter sd_ghost_hit es)"
    "length (filter sg_rejected (map signal_of es))
      = length (filter (\<lambda>d. sd_kind d = RejectFairnessBudget) es)" for es
    by (simp_all add: filter_map o_def signal_of_def)
  have fb: "sp_fallback (record_signal ?s p1) = None" "sp_cfg (record_signal ?s p1) = sp_cfg p"
    using f assms(1) by (simp_all add: record_signal_def Let_def)
  show "sp_fallback p' = (if Suc (length ds) < s3_window (sp_cfg p) then None
      else window_verdict (sp_cfg p) (ds @ [d]))"
    unfolding p' evaluate_fallback_def window_verdict_def n [symmetric] rs [symmetric]
    using fb rs by (simp add: Let_def)
qed

lemma access_all_window:
  "sp_fallback p = None \<Longrightarrow> sp_signals p = map signal_of es \<Longrightarrow> access_all xs p = (ds, p') \<Longrightarrow>
   length es < s3_window (sp_cfg p) \<Longrightarrow> length es + length xs \<le> s3_window (sp_cfg p) \<Longrightarrow>
   sp_fallback p' = (if length es + length xs < s3_window (sp_cfg p) then None
     else window_verdict (sp_cfg p) (es @ ds))"
proof (induction xs arbitrary: p es ds)
  case (Cons x xs)
  obtain owner k where x: "x = (owner, k)" by (cases x)
  obtain d p1 where a: "access owner k p = (d, p1)" by fastforce
  then obtain ds1 where run: "access_all xs p1 = (ds1, p')" "ds = d # ds1"
    using Cons.prems(3) x by (auto simp: Let_def split: prod.splits)
  have "length (sp_signals p) < s3_window (sp_cfg p)" using Cons.prems(2,4) by simp
  note s = access_signals [OF Cons.prems(1) a this Cons.prems(2)]
  show ?case
  proof (cases xs)
    case Nil
    then show ?thesis using s(3) run Cons.prems(5) by simp
  next
    case (Cons y ys)
    then have "sp_fallback p1 = None" "length (es @ [d]) < s3_window (sp_cfg p1)"
      using s(2,3) Cons.prems(5) by auto
    from Cons.IH [OF this(1) s(1) run(1) this(2)] show ?thesis
      using Cons.prems(5) s(2) run(2) by simp
  qed
qed simp

text \<open>After a start or a clearing of the fallback, the policy does not fall back before
  a full window of accesses; with the last access of the window it falls back exactly when the
  window had too few ghost hits or, otherwise, more budget rejections than allowed. While it has
  fallen back, an access changes nothing and reports the bypass and the reason.\<close>

theorem fallback_exactly_on_bad_window:
  assumes "access_all xs (clear_fallback (s3_run ops (s3_new c))) = (ds, p)"
    and "length xs \<le> s3_window (sp_cfg (s3_run ops (s3_new c)))"
  shows "sp_fallback p = (if length xs < s3_window (sp_cfg (s3_run ops (s3_new c))) then None
       else window_verdict (sp_cfg (s3_run ops (s3_new c))) ds) \<and>
    (\<forall>reason. sp_fallback p = Some reason \<longrightarrow>
       snd (access owner k p) = p \<and> sd_kind (fst (access owner k p)) = FallbackBypass \<and>
       sd_fallback (fst (access owner k p)) = Some reason)"
proof -
  define q where "q = s3_run ops (s3_new c)"
  have "policy_ok q" unfolding q_def by (rule s3_run_ok) simp
  then have "0 < s3_window (sp_cfg q)" by (simp add: policy_ok_def s3_config_ok_def)
  then have "sp_fallback p = (if length xs < s3_window (sp_cfg q) then None
      else window_verdict (sp_cfg q) ds)"
    using access_all_window [of "clear_fallback q" "[]" xs ds p] assms
    by (simp add: clear_fallback_def flip: q_def)
  then show ?thesis by (simp add: access_def s3_decide_def flip: q_def)
qed

lemma fallback_exactly_on_bad_window_witness:
  "sp_fallback (snd (access_all [(''a'', 1 :: nat)] (clear_fallback (s3_run [] (s3_new s3_default_config))))) = None"
  using fallback_exactly_on_bad_window [of "[(''a'', 1 :: nat)]" "[]" s3_default_config,
      OF prod.collapse [symmetric]]
  by (simp add: s3_run_def s3_new_def s3_default_config_def Let_def)

end
