(* ===== verification/S3_Admission.thy ===== *)
theory S3_Admission
  imports S3_Policy
begin

text \<open>
  The admission state of the request queue in \<^verbatim>\<open>hostcall_queue.rs\<close> (\<^verbatim>\<open>S3FifoState\<close>): a budget of
  overflow entries per tenant, a ghost list that gives a tenant another chance, and the switch to
  plain first-in first-out order when the tenant signal or the rejections are bad.
\<close>

datatype adm_mode = Active | ConservativeFifo

record adm_config =
  ac_tenant_budget :: nat
  ac_ghost_capacity :: nat
  ac_min_samples :: u64
  ac_max_signalless :: u64
  ac_unstable_streak :: u64

definition from_capacities :: "nat \<Rightarrow> nat \<Rightarrow> adm_config" where
  "from_capacities fast overflow =
     \<lparr>ac_tenant_budget = max (overflow div 2) 1,
      ac_ghost_capacity = max (usize_sat (usize_sat (fast + overflow) * 2)) 16,
      ac_min_samples = 32, ac_max_signalless = 64, ac_unstable_streak = 16\<rparr>"

record admission =
  sa_config :: adm_config
  sa_mode :: adm_mode
  sa_fallback :: "s3_fallback_reason option"
  sa_ghost :: "string ghosts"
  sa_backlog :: "(string, nat) bmap"
  sa_ghost_hits :: u64
  sa_rejected :: u64
  sa_samples :: u64
  sa_signalless :: u64
  sa_unstable :: u64
  sa_fallbacks :: u64

definition adm_new :: "adm_config \<Rightarrow> admission" where
  "adm_new c = \<lparr>sa_config = c, sa_mode = Active, sa_fallback = None, sa_ghost = no_ghosts,
     sa_backlog = [], sa_ghost_hits = 0, sa_rejected = 0, sa_samples = 0, sa_signalless = 0,
     sa_unstable = 0, sa_fallbacks = 0\<rparr>"

definition to_fallback :: "s3_fallback_reason \<Rightarrow> admission \<Rightarrow> admission" where
  "to_fallback reason s =
     (if sa_mode s = ConservativeFifo then s
      else s\<lparr>sa_mode := ConservativeFifo, sa_fallback := Some reason,
             sa_fallbacks := sat_inc (sa_fallbacks s), sa_ghost := no_ghosts, sa_backlog := []\<rparr>)"

definition consume_ghost_hit :: "string \<Rightarrow> admission \<Rightarrow> bool \<times> admission" where
  "consume_ghost_hit k s =
     (let (hit, g) = ghost_remove k (sa_ghost s)
      in if hit then (True, s\<lparr>sa_ghost := g, sa_ghost_hits := sat_inc (sa_ghost_hits s)\<rparr>)
         else (False, s))"

definition record_ghost :: "string \<Rightarrow> admission \<Rightarrow> admission" where
  "record_ghost k s =
     (if k = [] then s
      else s\<lparr>sa_ghost := ghost_push (ac_ghost_capacity (sa_config s)) k (sa_ghost s)\<rparr>)"

definition observe_signal :: "string option \<Rightarrow> admission \<Rightarrow> admission" where
  "observe_signal tenant s =
     (if sa_mode s \<noteq> Active then s
      else case tenant of
        Some _ \<Rightarrow> s\<lparr>sa_samples := sat_inc (sa_samples s), sa_signalless := 0\<rparr>
      | None \<Rightarrow>
          (let s1 = s\<lparr>sa_signalless := sat_inc (sa_signalless s)\<rparr>
           in if sa_signalless s1 \<ge> ac_max_signalless (sa_config s1) \<and>
                 sa_samples s1 < ac_min_samples (sa_config s1)
              then to_fallback SignalQualityInsufficient s1 else s1))"

definition bump_unstable :: "admission \<Rightarrow> admission" where
  "bump_unstable s = s\<lparr>sa_unstable := sat_inc (sa_unstable s)\<rparr>"

definition check_unstable :: "admission \<Rightarrow> admission" where
  "check_unstable s =
     (if sa_unstable s \<ge> ac_unstable_streak (sa_config s) then to_fallback FairnessInstability s
      else s)"

definition tenant_backlog :: "string \<Rightarrow> admission \<Rightarrow> nat" where
  "tenant_backlog k s = (case bm_get (sa_backlog s) k of Some n \<Rightarrow> n | None \<Rightarrow> 0)"

definition allow_main_admission :: "string option \<Rightarrow> admission \<Rightarrow> bool \<times> admission" where
  "allow_main_admission tenant s =
     (if sa_mode s \<noteq> Active then (True, s)
      else case tenant of
        None \<Rightarrow> (True, s)
      | Some k \<Rightarrow>
          (if tenant_backlog k s < ac_tenant_budget (sa_config s) then (True, s)
           else let (hit, s1) = consume_ghost_hit k s
                in if hit then (True, s1\<lparr>sa_unstable := 0\<rparr>)
                   else let s2 = bump_unstable (s1\<lparr>sa_rejected := sat_inc (sa_rejected s1)\<rparr>)
                        in (False, check_unstable (record_ghost k s2))))"

definition on_main_enqueued :: "string option \<Rightarrow> admission \<Rightarrow> admission" where
  "on_main_enqueued tenant s =
     (if sa_mode s \<noteq> Active then s
      else let s1 = (case tenant of
          Some k \<Rightarrow>
            (case bm_get (sa_backlog s) k of
               Some n \<Rightarrow> s\<lparr>sa_backlog := bm_put k (Suc n) (sa_backlog s)\<rparr>
             | None \<Rightarrow> s\<lparr>sa_backlog := bm_put k 1 (sa_backlog s)\<rparr>)
        | None \<Rightarrow> s)
      in s1\<lparr>sa_unstable := 0\<rparr>)"

definition on_main_dequeued :: "string option \<Rightarrow> admission \<Rightarrow> admission" where
  "on_main_dequeued tenant s =
     (if sa_mode s \<noteq> Active then s
      else case tenant of
        None \<Rightarrow> s
      | Some k \<Rightarrow> record_ghost k
          (case bm_get (sa_backlog s) k of
             Some n \<Rightarrow> s\<lparr>sa_backlog := (if n - 1 = 0 then bm_del k (sa_backlog s)
                                         else bm_put k (n - 1) (sa_backlog s))\<rparr>
           | None \<Rightarrow> s))"

definition on_main_overflow_reject :: "string option \<Rightarrow> admission \<Rightarrow> admission" where
  "on_main_overflow_reject tenant s =
     (if sa_mode s \<noteq> Active then s
      else check_unstable (bump_unstable
        (case tenant of Some k \<Rightarrow> record_ghost k s | None \<Rightarrow> s)))"

record adm_telemetry =
  at_mode :: adm_mode
  at_fallback :: "s3_fallback_reason option"
  at_ghost_depth :: nat
  at_ghost_hits :: u64
  at_rejected :: u64
  at_samples :: u64
  at_signalless :: u64
  at_fallbacks :: u64
  at_budget :: nat
  at_tenants :: nat

definition adm_snapshot :: "admission \<Rightarrow> adm_telemetry" where
  "adm_snapshot s =
     \<lparr>at_mode = sa_mode s, at_fallback = sa_fallback s, at_ghost_depth = ghost_depth (sa_ghost s),
      at_ghost_hits = sa_ghost_hits s, at_rejected = sa_rejected s, at_samples = sa_samples s,
      at_signalless = sa_signalless s, at_fallbacks = sa_fallbacks s,
      at_budget = ac_tenant_budget (sa_config s), at_tenants = length (sa_backlog s)\<rparr>"

section \<open>The invariant\<close>

definition adm_ok :: "admission \<Rightarrow> bool" where
  [wf_defs]: "adm_ok s \<longleftrightarrow>
     ghosts_ok (sa_ghost s) \<and> bm_ok (sa_backlog s) \<and>
     ghost_depth (sa_ghost s) \<le> ac_ghost_capacity (sa_config s) \<and>
     (sa_mode s = ConservativeFifo \<longleftrightarrow> sa_fallback s \<noteq> None) \<and>
     (sa_mode s = ConservativeFifo \<longrightarrow> sa_backlog s = [] \<and> sa_ghost s = no_ghosts)"

lemma adm_new_ok [simp]: "adm_ok (adm_new c)"
  by (simp add: adm_ok_def adm_new_def)

lemma to_fallback_ok [simp]: "adm_ok s \<Longrightarrow> adm_ok (to_fallback r s)"
  by (auto simp: adm_ok_def to_fallback_def)

lemma record_ghost_ok [simp]: "adm_ok s \<Longrightarrow> sa_mode s = Active \<Longrightarrow> adm_ok (record_ghost k s)"
  by (auto simp: adm_ok_def record_ghost_def ghost_push_ok)

lemma consume_ghost_ok:
  assumes "adm_ok s" and "consume_ghost_hit k s = (hit, s')"
  shows "adm_ok s'" and "sa_mode s' = sa_mode s" and "sa_config s' = sa_config s"
    and "sa_backlog s' = sa_backlog s" and "hit \<longleftrightarrow> k \<in> set (ghost_keys (sa_ghost s))"
    and "\<not> hit \<Longrightarrow> s' = s"
proof -
  obtain h g where r: "ghost_remove k (sa_ghost s) = (h, g)" by fastforce
  have ok: "ghosts_ok (sa_ghost s)" using assms(1) by (simp add: adm_ok_def)
  note sp = ghost_remove_spec [OF ok r]
  have "ghost_depth g \<le> ghost_depth (sa_ghost s)"
    using sp ghost_depth_eq [of g] ghost_depth_eq [OF ok] length_filter_le
    by (metis ghost_keys_def length_map)
  moreover have "h \<Longrightarrow> sa_ghost s \<noteq> no_ghosts" using sp by auto
  ultimately show "adm_ok s'" "sa_mode s' = sa_mode s" "sa_config s' = sa_config s"
    "sa_backlog s' = sa_backlog s" "hit \<longleftrightarrow> k \<in> set (ghost_keys (sa_ghost s))" "\<not> hit \<Longrightarrow> s' = s"
    using assms r sp by (auto simp: consume_ghost_hit_def adm_ok_def split: if_splits)
qed

lemma adm_ok_counters [simp]:
  "adm_ok (s\<lparr>sa_samples := a\<rparr>) \<longleftrightarrow> adm_ok s"
  "adm_ok (s\<lparr>sa_signalless := b\<rparr>) \<longleftrightarrow> adm_ok s" "adm_ok (s\<lparr>sa_unstable := u\<rparr>) \<longleftrightarrow> adm_ok s"
  "adm_ok (s\<lparr>sa_rejected := n\<rparr>) \<longleftrightarrow> adm_ok s" "adm_ok (bump_unstable s) \<longleftrightarrow> adm_ok s"
  by (simp_all add: adm_ok_def bump_unstable_def)

lemma check_unstable_ok [simp]: "adm_ok s \<Longrightarrow> adm_ok (check_unstable s)"
  by (simp add: check_unstable_def)

lemma observe_signal_ok [simp]: "adm_ok s \<Longrightarrow> adm_ok (observe_signal t s)"
  by (auto simp: observe_signal_def Let_def split: option.splits)

lemma record_ghost_frame [frame]:
  "sa_mode (record_ghost k s) = sa_mode s" "sa_config (record_ghost k s) = sa_config s"
  "sa_backlog (record_ghost k s) = sa_backlog s" "sa_unstable (record_ghost k s) = sa_unstable s"
  by (simp_all add: record_ghost_def)

lemma bump_unstable_frame [frame]:
  "sa_mode (bump_unstable s) = sa_mode s" "sa_config (bump_unstable s) = sa_config s"
  "sa_backlog (bump_unstable s) = sa_backlog s" "sa_ghost (bump_unstable s) = sa_ghost s"
  by (simp_all add: bump_unstable_def)

lemma allow_main_ok:
  assumes "adm_ok s" and "allow_main_admission t s = (b, s')"
  shows "adm_ok s'"
  using assms consume_ghost_ok(1,2) [OF assms(1)]
  by (auto simp: allow_main_admission_def Let_def frame split: if_splits option.splits prod.splits)

lemma on_main_enqueued_ok [simp]: "adm_ok s \<Longrightarrow> adm_ok (on_main_enqueued t s)"
  by (auto simp: on_main_enqueued_def adm_ok_def Let_def split: option.splits)

lemma on_main_dequeued_ok [simp]: "adm_ok s \<Longrightarrow> adm_ok (on_main_dequeued t s)"
  by (auto simp: on_main_dequeued_def split: option.splits intro!: record_ghost_ok)
    (auto simp: adm_ok_def)

lemma on_main_overflow_reject_ok [simp]: "adm_ok s \<Longrightarrow> adm_ok (on_main_overflow_reject t s)"
  by (auto simp: on_main_overflow_reject_def split: option.splits)

section \<open>Admission decisions\<close>

lemma allow_main_under_budget:
  "tenant_backlog k s < ac_tenant_budget (sa_config s) \<Longrightarrow> allow_main_admission (Some k) s = (True, s)"
  by (simp add: allow_main_admission_def)

lemma record_ghost_recorded:
  assumes "adm_ok s" and "k \<noteq> []" and "0 < ac_ghost_capacity (sa_config s)"
  shows "k \<in> set (ghost_keys (sa_ghost (record_ghost k s)))"
proof -
  let ?c = "ac_ghost_capacity (sa_config s)"
  obtain l where l: "ghost_keys (ghost_push ?c k (sa_ghost s)) = drop (length (l @ [k]) - ?c) (l @ [k])"
    using ghost_push_spec [of "sa_ghost s" ?c k] assms(1) unfolding adm_ok_def Let_def by blast
  have "length (l @ [k]) - ?c \<le> length l" using assms(3) by auto
  then have "k \<in> set (drop (length (l @ [k]) - ?c) (l @ [k]))" by simp
  then show ?thesis using l assms(2) by (simp add: record_ghost_def)
qed

text \<open>The fairness budget rejects a named tenant at most every other time. A
  request is refused only in the active mode, for a tenant that has used up its budget and is not
  in the ghost list; the same tenant's next request is admitted.\<close>

theorem fairness_second_chance:
  assumes "adm_ok s" and "0 < ac_ghost_capacity (sa_config s)"
    and "allow_main_admission (Some k) s = (False, s')" and "k \<noteq> []"
  shows "sa_mode s = Active \<and> ac_tenant_budget (sa_config s) \<le> tenant_backlog k s \<and>
    k \<notin> set (ghost_keys (sa_ghost s)) \<and> fst (allow_main_admission (Some k) s') = True"
proof -
  obtain hit s1 where c: "consume_ghost_hit k s = (hit, s1)" by fastforce
  note cg = consume_ghost_ok [OF assms(1) c]
  have parts: "sa_mode s = Active" "ac_tenant_budget (sa_config s) \<le> tenant_backlog k s" "\<not> hit"
    using assms(3) c by (auto simp: allow_main_admission_def Let_def split: if_splits)
  define s2 where "s2 = bump_unstable (s\<lparr>sa_rejected := sat_inc (sa_rejected s)\<rparr>)"
  have s': "s' = check_unstable (record_ghost k s2)"
    using assms(3) c parts cg(6) by (simp add: allow_main_admission_def Let_def s2_def)
  have ok2: "adm_ok s2" "sa_mode s2 = Active" "sa_config s2 = sa_config s"
    using assms(1) parts by (simp_all add: s2_def frame)
  have "fst (allow_main_admission (Some k) s')"
  proof (cases "sa_mode s' = Active")
    case False
    then show ?thesis by (simp add: allow_main_admission_def)
  next
    case True
    then have eq: "s' = record_ghost k s2"
      using s' by (auto simp: check_unstable_def to_fallback_def split: if_splits)
    have "adm_ok s'" unfolding eq using ok2 by simp
    moreover have "k \<in> set (ghost_keys (sa_ghost s'))"
      unfolding eq using ok2 assms(2,4) by (intro record_ghost_recorded) simp_all
    moreover obtain hit' s3 where c': "consume_ghost_hit k s' = (hit', s3)" by fastforce
    ultimately have hit' using consume_ghost_ok(5) by blast
    with c' show ?thesis by (simp add: allow_main_admission_def)
  qed
  with parts cg(5) show ?thesis by simp
qed

definition demo_admission :: admission where
  "demo_admission = on_main_enqueued (Some ''t'') (adm_new (from_capacities 1 1))"

lemma fairness_second_chance_witness:
  "\<not> fst (allow_main_admission (Some ''t'') demo_admission) \<and>
   fst (allow_main_admission (Some ''t'') (snd (allow_main_admission (Some ''t'') demo_admission)))"
proof -
  have ok: "adm_ok demo_admission" by (simp add: demo_admission_def)
  have cap: "0 < ac_ghost_capacity (sa_config demo_admission)"
    by (simp add: demo_admission_def on_main_enqueued_def adm_new_def from_capacities_def Let_def)
  have no: "\<not> fst (allow_main_admission (Some ''t'') demo_admission)"
    by (simp add: demo_admission_def on_main_enqueued_def adm_new_def from_capacities_def Let_def
        allow_main_admission_def tenant_backlog_def consume_ghost_hit_def ghost_remove_def no_ghosts_def)
  then have "allow_main_admission (Some ''t'') demo_admission
      = (False, snd (allow_main_admission (Some ''t'') demo_admission))"
    by (metis prod.collapse)
  from fairness_second_chance [OF ok cap this] no show ?thesis by simp
qed

end
