(* ===== verification/Hostcall_Queue.thy ===== *)
theory Hostcall_Queue
  imports Bravo S3_Admission Fifo
begin

text \<open>
  The request queue of \<^verbatim>\<open>hostcall_queue.rs\<close>: a bounded fast ring, a bounded overflow queue behind
  it, per-tenant admission, and the epoch-based reclamation of taken requests. The ring (of a
  library outside of the repository) and the tenant of a request (a trait of the request type) are
  parameters, collected in \<open>hc_env\<close>; what is used of the ring is \<open>ring_laws\<close>.
\<close>

record ('a, 'r) hc_env =
  rg_new :: "nat \<Rightarrow> 'r"
  rg_push :: "'a \<Rightarrow> 'r \<Rightarrow> 'r option"
  rg_pop :: "'r \<Rightarrow> ('a \<times> 'r) option"
  rg_len :: "'r \<Rightarrow> nat"
  he_tenant :: "'a \<Rightarrow> string option"

text \<open>A bounded first-in first-out ring: a push fails exactly when the ring is full, a pop exactly
  when it is empty.\<close>

definition ring_laws ::
  "('a, 'r) hc_env \<Rightarrow> ('r \<Rightarrow> 'a list) \<Rightarrow> ('r \<Rightarrow> nat) \<Rightarrow> bool" where
  "ring_laws E items cap \<longleftrightarrow>
     (\<forall>n > 0. items (rg_new E n) = [] \<and> cap (rg_new E n) = n) \<and>
     (\<forall>x r. case rg_push E x r of
        Some r' \<Rightarrow> length (items r) < cap r \<and> items r' = items r @ [x] \<and> cap r' = cap r
      | None \<Rightarrow> cap r \<le> length (items r)) \<and>
     (\<forall>r. case rg_pop E r of
        Some (x, r') \<Rightarrow> items r = x # items r' \<and> cap r' = cap r
      | None \<Rightarrow> items r = []) \<and>
     (\<forall>r. rg_len E r = length (items r))"

datatype reclaim_mode = Ebr | SafeFallback

datatype enqueue_result =
    FastPath nat
  | OverflowPath nat nat
  | Rejected nat nat

record ('a, 'r) hc_queue =
  hq_fast :: 'r
  hq_fast_capacity :: nat
  hq_overflow :: "'a list"
  hq_enqueued :: u64
  hq_rejected :: u64
  hq_max_depth :: nat
  hq_overflow_capacity :: nat
  hq_mode :: reclaim_mode
  hq_pins :: nat
  hq_epoch :: u64
  hq_retired :: "('a \<times> u64) list"
  hq_reclaimed :: u64
  hq_max_lag :: u64
  hq_max_latency :: u64
  hq_fallbacks :: u64
  hq_threshold :: nat
  hq_bravo :: bravo
  hq_s3 :: admission

definition hq_with_mode :: "('a, 'r) hc_env \<Rightarrow> nat \<Rightarrow> nat \<Rightarrow> reclaim_mode \<Rightarrow> ('a, 'r) hc_queue" where
  "hq_with_mode E fast0 overflow0 mode =
     (let fast = max fast0 1; overflow = max overflow0 1
      in \<lparr>hq_fast = rg_new E fast, hq_fast_capacity = fast, hq_overflow = [], hq_enqueued = 0,
          hq_rejected = 0, hq_max_depth = 0, hq_overflow_capacity = overflow, hq_mode = mode,
          hq_pins = 0, hq_epoch = 0, hq_retired = [], hq_reclaimed = 0, hq_max_lag = 0,
          hq_max_latency = 0, hq_fallbacks = 0,
          hq_threshold = max (usize_sat (usize_sat (fast + overflow) * 8)) 32,
          hq_bravo = bravo_new bravo_default_config,
          hq_s3 = adm_new (from_capacities fast overflow)\<rparr>)"

definition hq_len :: "('a, 'r) hc_env \<Rightarrow> ('a, 'r) hc_queue \<Rightarrow> nat" where
  "hq_len E q = rg_len E (hq_fast q) + length (hq_overflow q)"

definition hq_is_empty :: "('a, 'r) hc_env \<Rightarrow> ('a, 'r) hc_queue \<Rightarrow> bool" where
  "hq_is_empty E q \<longleftrightarrow> rg_len E (hq_fast q) = 0 \<and> hq_overflow q = []"

text \<open>A pin counts up when it is taken and down when it is dropped, which happens once.\<close>

definition pin_epoch :: "('a, 'r) hc_queue \<Rightarrow> ('a, 'r) hc_queue" where
  "pin_epoch q = q\<lparr>hq_pins := Suc (hq_pins q)\<rparr>"

definition drop_pin :: "('a, 'r) hc_queue \<Rightarrow> ('a, 'r) hc_queue" where
  "drop_pin q = q\<lparr>hq_pins := hq_pins q - 1\<rparr>"

section \<open>Reclamation\<close>

definition bump_epoch :: "('a, 'r) hc_queue \<Rightarrow> ('a, 'r) hc_queue" where
  "bump_epoch q = q\<lparr>hq_epoch := sat_inc (hq_epoch q)\<rparr>"

definition retire :: "'a \<Rightarrow> ('a, 'r) hc_queue \<Rightarrow> ('a, 'r) hc_queue" where
  "retire x q = q\<lparr>hq_retired := hq_retired q @ [(x, hq_epoch q)]\<rparr>"

definition to_safe_fallback :: "('a, 'r) hc_queue \<Rightarrow> ('a, 'r) hc_queue" where
  "to_safe_fallback q =
     (if hq_mode q = SafeFallback then q
      else q\<lparr>hq_mode := SafeFallback, hq_fallbacks := sat_inc (hq_fallbacks q), hq_retired := []\<rparr>)"

text \<open>The loop at the front of the retired nodes: those left, the number reclaimed, the latency.\<close>

fun reclaim_loop :: "u64 \<Rightarrow> ('a \<times> u64) list \<Rightarrow> u64 \<Rightarrow> u64 \<Rightarrow> ('a \<times> u64) list \<times> u64 \<times> u64" where
  "reclaim_loop now [] n lat = ([], n, lat)"
| "reclaim_loop now ((x, e) # rs) n lat =
     (if e < now then reclaim_loop now rs (sat_inc n) (max lat (sat_sub now e))
      else ((x, e) # rs, n, lat))"

definition try_reclaim :: "('a, 'r) hc_queue \<Rightarrow> ('a, 'r) hc_queue" where
  "try_reclaim q =
     (if hq_mode q \<noteq> Ebr then q
      else if hq_pins q > 0 then
        (let q1 = (case hq_retired q of
             [] \<Rightarrow> q
           | (x, e) # rs \<Rightarrow> q\<lparr>hq_max_lag := max (hq_max_lag q) (sat_sub (hq_epoch q) e)\<rparr>)
         in if length (hq_retired q1) > hq_threshold q1 then to_safe_fallback q1 else q1)
      else let (rs, n, lat) = reclaim_loop (hq_epoch q) (hq_retired q) (hq_reclaimed q) (hq_max_latency q)
           in q\<lparr>hq_retired := rs, hq_reclaimed := n, hq_max_latency := lat\<rparr>)"

definition force_reclaim :: "('a, 'r) hc_queue \<Rightarrow> ('a, 'r) hc_queue" where
  "force_reclaim q = try_reclaim (bump_epoch q)"

definition force_safe_fallback :: "('a, 'r) hc_queue \<Rightarrow> ('a, 'r) hc_queue" where
  "force_safe_fallback q = to_safe_fallback q"

definition observe_window :: "contention_sample \<Rightarrow> ('a, 'r) hc_queue \<Rightarrow> bravo_decision \<times> ('a, 'r) hc_queue" where
  "observe_window s q = (let (d, b) = observe s (hq_bravo q) in (d, q\<lparr>hq_bravo := b\<rparr>))"

section \<open>Enqueueing and taking\<close>

definition see_depth :: "('a, 'r) hc_env \<Rightarrow> ('a, 'r) hc_queue \<Rightarrow> ('a, 'r) hc_queue" where
  "see_depth E q = q\<lparr>hq_max_depth := max (hq_max_depth q) (hq_len E q)\<rparr>"

definition push_fast :: "('a, 'r) hc_env \<Rightarrow> 'r \<Rightarrow> ('a, 'r) hc_queue \<Rightarrow> enqueue_result \<times> ('a, 'r) hc_queue" where
  "push_fast E r q =
     (let q1 = see_depth E (try_reclaim (bump_epoch (q\<lparr>hq_fast := r\<rparr>)))
      in (FastPath (hq_len E q1), q1))"

definition push_slow :: "('a, 'r) hc_env \<Rightarrow> 'a \<Rightarrow> ('a, 'r) hc_queue \<Rightarrow> enqueue_result \<times> ('a, 'r) hc_queue" where
  "push_slow E x q =
     (let tenant = he_tenant E x;
          (allowed, s) = allow_main_admission tenant (hq_s3 q);
          q1 = q\<lparr>hq_s3 := s\<rparr>
      in if \<not> allowed then
           (let q2 = q1\<lparr>hq_rejected := sat_inc (hq_rejected q1)\<rparr>
            in (Rejected (hq_len E q2) (length (hq_overflow q2)), q2))
         else if length (hq_overflow q1) < hq_overflow_capacity q1 then
           (let q2 = q1\<lparr>hq_overflow := hq_overflow q1 @ [x], hq_enqueued := sat_inc (hq_enqueued q1),
                        hq_s3 := on_main_enqueued tenant s\<rparr>;
                q3 = see_depth E (try_reclaim (bump_epoch q2))
            in (OverflowPath (hq_len E q3) (length (hq_overflow q3)), q3))
         else
           (let q2 = q1\<lparr>hq_rejected := sat_inc (hq_rejected q1), hq_s3 := on_main_overflow_reject tenant s\<rparr>
            in (Rejected (hq_len E q2) (length (hq_overflow q2)), q2)))"

definition push_back :: "('a, 'r) hc_env \<Rightarrow> 'a \<Rightarrow> ('a, 'r) hc_queue \<Rightarrow> enqueue_result \<times> ('a, 'r) hc_queue" where
  "push_back E x q0 =
     (let q = q0\<lparr>hq_s3 := observe_signal (he_tenant E x) (hq_s3 q0)\<rparr>
      in case (if hq_overflow q = [] then rg_push E x (hq_fast q) else None) of
           Some r \<Rightarrow> push_fast E r q
         | None \<Rightarrow> push_slow E x q)"

definition take_value :: "('a, 'r) hc_env \<Rightarrow> ('a, 'r) hc_queue \<Rightarrow> ('a \<times> ('a, 'r) hc_queue) option" where
  "take_value E q =
     (case rg_pop E (hq_fast q) of
        Some (x, r) \<Rightarrow> Some (x, q\<lparr>hq_fast := r\<rparr>)
      | None \<Rightarrow>
          (case hq_overflow q of
             [] \<Rightarrow> None
           | x # xs \<Rightarrow> Some (x, q\<lparr>hq_overflow := xs, hq_s3 := on_main_dequeued (he_tenant E x) (hq_s3 q)\<rparr>)))"

definition pop_front :: "('a, 'r) hc_env \<Rightarrow> ('a, 'r) hc_queue \<Rightarrow> ('a \<times> ('a, 'r) hc_queue) option" where
  "pop_front E q =
     (case take_value E q of
        None \<Rightarrow> None
      | Some (x, q1) \<Rightarrow>
          (let q2 = bump_epoch q1;
               q3 = (if hq_mode q2 = Ebr then retire x q2 else q2)
           in Some (x, try_reclaim q3)))"

text \<open>The two loops that run until a pop fails; \<open>None\<close> is a loop that does not end.\<close>

partial_function (option) drain_all ::
  "('a, 'r) hc_env \<Rightarrow> ('a, 'r) hc_queue \<Rightarrow> ('a list \<times> ('a, 'r) hc_queue) option" where
  "drain_all E q =
     (case pop_front E q of
        None \<Rightarrow> Some ([], q)
      | Some (x, q1) \<Rightarrow>
          Option.bind (drain_all E q1) (\<lambda>(xs, q2). Some (x # xs, q2)))"

partial_function (option) ring_drain :: "('a, 'r) hc_env \<Rightarrow> 'r \<Rightarrow> 'r option" where
  "ring_drain E r = (case rg_pop E r of None \<Rightarrow> Some r | Some (x, r1) \<Rightarrow> ring_drain E r1)"

definition hq_clear :: "('a, 'r) hc_env \<Rightarrow> ('a, 'r) hc_queue \<Rightarrow> ('a, 'r) hc_queue option" where
  "hq_clear E q =
     (case ring_drain E (hq_fast q) of
        None \<Rightarrow> None
      | Some r \<Rightarrow> Some (q\<lparr>hq_fast := r, hq_overflow := [], hq_enqueued := 0, hq_rejected := 0,
          hq_max_depth := 0, hq_epoch := 0, hq_retired := [], hq_reclaimed := 0, hq_max_lag := 0,
          hq_max_latency := 0, hq_fallbacks := 0, hq_bravo := bravo_new bravo_default_config,
          hq_s3 := adm_new (from_capacities (hq_fast_capacity q) (hq_overflow_capacity q))\<rparr>))"

section \<open>Modes by name, and the telemetry\<close>

definition ascii_lower :: "char \<Rightarrow> char" where
  "ascii_lower c =
     (let n = of_char c :: nat in if 65 \<le> n \<and> n \<le> 90 then char_of (n + 32) else c)"

definition parse_mode :: "string \<Rightarrow> reclaim_mode option" where
  "parse_mode value =
     (let t = map ascii_lower (trim value)
      in if t \<in> set [''ebr'', ''epoch'', ''epoch-based''] then Some Ebr
         else if t \<in> set [''fallback'', ''safe-fallback'', ''off'', ''disabled'', ''legacy'']
         then Some SafeFallback else None)"

text \<open>The variable of the environment, when it is set.\<close>

definition mode_from_env :: "string option \<Rightarrow> reclaim_mode" where
  "mode_from_env var =
     (case Option.bind var parse_mode of Some m \<Rightarrow> m | None \<Rightarrow> SafeFallback)"

definition hq_with_capacities ::
  "('a, 'r) hc_env \<Rightarrow> string option \<Rightarrow> nat \<Rightarrow> nat \<Rightarrow> ('a, 'r) hc_queue" where
  "hq_with_capacities E var fast overflow = hq_with_mode E fast overflow (mode_from_env var)"

record hq_telemetry =
  ht_fast_depth :: nat
  ht_overflow_depth :: nat
  ht_total_depth :: nat
  ht_max_depth :: nat
  ht_overflow_enqueued :: u64
  ht_overflow_rejected :: u64
  ht_fast_capacity :: nat
  ht_overflow_capacity :: nat
  ht_mode :: reclaim_mode
  ht_retired_backlog :: nat
  ht_reclaimed :: u64
  ht_current_epoch :: u64
  ht_epoch_lag :: u64
  ht_max_epoch_lag :: u64
  ht_max_latency :: u64
  ht_fallbacks :: u64
  ht_active_pins :: nat
  ht_bravo_mode :: bias_mode
  ht_bravo_transitions :: u64
  ht_bravo_rollbacks :: u64
  ht_bravo_read_windows :: nat
  ht_bravo_recovery :: nat
  ht_bravo_last :: contention_signature
  ht_s3 :: adm_telemetry

definition hq_snapshot :: "('a, 'r) hc_env \<Rightarrow> ('a, 'r) hc_queue \<Rightarrow> hq_telemetry" where
  "hq_snapshot E q =
     (let lag = (case hq_retired q of [] \<Rightarrow> 0 | (x, e) # _ \<Rightarrow> sat_sub (hq_epoch q) e);
          b = hq_bravo q
      in \<lparr>ht_fast_depth = rg_len E (hq_fast q), ht_overflow_depth = length (hq_overflow q),
          ht_total_depth = hq_len E q, ht_max_depth = hq_max_depth q,
          ht_overflow_enqueued = hq_enqueued q, ht_overflow_rejected = hq_rejected q,
          ht_fast_capacity = hq_fast_capacity q, ht_overflow_capacity = hq_overflow_capacity q,
          ht_mode = hq_mode q, ht_retired_backlog = length (hq_retired q),
          ht_reclaimed = hq_reclaimed q, ht_current_epoch = hq_epoch q, ht_epoch_lag = lag,
          ht_max_epoch_lag = hq_max_lag q, ht_max_latency = hq_max_latency q,
          ht_fallbacks = hq_fallbacks q, ht_active_pins = hq_pins q,
          ht_bravo_mode = bv_mode b, ht_bravo_transitions = bv_transitions b,
          ht_bravo_rollbacks = bv_rollbacks b, ht_bravo_read_windows = bv_read_windows b,
          ht_bravo_recovery = bv_recovery b, ht_bravo_last = bv_last b, ht_s3 = adm_snapshot (hq_s3 q)\<rparr>)"

section \<open>Frame facts\<close>

abbreviation lanes_same :: "('a, 'r) hc_queue \<Rightarrow> ('a, 'r) hc_queue \<Rightarrow> bool" where
  "lanes_same q q' \<equiv> hq_fast q' = hq_fast q \<and> hq_overflow q' = hq_overflow q \<and> hq_s3 q' = hq_s3 q \<and>
     hq_fast_capacity q' = hq_fast_capacity q \<and> hq_overflow_capacity q' = hq_overflow_capacity q \<and>
     hq_threshold q' = hq_threshold q \<and> hq_pins q' = hq_pins q \<and> hq_bravo q' = hq_bravo q"

lemma maintenance_frame [frame]:
  "lanes_same q (bump_epoch q)" "lanes_same q (retire x q)" "lanes_same q (to_safe_fallback q)"
  "lanes_same q (try_reclaim q)" "lanes_same q (force_reclaim q)"
  by (simp_all add: bump_epoch_def retire_def to_safe_fallback_def try_reclaim_def force_reclaim_def
      Let_def split: list.splits prod.splits)

lemma see_depth_frame [frame]:
  "lanes_same q (see_depth E q)" "hq_retired (see_depth E q) = hq_retired q"
  "hq_mode (see_depth E q) = hq_mode q" "hq_epoch (see_depth E q) = hq_epoch q"
  "hq_reclaimed (see_depth E q) = hq_reclaimed q"
  by (simp_all add: see_depth_def)

section \<open>The two lanes\<close>

definition hq_contents :: "('r \<Rightarrow> 'a list) \<Rightarrow> ('a, 'r) hc_queue \<Rightarrow> 'a list" where
  "hq_contents items q = items (hq_fast q) @ hq_overflow q"

text \<open>The lanes are within their capacities; in the active mode the backlog of a tenant is the
  number of its requests in the overflow lane.\<close>

definition count_tenant :: "('a, 'r) hc_env \<Rightarrow> string \<Rightarrow> 'a list \<Rightarrow> nat" where
  "count_tenant E k xs = length (filter (\<lambda>x. he_tenant E x = Some k) xs)"

definition backlog_exact :: "('a, 'r) hc_env \<Rightarrow> 'a list \<Rightarrow> admission \<Rightarrow> bool" where
  "backlog_exact E xs s \<longleftrightarrow> sa_mode s = Active \<longrightarrow>
     (\<forall>k. bm_get (sa_backlog s) k
        = (if count_tenant E k xs = 0 then None else Some (count_tenant E k xs)))"

definition hq_ok ::
  "('a, 'r) hc_env \<Rightarrow> ('r \<Rightarrow> 'a list) \<Rightarrow> ('r \<Rightarrow> nat) \<Rightarrow> ('a, 'r) hc_queue \<Rightarrow> bool" where
  [wf_defs]: "hq_ok E items cap q \<longleftrightarrow>
     ring_laws E items cap \<and> cap (hq_fast q) = hq_fast_capacity q \<and>
     length (items (hq_fast q)) \<le> hq_fast_capacity q \<and>
     length (hq_overflow q) \<le> hq_overflow_capacity q \<and> adm_ok (hq_s3 q) \<and>
     backlog_exact E (hq_overflow q) (hq_s3 q)"

lemma hq_ok_cong:
  "lanes_same q q' \<Longrightarrow> hq_ok E items cap q' \<longleftrightarrow> hq_ok E items cap q"
  by (simp add: hq_ok_def)

lemma hq_ok_maintenance [simp]:
  "hq_ok E items cap (bump_epoch q) \<longleftrightarrow> hq_ok E items cap q"
  "hq_ok E items cap (retire x q) \<longleftrightarrow> hq_ok E items cap q"
  "hq_ok E items cap (to_safe_fallback q) \<longleftrightarrow> hq_ok E items cap q"
  "hq_ok E items cap (try_reclaim q) \<longleftrightarrow> hq_ok E items cap q"
  "hq_ok E items cap (force_reclaim q) \<longleftrightarrow> hq_ok E items cap q"
  "hq_ok E items cap (see_depth E' q) \<longleftrightarrow> hq_ok E items cap q"
  by (rule hq_ok_cong, rule frame)+

lemma hq_contents_cong: "lanes_same q q' \<Longrightarrow> hq_contents items q' = hq_contents items q"
  by (simp add: hq_contents_def)

lemma hq_contents_maintenance [simp]:
  "hq_contents items (bump_epoch q) = hq_contents items q"
  "hq_contents items (retire x q) = hq_contents items q"
  "hq_contents items (to_safe_fallback q) = hq_contents items q"
  "hq_contents items (try_reclaim q) = hq_contents items q"
  "hq_contents items (force_reclaim q) = hq_contents items q"
  "hq_contents items (see_depth E q) = hq_contents items q"
  by (rule hq_contents_cong, rule frame)+

lemma ring_lawsD:
  fixes E :: "('a, 'r) hc_env"
  assumes "ring_laws E items cap"
  shows "rg_push E x r = Some r' \<Longrightarrow>
      length (items r) < cap r \<and> items r' = items r @ [x] \<and> cap r' = cap r"
    and "rg_push E x r = None \<Longrightarrow> cap r \<le> length (items r)"
    and "rg_pop E r = Some (y, r'') \<Longrightarrow> items r = y # items r'' \<and> cap r'' = cap r"
    and "rg_pop E r = None \<Longrightarrow> items r = []"
    and "rg_len E r = length (items r)"
    and "0 < n \<Longrightarrow> items (rg_new E n) = [] \<and> cap (rg_new E n) = n"
proof -
  have l: "0 < n \<Longrightarrow> items (rg_new E n) = [] \<and> cap (rg_new E n) = n"
    "case rg_push E x r of
       Some r' \<Rightarrow> length (items r) < cap r \<and> items r' = items r @ [x] \<and> cap r' = cap r
     | None \<Rightarrow> cap r \<le> length (items r)"
    "case rg_pop E r of Some (y, r') \<Rightarrow> items r = y # items r' \<and> cap r' = cap r | None \<Rightarrow> items r = []"
    "rg_len E r = length (items r)" for n x and r :: 'r
    using assms unfolding ring_laws_def by blast+
  show "rg_push E x r = Some r' \<Longrightarrow>
      length (items r) < cap r \<and> items r' = items r @ [x] \<and> cap r' = cap r"
    using l(2) [of r x] by simp
  show "rg_push E x r = None \<Longrightarrow> cap r \<le> length (items r)" using l(2) [of r x] by simp
  show "rg_pop E r = Some (y, r'') \<Longrightarrow> items r = y # items r'' \<and> cap r'' = cap r"
    using l(3) [of r] by simp
  show "rg_pop E r = None \<Longrightarrow> items r = []" using l(3) [of r] by simp
  show "rg_len E r = length (items r)" by (rule l(4))
  show "0 < n \<Longrightarrow> items (rg_new E n) = [] \<and> cap (rg_new E n) = n" by (rule l(1))
qed

lemma hq_len_contents: "ring_laws E items cap \<Longrightarrow> hq_len E q = length (hq_contents items q)"
  using ring_lawsD(5) by (fastforce simp: hq_len_def hq_contents_def)

lemma hq_with_mode_ok:
  "ring_laws E items cap \<Longrightarrow>
   hq_ok E items cap (hq_with_mode E f v m) \<and> hq_contents items (hq_with_mode E f v m) = []"
  using ring_lawsD(6) [of E items cap "max f 1"]
  by (simp add: hq_ok_def hq_with_mode_def hq_contents_def backlog_exact_def adm_new_def
      count_tenant_def Let_def) (metis adm_new_def adm_new_ok)

text \<open>The admission state of a queue whose overflow lane does not change, grows or shrinks.\<close>

lemma backlog_to_fallback [simp]: "backlog_exact E xs s \<Longrightarrow> backlog_exact E xs (to_fallback r s)"
  by (auto simp: backlog_exact_def to_fallback_def)

lemma backlog_fields:
  "backlog_exact E xs s \<Longrightarrow> sa_mode s' = sa_mode s \<Longrightarrow> sa_backlog s' = sa_backlog s \<Longrightarrow>
   backlog_exact E xs s'"
  by (simp add: backlog_exact_def)

lemma backlog_check [simp]: "backlog_exact E xs s \<Longrightarrow> backlog_exact E xs (check_unstable s)"
  by (simp add: check_unstable_def)

lemma backlog_observe: "backlog_exact E xs s \<Longrightarrow> backlog_exact E xs (observe_signal t s)"
  by (auto simp: observe_signal_def Let_def split: option.splits
      intro!: backlog_to_fallback elim: backlog_fields)

lemma backlog_allow:
  assumes "adm_ok s" and "backlog_exact E xs s" and "allow_main_admission t s = (b, s')"
  shows "backlog_exact E xs s'"
proof (cases "b")
  case True
  then show ?thesis
    using assms consume_ghost_ok(2,4) [OF assms(1)]
    by (auto simp: allow_main_admission_def Let_def elim!: backlog_fields
        split: if_splits option.splits prod.splits)
next
  case False
  then obtain k s1 where k: "t = Some k" "consume_ghost_hit k s = (False, s1)"
    and s': "s' = check_unstable (record_ghost k (bump_unstable (s1\<lparr>sa_rejected := sat_inc (sa_rejected s1)\<rparr>)))"
    using assms(3) by (auto simp: allow_main_admission_def Let_def split: if_splits option.splits prod.splits)
  have "s1 = s" using consume_ghost_ok(6) [OF assms(1) k(2)] by simp
  then show ?thesis unfolding s'
    by (intro backlog_check backlog_fields [OF assms(2)]) (simp_all add: frame)
qed

lemma count_tenant_append:
  "count_tenant E k (xs @ [x]) = count_tenant E k xs + (if he_tenant E x = Some k then 1 else 0)"
  by (simp add: count_tenant_def)

lemma count_tenant_Cons:
  "count_tenant E k (x # xs) = (if he_tenant E x = Some k then 1 else 0) + count_tenant E k xs"
  by (simp add: count_tenant_def)

lemma backlog_enqueued:
  "backlog_exact E xs s \<Longrightarrow> backlog_exact E (xs @ [x]) (on_main_enqueued (he_tenant E x) s)"
  by (auto simp: backlog_exact_def on_main_enqueued_def count_tenant_append Let_def
      split: option.splits if_splits)

lemma backlog_dequeued:
  assumes "backlog_exact E (x # xs) s"
  shows "backlog_exact E xs (on_main_dequeued (he_tenant E x) s)"
proof (cases "he_tenant E x")
  case None
  then show ?thesis using assms
    by (auto simp: backlog_exact_def on_main_dequeued_def count_tenant_Cons)
next
  case (Some k)
  show ?thesis
  proof (cases "sa_mode s = Active")
    case False
    then show ?thesis by (simp add: backlog_exact_def on_main_dequeued_def)
  next
    case True
    then have b: "bm_get (sa_backlog s) j = (if count_tenant E j (x # xs) = 0 then None
        else Some (count_tenant E j (x # xs)))" for j
      using assms by (simp add: backlog_exact_def)
    then have "bm_get (sa_backlog s) k = Some (Suc (count_tenant E k xs))"
      using Some by (simp add: count_tenant_Cons)
    with b True Some show ?thesis
      by (auto simp: backlog_exact_def on_main_dequeued_def frame count_tenant_Cons)
  qed
qed

lemma backlog_overflow_reject:
  "backlog_exact E xs s \<Longrightarrow> backlog_exact E xs (on_main_overflow_reject t s)"
  by (auto simp: on_main_overflow_reject_def split: option.splits
      intro!: backlog_check elim!: backlog_fields simp: frame)

section \<open>One operation\<close>

definition hq_observed :: "('a, 'r) hc_env \<Rightarrow> 'a \<Rightarrow> ('a, 'r) hc_queue \<Rightarrow> ('a, 'r) hc_queue" where
  "hq_observed E x q = q\<lparr>hq_s3 := observe_signal (he_tenant E x) (hq_s3 q)\<rparr>"

lemma push_back_eq:
  "push_back E x q = (case (if hq_overflow q = [] then rg_push E x (hq_fast q) else None) of
     Some r \<Rightarrow> push_fast E r (hq_observed E x q) | None \<Rightarrow> push_slow E x (hq_observed E x q))"
  by (simp add: push_back_def hq_observed_def Let_def cong: option.case_cong)

lemma hq_observed_ok [simp]:
  "hq_ok E items cap q \<Longrightarrow> hq_ok E items cap (hq_observed E x q)"
  "hq_contents items (hq_observed E x q) = hq_contents items q"
  "hq_overflow (hq_observed E x q) = hq_overflow q" "hq_fast (hq_observed E x q) = hq_fast q"
  "hq_overflow_capacity (hq_observed E x q) = hq_overflow_capacity q"
  by (simp_all add: hq_observed_def hq_ok_def hq_contents_def backlog_observe)

lemma push_fast_spec:
  assumes "hq_ok E items cap q" and "hq_overflow q = []" and "rg_push E x (hq_fast q) = Some r"
    and "push_fast E r q = (res, q')"
  shows "hq_ok E items cap q' \<and> hq_contents items q' = hq_contents items q @ [x] \<and>
    res = FastPath (length (hq_contents items q')) \<and> hq_overflow q' = [] \<and>
    length (hq_contents items q) < hq_fast_capacity q"
proof -
  have l: "ring_laws E items cap" using assms(1) by (simp add: hq_ok_def)
  note p = ring_lawsD(1) [OF l assms(3)]
  let ?q = "q\<lparr>hq_fast := r\<rparr>"
  have ok: "hq_ok E items cap ?q" using assms(1) p by (auto simp: hq_ok_def)
  have c: "hq_contents items ?q = hq_contents items q @ [x]" using assms(2) p by (simp add: hq_contents_def)
  have q': "q' = see_depth E (try_reclaim (bump_epoch ?q))" and "res = FastPath (hq_len E q')"
    using assms(4) by (auto simp: push_fast_def Let_def)
  moreover have "hq_overflow q' = []" unfolding q' using assms(2) by (simp add: frame)
  moreover have "length (hq_contents items q) < hq_fast_capacity q"
    using p assms(1,2) by (simp add: hq_ok_def hq_contents_def)
  ultimately show ?thesis using ok c hq_len_contents [OF l] by simp
qed

lemma push_slow_spec:
  assumes "hq_ok E items cap q" and "push_slow E x q = (res, q')"
    and "hq_overflow q = [] \<Longrightarrow> hq_fast_capacity q \<le> length (items (hq_fast q))"
  shows "hq_ok E items cap q' \<and>
    (case res of
       FastPath d \<Rightarrow> False
     | OverflowPath d v \<Rightarrow> hq_contents items q' = hq_contents items q @ [x] \<and>
         d = length (hq_contents items q') \<and> v = Suc (length (hq_overflow q)) \<and>
         length (hq_overflow q) < hq_overflow_capacity q
     | Rejected d v \<Rightarrow> hq_contents items q' = hq_contents items q \<and>
         d = length (hq_contents items q) \<and> v = length (hq_overflow q) \<and>
         (hq_overflow_capacity q \<le> length (hq_overflow q) \<or>
          \<not> fst (allow_main_admission (he_tenant E x) (hq_s3 q))))"
proof -
  have l: "ring_laws E items cap" using assms(1) by (simp add: hq_ok_def)
  obtain b s where a: "allow_main_admission (he_tenant E x) (hq_s3 q) = (b, s)" by fastforce
  have s: "adm_ok s" "backlog_exact E (hq_overflow q) s"
    using assms(1) allow_main_ok [OF _ a] backlog_allow [OF _ _ a, of E "hq_overflow q"]
    by (simp_all add: hq_ok_def)
  consider (unfair) "\<not> b" | (room) b "length (hq_overflow q) < hq_overflow_capacity q"
    | (full) b "hq_overflow_capacity q \<le> length (hq_overflow q)" by linarith
  then show ?thesis
  proof cases
    case unfair
    then have q': "q' = q\<lparr>hq_s3 := s, hq_rejected := sat_inc (hq_rejected q)\<rparr>"
      and r: "res = Rejected (hq_len E q') (length (hq_overflow q'))"
      using assms(2) a by (auto simp: push_slow_def Let_def)
    show ?thesis using assms(1) s unfair a unfolding r hq_len_contents [OF l]
      by (simp add: q' hq_ok_def hq_contents_def)
  next
    case full
    then have q': "q' = q\<lparr>hq_s3 := on_main_overflow_reject (he_tenant E x) s,
        hq_rejected := sat_inc (hq_rejected q)\<rparr>"
      and r: "res = Rejected (hq_len E q') (length (hq_overflow q'))"
      using assms(2) a by (auto simp: push_slow_def Let_def)
    show ?thesis using assms(1) s full unfolding r hq_len_contents [OF l]
      by (simp add: q' hq_ok_def hq_contents_def backlog_overflow_reject)
  next
    case room
    let ?q = "q\<lparr>hq_overflow := hq_overflow q @ [x], hq_enqueued := sat_inc (hq_enqueued q),
        hq_s3 := on_main_enqueued (he_tenant E x) s\<rparr>"
    have q': "q' = see_depth E (try_reclaim (bump_epoch ?q))"
      and r: "res = OverflowPath (hq_len E q') (length (hq_overflow q'))"
      using assms(2) a room by (auto simp: push_slow_def Let_def)
    have "hq_ok E items cap ?q" using assms(1) s room by (simp add: hq_ok_def backlog_enqueued)
    then have "hq_ok E items cap q'" by (simp add: q')
    moreover have "hq_contents items q' = hq_contents items q @ [x]"
      by (simp add: q') (simp add: hq_contents_def)
    moreover have "hq_overflow q' = hq_overflow q @ [x]" unfolding q' by (simp add: frame)
    ultimately show ?thesis using room unfolding r hq_len_contents [OF l] by simp
  qed
qed

lemma push_back_spec:
  assumes "hq_ok E items cap q" and "push_back E x q = (res, q')"
  shows "hq_ok E items cap q' \<and>
    (case res of
       FastPath d \<Rightarrow> hq_contents items q' = hq_contents items q @ [x] \<and>
         d = length (hq_contents items q') \<and> hq_overflow q = [] \<and> hq_overflow q' = []
     | OverflowPath d v \<Rightarrow> hq_contents items q' = hq_contents items q @ [x] \<and>
         d = length (hq_contents items q') \<and> v = Suc (length (hq_overflow q))
     | Rejected d v \<Rightarrow> hq_contents items q' = hq_contents items q \<and>
         d = length (hq_contents items q) \<and> v = length (hq_overflow q))"
proof -
  have l: "ring_laws E items cap" and cap: "cap (hq_fast q) = hq_fast_capacity q"
    using assms(1) by (simp_all add: hq_ok_def)
  let ?o = "hq_observed E x q"
  show ?thesis
  proof (cases "if hq_overflow q = [] then rg_push E x (hq_fast q) else None")
    case None
    then have "hq_overflow ?o = [] \<longrightarrow> hq_fast_capacity ?o \<le> length (items (hq_fast ?o))"
      using ring_lawsD(2) [OF l, of x "hq_fast q"] cap by (auto simp: hq_observed_def split: if_splits)
    moreover have "push_slow E x ?o = (res, q')" using assms(2) None by (simp add: push_back_eq)
    ultimately show ?thesis
      using push_slow_spec [OF hq_observed_ok(1) [OF assms(1)]] by (fastforce split: enqueue_result.splits)
  next
    case (Some r)
    then have o: "hq_overflow ?o = []" "rg_push E x (hq_fast ?o) = Some r" by (auto split: if_splits)
    moreover have "push_fast E r ?o = (res, q')" using assms(2) Some by (simp add: push_back_eq)
    ultimately show ?thesis
      using push_fast_spec [OF hq_observed_ok(1) [OF assms(1)]] by fastforce
  qed
qed

lemma take_value_spec:
  assumes "hq_ok E items cap q"
  shows "take_value E q = Some (x, q') \<Longrightarrow>
      hq_ok E items cap q' \<and> hq_contents items q = x # hq_contents items q'"
    and "take_value E q = None \<Longrightarrow> hq_contents items q = []"
proof -
  have l: "ring_laws E items cap" using assms by (simp add: hq_ok_def)
  show "take_value E q = None \<Longrightarrow> hq_contents items q = []"
    using ring_lawsD(4) [OF l, of "hq_fast q"]
    by (auto simp: take_value_def hq_contents_def split: option.splits list.splits)
  assume a: "take_value E q = Some (x, q')"
  show "hq_ok E items cap q' \<and> hq_contents items q = x # hq_contents items q'"
  proof (cases "rg_pop E (hq_fast q)")
    case None
    then obtain xs where "hq_overflow q = x # xs"
      and q': "q' = q\<lparr>hq_overflow := xs, hq_s3 := on_main_dequeued (he_tenant E x) (hq_s3 q)\<rparr>"
      using a by (auto simp: take_value_def split: list.splits)
    then show ?thesis using assms ring_lawsD(4) [OF l None]
      by (simp add: hq_ok_def hq_contents_def backlog_dequeued)
  next
    case (Some p)
    then obtain r where p: "rg_pop E (hq_fast q) = Some (x, r)" and q': "q' = q\<lparr>hq_fast := r\<rparr>"
      using a by (cases p) (auto simp: take_value_def)
    show ?thesis using assms ring_lawsD(3) [OF l p] by (simp add: hq_ok_def hq_contents_def q')
  qed
qed

lemma pop_front_spec:
  assumes "hq_ok E items cap q"
  shows "pop_front E q = Some (x, q') \<Longrightarrow>
      hq_ok E items cap q' \<and> hq_contents items q = x # hq_contents items q'"
    and "pop_front E q = None \<Longrightarrow> hq_contents items q = []"
  using take_value_spec [OF assms]
  by (fastforce simp: pop_front_def Let_def split: option.splits prod.splits if_splits)+

section \<open>Runs\<close>

datatype 'a hq_op =
    Push 'a | Pop | TakePin | DropPin | ForceReclaim | ForceSafeFallback | Window contention_sample

fun hq_step :: "('a, 'r) hc_env \<Rightarrow> 'a hq_op \<Rightarrow> ('a, 'r) hc_queue \<Rightarrow> 'a list \<times> 'a list \<times> ('a, 'r) hc_queue" where
  "hq_step E (Push x) q =
     (let (res, q') = push_back E x q
      in (case res of Rejected _ _ \<Rightarrow> ([], [], q') | _ \<Rightarrow> ([x], [], q')))"
| "hq_step E Pop q = (case pop_front E q of None \<Rightarrow> ([], [], q) | Some (x, q') \<Rightarrow> ([], [x], q'))"
| "hq_step E TakePin q = ([], [], pin_epoch q)"
| "hq_step E DropPin q = ([], [], drop_pin q)"
| "hq_step E ForceReclaim q = ([], [], force_reclaim q)"
| "hq_step E ForceSafeFallback q = ([], [], force_safe_fallback q)"
| "hq_step E (Window s) q = ([], [], snd (observe_window s q))"

definition hq_sized ::
  "('a, 'r) hc_env \<Rightarrow> ('r \<Rightarrow> 'a list) \<Rightarrow> ('r \<Rightarrow> nat) \<Rightarrow> nat \<Rightarrow> nat \<Rightarrow> ('a, 'r) hc_queue \<Rightarrow> bool" where
  "hq_sized E items cap f v q \<longleftrightarrow> hq_ok E items cap q \<and> hq_fast_capacity q = f \<and>
     hq_overflow_capacity q = v \<and> sa_config (hq_s3 q) = from_capacities f v"

lemma adm_config_frame [frame]:
  "sa_config (observe_signal t s) = sa_config s" "sa_config (on_main_enqueued t s) = sa_config s"
  "sa_config (on_main_dequeued t s) = sa_config s" "sa_config (on_main_overflow_reject t s) = sa_config s"
  "sa_config (snd (allow_main_admission t s)) = sa_config s"
  by (auto simp: observe_signal_def on_main_enqueued_def on_main_dequeued_def record_ghost_def
      on_main_overflow_reject_def check_unstable_def to_fallback_def bump_unstable_def Let_def
      allow_main_admission_def consume_ghost_hit_def split: option.splits prod.splits)

lemma allow_main_config: "allow_main_admission t s = (b, s') \<Longrightarrow> sa_config s' = sa_config s"
  using adm_config_frame(5) [of t s] by simp

lemma push_back_sized:
  assumes "push_back E x q = (res, q')"
  shows "hq_fast_capacity q' = hq_fast_capacity q \<and> hq_overflow_capacity q' = hq_overflow_capacity q \<and>
    sa_config (hq_s3 q') = sa_config (hq_s3 q) \<and> hq_threshold q' = hq_threshold q \<and> hq_pins q' = hq_pins q"
  using assms
  by (auto simp: push_back_eq push_fast_def push_slow_def hq_observed_def frame Let_def
      split: option.splits if_splits prod.splits dest!: allow_main_config)

lemma pop_front_sized:
  "pop_front E q = Some (x, q') \<Longrightarrow>
    hq_fast_capacity q' = hq_fast_capacity q \<and> hq_overflow_capacity q' = hq_overflow_capacity q \<and>
    sa_config (hq_s3 q') = sa_config (hq_s3 q) \<and> hq_threshold q' = hq_threshold q \<and> hq_pins q' = hq_pins q"
  by (auto simp: pop_front_def take_value_def frame Let_def split: option.splits list.splits if_splits)

lemma hq_step_sized:
  assumes "hq_sized E items cap f v q" and "hq_step E op q = (xs, ys, q')"
  shows "hq_sized E items cap f v q' \<and> hq_contents items q @ xs = ys @ hq_contents items q'"
proof (cases op)
  case (Push x)
  obtain res q1 where p: "push_back E x q = (res, q1)" by fastforce
  show ?thesis using assms Push p push_back_spec [OF _ p] push_back_sized [OF p]
    by (cases res) (auto simp: hq_sized_def)
next
  case Pop
  show ?thesis
  proof (cases "pop_front E q")
    case None
    then show ?thesis using assms Pop by simp
  next
    case (Some p)
    obtain x q1 where p: "p = (x, q1)" by (cases p)
    then show ?thesis using assms Pop Some pop_front_spec(1) [of E items cap q x q1]
      pop_front_sized [of E q x q1] by (simp add: hq_sized_def)
  qed
qed (use assms in \<open>auto simp: hq_sized_def hq_ok_def hq_contents_def pin_epoch_def drop_pin_def frame
       force_safe_fallback_def observe_window_def split: prod.splits\<close>)

text \<open>The queue keeps the contract of a system that preserves the order of its elements.\<close>

interpretation hq: fifo_steps "hq_step E" "hq_contents items" "hq_sized E items cap f v"
  for E items cap f v
  by unfold_locales (rule hq_step_sized)

lemma hq_new_sized:
  "ring_laws E items cap \<Longrightarrow> hq_sized E items cap (max f 1) (max v 1) (hq_with_mode E f v m)"
  using hq_with_mode_ok [of E items cap f v m]
  by (simp add: hq_sized_def) (simp add: hq_with_mode_def adm_new_def Let_def)

text \<open>C30 (refinement): the two lanes are one bounded first-in first-out queue. In every sequence of
  enqueues, takes, pins, reclamations, fallbacks and contention windows, the requests taken are
  exactly the oldest accepted ones, in order, the others are the contents of the queue, in order,
  and neither lane exceeds its capacity.\<close>

theorem hostcall_queue_fifo:
  assumes "ring_laws E items cap"
    and "steps_run (hq_step E) ops (hq_with_mode E f v m) = (accepted, taken, q)"
  shows "accepted = taken @ items (hq_fast q) @ hq_overflow q \<and>
    length (items (hq_fast q)) \<le> max f 1 \<and> length (hq_overflow q) \<le> max v 1"
proof -
  have "hq_sized E items cap (max f 1) (max v 1) q \<and>
      hq_contents items (hq_with_mode E f v m) @ accepted = taken @ hq_contents items q"
    by (rule hq.steps_run_elems [OF hq_new_sized [OF assms(1)] assms(2)])
  then show ?thesis using hq_with_mode_ok [OF assms(1), of f v m]
    by (auto simp: hq_sized_def hq_ok_def hq_contents_def)
qed

text \<open>A ring that meets the laws: a list with its capacity.\<close>

definition list_env :: "('a \<Rightarrow> string option) \<Rightarrow> ('a, nat \<times> 'a list) hc_env" where
  "list_env tenant =
     \<lparr>rg_new = (\<lambda>n. (n, [])),
      rg_push = (\<lambda>x (n, xs). if length xs < n then Some (n, xs @ [x]) else None),
      rg_pop = (\<lambda>(n, xs). case xs of [] \<Rightarrow> None | y # ys \<Rightarrow> Some (y, (n, ys))),
      rg_len = (\<lambda>(n, xs). length xs), he_tenant = tenant\<rparr>"

lemma list_env_laws: "ring_laws (list_env t) snd fst"
  by (auto simp: ring_laws_def list_env_def split: option.splits list.splits if_splits prod.splits)

definition demo_tenant :: "nat \<Rightarrow> string option" where
  "demo_tenant n = Some (if even n then ''a'' else ''b'')"

lemma hostcall_queue_fifo_witness:
  "fst (steps_run (hq_step (list_env demo_tenant)) [Push 1, Push 2, Pop, Push 3]
      (hq_with_mode (list_env demo_tenant) 1 2 Ebr))
   = fst (snd (steps_run (hq_step (list_env demo_tenant)) [Push 1, Push 2, Pop, Push 3]
      (hq_with_mode (list_env demo_tenant) 1 2 Ebr))) @
     hq_contents snd (snd (snd (steps_run (hq_step (list_env demo_tenant)) [Push 1, Push 2, Pop, Push 3]
      (hq_with_mode (list_env demo_tenant) 1 2 Ebr))))"
  using hostcall_queue_fifo [OF list_env_laws, of demo_tenant "[Push 1, Push 2, Pop, Push 3]" 1 2 Ebr]
  by (simp add: hq_contents_def del: steps_run.simps)

section \<open>What an enqueue promises\<close>

lemma allow_main_refused:
  assumes "adm_ok s" and "backlog_exact E xs s" and "\<not> fst (allow_main_admission t s)"
  shows "\<exists>k. t = Some k \<and> ac_tenant_budget (sa_config s) \<le> count_tenant E k xs"
proof -
  from assms(3) obtain k where k: "t = Some k" "sa_mode s = Active"
      "ac_tenant_budget (sa_config s) \<le> tenant_backlog k s"
    by (auto simp: allow_main_admission_def Let_def split: if_splits option.splits)
  moreover have "tenant_backlog k s = count_tenant E k xs"
    using assms(2) k(2) by (simp add: backlog_exact_def tenant_backlog_def)
  ultimately show ?thesis by auto
qed

text \<open>An enqueue on a reachable queue reports the depths that the queue has after
  it and appends the request, except that a rejection leaves the requests as they are. It takes the
  fast ring exactly when nothing has spilled and the ring has room. It rejects only when the
  overflow lane is full or when the tenant of the request already has at least half of the overflow
  capacity waiting in it.\<close>

theorem enqueue_contract:
  assumes "ring_laws E items cap"
    and "steps_run (hq_step E) ops (hq_with_mode E f v m) = (accepted, taken, q)"
    and "push_back E x q = (res, q')"
  shows "(case res of
      FastPath d \<Rightarrow> hq_overflow q = [] \<and> length (items (hq_fast q)) < max f 1 \<and>
        hq_contents items q' = hq_contents items q @ [x] \<and> d = length (hq_contents items q')
    | OverflowPath d n \<Rightarrow> (hq_overflow q \<noteq> [] \<or> length (items (hq_fast q)) = max f 1) \<and>
        hq_contents items q' = hq_contents items q @ [x] \<and> d = length (hq_contents items q') \<and>
        n = length (hq_overflow q) + 1
    | Rejected d n \<Rightarrow> (hq_overflow q \<noteq> [] \<or> length (items (hq_fast q)) = max f 1) \<and>
        hq_contents items q' = hq_contents items q \<and> d = length (hq_contents items q) \<and>
        n = length (hq_overflow q) \<and>
        (length (hq_overflow q) = max v 1 \<or>
         (\<exists>k. he_tenant E x = Some k \<and> max v 1 div 2 \<le> count_tenant E k (hq_overflow q))))"
proof -
  have "hq_sized E items cap (max f 1) (max v 1) q"
    using hq.steps_run_elems [OF hq_new_sized [OF assms(1)] assms(2)] by simp
  then have ok: "hq_ok E items cap q" and sz: "hq_fast_capacity q = max f 1"
      "hq_overflow_capacity q = max v 1" "sa_config (hq_s3 q) = from_capacities (max f 1) (max v 1)"
    by (simp_all add: hq_sized_def)
  let ?o = "hq_observed E x q"
  have bounds: "length (items (hq_fast q)) \<le> max f 1" "length (hq_overflow q) \<le> max v 1"
    and capq: "cap (hq_fast q) = max f 1"
    using ok sz by (simp_all add: hq_ok_def)
  show ?thesis
  proof (cases "if hq_overflow q = [] then rg_push E x (hq_fast q) else None")
    case (Some r)
    then have o: "hq_overflow q = []" "rg_push E x (hq_fast q) = Some r" by (auto split: if_splits)
    then show ?thesis
      using push_fast_spec [OF hq_observed_ok(1) [OF ok], of x x r] assms(3) Some
        ring_lawsD(1) [OF assms(1) o(2)] capq by (simp add: push_back_eq)
  next
    case None
    then have full: "hq_overflow q \<noteq> [] \<or> length (items (hq_fast q)) = max f 1"
      using ring_lawsD(2) [OF assms(1), of x "hq_fast q"] capq bounds(1) by (auto split: if_splits)
    have "push_slow E x ?o = (res, q')" using assms(3) None by (simp add: push_back_eq)
    moreover have "hq_overflow ?o = [] \<longrightarrow> hq_fast_capacity ?o \<le> length (items (hq_fast ?o))"
      using full sz by (auto simp: hq_observed_def)
    ultimately have slow: "case res of FastPath d \<Rightarrow> False
      | OverflowPath d n \<Rightarrow> hq_contents items q' = hq_contents items q @ [x] \<and>
          d = length (hq_contents items q') \<and> n = Suc (length (hq_overflow q))
      | Rejected d n \<Rightarrow> hq_contents items q' = hq_contents items q \<and>
          d = length (hq_contents items q) \<and> n = length (hq_overflow q) \<and>
          (max v 1 \<le> length (hq_overflow q) \<or> \<not> fst (allow_main_admission (he_tenant E x) (hq_s3 ?o)))"
      using push_slow_spec [OF hq_observed_ok(1) [OF ok], of x x res q'] sz
      by (auto split: enqueue_result.splits)
    have "\<exists>k. he_tenant E x = Some k \<and> max v 1 div 2 \<le> count_tenant E k (hq_overflow q)"
      if "\<not> fst (allow_main_admission (he_tenant E x) (hq_s3 ?o))"
      using allow_main_refused [OF _ _ that, of E "hq_overflow q"] hq_observed_ok(1) [OF ok, of x] sz(3)
      by (auto simp: hq_ok_def hq_observed_def frame from_capacities_def)
    then show ?thesis using slow full bounds(2) by (cases res) auto
  qed
qed

definition demo_queue :: "(nat, nat \<times> nat list) hc_queue" where
  "demo_queue = snd (snd (steps_run (hq_step (list_env demo_tenant)) [Push 1]
     (hq_with_mode (list_env demo_tenant) 1 2 Ebr)))"

lemmas hq_eval = demo_queue_def push_back_def push_fast_def push_slow_def see_depth_def hq_len_def
  hq_with_mode_def list_env_def demo_tenant_def bump_epoch_def try_reclaim_def adm_new_def
  observe_signal_def allow_main_admission_def tenant_backlog_def from_capacities_def
  on_main_enqueued_def Let_def

lemma enqueue_contract_witness:
  "fst (push_back (list_env demo_tenant) 2 demo_queue) = OverflowPath 2 1 \<and>
   hq_contents snd (snd (push_back (list_env demo_tenant) 2 demo_queue))
     = hq_contents snd demo_queue @ [2]"
proof -
  let ?r = "steps_run (hq_step (list_env demo_tenant)) [Push 1] (hq_with_mode (list_env demo_tenant) 1 2 Ebr)"
  have r: "?r = (fst ?r, fst (snd ?r), demo_queue)" by (simp add: demo_queue_def)
  have p: "fst (push_back (list_env demo_tenant) 2 demo_queue) = OverflowPath 2 1"
    by (simp add: hq_eval)
  then show ?thesis
    using enqueue_contract [OF list_env_laws r prod.collapse [symmetric], of 2] by simp
qed

section \<open>Draining and clearing return\<close>

lemma drain_all_spec:
  "hq_sized E items cap f v q \<Longrightarrow>
   \<exists>q'. drain_all E q = Some (hq_contents items q, q') \<and> hq_sized E items cap f v q' \<and>
     hq_contents items q' = [] \<and> hq_pins q' = hq_pins q"
proof (induction "hq_contents items q" arbitrary: q)
  case Nil
  have ok: "hq_ok E items cap q" using Nil.prems by (simp add: hq_sized_def)
  have "pop_front E q = None"
    using pop_front_spec(1) [OF ok] Nil.hyps by (cases "pop_front E q") auto
  then show ?case using Nil by (subst drain_all.simps) simp
next
  case (Cons x xs)
  have ok: "hq_ok E items cap q" using Cons.prems by (simp add: hq_sized_def)
  obtain p where p: "pop_front E q = Some p"
    using pop_front_spec(2) [OF ok] Cons.hyps(2) by (cases "pop_front E q") auto
  obtain y q1 where y: "p = (y, q1)" by (cases p)
  note sp = pop_front_spec(1) [OF ok p [unfolded y]] and sz = pop_front_sized [OF p [unfolded y]]
  have "hq_sized E items cap f v q1" and xs: "y = x" "hq_contents items q1 = xs"
    using sp sz Cons.prems Cons.hyps(2) by (auto simp: hq_sized_def)
  then obtain q' where "drain_all E q1 = Some (hq_contents items q1, q')" "hq_sized E items cap f v q'"
      "hq_contents items q' = []" "hq_pins q' = hq_pins q1"
    using Cons.hyps(1) by metis
  then show ?case using Cons.hyps(2) p y xs sz by (subst drain_all.simps) simp
qed

lemma ring_drain_spec:
  assumes "ring_laws E items cap"
  shows "\<exists>r'. ring_drain E r = Some r' \<and> items r' = [] \<and> cap r' = cap r"
proof (induction "items r" arbitrary: r)
  case Nil
  then have "rg_pop E r = None" using ring_lawsD(3) [OF assms, of r] by (cases "rg_pop E r") auto
  then show ?case using Nil by (subst ring_drain.simps) simp
next
  case (Cons x xs)
  obtain p where p: "rg_pop E r = Some p"
    using ring_lawsD(4) [OF assms, of r] Cons.hyps(2) by (cases "rg_pop E r") auto
  obtain y r1 where y: "p = (y, r1)" by (cases p)
  have "items r1 = xs" "cap r1 = cap r"
    using ring_lawsD(3) [OF assms p [unfolded y]] Cons.hyps(2) by simp_all
  then obtain r' where "ring_drain E r1 = Some r'" "items r' = []" "cap r' = cap r"
    using Cons.hyps(1) [of r1] by auto
  then show ?case using p y by (subst ring_drain.simps) simp
qed

text \<open>C31 (termination): draining a reachable queue returns. It yields all waiting requests in order
  and leaves both lanes empty; clearing returns as well and leaves an empty queue of the same
  capacities with its counters, its policies and its epoch reset, but with the pins and the
  reclamation mode it had.\<close>

theorem drain_and_clear_return:
  assumes "ring_laws E items cap"
    and "steps_run (hq_step E) ops (hq_with_mode E f v m) = (accepted, taken, q)"
  shows "(\<exists>q'. drain_all E q = Some (items (hq_fast q) @ hq_overflow q, q') \<and> hq_is_empty E q') \<and>
    (\<exists>q'. hq_clear E q = Some q' \<and> hq_is_empty E q' \<and> hq_retired q' = [] \<and> hq_epoch q' = 0 \<and>
       hq_s3 q' = adm_new (from_capacities (max f 1) (max v 1)) \<and>
       hq_bravo q' = bravo_new bravo_default_config \<and> hq_pins q' = hq_pins q \<and> hq_mode q' = hq_mode q)"
proof -
  have sz: "hq_sized E items cap (max f 1) (max v 1) q"
    using hq.steps_run_elems [OF hq_new_sized [OF assms(1)] assms(2)] by simp
  have empty: "hq_is_empty E q' \<longleftrightarrow> hq_contents items q' = []" for q'
    using ring_lawsD(5) [OF assms(1)] by (simp add: hq_is_empty_def hq_contents_def)
  obtain r where "ring_drain E (hq_fast q) = Some r" "items r = []"
    using ring_drain_spec [OF assms(1)] by blast
  then show ?thesis
    using drain_all_spec [OF sz] sz unfolding empty
    by (auto simp: hq_clear_def hq_contents_def hq_sized_def)
qed

lemma drain_and_clear_return_witness:
  "\<exists>q'. drain_all (list_env demo_tenant) demo_queue = Some ([1], q') \<and> hq_is_empty (list_env demo_tenant) q'"
proof -
  let ?r = "steps_run (hq_step (list_env demo_tenant)) [Push 1] (hq_with_mode (list_env demo_tenant) 1 2 Ebr)"
  have r: "?r = (fst ?r, fst (snd ?r), demo_queue)" by (simp add: demo_queue_def)
  have "snd (hq_fast demo_queue) @ hq_overflow demo_queue = [1]" by (simp add: hq_eval)
  with drain_and_clear_return [OF list_env_laws r] show ?thesis by simp
qed

section \<open>Reclamation\<close>

text \<open>The epochs of the retired nodes increase, the last at most the current epoch; outside of the
  epoch-based mode there is none.\<close>

definition ebr_ok :: "('a, 'r) hc_queue \<Rightarrow> bool" where
  [wf_defs]: "ebr_ok q \<longleftrightarrow> sorted_wrt (<) (map snd (hq_retired q)) \<and>
     (\<forall>e \<in> snd ` set (hq_retired q). e \<le> hq_epoch q) \<and>
     (hq_mode q = SafeFallback \<longrightarrow> hq_retired q = []) \<and>
     length (hq_retired q) \<le> hq_threshold q \<and> 1 \<le> hq_threshold q"

lemma reclaim_loop_eq:
  "fst (reclaim_loop now rs n lat) = dropWhile (\<lambda>(x, e). e < now) rs"
  by (induction now rs n lat rule: reclaim_loop.induct) auto

lemma dropWhile_last_epoch:
  fixes now :: u64
  shows "sorted_wrt (<) (map snd rs) \<Longrightarrow> \<forall>e \<in> snd ` set rs. e \<le> now \<Longrightarrow>
    length (dropWhile (\<lambda>(x, e). e < now) rs) \<le> 1"
proof (induction rs)
  case (Cons p rs)
  obtain x e where p: "p = (x, e)" by (cases p)
  show ?case
  proof (cases "e < now")
    case True
    then show ?thesis using Cons p by simp
  next
    case False
    have "rs = []"
    proof (rule ccontr)
      assume "rs \<noteq> []"
      then have "hd rs \<in> set rs" by simp
      then have "e < snd (hd rs)" "snd (hd rs) \<le> now" using Cons.prems p by auto
      then have "e < now" by (rule less_le_trans)
      then show False using False by simp
    qed
    then show ?thesis using p False by simp
  qed
qed simp

text \<open>What a reclamation attempt leaves, with and without pins.\<close>

lemma try_reclaim_pinned:
  "hq_pins q > 0 \<Longrightarrow> hq_mode q = Ebr \<Longrightarrow>
   hq_reclaimed (try_reclaim q) = hq_reclaimed q \<and> hq_epoch (try_reclaim q) = hq_epoch q \<and>
   (if length (hq_retired q) > hq_threshold q
    then hq_retired (try_reclaim q) = [] \<and> hq_mode (try_reclaim q) = SafeFallback
    else hq_retired (try_reclaim q) = hq_retired q \<and> hq_mode (try_reclaim q) = Ebr)"
  by (auto simp: try_reclaim_def to_safe_fallback_def Let_def split: list.splits)

lemma try_reclaim_unpinned:
  "hq_pins q = 0 \<Longrightarrow> hq_mode q = Ebr \<Longrightarrow>
   hq_retired (try_reclaim q) = dropWhile (\<lambda>(x, e). e < hq_epoch q) (hq_retired q) \<and>
   hq_mode (try_reclaim q) = Ebr \<and> hq_epoch (try_reclaim q) = hq_epoch q"
  using reclaim_loop_eq [of "hq_epoch q" "hq_retired q" "hq_reclaimed q" "hq_max_latency q"]
  by (auto simp: try_reclaim_def split: prod.splits)

lemma try_reclaim_fallback: "hq_mode q = SafeFallback \<Longrightarrow> try_reclaim q = q"
  by (simp add: try_reclaim_def)

text \<open>An attempt restores the invariant even when the backlog has just grown by one node.\<close>

lemma try_reclaim_ebr:
  assumes "sorted_wrt (<) (map snd (hq_retired q))" and "\<forall>e \<in> snd ` set (hq_retired q). e \<le> hq_epoch q"
    and "hq_mode q = SafeFallback \<longrightarrow> hq_retired q = []" and "1 \<le> hq_threshold q"
  shows "ebr_ok (try_reclaim q)"
proof (cases "hq_mode q")
  case SafeFallback
  then show ?thesis using assms by (simp add: try_reclaim_fallback ebr_ok_def)
next
  case Ebr
  have thr: "hq_threshold (try_reclaim q) = hq_threshold q" by (simp add: frame)
  show ?thesis
  proof (cases "hq_pins q > 0")
    case True
    then show ?thesis using try_reclaim_pinned [OF True Ebr] assms thr
      by (auto simp: ebr_ok_def split: if_splits)
  next
    case False
    then have t: "hq_retired (try_reclaim q) = dropWhile (\<lambda>(x, e). e < hq_epoch q) (hq_retired q)"
      "hq_mode (try_reclaim q) = Ebr" "hq_epoch (try_reclaim q) = hq_epoch q"
      using try_reclaim_unpinned [OF _ Ebr] by auto
    have "length (hq_retired (try_reclaim q)) \<le> 1"
      unfolding t(1) by (rule dropWhile_last_epoch [OF assms(1,2)])
    moreover have "sorted_wrt (<) (map snd (hq_retired (try_reclaim q)))"
      using calculation by (cases "hq_retired (try_reclaim q)") auto
    moreover have "\<forall>e \<in> snd ` set (hq_retired (try_reclaim q)). e \<le> hq_epoch q"
      unfolding t(1) using assms(2) set_dropWhileD by fastforce
    ultimately show ?thesis using t thr assms(4) by (simp add: ebr_ok_def)
  qed
qed

lemma ebr_ok_cong:
  "hq_retired q' = hq_retired q \<Longrightarrow> hq_epoch q' = hq_epoch q \<Longrightarrow> hq_mode q' = hq_mode q \<Longrightarrow>
   hq_threshold q' = hq_threshold q \<Longrightarrow> ebr_ok q' \<longleftrightarrow> ebr_ok q"
  by (simp add: ebr_ok_def)

lemma ebr_ok_other [simp]:
  "ebr_ok (q\<lparr>hq_pins := n\<rparr>) \<longleftrightarrow> ebr_ok q" "ebr_ok (q\<lparr>hq_bravo := b\<rparr>) \<longleftrightarrow> ebr_ok q"
  by (simp_all add: ebr_ok_def)

lemma try_reclaim_epoch [frame]: "hq_epoch (try_reclaim q) = hq_epoch q"
  by (simp add: try_reclaim_def to_safe_fallback_def Let_def split: list.splits prod.splits)

lemma bump_reclaim_ebr:
  assumes "ebr_ok q"
  shows "ebr_ok (try_reclaim (bump_epoch q))" and "hq_epoch (try_reclaim (bump_epoch q)) = sat_inc (hq_epoch q)"
proof -
  show "ebr_ok (try_reclaim (bump_epoch q))"
    using assms by (intro try_reclaim_ebr) (auto simp: bump_epoch_def ebr_ok_def intro: le_sat_inc_trans)
  show "hq_epoch (try_reclaim (bump_epoch q)) = sat_inc (hq_epoch q)"
    by (simp add: frame) (simp add: bump_epoch_def)
qed

text \<open>An enqueue either leaves the reclamation state alone or makes one attempt in a new epoch.\<close>

lemma push_back_reclaim:
  assumes "push_back E x q = (res, q')"
  shows "(hq_retired q' = hq_retired q \<and> hq_epoch q' = hq_epoch q \<and> hq_mode q' = hq_mode q \<and>
      hq_reclaimed q' = hq_reclaimed q) \<or>
    (\<exists>q1. hq_retired q1 = hq_retired q \<and> hq_epoch q1 = hq_epoch q \<and> hq_mode q1 = hq_mode q \<and>
       hq_threshold q1 = hq_threshold q \<and> hq_pins q1 = hq_pins q \<and> hq_reclaimed q1 = hq_reclaimed q \<and>
       q' = see_depth E (try_reclaim (bump_epoch q1)))"
proof (cases "if hq_overflow q = [] then rg_push E x (hq_fast q) else None")
  case (Some r)
  then have "q' = see_depth E (try_reclaim (bump_epoch ((hq_observed E x q)\<lparr>hq_fast := r\<rparr>)))"
    using assms by (simp add: push_back_eq push_fast_def Let_def)
  then show ?thesis
    by (intro disjI2 exI [of _ "(hq_observed E x q)\<lparr>hq_fast := r\<rparr>"]) (simp add: hq_observed_def)
next
  case None
  obtain b s where a: "allow_main_admission (he_tenant E x) (hq_s3 (hq_observed E x q)) = (b, s)" by fastforce
  let ?q = "(hq_observed E x q)\<lparr>hq_overflow := hq_overflow q @ [x], hq_enqueued := sat_inc (hq_enqueued q),
      hq_s3 := on_main_enqueued (he_tenant E x) s\<rparr>"
  have p: "push_slow E x (hq_observed E x q) = (res, q')" using assms None by (simp add: push_back_eq)
  show ?thesis
  proof (cases "b \<and> length (hq_overflow q) < hq_overflow_capacity q")
    case True
    then have "q' = see_depth E (try_reclaim (bump_epoch ?q))"
      using p a by (auto simp: push_slow_def hq_observed_def Let_def)
    then show ?thesis by (intro disjI2 exI [of _ ?q]) (simp add: hq_observed_def)
  next
    case False
    then show ?thesis using p a by (auto simp: push_slow_def hq_observed_def Let_def split: if_splits)
  qed
qed

lemma take_value_reclaim:
  "take_value E q = Some (x, q') \<Longrightarrow> hq_retired q' = hq_retired q \<and> hq_epoch q' = hq_epoch q \<and>
     hq_mode q' = hq_mode q \<and> hq_threshold q' = hq_threshold q \<and> hq_pins q' = hq_pins q \<and>
     hq_reclaimed q' = hq_reclaimed q"
  by (auto simp: take_value_def split: option.splits list.splits)

text \<open>The state in which a take makes its attempt: a new epoch, and the taken value retired in it.\<close>

definition taken_state :: "('a, 'r) hc_queue \<Rightarrow> 'a \<Rightarrow> ('a, 'r) hc_queue \<Rightarrow> bool" where
  "taken_state q x q1 \<longleftrightarrow> hq_epoch q1 = sat_inc (hq_epoch q) \<and> hq_mode q1 = hq_mode q \<and>
     hq_threshold q1 = hq_threshold q \<and> hq_pins q1 = hq_pins q \<and> hq_reclaimed q1 = hq_reclaimed q \<and>
     hq_retired q1 = hq_retired q @ (if hq_mode q = Ebr then [(x, sat_inc (hq_epoch q))] else [])"

lemma pop_front_reclaim:
  assumes "pop_front E q = Some (x, q')"
  obtains q1 where "taken_state q x q1" and "q' = try_reclaim q1"
proof -
  obtain q0 where t: "take_value E q = Some (x, q0)"
    and q': "q' = try_reclaim (if hq_mode (bump_epoch q0) = Ebr then retire x (bump_epoch q0) else bump_epoch q0)"
    using assms by (auto simp: pop_front_def Let_def split: option.splits prod.splits)
  show ?thesis
    using take_value_reclaim [OF t] q'
    by (intro that [of "if hq_mode (bump_epoch q0) = Ebr then retire x (bump_epoch q0) else bump_epoch q0"])
      (simp_all add: taken_state_def bump_epoch_def retire_def)
qed

lemma hq_step_ebr:
  assumes "ebr_ok q" and "hq_epoch q \<noteq> u64_max" and "hq_step E op q = (xs, ys, q')"
  shows "ebr_ok q' \<and> (hq_epoch q' = hq_epoch q \<or> hq_epoch q' = sat_inc (hq_epoch q)) \<and>
    hq_threshold q' = hq_threshold q"
proof (cases op)
  case (Push x)
  obtain res where p: "push_back E x q = (res, q')"
    using assms(3) Push by (auto split: prod.splits enqueue_result.splits)
  from push_back_reclaim [OF p] show ?thesis
  proof
    assume "hq_retired q' = hq_retired q \<and> hq_epoch q' = hq_epoch q \<and> hq_mode q' = hq_mode q \<and>
      hq_reclaimed q' = hq_reclaimed q"
    then show ?thesis using assms(1) push_back_sized [OF p] by (simp add: ebr_ok_def)
  next
    assume "\<exists>q1. hq_retired q1 = hq_retired q \<and> hq_epoch q1 = hq_epoch q \<and> hq_mode q1 = hq_mode q \<and>
       hq_threshold q1 = hq_threshold q \<and> hq_pins q1 = hq_pins q \<and> hq_reclaimed q1 = hq_reclaimed q \<and>
       q' = see_depth E (try_reclaim (bump_epoch q1))"
    then obtain q1 where q1: "hq_retired q1 = hq_retired q" "hq_epoch q1 = hq_epoch q"
      "hq_mode q1 = hq_mode q" "hq_threshold q1 = hq_threshold q"
      and q': "q' = see_depth E (try_reclaim (bump_epoch q1))" by blast
    have "ebr_ok q1" using ebr_ok_cong [OF q1] assms(1) by simp
    note b = bump_reclaim_ebr [OF this]
    have "ebr_ok q'" using b(1) by (simp add: q' ebr_ok_def frame)
    then show ?thesis using b(2) q1(2) push_back_sized [OF p] by (simp add: q' frame)
  qed
next
  case Pop
  show ?thesis
  proof (cases "pop_front E q")
    case None
    then show ?thesis using assms Pop by simp
  next
    case (Some p)
    obtain x q2 where p: "p = (x, q2)" by (cases p)
    then have q': "pop_front E q = Some (x, q')" using assms(3) Pop Some by simp
    from q' obtain q1 where t: "taken_state q x q1" and q1: "q' = try_reclaim q1"
      by (rule pop_front_reclaim)
    have lt: "hq_epoch q < sat_inc (hq_epoch q)" by (rule sat_inc_less [OF assms(2)])
    have "ebr_ok q'" unfolding q1
      using t assms(1) lt
      by (intro try_reclaim_ebr) (auto simp: taken_state_def ebr_ok_def sorted_wrt_append
          intro: le_sat_inc_trans less_sat_inc_trans le_less_trans split: if_splits)
    then show ?thesis using t pop_front_sized [OF q'] by (simp add: q1 taken_state_def frame)
  qed
next
  case ForceReclaim
  then show ?thesis
    using assms(3) bump_reclaim_ebr [OF assms(1)] maintenance_frame(5) [of q] by (auto simp: force_reclaim_def)
next
  case ForceSafeFallback
  then show ?thesis using assms(1,3)
    by (cases "hq_mode q") (auto simp: force_safe_fallback_def to_safe_fallback_def ebr_ok_def)
qed (use assms in \<open>auto simp: pin_epoch_def drop_pin_def observe_window_def split: prod.splits\<close>)

lemma hq_run_ebr:
  "ebr_ok q \<Longrightarrow> unat (hq_epoch q) + length ops < 2 ^ 64 \<Longrightarrow> steps_run (hq_step E) ops q = (xs, ys, q') \<Longrightarrow>
   ebr_ok q' \<and> hq_threshold q' = hq_threshold q \<and> unat (hq_epoch q') \<le> unat (hq_epoch q) + length ops"
proof (induction ops arbitrary: q xs ys)
  case (Cons op ops)
  obtain xs1 ys1 q1 where s: "hq_step E op q = (xs1, ys1, q1)" by (metis prod_cases3)
  then obtain xs2 ys2 where r: "steps_run (hq_step E) ops q1 = (xs2, ys2, q')"
    using Cons.prems(3) by (auto split: prod.splits)
  have "hq_epoch q \<noteq> u64_max" using Cons.prems(2) by (auto simp: unat_u64_max)
  note e = hq_step_ebr [OF Cons.prems(1) this s]
  then have "unat (hq_epoch q1) \<le> Suc (unat (hq_epoch q))" by (auto simp: unat_sat_inc)
  then show ?case using Cons.IH [OF _ _ r] e Cons.prems(2) by fastforce
qed simp

text \<open>The memory held for reclamation is bounded. In every run of fewer than \<open>2 ^ 64\<close>
  operations, with any pins held for any time, the retired requests number at most the fallback
  threshold, eight times the capacity of the queue and at least 32, and in the safe fallback mode
  there are none.\<close>

theorem retired_backlog_bounded:
  assumes "length ops < 2 ^ 64"
    and "steps_run (hq_step E) ops (hq_with_mode E f v m) = (accepted, taken, q)"
  shows "length (hq_retired q) \<le> max (usize_sat (usize_sat (max f 1 + max v 1) * 8)) 32 \<and>
    (hq_mode q = SafeFallback \<longrightarrow> hq_retired q = [])"
proof -
  have "ebr_ok (hq_with_mode E f v m)" "unat (hq_epoch (hq_with_mode E f v m)) = 0"
    "hq_threshold (hq_with_mode E f v m) = max (usize_sat (usize_sat (max f 1 + max v 1) * 8)) 32"
    by (simp_all add: ebr_ok_def hq_with_mode_def Let_def)
  then show ?thesis using hq_run_ebr [OF _ _ assms(2)] assms(1) by (simp add: ebr_ok_def)
qed

lemma retired_backlog_bounded_witness:
  "length (hq_retired (snd (snd (steps_run (hq_step (list_env demo_tenant)) [Push 1, TakePin, Pop]
     (hq_with_mode (list_env demo_tenant) 1 2 Ebr))))) \<le> 32"
proof -
  let ?r = "steps_run (hq_step (list_env demo_tenant)) [Push 1, TakePin, Pop]
     (hq_with_mode (list_env demo_tenant) 1 2 Ebr)"
  have r: "?r = (fst ?r, fst (snd ?r), snd (snd ?r))" by simp
  have "max (usize_sat (usize_sat (max (1::nat) 1 + max 2 1) * 8)) 32 = 32" by (simp add: usize_sat_def)
  then show ?thesis using retired_backlog_bounded [OF _ r] by simp
qed

lemma pinned_attempt:
  "hq_pins p > 0 \<Longrightarrow> hq_mode (try_reclaim p) = Ebr \<Longrightarrow>
   hq_retired (try_reclaim p) = hq_retired p \<and> hq_reclaimed (try_reclaim p) = hq_reclaimed p \<and> hq_mode p = Ebr"
  using try_reclaim_pinned [of p] try_reclaim_fallback [of p]
  by (cases "hq_mode p") (auto split: if_splits)

lemma bump_epoch_fields [frame]:
  "hq_retired (bump_epoch q) = hq_retired q" "hq_reclaimed (bump_epoch q) = hq_reclaimed q"
  "hq_mode (bump_epoch q) = hq_mode q"
  by (simp_all add: bump_epoch_def)

lemma pinned_step:
  assumes "hq_pins q > 0" and "op \<noteq> DropPin" and "hq_step E op q = (xs, ys, q')" and "hq_mode q' = Ebr"
  shows "map fst (hq_retired q') = map fst (hq_retired q) @ ys \<and> hq_reclaimed q' = hq_reclaimed q"
proof (cases op)
  case (Push x)
  obtain res where p: "push_back E x q = (res, q')" and ys: "ys = []"
    using assms(3) Push by (auto split: prod.splits enqueue_result.splits)
  from push_back_reclaim [OF p] show ?thesis
  proof
    assume "\<exists>q1. hq_retired q1 = hq_retired q \<and> hq_epoch q1 = hq_epoch q \<and> hq_mode q1 = hq_mode q \<and>
       hq_threshold q1 = hq_threshold q \<and> hq_pins q1 = hq_pins q \<and> hq_reclaimed q1 = hq_reclaimed q \<and>
       q' = see_depth E (try_reclaim (bump_epoch q1))"
    then obtain q1 where q1: "hq_retired q1 = hq_retired q" "hq_pins q1 = hq_pins q"
      "hq_reclaimed q1 = hq_reclaimed q" and q': "q' = see_depth E (try_reclaim (bump_epoch q1))" by blast
    then show ?thesis using pinned_attempt [of "bump_epoch q1"] assms(1,4) ys by (simp add: frame)
  qed (simp add: ys)
next
  case Pop
  show ?thesis
  proof (cases "pop_front E q")
    case None
    then show ?thesis using assms Pop by simp
  next
    case (Some p)
    obtain x q2 where p: "p = (x, q2)" by (cases p)
    then have "pop_front E q = Some (x, q')" and ys: "ys = [x]" using assms(3) Pop Some by simp_all
    then obtain q1 where t: "taken_state q x q1" and q1: "q' = try_reclaim q1"
      by (elim pop_front_reclaim)
    then show ?thesis using pinned_attempt [of q1] assms(1,4) ys
      by (simp add: taken_state_def split: if_splits)
  qed
next
  case ForceReclaim
  then show ?thesis using assms pinned_attempt [of "bump_epoch q"]
    by (simp add: force_reclaim_def frame)
next
  case ForceSafeFallback
  then show ?thesis using assms(3,4)
    by (auto simp: force_safe_fallback_def to_safe_fallback_def split: if_splits)
qed (use assms in \<open>auto simp: pin_epoch_def drop_pin_def observe_window_def split: prod.splits\<close>)

text \<open>C32 (safety): a taken request stays in memory while a pin is held. As long as a pin is held and
  the mode remains epoch based, no operation reclaims: the retired requests are kept, with the newly
  taken one at the end, and the counter of reclaimed ones does not move. Once no pin is held, one
  forced reclamation before the epoch counter saturates leaves none.\<close>

theorem pins_delay_reclamation:
  assumes "steps_run (hq_step E) ops (hq_with_mode E f v m) = (accepted, taken, q)"
    and "length ops + 1 < 2 ^ 64" and "hq_mode q = Ebr"
  shows "(hq_pins q > 0 \<and> op \<noteq> DropPin \<and> hq_step E op q = (xs, ys, q') \<and> hq_mode q' = Ebr \<longrightarrow>
      map fst (hq_retired q') = map fst (hq_retired q) @ ys \<and> hq_reclaimed q' = hq_reclaimed q) \<and>
    (hq_pins q = 0 \<longrightarrow> hq_retired (force_reclaim q) = [])"
proof (intro conjI impI)
  have "ebr_ok (hq_with_mode E f v m)" "unat (hq_epoch (hq_with_mode E f v m)) = 0"
    by (simp_all add: ebr_ok_def hq_with_mode_def Let_def)
  then have e: "ebr_ok q" "unat (hq_epoch q) \<le> length ops"
    using hq_run_ebr [OF _ _ assms(1)] assms(2) by simp_all
  {
    assume "hq_pins q = 0"
    then have f: "hq_retired (force_reclaim q)
        = dropWhile (\<lambda>(x, ep). ep < sat_inc (hq_epoch q)) (hq_retired q)"
      using try_reclaim_unpinned [of "bump_epoch q"] assms(3) by (simp add: force_reclaim_def bump_epoch_def)
    have "hq_epoch q < sat_inc (hq_epoch q)"
      using e(2) assms(2) by (intro sat_inc_less) (auto simp: unat_u64_max)
    then have "ep < sat_inc (hq_epoch q)" if "(x, ep) \<in> set (hq_retired q)" for x ep
      using that e(1) by (force simp: ebr_ok_def intro: le_less_trans)
    then show "hq_retired (force_reclaim q) = []" unfolding f by (auto simp: dropWhile_eq_Nil_conv)
  }
  assume "hq_pins q > 0 \<and> op \<noteq> DropPin \<and> hq_step E op q = (xs, ys, q') \<and> hq_mode q' = Ebr"
  then show "map fst (hq_retired q') = map fst (hq_retired q) @ ys" "hq_reclaimed q' = hq_reclaimed q"
    using pinned_step by blast+
qed

lemma pins_delay_reclamation_witness:
  "hq_retired (force_reclaim (snd (snd (steps_run (hq_step (list_env demo_tenant)) [Push 1, Pop]
     (hq_with_mode (list_env demo_tenant) 1 2 Ebr))))) = []"
proof -
  let ?r = "steps_run (hq_step (list_env demo_tenant)) [Push 1, Pop]
     (hq_with_mode (list_env demo_tenant) 1 2 Ebr)"
  have r: "?r = (fst ?r, fst (snd ?r), snd (snd ?r))" by simp
  have "hq_mode (snd (snd ?r)) = Ebr \<and> hq_pins (snd (snd ?r)) = 0"
    by (simp add: hq_eval pop_front_def take_value_def retire_def)
  with pins_delay_reclamation [OF r] show ?thesis by simp
qed

end
