(* ===== verification/Hostcall_Tracker.thy ===== *)
theory Hostcall_Tracker
  imports Scheduler
begin

text \<open>
  \<^verbatim>\<open>runtime.rs\<close>: the table of pending hostcalls (\<^verbatim>\<open>HostcallTracker\<close>) and the interrupt budget of
  the script engine (\<^verbatim>\<open>InterruptBudget\<close>). A hash set is a set, a hash map a partial function.
\<close>

section \<open>The interrupt budget\<close>

record interrupt_budget =
  ib_configured :: "u64 option"
  ib_remaining :: "u64 option"
  ib_tripped :: bool

definition budget_new :: "u64 option \<Rightarrow> interrupt_budget" where
  "budget_new c = \<lparr>ib_configured = c, ib_remaining = None, ib_tripped = False\<rparr>"

definition budget_reset :: "interrupt_budget \<Rightarrow> interrupt_budget" where
  "budget_reset b = b\<lparr>ib_remaining := ib_configured b, ib_tripped := False\<rparr>"

definition on_interrupt :: "interrupt_budget \<Rightarrow> bool \<times> interrupt_budget" where
  "on_interrupt b =
     (case ib_remaining b of
        None \<Rightarrow> (False, b)
      | Some n \<Rightarrow>
          (if n = 0 then (True, b\<lparr>ib_tripped := True\<rparr>)
           else (False, b\<lparr>ib_remaining := Some (n - 1)\<rparr>)))"

definition did_trip :: "interrupt_budget \<Rightarrow> bool" where
  "did_trip b = ib_tripped b"

definition clear_trip :: "interrupt_budget \<Rightarrow> interrupt_budget" where
  "clear_trip b = b\<lparr>ib_tripped := False\<rparr>"

text \<open>The answers to the first \<open>n\<close> interrupts of a run; the engine stops at the first \<open>True\<close>.\<close>

fun interrupts :: "nat \<Rightarrow> interrupt_budget \<Rightarrow> bool list" where
  "interrupts 0 b = []"
| "interrupts (Suc n) b = (let (stop, b1) = on_interrupt b in stop # interrupts n b1)"

lemma interrupts_zero: "ib_remaining b = Some 0 \<Longrightarrow> interrupts n b = replicate n True"
  by (induction n arbitrary: b) (simp_all add: on_interrupt_def)

lemma interrupts_none: "ib_remaining b = None \<Longrightarrow> interrupts n b = replicate n False"
  by (induction n arbitrary: b) (simp_all add: on_interrupt_def)

lemma interrupts_some:
  "ib_remaining b = Some w \<Longrightarrow>
   interrupts n b = replicate (min n (unat w)) False @ replicate (n - unat w) True"
proof (induction n arbitrary: b w)
  case (Suc n)
  show ?case
  proof (cases "w = 0")
    case True
    then show ?thesis using interrupts_zero [OF Suc.prems [unfolded True], of "Suc n"] by simp
  next
    case False
    then have w: "unat w = Suc (unat (w - 1))" by (simp add: unat_minus_one unat_gt_0)
    have "interrupts (Suc n) b = False # interrupts n (b\<lparr>ib_remaining := Some (w - 1)\<rparr>)"
      using Suc.prems False by (simp add: on_interrupt_def)
    then show ?thesis
      using Suc.IH [of "b\<lparr>ib_remaining := Some (w - 1)\<rparr>" "w - 1"] w by simp
  qed
qed simp

section \<open>The tracker\<close>

record tracker =
  tk_pending :: "string set"
  tk_cancelled :: "string set"
  tk_call_timer :: "string \<rightharpoonup> u64"
  tk_timer_call :: "u64 \<rightharpoonup> string"
  tk_enqueued :: "string \<rightharpoonup> u64"
  tk_stream :: "string \<rightharpoonup> u64"

definition tracker_new :: tracker where
  "tracker_new = \<lparr>tk_pending = {}, tk_cancelled = {}, tk_call_timer = Map.empty,
     tk_timer_call = Map.empty, tk_enqueued = Map.empty, tk_stream = Map.empty\<rparr>"

datatype completion = Delivered "u64 option" | Unknown

definition register :: "string \<Rightarrow> u64 option \<Rightarrow> u64 \<Rightarrow> tracker \<Rightarrow> tracker" where
  "register c timer now t =
     (let t1 = t\<lparr>tk_pending := insert c (tk_pending t), tk_cancelled := tk_cancelled t - {c},
                 tk_stream := (tk_stream t)(c := None)\<rparr>;
          t2 = (case timer of
              Some i \<Rightarrow> t1\<lparr>tk_call_timer := (tk_call_timer t1)(c \<mapsto> i),
                           tk_timer_call := (tk_timer_call t1)(i \<mapsto> c)\<rparr>
            | None \<Rightarrow> t1)
      in t2\<lparr>tk_enqueued := (tk_enqueued t2)(c \<mapsto> now)\<rparr>)"

definition pending_count :: "tracker \<Rightarrow> nat" where
  "pending_count t = card (tk_pending t)"

definition is_pending :: "string \<Rightarrow> tracker \<Rightarrow> bool" where
  "is_pending c t \<longleftrightarrow> c \<in> tk_pending t"

definition is_active :: "string \<Rightarrow> tracker \<Rightarrow> bool" where
  "is_active c t \<longleftrightarrow> c \<in> tk_pending t \<and> c \<notin> tk_cancelled t"

text \<open>Removing the timer of a call from both maps.\<close>

definition drop_timer :: "u64 option \<Rightarrow> tracker \<Rightarrow> tracker" where
  "drop_timer timer t =
     (case timer of Some i \<Rightarrow> t\<lparr>tk_timer_call := (tk_timer_call t)(i := None)\<rparr> | None \<Rightarrow> t)"

definition cancel :: "string \<Rightarrow> tracker \<Rightarrow> u64 option option \<times> tracker" where
  "cancel c t =
     (if c \<notin> tk_pending t \<or> c \<in> tk_cancelled t then (None, t)
      else let timer = tk_call_timer t c
           in (Some timer, drop_timer timer
                (t\<lparr>tk_cancelled := insert c (tk_cancelled t),
                   tk_call_timer := (tk_call_timer t)(c := None)\<rparr>)))"

definition record_stream_seq :: "string \<Rightarrow> u64 \<Rightarrow> tracker \<Rightarrow> tracker" where
  "record_stream_seq c n t =
     (if c \<notin> tk_pending t then t
      else case tk_stream t c of
        Some m \<Rightarrow> (if n > m then t\<lparr>tk_stream := (tk_stream t)(c \<mapsto> n)\<rparr> else t)
      | None \<Rightarrow> t\<lparr>tk_stream := (tk_stream t)(c \<mapsto> n)\<rparr>)"

definition stream_next_seq :: "string \<Rightarrow> tracker \<Rightarrow> u64 option" where
  "stream_next_seq c t =
     (if c \<notin> tk_pending t then None
      else Some (case tk_stream t c of Some n \<Rightarrow> sat_inc n | None \<Rightarrow> 0))"

definition queue_wait_ms :: "string \<Rightarrow> u64 \<Rightarrow> tracker \<Rightarrow> u64 option" where
  "queue_wait_ms c now t = map_option (\<lambda>e. sat_sub now e) (tk_enqueued t c)"

definition on_complete :: "string \<Rightarrow> tracker \<Rightarrow> completion \<times> tracker" where
  "on_complete c t =
     (if c \<notin> tk_pending t then (Unknown, t)
      else let timer = tk_call_timer t c
           in (Delivered timer, drop_timer timer
                (t\<lparr>tk_pending := tk_pending t - {c}, tk_call_timer := (tk_call_timer t)(c := None),
                   tk_enqueued := (tk_enqueued t)(c := None), tk_cancelled := tk_cancelled t - {c},
                   tk_stream := (tk_stream t)(c := None)\<rparr>)))"

definition take_timed_out_call :: "u64 \<Rightarrow> tracker \<Rightarrow> string option \<times> tracker" where
  "take_timed_out_call i t =
     (case tk_timer_call t i of
        None \<Rightarrow> (None, t)
      | Some c \<Rightarrow>
          (let t1 = t\<lparr>tk_timer_call := (tk_timer_call t)(i := None),
                      tk_call_timer := (tk_call_timer t)(c := None),
                      tk_enqueued := (tk_enqueued t)(c := None), tk_cancelled := tk_cancelled t - {c},
                      tk_stream := (tk_stream t)(c := None), tk_pending := tk_pending t - {c}\<rparr>
           in (if c \<in> tk_pending t then Some c else None, t1)))"

text \<open>The two timer maps are inverse to each other, and only calls that are pending and not
  cancelled have a timer or are cancelled.\<close>

definition tracker_ok :: "tracker \<Rightarrow> bool" where
  [wf_defs]: "tracker_ok t \<longleftrightarrow>
     (\<forall>c i. tk_call_timer t c = Some i \<longleftrightarrow> tk_timer_call t i = Some c) \<and>
     dom (tk_call_timer t) \<subseteq> tk_pending t - tk_cancelled t \<and> tk_cancelled t \<subseteq> tk_pending t"

lemma tracker_new_ok [simp]: "tracker_ok tracker_new"
  by (simp add: tracker_ok_def tracker_new_def)

lemma tracker_okD:
  assumes "tracker_ok t"
  shows "tk_call_timer t c = Some i \<longleftrightarrow> tk_timer_call t i = Some c"
    and "tk_call_timer t c = Some i \<Longrightarrow> c \<in> tk_pending t \<and> c \<notin> tk_cancelled t"
    and "tk_timer_call t i = Some c \<Longrightarrow> c \<in> tk_pending t \<and> c \<notin> tk_cancelled t"
  using assms by (auto simp: tracker_ok_def)

lemma register_ok:
  assumes "tracker_ok t" and "c \<notin> tk_pending t"
    and "\<And>i. timer = Some i \<Longrightarrow> tk_timer_call t i = None"
  shows "tracker_ok (register c timer now t)"
proof -
  have "tk_call_timer t c = None" using assms(1,2) by (auto simp: tracker_ok_def)
  with assms show ?thesis
    by (auto simp: tracker_ok_def register_def Let_def split: option.splits)
      (metis option.distinct(1))
qed

lemma cancel_ok: "tracker_ok t \<Longrightarrow> tracker_ok (snd (cancel c t))"
  by (auto simp: cancel_def drop_timer_def Let_def tracker_ok_def split: option.splits)
    (metis option.distinct(1) option.inject)+

lemma on_complete_ok: "tracker_ok t \<Longrightarrow> tracker_ok (snd (on_complete c t))"
  by (auto simp: on_complete_def drop_timer_def Let_def tracker_ok_def split: option.splits)
    (metis option.distinct(1) option.inject)+

lemma take_timed_out_ok: "tracker_ok t \<Longrightarrow> tracker_ok (snd (take_timed_out_call i t))"
  by (auto simp: take_timed_out_call_def Let_def tracker_ok_def split: option.splits)
    (metis option.inject)

lemma record_stream_ok [simp]: "tracker_ok (record_stream_seq c n t) \<longleftrightarrow> tracker_ok t"
  by (auto simp: record_stream_seq_def tracker_ok_def split: option.splits)

end
