(* ===== verification/Hostcall_Bridge.thy ===== *)
theory Hostcall_Bridge
  imports Hostcall_Queue Hostcall_Tracker
begin

text \<open>
  The promise bridge of \<^verbatim>\<open>runtime.rs\<close>: hostcalls issued by the scripts, their queue, their timers
  and the delivery of their outcomes. The scripts and the host are the environment: they choose the
  operations; a call of a script function (\<^verbatim>\<open>__pi_complete_hostcall\<close>, \<^verbatim>\<open>__pi_fire_timer\<close>,
  \<^verbatim>\<open>__pi_dispatch_event\<close>) is an entry of the delivery log.
\<close>

section \<open>Requests\<close>

datatype hostcall_kind =
    ToolCall string | ExecCall string | HttpCall | SessionCall string | UiCall string
  | EventsCall string | LogCall

record hostcall_request =
  hr_call_id :: string
  hr_kind :: hostcall_kind
  hr_payload :: json
  hr_trace :: u64
  hr_extension :: "string option"

definition request_env :: "(hostcall_request, 'r) hc_env \<Rightarrow> (hostcall_request, 'r) hc_env" where
  "request_env R = R\<lparr>he_tenant := hr_extension\<rparr>"

lemma request_env_laws: "ring_laws R items cap \<Longrightarrow> ring_laws (request_env R) items cap"
  by (simp add: ring_laws_def request_env_def)

section \<open>State\<close>

datatype delivery =
    Completed string hostcall_outcome
  | TimerCallback u64
  | EventDispatched string json

record 'r bridge =
  br_queue :: "(hostcall_request, 'r) hc_queue"
  br_tracker :: tracker
  br_sched :: scheduler
  br_next_call :: u64
  br_trace :: u64
  br_total :: u64
  br_timed_out :: u64
  br_timeout :: "u64 option"      \<comment> \<open>\<^verbatim>\<open>limits.hostcall_timeout_ms\<close>\<close>
  br_log :: "delivery list"

definition bridge_new :: "(hostcall_request, 'r) hc_queue \<Rightarrow> u64 option \<Rightarrow> u64 \<Rightarrow> u64 \<Rightarrow> 'r bridge" where
  "bridge_new q timeout now counter =
     \<lparr>br_queue = q, br_tracker = tracker_new, br_sched = with_clock now, br_next_call = counter,
      br_trace = 0, br_total = 0, br_timed_out = 0, br_timeout = timeout, br_log = []\<rparr>"

definition call_name :: "u64 \<Rightarrow> string" where
  "call_name n = ''call-'' @ show_nat (unat n)"

definition generate_call_id :: "'r bridge \<Rightarrow> u64 \<times> 'r bridge" where
  "generate_call_id b = (br_next_call b, b\<lparr>br_next_call := br_next_call b + 1\<rparr>)"

section \<open>Issuing\<close>

definition overloaded_error :: "nat \<Rightarrow> nat \<Rightarrow> hostcall_outcome" where
  "overloaded_error depth overflow_depth = OutcomeError ''overloaded''
     (''Hostcall queue overloaded (depth='' @ show_nat depth @ '', overflow_depth='' @
      show_nat overflow_depth @ '')'')"

definition enqueue_with_backpressure ::
  "(hostcall_request, 'r) hc_env \<Rightarrow> hostcall_request \<Rightarrow> 'r bridge \<Rightarrow> 'r bridge" where
  "enqueue_with_backpressure E req b =
     (let (res, q) = push_back E req (br_queue b);
          b1 = b\<lparr>br_queue := q\<rparr>
      in case res of
           FastPath _ \<Rightarrow> b1
         | OverflowPath _ _ \<Rightarrow> b1
         | Rejected depth overflow_depth \<Rightarrow>
             (let (done, t) = on_complete (hr_call_id req) (br_tracker b1);
                  b2 = b1\<lparr>br_tracker := t\<rparr>
              in case done of
                   Unknown \<Rightarrow> b2
                 | Delivered timer \<Rightarrow>
                     (let s = (case timer of Some i \<Rightarrow> snd (clear_timeout i (br_sched b2))
                                           | None \<Rightarrow> br_sched b2)
                      in b2\<lparr>br_sched := enqueue_hostcall_complete (hr_call_id req)
                           (overloaded_error depth overflow_depth) s\<rparr>)))"

text \<open>The common body of the native functions; \<open>None\<close> only if no timer identifier is found.\<close>

definition start_timer :: "u64 option \<Rightarrow> scheduler \<Rightarrow> (u64 option \<times> scheduler) option" where
  "start_timer timeout s =
     (case timeout of
        Some ms \<Rightarrow>
          (if ms > 0 then map_option (\<lambda>(i, s1). (Some i, s1)) (set_timeout ms s) else Some (None, s))
      | None \<Rightarrow> Some (None, s))"

definition issue ::
  "(hostcall_request, 'r) hc_env \<Rightarrow> u64 option \<Rightarrow> hostcall_kind \<Rightarrow> json \<Rightarrow> string option \<Rightarrow>
   'r bridge \<Rightarrow> (string \<times> 'r bridge) option" where
  "issue E timeout kind payload ext b0 =
     (let (n, b1) = generate_call_id b0;
          c = call_name n;
          b2 = b1\<lparr>br_total := br_total b1 + 1, br_trace := br_trace b1 + 1\<rparr>;
          now = sc_clock (br_sched b2)
      in map_option (\<lambda>(timer, s).
           (c, enqueue_with_backpressure E
              \<lparr>hr_call_id = c, hr_kind = kind, hr_payload = payload, hr_trace = br_trace b1,
               hr_extension = ext\<rparr>
              (b2\<lparr>br_sched := s, br_tracker := register c timer now (br_tracker b2)\<rparr>)))
         (start_timer timeout (br_sched b2)))"

definition tool_native ::
  "(hostcall_request, 'r) hc_env \<Rightarrow> string \<Rightarrow> json \<Rightarrow> string option \<Rightarrow> 'r bridge \<Rightarrow> (string \<times> 'r bridge) option" where
  "tool_native E name input ext b = issue E (br_timeout b) (ToolCall name) input ext b"

definition http_native ::
  "(hostcall_request, 'r) hc_env \<Rightarrow> json \<Rightarrow> string option \<Rightarrow> 'r bridge \<Rightarrow> (string \<times> 'r bridge) option" where
  "http_native E req ext b = issue E (br_timeout b) HttpCall req ext b"

definition session_native ::
  "(hostcall_request, 'r) hc_env \<Rightarrow> string \<Rightarrow> json \<Rightarrow> string option \<Rightarrow> 'r bridge \<Rightarrow> (string \<times> 'r bridge) option" where
  "session_native E op args ext b = issue E (br_timeout b) (SessionCall op) args ext b"

definition ui_native ::
  "(hostcall_request, 'r) hc_env \<Rightarrow> string \<Rightarrow> json \<Rightarrow> string option \<Rightarrow> 'r bridge \<Rightarrow> (string \<times> 'r bridge) option" where
  "ui_native E op args ext b = issue E (br_timeout b) (UiCall op) args ext b"

definition events_native ::
  "(hostcall_request, 'r) hc_env \<Rightarrow> string \<Rightarrow> json \<Rightarrow> string option \<Rightarrow> 'r bridge \<Rightarrow> (string \<times> 'r bridge) option" where
  "events_native E op args ext b = issue E (br_timeout b) (EventsCall op) args ext b"

definition log_native ::
  "(hostcall_request, 'r) hc_env \<Rightarrow> json \<Rightarrow> string option \<Rightarrow> 'r bridge \<Rightarrow> (string \<times> 'r bridge) option" where
  "log_native E entry ext b = issue E (br_timeout b) LogCall entry ext b"

text \<open>The options of \<^verbatim>\<open>exec\<close> get the default timeout unless they set one; \<open>None\<close> is a missing or
  null argument. (An argument that does not convert to JSON is an error before anything happens.)\<close>

definition exec_options :: "u64 option \<Rightarrow> json option \<Rightarrow> json" where
  "exec_options timeout options =
     (let o1 = (case options of None \<Rightarrow> JObject [] | Some v \<Rightarrow> v)
      in case timeout of
           None \<Rightarrow> o1
         | Some ms \<Rightarrow>
             (let n = JNumber (show_nat (unat ms))
              in if ms = 0 then o1
                 else case o1 of
                   JObject m \<Rightarrow>
                     (if \<exists>k \<in> set [''timeout'', ''timeoutMs'', ''timeout_ms'']. map_of m k \<noteq> None
                      then o1 else JObject (bm_put ''timeoutMs'' n m))
                 | _ \<Rightarrow> JObject [(''timeoutMs'', n)]))"

definition exec_native ::
  "(hostcall_request, 'r) hc_env \<Rightarrow> string \<Rightarrow> json \<Rightarrow> json option \<Rightarrow> string option \<Rightarrow> 'r bridge \<Rightarrow>
   (string \<times> 'r bridge) option" where
  "exec_native E cmd args options ext b =
     issue E (br_timeout b) (ExecCall cmd)
       (JObject [(''args'', args), (''options'', exec_options (br_timeout b) options)]) ext b"

text \<open>\<^verbatim>\<open>process.exit\<close>: the call has no timer.\<close>

definition exit_native ::
  "(hostcall_request, 'r) hc_env \<Rightarrow> string \<Rightarrow> string option \<Rightarrow> 'r bridge \<Rightarrow> (string \<times> 'r bridge) option" where
  "exit_native E code ext b = issue E None (EventsCall ''exit'') (JObject [(''code'', JNumber code)]) ext b"

section \<open>Operations of the scripts and the host\<close>

definition native_clear_timeout :: "u64 \<Rightarrow> 'r bridge \<Rightarrow> bool \<times> 'r bridge" where
  "native_clear_timeout i b =
     (if tk_timer_call (br_tracker b) i \<noteq> None then (False, b)
      else let (r, s) = clear_timeout i (br_sched b) in (r, b\<lparr>br_sched := s\<rparr>))"

definition host_clear_timeout :: "u64 \<Rightarrow> 'r bridge \<Rightarrow> bool \<times> 'r bridge" where
  "host_clear_timeout i b = (let (r, s) = clear_timeout i (br_sched b) in (r, b\<lparr>br_sched := s\<rparr>))"

definition cancel_hostcall :: "string \<Rightarrow> 'r bridge \<Rightarrow> bool \<times> 'r bridge" where
  "cancel_hostcall c b =
     (let (r, t) = cancel c (br_tracker b); b1 = b\<lparr>br_tracker := t\<rparr>
      in case r of
           None \<Rightarrow> (False, b1)
         | Some timer \<Rightarrow>
             (let s1 = (case timer of Some i \<Rightarrow> snd (clear_timeout i (br_sched b1)) | None \<Rightarrow> br_sched b1);
                  s2 = (case stream_next_seq c t of
                      Some n \<Rightarrow> enqueue_stream_chunk c n JNull True s1 | None \<Rightarrow> s1)
              in (True, b1\<lparr>br_sched := s2\<rparr>)))"

definition complete_hostcall :: "string \<Rightarrow> hostcall_outcome \<Rightarrow> 'r bridge \<Rightarrow> 'r bridge" where
  "complete_hostcall c out b =
     (let t = (case out of StreamChunk n _ _ \<Rightarrow> record_stream_seq c n (br_tracker b)
                         | _ \<Rightarrow> br_tracker b)
      in b\<lparr>br_tracker := t, br_sched := enqueue_hostcall_complete c out (br_sched b)\<rparr>)"

definition complete_batch :: "(string \<times> hostcall_outcome) list \<Rightarrow> 'r bridge \<Rightarrow> 'r bridge" where
  "complete_batch cs b = fold (\<lambda>(c, out). complete_hostcall c out) cs b"

definition bridge_event :: "string \<Rightarrow> json \<Rightarrow> 'r bridge \<Rightarrow> 'r bridge" where
  "bridge_event ev payload b = b\<lparr>br_sched := enqueue_event ev payload (br_sched b)\<rparr>"

definition bridge_set_timeout :: "u64 \<Rightarrow> 'r bridge \<Rightarrow> (u64 \<times> 'r bridge) option" where
  "bridge_set_timeout d b = map_option (\<lambda>(i, s). (i, b\<lparr>br_sched := s\<rparr>)) (set_timeout d (br_sched b))"

definition drain_requests ::
  "(hostcall_request, 'r) hc_env \<Rightarrow> 'r bridge \<Rightarrow> (hostcall_request list \<times> 'r bridge) option" where
  "drain_requests E b = map_option (\<lambda>(rs, q). (rs, b\<lparr>br_queue := q\<rparr>)) (drain_all E (br_queue b))"

definition bridge_has_pending :: "'r bridge \<Rightarrow> bool" where
  "bridge_has_pending b \<longleftrightarrow> has_pending (br_sched b) \<or> pending_count (br_tracker b) > 0"

definition bridge_wait_ms :: "string \<Rightarrow> 'r bridge \<Rightarrow> u64 option" where
  "bridge_wait_ms c b = queue_wait_ms c (sc_clock (br_sched b)) (br_tracker b)"

section \<open>Ticks\<close>

definition emit_delivery :: "delivery \<Rightarrow> 'r bridge \<Rightarrow> 'r bridge" where
  "emit_delivery d b = b\<lparr>br_log := br_log b @ [d]\<rparr>"

fun nonfinal :: "hostcall_outcome \<Rightarrow> bool" where
  "nonfinal (StreamChunk n chunk is_final) = (\<not> is_final)"
| "nonfinal _ = False"

definition timeout_outcome :: hostcall_outcome where
  "timeout_outcome = OutcomeError ''timeout'' ''Hostcall timed out''"

definition handle_completion :: "string \<Rightarrow> hostcall_outcome \<Rightarrow> 'r bridge \<Rightarrow> 'r bridge" where
  "handle_completion c out b =
     (if nonfinal out
      then (if is_active c (br_tracker b) then emit_delivery (Completed c out) b else b)
      else let (done, t) = on_complete c (br_tracker b); b1 = b\<lparr>br_tracker := t\<rparr>
           in case done of
                Unknown \<Rightarrow> b1
              | Delivered timer \<Rightarrow>
                  emit_delivery (Completed c out)
                    (case timer of
                       Some i \<Rightarrow> b1\<lparr>br_sched := snd (clear_timeout i (br_sched b1))\<rparr> | None \<Rightarrow> b1))"

definition handle_timer :: "u64 \<Rightarrow> 'r bridge \<Rightarrow> 'r bridge" where
  "handle_timer i b =
     (let (r, t) = take_timed_out_call i (br_tracker b); b1 = b\<lparr>br_tracker := t\<rparr>
      in case r of
           Some c \<Rightarrow> emit_delivery (Completed c timeout_outcome) (b1\<lparr>br_timed_out := br_timed_out b1 + 1\<rparr>)
         | None \<Rightarrow> emit_delivery (TimerCallback i) b1)"

definition handle_macrotask :: "macrotask \<Rightarrow> 'r bridge \<Rightarrow> 'r bridge" where
  "handle_macrotask task b =
     (case mt_kind task of
        HostcallComplete c out \<Rightarrow> handle_completion c out b
      | TimerFired i \<Rightarrow> handle_timer i b
      | InboundEvent ev payload \<Rightarrow> emit_delivery (EventDispatched ev payload) b)"

definition bridge_tick :: "'r bridge \<Rightarrow> bool \<times> 'r bridge" where
  "bridge_tick b =
     (let (t, s) = tick (br_sched b); b1 = b\<lparr>br_sched := s\<rparr>
      in case t of None \<Rightarrow> (False, b1) | Some task \<Rightarrow> (True, handle_macrotask task b1))"

text \<open>The loop over the jobs of the engine: each entry is the result of one
  \<^verbatim>\<open>execute_pending_job\<close> (an error, or whether a job ran); the count, or the error.\<close>

definition max_jobs_per_tick :: nat where
  "max_jobs_per_tick = 10000"

fun drain_jobs :: "nat \<Rightarrow> (string + bool) list \<Rightarrow> (string + nat) option" where
  "drain_jobs n [] = (if n \<ge> max_jobs_per_tick
     then Some (Inl (''PiJS microtask limit exceeded ('' @ show_nat max_jobs_per_tick @ '')'')) else None)"
| "drain_jobs n (r # rs) =
     (if n \<ge> max_jobs_per_tick
      then Some (Inl (''PiJS microtask limit exceeded ('' @ show_nat max_jobs_per_tick @ '')''))
      else case r of
        Inl e \<Rightarrow> Some (Inl e)
      | Inr busy \<Rightarrow> (if busy then drain_jobs (Suc n) rs else Some (Inr n)))"

section \<open>The limit on jobs\<close>

lemma drain_jobs_answers:
  "n \<le> max_jobs_per_tick \<Longrightarrow> max_jobs_per_tick \<le> n + length rs \<Longrightarrow>
   drain_jobs n rs =
     (let k = length (takeWhile ((=) (Inr True)) rs) in
      if n + k \<ge> max_jobs_per_tick
      then Some (Inl (''PiJS microtask limit exceeded ('' @ show_nat max_jobs_per_tick @ '')''))
      else case rs ! k of Inl e \<Rightarrow> Some (Inl e) | Inr busy \<Rightarrow> Some (Inr (n + k)))"
proof (induction rs arbitrary: n)
  case (Cons r rs)
  show ?case
  proof (cases "r = Inr True \<and> n < max_jobs_per_tick")
    case True
    then show ?thesis using Cons.IH [of "Suc n"] Cons.prems by (simp add: Let_def split: sum.splits)
  next
    case False
    then show ?thesis using Cons.prems by (cases r) (auto simp: Let_def)
  qed
qed simp

text \<open>Draining the microtasks always ends, with at most 10000 of them executed. It
  reports the limit exactly when the first 10000 attempts all ran a job, and otherwise the first
  error or the number of jobs that ran before the engine had none left.\<close>

theorem drain_jobs_returns:
  assumes "length rs \<ge> 10000"
  shows "drain_jobs 0 rs =
     (let k = length (takeWhile ((=) (Inr True)) rs) in
      if k \<ge> 10000 then Some (Inl (''PiJS microtask limit exceeded ('' @ show_nat 10000 @ '')''))
      else case rs ! k of Inl e \<Rightarrow> Some (Inl e) | Inr busy \<Rightarrow> Some (Inr k))"
  using drain_jobs_answers [of 0 rs] assms
  by (simp add: max_jobs_per_tick_def Let_def split: sum.splits)

lemma drain_jobs_returns_witness:
  "drain_jobs 0 (Inr True # replicate 10000 (Inr False)) = Some (Inr 1)"
  using drain_jobs_returns [of "Inr True # replicate 10000 (Inr False)"]
  by (simp del: replicate.simps add: takeWhile_replicate)

section \<open>Runs\<close>

datatype bridge_op =
    Issue hostcall_kind json "string option"
  | Exit string "string option"
  | OtherRuntime
  | Cancel string
  | Complete "(string \<times> hostcall_outcome) list"
  | ScriptTimeout u64
  | ScriptClear u64
  | HostClear u64
  | HostEvent string json
  | DrainRequests
  | AdvanceTo u64
  | RunTick

text \<open>The counter of the call identifiers is shared by all runtimes of the process.\<close>

fun bridge_step :: "(hostcall_request, 'r) hc_env \<Rightarrow> bridge_op \<Rightarrow> 'r bridge \<Rightarrow> 'r bridge option" where
  "bridge_step E (Issue kind payload ext) b = map_option snd (issue E (br_timeout b) kind payload ext b)"
| "bridge_step E (Exit code ext) b = map_option snd (exit_native E code ext b)"
| "bridge_step E OtherRuntime b = Some (snd (generate_call_id b))"
| "bridge_step E (Cancel c) b = Some (snd (cancel_hostcall c b))"
| "bridge_step E (Complete cs) b = Some (complete_batch cs b)"
| "bridge_step E (ScriptTimeout d) b = map_option snd (bridge_set_timeout d b)"
| "bridge_step E (ScriptClear i) b = Some (snd (native_clear_timeout i b))"
| "bridge_step E (HostClear i) b = Some (snd (host_clear_timeout i b))"
| "bridge_step E (HostEvent ev payload) b = Some (bridge_event ev payload b)"
| "bridge_step E DrainRequests b = map_option snd (drain_requests E b)"
| "bridge_step E (AdvanceTo now) b = Some (b\<lparr>br_sched := (br_sched b)\<lparr>sc_clock := now\<rparr>\<rparr>)"
| "bridge_step E RunTick b = Some (snd (bridge_tick b))"

fun bridge_run :: "(hostcall_request, 'r) hc_env \<Rightarrow> bridge_op list \<Rightarrow> 'r bridge \<Rightarrow> 'r bridge option" where
  "bridge_run E [] b = Some b"
| "bridge_run E (op # ops) b = Option.bind (bridge_step E op b) (bridge_run E ops)"

text \<open>The outcomes that the scripts have seen for a call, in order.\<close>

definition outcomes :: "string \<Rightarrow> delivery list \<Rightarrow> hostcall_outcome list" where
  "outcomes c log = List.map_filter
     (\<lambda>d. case d of Completed c' out \<Rightarrow> (if c' = c then Some out else None) | _ \<Rightarrow> None) log"

lemma outcomes_simps [simp]:
  "outcomes c [] = []" "outcomes c (l @ m) = outcomes c l @ outcomes c m"
  "outcomes c [Completed c' out] = (if c' = c then [out] else [])"
  "outcomes c [TimerCallback i] = []" "outcomes c [EventDispatched ev p] = []"
  by (simp_all add: outcomes_def List.map_filter_def)

section \<open>Call identifiers are unique\<close>

lemma digits_back: "foldl (\<lambda>a d. a * 10 + (of_char d - 48)) 0 (show_nat n) = (n :: nat)"
proof (induction n rule: show_nat.induct)
  case (1 n)
  show ?case
  proof (cases "n < 10")
    case True
    then show ?thesis by (subst show_nat.simps) (simp add: of_char_of)
  next
    case False
    have "(48 + n mod 10) mod 256 = 48 + n mod 10" by simp
    then show ?thesis using 1 False by (subst show_nat.simps) (simp add: of_char_of)
  qed
qed

lemma show_nat_inj: "show_nat m = show_nat n \<Longrightarrow> m = n"
  by (metis digits_back)

lemma call_name_inj [simp]: "call_name m = call_name n \<longleftrightarrow> m = n"
  by (auto simp: call_name_def dest!: show_nat_inj intro: unsigned_word_eqI)

section \<open>What a step does to the calls\<close>

type_synonym calls_state = "string set \<times> delivery list \<times> u64"

definition call_view :: "'r bridge \<Rightarrow> calls_state" where
  "call_view b = (tk_pending (br_tracker b), br_log b, br_next_call b)"

inductive call_effect :: "calls_state \<Rightarrow> calls_state \<Rightarrow> bool" where
  quiet: "call_effect (p, l, n) (p, l, n)"
| skipped: "call_effect (p, l, n) (p, l, n + 1)"
| issued: "call_effect (p, l, n) (insert (call_name n) p, l, n + 1)"
| refused: "call_effect (p, l, n) (p - {call_name n}, l, n + 1)"
| chunk: "c \<in> p \<Longrightarrow> nonfinal out \<Longrightarrow> call_effect (p, l, n) (p, l @ [Completed c out], n)"
| final: "c \<in> p \<Longrightarrow> \<not> nonfinal out \<Longrightarrow> call_effect (p, l, n) (p - {c}, l @ [Completed c out], n)"
| other: "\<forall>c out. d \<noteq> Completed c out \<Longrightarrow> call_effect (p, l, n) (p, l @ [d], n)"

inductive_cases call_effectE: "call_effect (p, l, n) (p', l', n')"

lemma tracker_pending [simp]:
  "tk_pending (register c timer now t) = insert c (tk_pending t)"
  "tk_pending (snd (cancel c t)) = tk_pending t"
  "tk_pending (record_stream_seq c k t) = tk_pending t"
  "tk_pending (snd (on_complete c t)) = tk_pending t - {c}"
  by (auto simp: register_def cancel_def record_stream_seq_def on_complete_def drop_timer_def Let_def
      split: option.splits)

lemma on_complete_fst: "fst (on_complete c t) = (if c \<in> tk_pending t then Delivered (tk_call_timer t c) else Unknown)"
  by (simp add: on_complete_def Let_def)

lemma enqueue_backpressure_effect:
  fixes E req b
  defines "b' \<equiv> enqueue_with_backpressure E req b"
  shows "br_log b' = br_log b \<and> br_next_call b' = br_next_call b \<and> br_timeout b' = br_timeout b \<and>
    (tk_pending (br_tracker b') = tk_pending (br_tracker b) \<or>
     tk_pending (br_tracker b') = tk_pending (br_tracker b) - {hr_call_id req})"
proof -
  obtain res q where p: "push_back E req (br_queue b) = (res, q)" by fastforce
  obtain d t where o: "on_complete (hr_call_id req) (br_tracker b) = (d, t)" by fastforce
  have "tk_pending t = tk_pending (br_tracker b) - {hr_call_id req}"
    using tracker_pending(4) [of "hr_call_id req" "br_tracker b"] o by simp
  then show ?thesis unfolding b'_def
    by (cases res; cases d) (simp_all add: enqueue_with_backpressure_def p o Let_def)
qed

lemma issue_effect:
  assumes "issue E timeout kind payload ext b = Some (c, b')"
  shows "c = call_name (br_next_call b) \<and> call_effect (call_view b) (call_view b') \<and>
    br_timeout b' = br_timeout b \<and> br_next_call b' = br_next_call b + 1"
proof -
  obtain timer s req b2 where c: "c = call_name (br_next_call b)"
    and b': "b' = enqueue_with_backpressure E req b2" and req: "hr_call_id req = c"
    and b2: "tk_pending (br_tracker b2) = insert c (tk_pending (br_tracker b))" "br_log b2 = br_log b"
      "br_next_call b2 = br_next_call b + 1" "br_timeout b2 = br_timeout b"
    using assms by (auto simp: issue_def generate_call_id_def Let_def split: option.splits prod.splits)
  from enqueue_backpressure_effect [of E req b2] show ?thesis
    using b2 c req unfolding b' [symmetric]
    by (auto simp: call_view_def insert_Diff_if intro: call_effect.issued)
      (metis Diff_empty call_effect.refused Diff_insert0 insert_Diff_single)+
qed

lemma handle_completion_effect: "call_effect (call_view b) (call_view (handle_completion c out b))"
proof (cases "nonfinal out")
  case True
  then show ?thesis
    by (auto simp: handle_completion_def call_view_def emit_delivery_def is_active_def
        intro: call_effect.chunk call_effect.quiet)
next
  case False
  obtain d t where o: "on_complete c (br_tracker b) = (d, t)" by fastforce
  have t: "tk_pending t = tk_pending (br_tracker b) - {c}"
    "d = (if c \<in> tk_pending (br_tracker b) then Delivered (tk_call_timer (br_tracker b) c) else Unknown)"
    using tracker_pending(4) [of c "br_tracker b"] on_complete_fst [of c "br_tracker b"] o by simp_all
  show ?thesis
  proof (cases "c \<in> tk_pending (br_tracker b)")
    case True
    then have "call_view (handle_completion c out b)
        = (tk_pending (br_tracker b) - {c}, br_log b @ [Completed c out], br_next_call b)"
      using False o t
      by (simp add: handle_completion_def call_view_def emit_delivery_def Let_def split: option.splits)
    then show ?thesis using call_effect.final [OF True False] by (simp add: call_view_def)
  next
    case no: False
    then have "call_view (handle_completion c out b) = call_view b"
      using False o t by (simp add: handle_completion_def call_view_def)
    then show ?thesis using call_effect.quiet by (metis call_view_def)
  qed
qed

lemma handle_timer_effect: "call_effect (call_view b) (call_view (handle_timer i b))"
proof (cases "tk_timer_call (br_tracker b) i")
  case None
  then show ?thesis
    by (auto simp: handle_timer_def take_timed_out_call_def emit_delivery_def call_view_def
        intro!: call_effect.other)
next
  case (Some c)
  let ?p = "tk_pending (br_tracker b)"
  show ?thesis
  proof (cases "c \<in> ?p")
    case True
    then have "call_view (handle_timer i b)
        = (?p - {c}, br_log b @ [Completed c timeout_outcome], br_next_call b)"
      using Some by (simp add: handle_timer_def take_timed_out_call_def emit_delivery_def call_view_def Let_def)
    moreover have "\<not> nonfinal timeout_outcome" by (simp add: timeout_outcome_def)
    ultimately show ?thesis using call_effect.final [OF True] by (simp add: call_view_def)
  next
    case False
    then have "call_view (handle_timer i b) = (?p, br_log b @ [TimerCallback i], br_next_call b)"
      using Some by (simp add: handle_timer_def take_timed_out_call_def emit_delivery_def call_view_def Let_def)
    then show ?thesis using call_effect.other [of "TimerCallback i"] by (simp add: call_view_def)
  qed
qed

lemma bridge_tick_effect: "call_effect (call_view b) (call_view (snd (bridge_tick b)))"
proof -
  obtain t s where t: "tick (br_sched b) = (t, s)" by fastforce
  have v: "call_view (b\<lparr>br_sched := s\<rparr>) = call_view b" by (simp add: call_view_def)
  show ?thesis
  proof (cases t)
    case None
    then have "call_view (snd (bridge_tick b)) = call_view b" using t v by (simp add: bridge_tick_def)
    then show ?thesis using call_effect.quiet by (metis call_view_def)
  next
    case (Some task)
    then have b': "snd (bridge_tick b) = handle_macrotask task (b\<lparr>br_sched := s\<rparr>)"
      using t by (simp add: bridge_tick_def)
    show ?thesis
    proof (cases "mt_kind task")
      case (TimerFired i)
      then show ?thesis unfolding b' using handle_timer_effect [of "b\<lparr>br_sched := s\<rparr>" i] v
        by (simp add: handle_macrotask_def)
    next
      case (HostcallComplete c out)
      then show ?thesis unfolding b' using handle_completion_effect [of "b\<lparr>br_sched := s\<rparr>" c out] v
        by (simp add: handle_macrotask_def)
    next
      case (InboundEvent ev payload)
      then show ?thesis unfolding b' handle_macrotask_def
        by (simp add: emit_delivery_def call_view_def) (intro call_effect.other, simp)
    qed
  qed
qed

lemma complete_batch_frame:
  "call_view (complete_batch cs b) = call_view b" "br_timeout (complete_batch cs b) = br_timeout b"
  by (induction cs arbitrary: b)
    (auto simp: complete_batch_def complete_hostcall_def call_view_def split: hostcall_outcome.splits)

lemma cancel_frame:
  "call_view (snd (cancel_hostcall c b)) = call_view b \<and> br_timeout (snd (cancel_hostcall c b)) = br_timeout b"
proof -
  obtain r t where rt: "cancel c (br_tracker b) = (r, t)" by fastforce
  then have "tk_pending t = tk_pending (br_tracker b)"
    using tracker_pending(2) [of c "br_tracker b"] by simp
  then show ?thesis
    by (cases r) (simp_all add: cancel_hostcall_def call_view_def rt Let_def)
qed

lemma tick_timeout_frame: "br_timeout (snd (bridge_tick b)) = br_timeout b"
  by (auto simp: bridge_tick_def handle_macrotask_def handle_completion_def handle_timer_def emit_delivery_def
      Let_def split: prod.splits option.splits macrotask_kind.splits completion.splits)

text \<open>Every step has one of the effects, and keeps the configured timeout.\<close>

lemma step_effect:
  assumes "bridge_step E op b = Some b'"
  shows "call_effect (call_view b) (call_view b') \<and> br_timeout b' = br_timeout b"
proof -
  have same: "call_effect (call_view b) (call_view b')" if "call_view b' = call_view b"
    using that call_effect.quiet by (metis call_view_def)
  show ?thesis
  proof (cases op)
    case (Issue kind payload ext)
    then show ?thesis using assms issue_effect by fastforce
  next
    case (Exit code ext)
    then show ?thesis using assms issue_effect by (fastforce simp: exit_native_def)
  next
    case OtherRuntime
    then show ?thesis using assms by (auto simp: generate_call_id_def call_view_def intro: call_effect.skipped)
  next
    case (Cancel c)
    then show ?thesis using assms cancel_frame same by auto
  next
    case (Complete cs)
    then show ?thesis using assms complete_batch_frame same by auto
  next
    case RunTick
    then show ?thesis using assms bridge_tick_effect tick_timeout_frame by auto
  next
    case (HostClear i)
    then have "call_view b' = call_view b \<and> br_timeout b' = br_timeout b"
      using assms by (auto simp: host_clear_timeout_def call_view_def split: prod.splits)
    then show ?thesis using same by simp
  next
    case (ScriptClear i)
    then have "call_view b' = call_view b \<and> br_timeout b' = br_timeout b"
      using assms by (auto simp: native_clear_timeout_def call_view_def split: prod.splits if_splits)
    then show ?thesis using same by simp
  qed (use assms in \<open>auto simp: bridge_set_timeout_def drain_requests_def bridge_event_def
         call_view_def intro: call_effect.quiet\<close>)
qed

end
