(* ===== verification/Bridge_Once.thy ===== *)
theory Bridge_Once
  imports Hostcall_Bridge
begin

text \<open>
  Outcomes of a hostcall as the scripts see them: at most one final outcome for a call, and none at
  all for a call that the queue has refused.
\<close>

section \<open>Invariants of runs\<close>

lemma call_effect_counter: "call_effect (p, l, n) (p', l', n') \<Longrightarrow> n' = n \<or> n' = n + 1"
  by (auto elim: call_effectE)

lemma counter_bound:
  assumes "call_effect v v'" and "unat (snd (snd v)) + Suc m < 2 ^ 64"
  shows "unat (snd (snd v')) + m < 2 ^ 64"
proof -
  obtain p l n p' l' n' where v: "v = (p, l, n)" "v' = (p', l', n')" by (cases v; cases v') auto
  then have "n' = n \<or> n' = n + 1" using assms(1) call_effect_counter by metis
  moreover have "unat (n + 1) \<le> unat n + 1" by (simp add: unat_word_ariths)
  ultimately show ?thesis using assms(2) v by auto
qed

lemma run_invariant:
  assumes step: "\<And>v v'. call_effect v v' \<Longrightarrow> P v \<Longrightarrow> unat (snd (snd v)) + 1 < 2 ^ 64 \<Longrightarrow> P v'"
    and "bridge_run E ops b = Some b'" and "P (call_view b)"
    and "unat (br_next_call b) + length ops < 2 ^ 64"
  shows "P (call_view b')"
  using assms(2-)
proof (induction ops arbitrary: b)
  case (Cons op ops)
  then obtain b1 where b1: "bridge_step E op b = Some b1" "bridge_run E ops b1 = Some b'"
    by (auto simp: bind_eq_Some_conv)
  note eff = step_effect [OF b1(1), THEN conjunct1]
  have "unat (snd (snd (call_view b))) + Suc (length ops) < 2 ^ 64"
    using Cons.prems(3) by (simp add: call_view_def)
  note bound = counter_bound [OF eff this]
  show ?case
  proof (rule Cons.IH [OF b1(2)])
    show "P (call_view b1)"
      by (rule step [OF eff Cons.prems(2)]) (use Cons.prems(3) in \<open>simp add: call_view_def\<close>)
    show "unat (br_next_call b1) + length ops < 2 ^ 64" using bound by (simp add: call_view_def)
  qed
qed simp

section \<open>One final outcome\<close>

definition named_in :: "u64 \<Rightarrow> u64 \<Rightarrow> string \<Rightarrow> bool" where
  "named_in k n c \<longleftrightarrow> (\<exists>j. c = call_name j \<and> k \<le> j \<and> j < n)"

fun calls_ok :: "u64 \<Rightarrow> calls_state \<Rightarrow> bool" where
  "calls_ok k (p, l, n) \<longleftrightarrow> k \<le> n \<and>
     (\<forall>c. c \<in> p \<or> outcomes c l \<noteq> [] \<longrightarrow> named_in k n c) \<and>
     (\<forall>c. list_all nonfinal (butlast (outcomes c l))) \<and>
     (\<forall>c \<in> p. list_all nonfinal (outcomes c l))"

lemma named_in_Suc:
  assumes "unat n + 1 < 2 ^ 64" and "k \<le> n"
  shows "named_in k n c \<Longrightarrow> named_in k (n + 1) c" and "named_in k (n + 1) (call_name n)"
    and "\<not> named_in k n (call_name n)" and "k \<le> n + 1"
proof -
  have "unat (n + 1) = unat n + 1" using assms(1) by (simp add: unat_word_ariths)
  then have n: "n < n + 1" by (simp add: word_less_nat_alt)
  then show "named_in k (n + 1) (call_name n)" "k \<le> n + 1"
    using assms(2) by (auto simp: named_in_def)
  show "named_in k n c \<Longrightarrow> named_in k (n + 1) c"
    using n by (auto simp: named_in_def intro: less_trans)
  show "\<not> named_in k n (call_name n)" by (simp add: named_in_def)
qed

lemma calls_ok_step:
  assumes "call_effect v v'" and "calls_ok k v" and "unat (snd (snd v)) + 1 < 2 ^ 64"
  shows "calls_ok k v'"
  using assms
proof cases
  case (skipped p l n)
  then show ?thesis using assms named_in_Suc [of n k] by simp
next
  case (issued p l n)
  have bound: "unat n + 1 < 2 ^ 64" and k: "k \<le> n" using assms(2,3) issued by simp_all
  note new = named_in_Suc [OF bound k]
  have "outcomes (call_name n) l = []" using new(3) assms(2) issued by auto
  then show ?thesis using assms(2) issued new by auto
next
  case (refused p l n)
  then show ?thesis using assms named_in_Suc [of n k] by simp
next
  case (chunk c p out l n)
  then show ?thesis using assms(2) by (auto simp: butlast_append)
next
  case (final c p out l n)
  then show ?thesis using assms(2) by (auto simp: butlast_append)
next
  case (other d p l n)
  then have "outcomes c (l @ [d]) = outcomes c l" for c by (cases d) auto
  then show ?thesis using assms(2) other by simp
qed auto

text \<open>C18 (safety): over every sequence of calls, cancellations, completions (duplicate, late, made up or
  out of order), timeouts and ticks of a new runtime, a script sees outcomes only of calls that this
  process has issued since, at most one of them is final, it is the last one, and while the call is
  pending all of them are non-final chunks of its stream. The counter of identifiers must not wrap.\<close>

theorem one_final_outcome:
  assumes "bridge_run E ops (bridge_new q timeout now k) = Some b"
    and "unat k + length ops < 2 ^ 64"
  shows "list_all nonfinal (butlast (outcomes c (br_log b))) \<and>
    (is_pending c (br_tracker b) \<longrightarrow> list_all nonfinal (outcomes c (br_log b))) \<and>
    (outcomes c (br_log b) \<noteq> [] \<longrightarrow> (\<exists>j. c = call_name j \<and> k \<le> j \<and> j < br_next_call b))"
proof -
  have "calls_ok k (call_view b)"
    by (rule run_invariant [OF calls_ok_step assms(1)])
      (use assms(2) in \<open>simp_all add: call_view_def bridge_new_def tracker_new_def\<close>)
  then show ?thesis by (simp add: call_view_def is_pending_def named_in_def)
qed

definition demo_env :: "(hostcall_request, nat \<times> hostcall_request list) hc_env" where
  "demo_env = list_env hr_extension"

definition demo_bridge :: "(nat \<times> hostcall_request list) bridge" where
  "demo_bridge = bridge_new (hq_with_mode demo_env 1 1 SafeFallback) (Some 5) 0 0"

lemmas bridge_eval = demo_bridge_def demo_env_def bridge_new_def tracker_new_def with_clock_def
  issue_def start_timer_def generate_call_id_def enqueue_with_backpressure_def register_def hq_eval
  complete_batch_def complete_hostcall_def enqueue_hostcall_complete_def enqueue_task_def
  bridge_tick_def tick_def move_due_timers_def handle_macrotask_def handle_completion_def
  on_complete_def drop_timer_def emit_delivery_def sched_run_defs

lemma one_final_outcome_witness:
  "\<exists>b. bridge_run demo_env
     [Issue LogCall JNull None, Complete [(call_name 0, Success JNull), (call_name 0, Success JNull)],
      RunTick, RunTick] demo_bridge = Some b \<and>
     outcomes (call_name 0) (br_log b) = [Success JNull] \<and>
     list_all nonfinal (butlast (outcomes (call_name 0) (br_log b)))"
proof -
  let ?ops = "[Issue LogCall JNull None, Complete [(call_name 0, Success JNull), (call_name 0, Success JNull)],
      RunTick, RunTick]"
  have "\<exists>b. bridge_run demo_env ?ops demo_bridge = Some b \<and>
     outcomes (call_name 0) (br_log b) = [Success JNull]"
    by (simp add: bridge_eval)
  then obtain b where b: "bridge_run demo_env ?ops demo_bridge = Some b"
    "outcomes (call_name 0) (br_log b) = [Success JNull]" by blast
  from one_final_outcome [OF b(1) [unfolded demo_bridge_def]]
  have "list_all nonfinal (butlast (outcomes (call_name 0) (br_log b)))" by simp
  with b show ?thesis by blast
qed

section \<open>Refused calls\<close>

text \<open>A call that has been issued, is not pending and has had no outcome will never have one.\<close>

fun settled :: "string \<Rightarrow> u64 \<Rightarrow> calls_state \<Rightarrow> bool" where
  "settled c j (p, l, n) \<longleftrightarrow> c = call_name j \<and> j < n \<and> c \<notin> p \<and> outcomes c l = []"

lemma settled_step:
  assumes "call_effect v v'" and "settled c j v" and "unat (snd (snd v)) + 1 < 2 ^ 64"
  shows "settled c j v'"
proof -
  have less: "j < n + 1" if "j < n" "unat n + 1 < 2 ^ 64" for n :: u64
    using that by (simp add: word_less_nat_alt unat_word_ariths)
  from assms(1) show ?thesis
  proof cases
    case (other d p l n)
    then have "outcomes c [d] = []" by (cases d) auto
    then show ?thesis using assms(2) other by auto
  qed (use assms(2,3) less in auto)
qed

lemma issue_refused:
  assumes issue: "issue E timeout kind payload ext b = Some (c, b1)"
    and full: "fst (push_back E \<lparr>hr_call_id = c, hr_kind = kind, hr_payload = payload,
                 hr_trace = br_trace b, hr_extension = ext\<rparr> (br_queue b)) = Rejected d v"
  shows "\<not> is_pending c (br_tracker b1)"
    and "\<exists>m ms. sc_queue (br_sched b1) = ms @ [m] \<and> mt_kind m = HostcallComplete c (overloaded_error d v)"
    and "br_log b1 = br_log b"
proof -
  define req where "req = \<lparr>hr_call_id = c, hr_kind = kind, hr_payload = payload,
                 hr_trace = br_trace b, hr_extension = ext\<rparr>"
  obtain b2 where b1: "b1 = enqueue_with_backpressure E req b2" and q: "br_queue b2 = br_queue b"
    and c: "c \<in> tk_pending (br_tracker b2)" and l: "br_log b2 = br_log b"
    using issue by (auto simp: issue_def generate_call_id_def Let_def req_def split: option.splits prod.splits)
  obtain q' where p: "push_back E req (br_queue b2) = (Rejected d v, q')"
    using full by (metis q req_def prod.collapse)
  obtain t where o: "on_complete c (br_tracker b2) = (Delivered (tk_call_timer (br_tracker b2) c), t)"
    using c on_complete_fst [of c "br_tracker b2"] by (metis prod.collapse)
  have t: "c \<notin> tk_pending t" using tracker_pending(4) [of c "br_tracker b2"] o by simp
  have id: "hr_call_id req = c" by (simp add: req_def)
  have "\<exists>s. br_tracker b1 = t \<and> br_log b1 = br_log b2 \<and>
    br_sched b1 = enqueue_hostcall_complete c (overloaded_error d v) s"
    by (auto simp: b1 enqueue_with_backpressure_def p id o Let_def)
  then show "\<not> is_pending c (br_tracker b1)" "br_log b1 = br_log b"
    "\<exists>m ms. sc_queue (br_sched b1) = ms @ [m] \<and> mt_kind m = HostcallComplete c (overloaded_error d v)"
    using t l by (auto simp: is_pending_def enqueue_hostcall_complete_def)
qed

text \<open>C16 (error): a call that the queue refuses never gets an outcome. It is taken out of the tracker before
  its \<open>overloaded\<close> error is put into the macrotask queue, so the tick that takes this macrotask finds
  the call unknown and drops it: whatever happens afterwards, the script that issued the call sees
  neither the error nor anything else.\<close>

theorem refused_call_never_settles:
  assumes "issue E timeout kind payload ext b = Some (c, b1)"
    and "fst (push_back E \<lparr>hr_call_id = c, hr_kind = kind, hr_payload = payload,
           hr_trace = br_trace b, hr_extension = ext\<rparr> (br_queue b)) = Rejected d v"
    and "bridge_run E ops b1 = Some b2"
    and "unat (br_next_call b) + 1 + length ops < 2 ^ 64" and "outcomes c (br_log b) = []"
  shows "(\<exists>m ms. sc_queue (br_sched b1) = ms @ [m] \<and>
            mt_kind m = HostcallComplete c (overloaded_error d v)) \<and>
    \<not> is_pending c (br_tracker b2) \<and> outcomes c (br_log b2) = []"
proof -
  note refused = issue_refused [OF assms(1,2)]
  note eff = issue_effect [OF assms(1)]
  have c: "c = call_name (br_next_call b)" using eff by simp
  have u: "unat (br_next_call b1) = unat (br_next_call b) + 1"
    using assms(4) eff by (simp add: unat_word_ariths)
  have "settled c (br_next_call b) (call_view b1)"
    using refused c u assms(5) by (simp add: call_view_def is_pending_def word_less_nat_alt)
  then have "settled c (br_next_call b) (call_view b2)"
    using run_invariant [where P = "settled c (br_next_call b)", OF settled_step assms(3)] assms(4) u
    by simp
  then show ?thesis using refused(2) by (auto simp: call_view_def is_pending_def)
qed

definition full_bridge :: "(nat \<times> hostcall_request list) bridge" where
  "full_bridge = demo_bridge\<lparr>br_timeout := None,
     br_queue := (br_queue demo_bridge)\<lparr>hq_fast := (0, []), hq_overflow_capacity := 0\<rparr>\<rparr>"

lemma refused_call_never_settles_witness:
  "\<exists>b1. issue demo_env None LogCall JNull None full_bridge = Some (call_name 0, b1) \<and>
     (\<exists>b2. bridge_run demo_env [RunTick, RunTick] b1 = Some b2 \<and> outcomes (call_name 0) (br_log b2) = [])"
proof -
  have ex: "\<exists>b1 b2. issue demo_env None LogCall JNull None full_bridge = Some (call_name 0, b1) \<and>
     bridge_run demo_env [RunTick, RunTick] b1 = Some b2"
    by (simp add: bridge_eval full_bridge_def on_main_overflow_reject_def)
  then obtain b1 b2 where b: "issue demo_env None LogCall JNull None full_bridge = Some (call_name 0, b1)"
    "bridge_run demo_env [RunTick, RunTick] b1 = Some b2" by blast
  have full: "\<exists>d v. fst (push_back demo_env \<lparr>hr_call_id = call_name 0, hr_kind = LogCall, hr_payload = JNull,
      hr_trace = br_trace full_bridge, hr_extension = None\<rparr> (br_queue full_bridge)) = Rejected d v"
    by (simp add: bridge_eval full_bridge_def on_main_overflow_reject_def)
  have start: "br_next_call full_bridge = 0" "br_log full_bridge = []"
    by (simp_all add: full_bridge_def demo_bridge_def bridge_new_def)
  from full obtain d v where full: "fst (push_back demo_env \<lparr>hr_call_id = call_name 0, hr_kind = LogCall,
      hr_payload = JNull, hr_trace = br_trace full_bridge, hr_extension = None\<rparr>
      (br_queue full_bridge)) = Rejected d v" by blast
  show ?thesis using refused_call_never_settles [OF b(1) full b(2)] b start by auto
qed

end
