(* ===== verification/Bridge_Timeout.thy ===== *)
theory Bridge_Timeout
  imports Bridge_Once
begin

text \<open>
  Every hostcall with a timeout settles: its timer stays armed, or its end is already in the
  macrotask queue, until the call is taken out of the tracker.
\<close>

section \<open>Armed timers and queued ends\<close>

definition armed :: "u64 \<Rightarrow> scheduler \<Rightarrow> bool" where
  "armed i s \<longleftrightarrow> i \<in> te_id ` set (live s) \<or> TimerFired i \<in> mt_kind ` set (sc_queue s)"

definition ending :: "string \<Rightarrow> scheduler \<Rightarrow> bool" where
  "ending c s \<longleftrightarrow> (\<exists>out. \<not> nonfinal out \<and> HostcallComplete c out \<in> mt_kind ` set (sc_queue s))"

lemma armed_enqueue [simp]: "armed i (enqueue_task k s) \<longleftrightarrow> armed i s \<or> k = TimerFired i"
  by (auto simp: armed_def)

lemma ending_enqueue [simp]:
  "ending c (enqueue_task k s) \<longleftrightarrow> ending c s \<or> (\<exists>out. \<not> nonfinal out \<and> k = HostcallComplete c out)"
  by (auto simp: ending_def)

lemma armed_clear: "armed i s \<Longrightarrow> i \<noteq> j \<Longrightarrow> armed i (snd (clear_timeout j s))"
  by (auto simp: armed_def clear_timeout_def live_def)

lemma ending_clear [simp]: "ending c (snd (clear_timeout j s)) = ending c s"
  by (simp add: ending_def clear_timeout_def)

lemma clear_frame [simp]:
  "sc_next_id (snd (clear_timeout j s)) = sc_next_id s" "sc_heap_ids (snd (clear_timeout j s)) = sc_heap_ids s"
  "sc_queue (snd (clear_timeout j s)) = sc_queue s" "sc_heap (snd (clear_timeout j s)) = sc_heap s"
  "sc_clock (snd (clear_timeout j s)) = sc_clock s"
  by (simp_all add: clear_timeout_def)

lemma move_due_armed:
  assumes "sched_ok s"
  shows "armed i s \<Longrightarrow> armed i (move_due_timers s)" and "ending c s \<Longrightarrow> ending c (move_due_timers s)"
proof -
  obtain new where new: "sc_queue (move_due_timers s) = sc_queue s @ new"
    "map mt_kind new = map (\<lambda>e. TimerFired (te_id e)) (filter (due s) (live s))"
    using move_due_timers_queue [OF assms] .
  show "ending c (move_due_timers s)" if "ending c s" using that by (auto simp: ending_def new(1))
  have kinds: "mt_kind ` set new = (\<lambda>e. TimerFired (te_id e)) ` set (filter (due s) (live s))"
    by (metis new(2) set_map)
  show "armed i (move_due_timers s)" if "armed i s"
    using that by (auto simp: armed_def new(1) image_Un kinds live_move_due [OF assms])
qed

lemma tick_armed:
  assumes "sched_ok s" and "tick s = (t, s')"
  shows "sched_ok s'" and "armed i s \<Longrightarrow> armed i s' \<or> map_option mt_kind t = Some (TimerFired i)"
    and "ending c s \<Longrightarrow> ending c s' \<or>
      (\<exists>out. \<not> nonfinal out \<and> map_option mt_kind t = Some (HostcallComplete c out))"
    and "sc_next_id s' = sc_next_id s" and "sc_heap_ids s' \<subseteq> sc_heap_ids s"
proof -
  note moved = move_due_timers_ok [OF assms(1)] and arm = move_due_armed [OF assms(1)]
  have frame: "sc_next_id (move_due_timers s) = sc_next_id s" "sc_heap_ids (move_due_timers s) \<subseteq> sc_heap_ids s"
    by (auto simp: move_due_timers_def)
  show "sched_ok s'" "sc_next_id s' = sc_next_id s" "sc_heap_ids s' \<subseteq> sc_heap_ids s"
    using assms(2) moved frame by (auto simp: tick_def Let_def wf_defs split: list.splits)
  show "armed i s' \<or> map_option mt_kind t = Some (TimerFired i)" if "armed i s"
    using arm(1) [OF that] assms(2)
    by (auto simp: tick_def Let_def armed_def split: list.splits)
  show "ending c s' \<or> (\<exists>out. \<not> nonfinal out \<and> map_option mt_kind t = Some (HostcallComplete c out))"
    if "ending c s"
    using arm(2) [OF that] assms(2)
    by (auto simp: tick_def Let_def ending_def split: list.splits)
qed

lemma set_timeout_armed:
  assumes ok: "sched_ok s" and st: "set_timeout d s = Some (i, s')"
    and below: "\<forall>j \<in> sc_heap_ids s. j < sc_next_id s" and room: "unat (sc_next_id s) + 1 < 2 ^ 64"
  shows "i = sc_next_id s" and "sc_next_id s' = sc_next_id s + 1" and "sched_ok s'"
    and "armed j s' \<longleftrightarrow> armed j s \<or> j = i" and "ending c s' = ending c s"
    and "sc_heap_ids s' = insert i (sc_heap_ids s)"
proof -
  obtain e nxt where a: "allocate_timer_id s = Some (i, s\<lparr>sc_next_id := nxt\<rparr>)" and e: "te_id e = i"
    and s': "s' = s\<lparr>sc_seq := sat_inc (sc_seq s), sc_heap := heap_push e (sc_heap s), sc_next_id := nxt,
           sc_heap_ids := insert i (sc_heap_ids s)\<rparr>"
    using st by (rule set_timeout_cases)
  have fresh: "sc_next_id s \<notin> sc_heap_ids s" using below by auto
  have max: "sc_next_id s \<noteq> u64_max" using room by (auto simp: u64_max_iff)
  have "i = sc_next_id s \<and> nxt = sc_next_id s + 1"
    using a fresh max
    by (auto simp: allocate_timer_id_def next_id_def Let_def dest: arg_cong [of _ _ sc_next_id])
  then show i: "i = sc_next_id s" and n: "sc_next_id s' = sc_next_id s + 1"
    and "sc_heap_ids s' = insert i (sc_heap_ids s)" using s' by simp_all
  have nz: "sc_next_id s + 1 \<noteq> 0" using room by (auto simp: unat_word_ariths dest!: arg_cong [of _ _ unat])
  show "sched_ok s'" using ok s' e i n nz fresh
    by (auto simp: sched_ok_def distinct_heap_push)
  have "i \<notin> sc_cancelled s" using ok fresh i by (auto simp: sched_ok_def)
  then show "armed j s' \<longleftrightarrow> armed j s \<or> j = i" using s' e by (auto simp: armed_def live_def)
  show "ending c s' = ending c s" using s' by (simp add: ending_def)
qed

section \<open>The invariant\<close>

text \<open>Every pending call outside \<open>X\<close> has its timer armed, or is cancelled and has its end queued.\<close>

definition covered :: "string set \<Rightarrow> tracker \<Rightarrow> scheduler \<Rightarrow> bool" where
  "covered X t s \<longleftrightarrow> (\<forall>c \<in> tk_pending t - X.
     (c \<in> tk_cancelled t \<and> ending c s) \<or> (\<exists>i. tk_call_timer t c = Some i \<and> armed i s))"

definition timers_ok :: "string set \<Rightarrow> tracker \<Rightarrow> scheduler \<Rightarrow> bool" where
  "timers_ok X t s \<longleftrightarrow> sched_ok s \<and> tracker_ok t \<and> covered X t s \<and>
     (\<forall>i \<in> sc_heap_ids s \<union> dom (tk_timer_call t). i < sc_next_id s)"

lemma timers_ok_enqueue: "timers_ok X t s \<Longrightarrow> timers_ok X t (enqueue_task k s)"
  by (auto simp: timers_ok_def covered_def enqueue_task_ok)

lemma timers_ok_record: "timers_ok X (record_stream_seq c n t) s \<longleftrightarrow> timers_ok X t s"
proof -
  have "tk_cancelled (record_stream_seq c n t) = tk_cancelled t"
    "tk_call_timer (record_stream_seq c n t) = tk_call_timer t"
    "tk_timer_call (record_stream_seq c n t) = tk_timer_call t"
    by (auto simp: record_stream_seq_def split: option.splits)
  then show ?thesis by (simp add: timers_ok_def covered_def)
qed

text \<open>The timer of another call survives when the timer of \<open>c\<close> is cleared.\<close>

lemma other_timer:
  assumes "tracker_ok t" and "tk_call_timer t c' = Some i" and "c' \<noteq> c" and "armed i s"
  shows "armed i (case tk_call_timer t c of Some j \<Rightarrow> snd (clear_timeout j s) | None \<Rightarrow> s)"
proof (cases "tk_call_timer t c")
  case (Some j)
  then have "i \<noteq> j" using assms(1-3) tracker_okD(1) [OF assms(1)] by fastforce
  then show ?thesis using Some armed_clear [OF assms(4)] by simp
qed (use assms in simp)

definition clear_of :: "string \<Rightarrow> tracker \<Rightarrow> scheduler \<Rightarrow> scheduler" where
  "clear_of c t s = (case tk_call_timer t c of Some j \<Rightarrow> snd (clear_timeout j s) | None \<Rightarrow> s)"

lemma clear_of_frame [simp]:
  "sc_next_id (clear_of c t s) = sc_next_id s" "sc_heap_ids (clear_of c t s) = sc_heap_ids s"
  "ending c' (clear_of c t s) = ending c' s" "sched_ok s \<Longrightarrow> sched_ok (clear_of c t s)"
  by (auto simp: clear_of_def clear_timeout_ok split: option.splits)

lemma on_complete_fields:
  assumes "on_complete c t = (Delivered timer, t')"
  shows "c \<in> tk_pending t" "timer = tk_call_timer t c" "tk_pending t' = tk_pending t - {c}"
    "tk_cancelled t' = tk_cancelled t - {c}" "tk_call_timer t' = (tk_call_timer t)(c := None)"
    "dom (tk_timer_call t') \<subseteq> dom (tk_timer_call t)"
  using assms
  by (auto simp: on_complete_def drop_timer_def Let_def split: if_splits option.splits)

lemma timers_ok_complete:
  assumes ok: "timers_ok X t s" and X: "X \<subseteq> {c}" and oc: "on_complete c t = (Delivered timer, t')"
  shows "timers_ok {} t' (clear_of c t s)"
proof -
  note f = on_complete_fields [OF oc]
  have tr: "tracker_ok t" using ok by (simp add: timers_ok_def)
  have "covered {} t' (clear_of c t s)" unfolding covered_def
  proof
    fix c' assume "c' \<in> tk_pending t' - {}"
    then have "c' \<in> tk_pending t - X" and ne: "c' \<noteq> c" using f(3) X by auto
    then consider "c' \<in> tk_cancelled t" "ending c' s"
      | i where "tk_call_timer t c' = Some i" "armed i s"
      using ok unfolding timers_ok_def covered_def by blast
    then show "(c' \<in> tk_cancelled t' \<and> ending c' (clear_of c t s)) \<or>
        (\<exists>i. tk_call_timer t' c' = Some i \<and> armed i (clear_of c t s))"
    proof cases
      case (2 i)
      then show ?thesis using other_timer [OF tr 2(1) ne 2(2)] f(5) ne by (auto simp: clear_of_def)
    qed (use f(4) ne in auto)
  qed
  then show ?thesis
    using ok f(6) on_complete_ok [OF tr, of c] oc by (auto simp: timers_ok_def)
qed

lemma timers_ok_unknown:
  "timers_ok X t s \<Longrightarrow> X \<subseteq> {c} \<Longrightarrow> c \<notin> tk_pending t \<Longrightarrow> timers_ok {} t s"
  by (auto simp: timers_ok_def covered_def)

lemma timers_ok_cancel:
  assumes ok: "timers_ok {} t s" and ca: "cancel c t = (Some timer, t')"
  shows "timers_ok {} t' (enqueue_stream_chunk c n JNull True
      (case timer of Some i \<Rightarrow> snd (clear_timeout i s) | None \<Rightarrow> s))"
    (is "timers_ok {} t' ?s")
proof -
  have f: "timer = tk_call_timer t c" "tk_pending t' = tk_pending t"
    "tk_cancelled t' = insert c (tk_cancelled t)" "tk_call_timer t' = (tk_call_timer t)(c := None)"
    "dom (tk_timer_call t') \<subseteq> dom (tk_timer_call t)"
    using ca by (auto simp: cancel_def drop_timer_def Let_def split: if_splits option.splits)
  have tr: "tracker_ok t" using ok by (simp add: timers_ok_def)
  have s: "?s = enqueue_task (HostcallComplete c (StreamChunk n JNull True)) (clear_of c t s)"
    by (simp add: f(1) clear_of_def enqueue_stream_chunk_def enqueue_hostcall_complete_def)
  have "covered {} t' ?s" unfolding covered_def
  proof
    fix c' assume "c' \<in> tk_pending t' - {}"
    then have p: "c' \<in> tk_pending t" using f(2) by simp
    show "(c' \<in> tk_cancelled t' \<and> ending c' ?s) \<or> (\<exists>i. tk_call_timer t' c' = Some i \<and> armed i ?s)"
    proof (cases "c' = c")
      case True
      then show ?thesis using f(3) by (auto simp: s)
    next
      case ne: False
      from p ok consider "c' \<in> tk_cancelled t" "ending c' s"
        | i where "tk_call_timer t c' = Some i" "armed i s"
        unfolding timers_ok_def covered_def by blast
      then show ?thesis
      proof cases
        case (2 i)
        then show ?thesis using other_timer [OF tr 2(1) ne 2(2)] f(4) ne by (auto simp: s clear_of_def)
      qed (use f(3) in \<open>auto simp: s\<close>)
    qed
  qed
  then show ?thesis
    using ok f(5) cancel_ok [OF tr, of c] ca by (auto simp: timers_ok_def s enqueue_task_ok)
qed

lemma timers_ok_register:
  assumes ok: "timers_ok {} t s" and fresh: "c \<notin> tk_pending t"
    and st: "set_timeout d s = Some (i, s')" and room: "unat (sc_next_id s) + 1 < 2 ^ 64"
  shows "timers_ok {} (register c (Some i) now t) s'"
proof -
  have below: "\<forall>j \<in> sc_heap_ids s \<union> dom (tk_timer_call t). j < sc_next_id s"
    and so: "sched_ok s" and tr: "tracker_ok t"
    using ok by (simp_all add: timers_ok_def)
  then have "\<forall>j \<in> sc_heap_ids s. j < sc_next_id s" by blast
  note new = set_timeout_armed [OF so st this room]
  have less: "sc_next_id s < sc_next_id s + 1"
    using room by (simp add: word_less_nat_alt unat_word_ariths)
  have "tk_timer_call t i = None" using below new(1) by (cases "tk_timer_call t i") auto
  then have "tracker_ok (register c (Some i) now t)" by (intro register_ok [OF tr fresh]) simp
  moreover have "covered {} (register c (Some i) now t) s'"
    unfolding covered_def
  proof
    fix c' assume c': "c' \<in> tk_pending (register c (Some i) now t) - {}"
    show "(c' \<in> tk_cancelled (register c (Some i) now t) \<and> ending c' s') \<or>
        (\<exists>j. tk_call_timer (register c (Some i) now t) c' = Some j \<and> armed j s')"
    proof (cases "c' = c")
      case True
      then show ?thesis using new(4) by (simp add: register_def Let_def)
    next
      case False
      then have "c' \<in> tk_pending t" using c' by simp
      then consider "c' \<in> tk_cancelled t" "ending c' s"
        | j where "tk_call_timer t c' = Some j" "armed j s"
        using ok unfolding timers_ok_def covered_def by blast
      then show ?thesis using False new(4,5) by cases (auto simp: register_def Let_def)
    qed
  qed
  moreover have "j < sc_next_id s'" if "j \<in> sc_heap_ids s' \<union> dom (tk_timer_call (register c (Some i) now t))" for j
  proof -
    have "j = sc_next_id s \<or> j < sc_next_id s"
      using that new(1,6) below by (auto simp: register_def Let_def)
    then show ?thesis using less new(2) by (auto intro: less_trans)
  qed
  ultimately show ?thesis using new(3) by (auto simp: timers_ok_def)
qed

lemma timers_ok_script_timer:
  assumes ok: "timers_ok {} t s" and st: "set_timeout d s = Some (i, s')"
    and room: "unat (sc_next_id s) + 1 < 2 ^ 64"
  shows "timers_ok {} t s'"
proof -
  have below: "\<forall>j \<in> sc_heap_ids s \<union> dom (tk_timer_call t). j < sc_next_id s" and so: "sched_ok s"
    using ok by (simp_all add: timers_ok_def)
  then have "\<forall>j \<in> sc_heap_ids s. j < sc_next_id s" by blast
  note new = set_timeout_armed [OF so st this room]
  have "sc_next_id s < sc_next_id s + 1"
    using room by (simp add: word_less_nat_alt unat_word_ariths)
  then have "j < sc_next_id s'" if "j \<in> sc_heap_ids s' \<union> dom (tk_timer_call t)" for j
    using that below new(1,2,6) by (auto intro: less_trans)
  then show ?thesis using ok new(3,4,5) by (auto simp: timers_ok_def covered_def)
qed

lemma timers_ok_script_clear:
  assumes "timers_ok X t s" and "tk_timer_call t i = None"
  shows "timers_ok X t (snd (clear_timeout i s))"
proof -
  have "j \<noteq> i" if "tk_call_timer t c = Some j" for c j
    using that assms tracker_okD(1) [of t c j] by (auto simp: timers_ok_def)
  then show ?thesis
    using assms(1) armed_clear clear_timeout_ok unfolding timers_ok_def covered_def
    by (simp add: clear_timeout_ok) (metis armed_clear)
qed

text \<open>A tick: the call whose end or timer is taken is uncovered until the macrotask is handled.\<close>

definition exposed :: "macrotask option \<Rightarrow> tracker \<Rightarrow> string set" where
  "exposed m t = (case map_option mt_kind m of
      Some (HostcallComplete c out) \<Rightarrow> (if nonfinal out then {} else {c})
    | Some (TimerFired i) \<Rightarrow> {c. tk_timer_call t i = Some c}
    | _ \<Rightarrow> {})"

lemma timers_ok_tick:
  assumes ok: "timers_ok {} t s" and "tick s = (m, s')"
  shows "timers_ok (exposed m t) t s'"
proof -
  have so: "sched_ok s" and tr: "tracker_ok t" using ok by (simp_all add: timers_ok_def)
  note tk = tick_armed [OF so assms(2)]
  have "covered (exposed m t) t s'" unfolding covered_def
  proof
    fix c assume c: "c \<in> tk_pending t - exposed m t"
    then consider "c \<in> tk_cancelled t" "ending c s"
      | i where "tk_call_timer t c = Some i" "armed i s"
      using ok unfolding timers_ok_def covered_def by blast
    then show "(c \<in> tk_cancelled t \<and> ending c s') \<or> (\<exists>i. tk_call_timer t c = Some i \<and> armed i s')"
    proof cases
      case 1
      then show ?thesis using tk(3) [OF 1(2)] c by (auto simp: exposed_def)
    next
      case (2 i)
      then have "tk_timer_call t i = Some c" using tracker_okD(1) [OF tr] by simp
      then show ?thesis using tk(2) [OF 2(2)] c 2(1) by (auto simp: exposed_def)
    qed
  qed
  then show ?thesis using ok tk(1,4,5) by (auto simp: timers_ok_def)
qed

section \<open>Steps keep the calls covered\<close>

definition bridge_ok :: "'r bridge \<Rightarrow> bool" where
  "bridge_ok b \<longleftrightarrow> timers_ok {} (br_tracker b) (br_sched b)"

lemma timers_ok_timed_out:
  assumes ok: "timers_ok {c. tk_timer_call t i = Some c} t s"
  shows "timers_ok {} (snd (take_timed_out_call i t)) s"
proof (cases "tk_timer_call t i")
  case None
  then show ?thesis using ok by (simp add: take_timed_out_call_def)
next
  case (Some c)
  have tr: "tracker_ok t" using ok by (simp add: timers_ok_def)
  define t' where "t' = snd (take_timed_out_call i t)"
  have f: "tk_pending t' = tk_pending t - {c}" "tk_cancelled t' = tk_cancelled t - {c}"
    "tk_call_timer t' = (tk_call_timer t)(c := None)" "dom (tk_timer_call t') \<subseteq> dom (tk_timer_call t)"
    using Some by (auto simp: t'_def take_timed_out_call_def Let_def)
  have "covered {} t' s" using ok Some f by (auto simp: timers_ok_def covered_def)
  then show ?thesis
    using ok f(4) take_timed_out_ok [OF tr, of i] by (auto simp: timers_ok_def t'_def)
qed

lemma timers_ok_forget: "timers_ok {c} t s \<Longrightarrow> on_complete c t = (Unknown, t') \<Longrightarrow> timers_ok {} t' s"
  by (auto simp: on_complete_def Let_def intro: timers_ok_unknown split: if_splits)

lemma backpressure_ok:
  assumes "bridge_ok b"
  shows "bridge_ok (enqueue_with_backpressure E req b)"
    and "sc_next_id (br_sched (enqueue_with_backpressure E req b)) = sc_next_id (br_sched b)"
proof -
  let ?c = "hr_call_id req" and ?t = "br_tracker b" and ?b' = "enqueue_with_backpressure E req b"
  obtain res q where p: "push_back E req (br_queue b) = (res, q)" by fastforce
  obtain d t where o: "on_complete ?c ?t = (d, t)" by fastforce
  consider "\<exists>x y. res = Rejected x y \<and> d = Delivered (tk_call_timer ?t ?c)"
    | "br_tracker ?b' = ?t" "br_sched ?b' = br_sched b"
    using o by (cases res) (auto simp: enqueue_with_backpressure_def p on_complete_def Let_def split: if_splits)
  then have "bridge_ok ?b' \<and> sc_next_id (br_sched ?b') = sc_next_id (br_sched b)"
  proof cases
    case 1
    then obtain x y where r: "res = Rejected x y" and d: "d = Delivered (tk_call_timer ?t ?c)" by blast
    have b': "br_tracker ?b' = t" "br_sched ?b' =
        enqueue_task (HostcallComplete ?c (overloaded_error x y)) (clear_of ?c ?t (br_sched b))"
      using o by (simp_all add: enqueue_with_backpressure_def p r d clear_of_def enqueue_hostcall_complete_def
          Let_def cong: option.case_cong)
    have "timers_ok {} t (clear_of ?c ?t (br_sched b))"
      using timers_ok_complete [OF assms [unfolded bridge_ok_def] _ o [unfolded d]] by simp
    then show ?thesis using b' by (simp add: bridge_ok_def timers_ok_enqueue)
  qed (use assms in \<open>simp add: bridge_ok_def\<close>)
  then show "bridge_ok ?b'" "sc_next_id (br_sched ?b') = sc_next_id (br_sched b)" by simp_all
qed

lemma issue_ok:
  assumes ok: "bridge_ok b" and "issue E (Some ms) kind payload ext b = Some (c, b')" and "ms > 0"
    and room: "unat (sc_next_id (br_sched b)) + 1 < 2 ^ 64"
    and fresh: "call_name (br_next_call b) \<notin> tk_pending (br_tracker b)"
  shows "bridge_ok b' \<and> sc_next_id (br_sched b') = sc_next_id (br_sched b) + 1"
proof -
  obtain i s where st: "set_timeout ms (br_sched b) = Some (i, s)"
    using assms(2,3) by (auto simp: issue_def start_timer_def generate_call_id_def Let_def)
  define b2 where "b2 = b\<lparr>br_next_call := br_next_call b + 1, br_total := br_total b + 1,
      br_trace := br_trace b + 1, br_sched := s,
      br_tracker := register (call_name (br_next_call b)) (Some i) (sc_clock (br_sched b)) (br_tracker b)\<rparr>"
  obtain req where b': "b' = enqueue_with_backpressure E req b2"
    using assms(2,3) st by (auto simp: issue_def start_timer_def generate_call_id_def Let_def b2_def)
  have t: "timers_ok {} (br_tracker b) (br_sched b)" using ok by (simp add: bridge_ok_def)
  have "bridge_ok b2"
    using timers_ok_register [OF t fresh st room] by (simp add: bridge_ok_def b2_def)
  moreover have "\<forall>j \<in> sc_heap_ids (br_sched b). j < sc_next_id (br_sched b)" "sched_ok (br_sched b)"
    using t by (simp_all add: timers_ok_def)
  then have "sc_next_id s = sc_next_id (br_sched b) + 1"
    using set_timeout_armed(2) [OF _ st _ room] by blast
  ultimately show ?thesis using backpressure_ok [of b2 E req] b' by (simp add: b2_def)
qed

lemma cancel_hostcall_ok:
  assumes ok: "bridge_ok b"
  shows "bridge_ok (snd (cancel_hostcall c b)) \<and>
    sc_next_id (br_sched (snd (cancel_hostcall c b))) = sc_next_id (br_sched b)"
proof -
  obtain r t where rt: "cancel c (br_tracker b) = (r, t)" by fastforce
  show ?thesis
  proof (cases r)
    case None
    then have "t = br_tracker b" using rt by (auto simp: cancel_def Let_def split: if_splits)
    then show ?thesis using ok None rt by (simp add: cancel_hostcall_def bridge_ok_def)
  next
    case (Some timer)
    have pend: "c \<in> tk_pending t" using rt Some tracker_pending(2) [of c "br_tracker b"]
      by (auto simp: cancel_def Let_def split: if_splits)
    then obtain n where n: "stream_next_seq c t = Some n" by (simp add: stream_next_seq_def)
    note timers_ok_cancel [OF ok [unfolded bridge_ok_def] rt [unfolded Some], of n]
    then show ?thesis using rt Some n
      by (auto simp: cancel_hostcall_def bridge_ok_def enqueue_stream_chunk_def
          enqueue_hostcall_complete_def split: option.splits)
  qed
qed

lemma complete_batch_ok:
  "bridge_ok b \<Longrightarrow> bridge_ok (complete_batch cs b) \<and>
     sc_next_id (br_sched (complete_batch cs b)) = sc_next_id (br_sched b)"
proof (induction cs arbitrary: b)
  case (Cons p cs)
  obtain c out where p: "p = (c, out)" by (cases p)
  have "bridge_ok (complete_hostcall c out b)"
    "sc_next_id (br_sched (complete_hostcall c out b)) = sc_next_id (br_sched b)"
    using Cons.prems by (auto simp: bridge_ok_def complete_hostcall_def enqueue_hostcall_complete_def
        timers_ok_record timers_ok_enqueue split: hostcall_outcome.splits)
  then show ?case using Cons.IH [of "complete_hostcall c out b"] by (simp add: complete_batch_def p)
qed (simp add: complete_batch_def)

lemma handle_completion_ok:
  assumes "timers_ok (if nonfinal out then {} else {c}) (br_tracker b) (br_sched b)"
  shows "bridge_ok (handle_completion c out b) \<and>
    sc_next_id (br_sched (handle_completion c out b)) = sc_next_id (br_sched b)"
proof (cases "nonfinal out")
  case True
  then show ?thesis using assms by (simp add: handle_completion_def emit_delivery_def bridge_ok_def)
next
  case nf: False
  obtain d t where o: "on_complete c (br_tracker b) = (d, t)" by fastforce
  show ?thesis
  proof (cases d)
    case (Delivered timer)
    then have "timer = tk_call_timer (br_tracker b) c" using on_complete_fields(2) o by blast
    then have "br_sched (handle_completion c out b) = clear_of c (br_tracker b) (br_sched b)"
      "br_tracker (handle_completion c out b) = t"
      using nf o Delivered
      by (auto simp: handle_completion_def emit_delivery_def clear_of_def Let_def split: option.splits)
    moreover have "timers_ok {} t (clear_of c (br_tracker b) (br_sched b))"
      by (rule timers_ok_complete [of "{c}"]) (use assms nf o Delivered in simp_all)
    ultimately show ?thesis by (simp add: bridge_ok_def)
  next
    case Unknown
    then show ?thesis using assms nf o timers_ok_forget
      by (auto simp: handle_completion_def bridge_ok_def)
  qed
qed

lemma bridge_tick_ok:
  assumes ok: "bridge_ok b"
  shows "bridge_ok (snd (bridge_tick b)) \<and>
    sc_next_id (br_sched (snd (bridge_tick b))) = sc_next_id (br_sched b)"
proof -
  obtain m s where t: "tick (br_sched b) = (m, s)" by fastforce
  let ?b1 = "b\<lparr>br_sched := s\<rparr>"
  have ex: "timers_ok (exposed m (br_tracker b)) (br_tracker b) s"
    by (rule timers_ok_tick [OF _ t]) (use ok in \<open>simp add: bridge_ok_def\<close>)
  have "sched_ok (br_sched b)" using ok by (simp add: bridge_ok_def timers_ok_def)
  then have n: "sc_next_id s = sc_next_id (br_sched b)" using tick_armed(4) [OF _ t] by blast
  show ?thesis
  proof (cases m)
    case None
    then show ?thesis using ex n t by (simp add: bridge_tick_def bridge_ok_def exposed_def)
  next
    case (Some task)
    have b': "snd (bridge_tick b) = handle_macrotask task ?b1" using t Some by (simp add: bridge_tick_def)
    show ?thesis
    proof (cases "mt_kind task")
      case (HostcallComplete c out)
      then show ?thesis using handle_completion_ok [of out c ?b1] ex n Some
        by (simp add: b' handle_macrotask_def exposed_def)
    next
      case (TimerFired i)
      then have "timers_ok {} (snd (take_timed_out_call i (br_tracker b))) s"
        using timers_ok_timed_out [of "br_tracker b" i s] ex Some by (simp add: exposed_def)
      then show ?thesis using TimerFired n
        by (auto simp: b' handle_macrotask_def handle_timer_def emit_delivery_def bridge_ok_def Let_def
            split: prod.splits option.splits)
    next
      case (InboundEvent ev payload)
      then show ?thesis using ex n Some
        by (simp add: b' handle_macrotask_def emit_delivery_def bridge_ok_def exposed_def)
    qed
  qed
qed

lemma native_clear_ok:
  assumes "bridge_ok b"
  shows "bridge_ok (snd (native_clear_timeout i b)) \<and>
     sc_next_id (br_sched (snd (native_clear_timeout i b))) = sc_next_id (br_sched b)"
proof -
  obtain r s where c: "clear_timeout i (br_sched b) = (r, s)" by fastforce
  show ?thesis
    using assms timers_ok_script_clear [of "{}" "br_tracker b" "br_sched b" i]
      clear_frame(1) [of i "br_sched b"] c
    by (auto simp: native_clear_timeout_def bridge_ok_def)
qed

fun times_out :: "bridge_op \<Rightarrow> bool" where
  "times_out (Exit code ext) = False"
| "times_out (HostClear i) = False"
| "times_out _ = True"

lemma sched_ok_clock: "sched_ok (s\<lparr>sc_clock := now\<rparr>) = sched_ok s"
  by (simp add: sched_ok_def)

lemma step_ok:
  assumes ok: "bridge_ok b" and st: "bridge_step E op b = Some b'" and "times_out op"
    and ms: "br_timeout b = Some ms" "ms > 0"
    and room: "unat (sc_next_id (br_sched b)) + 1 < 2 ^ 64"
    and fresh: "call_name (br_next_call b) \<notin> tk_pending (br_tracker b)"
  shows "bridge_ok b' \<and> (sc_next_id (br_sched b') = sc_next_id (br_sched b) \<or>
    sc_next_id (br_sched b') = sc_next_id (br_sched b) + 1)"
proof (cases op)
  case (Issue kind payload ext)
  then show ?thesis using st issue_ok [OF ok _ ms(2) room fresh, of E kind payload ext] ms(1) by auto
next
  case (ScriptTimeout d)
  then obtain i s where s: "set_timeout d (br_sched b) = Some (i, s)" "b' = b\<lparr>br_sched := s\<rparr>"
    using st by (auto simp: bridge_set_timeout_def)
  have t: "timers_ok {} (br_tracker b) (br_sched b)" using ok by (simp add: bridge_ok_def)
  moreover have "\<forall>j \<in> sc_heap_ids (br_sched b). j < sc_next_id (br_sched b)" "sched_ok (br_sched b)"
    using t by (simp_all add: timers_ok_def)
  ultimately show ?thesis
    using timers_ok_script_timer [OF t s(1) room] set_timeout_armed(2) [OF _ s(1) _ room] s(2)
    by (simp add: bridge_ok_def)
next
  case (Cancel c)
  then show ?thesis using st cancel_hostcall_ok [OF ok] by auto
next
  case (Complete cs)
  then show ?thesis using st complete_batch_ok [OF ok] by auto
next
  case (ScriptClear i)
  then show ?thesis using st native_clear_ok [OF ok] by auto
next
  case RunTick
  then show ?thesis using st bridge_tick_ok [OF ok] by auto
next
  case (HostEvent ev payload)
  then show ?thesis using st ok timers_ok_enqueue [of "{}" "br_tracker b" "br_sched b"]
    by (auto simp: bridge_event_def enqueue_event_def bridge_ok_def)
next
  case DrainRequests
  then show ?thesis using st ok by (auto simp: drain_requests_def bridge_ok_def)
next
  case (AdvanceTo now)
  then have "br_tracker b' = br_tracker b" "br_sched b' = (br_sched b)\<lparr>sc_clock := now\<rparr>"
    using st by auto
  then show ?thesis
    using ok sched_ok_clock by (simp add: bridge_ok_def timers_ok_def covered_def armed_def ending_def)
next
  case (Exit code ext)
  then show ?thesis using assms(3) by simp
next
  case (HostClear i)
  then show ?thesis using assms(3) by simp
next
  case OtherRuntime
  then show ?thesis using st ok by (auto simp: generate_call_id_def bridge_ok_def)
qed

lemma run_ok:
  assumes "bridge_ok b" and "calls_ok k (call_view b)" and "bridge_run E ops b = Some b'"
    and "list_all times_out ops" and "br_timeout b = Some ms" and "ms > 0"
    and "unat (sc_next_id (br_sched b)) + length ops < 2 ^ 64"
    and "unat (br_next_call b) + length ops < 2 ^ 64"
  shows "bridge_ok b'"
  using assms
proof (induction ops arbitrary: b)
  case (Cons op ops)
  then obtain b1 where b1: "bridge_step E op b = Some b1" "bridge_run E ops b1 = Some b'"
    by (auto simp: bind_eq_Some_conv)
  note eff = step_effect [OF b1(1)]
  have room: "unat (sc_next_id (br_sched b)) + 1 < 2 ^ 64" "unat (snd (snd (call_view b))) + 1 < 2 ^ 64"
    using Cons.prems(7,8) by (simp_all add: call_view_def)
  have "\<not> named_in k (br_next_call b) (call_name (br_next_call b))" by (simp add: named_in_def)
  then have fresh: "call_name (br_next_call b) \<notin> tk_pending (br_tracker b)"
    using Cons.prems(2) by (auto simp: call_view_def)
  note one = step_ok [OF Cons.prems(1) b1(1) _ Cons.prems(5,6) room(1) fresh]
  have "unat (sc_next_id (br_sched b) + 1) \<le> unat (sc_next_id (br_sched b)) + 1"
    by (simp add: unat_word_ariths)
  then have "unat (sc_next_id (br_sched b1)) + length ops < 2 ^ 64"
    using one Cons.prems(4,7) by auto
  moreover have "unat (snd (snd (call_view b))) + Suc (length ops) < 2 ^ 64"
    using Cons.prems(8) by (simp add: call_view_def)
  then have "unat (br_next_call b1) + length ops < 2 ^ 64"
    using counter_bound [OF conjunct1 [OF eff]] by (simp add: call_view_def)
  moreover have "calls_ok k (call_view b1)"
    by (rule calls_ok_step [OF conjunct1 [OF eff] Cons.prems(2) room(2)])
  ultimately show ?case
    using Cons.IH [of b1] one b1(2) eff Cons.prems(4,5,6) by simp
qed simp

lemma bridge_new_ok:
  "bridge_ok (bridge_new q timeout now k)" "calls_ok k (call_view (bridge_new q timeout now k))"
  by (simp_all add: bridge_ok_def timers_ok_def covered_def bridge_new_def tracker_new_def call_view_def
      sched_ok_with_clock(1)) (simp_all add: with_clock_def tracker_ok_def)

text \<open>No pending hostcall is ever left without a way to end. With a timeout configured, after
  every sequence of operations each pending call either has its timer in the heap, not cancelled, or
  fired and waiting in the queue, or it was cancelled and its end is waiting in the queue; and the
  two timer maps of the tracker are inverse to each other. Neither counter may wrap;
  \<open>process.exit\<close>, which has no timer by design, and the host clearing a timer by its number, which
  may be the timer of a call, are not among the operations.\<close>

theorem pending_calls_end:
  assumes "bridge_run E ops (bridge_new q (Some ms) now k) = Some b" and "ms > 0"
    and "list_all times_out ops" and "unat k + length ops < 2 ^ 64" and "length ops + 1 < 2 ^ 64"
  shows "tracker_ok (br_tracker b) \<and>
    (is_pending c (br_tracker b) \<longrightarrow>
      (c \<in> tk_cancelled (br_tracker b) \<and> ending c (br_sched b)) \<or>
      (\<exists>i. tk_call_timer (br_tracker b) c = Some i \<and> armed i (br_sched b)))"
proof -
  have "bridge_ok b"
    by (rule run_ok [OF bridge_new_ok assms(1,3)])
      (use assms in \<open>simp_all add: bridge_new_def with_clock_def\<close>)
  then show ?thesis by (auto simp: bridge_ok_def timers_ok_def covered_def is_pending_def)
qed

section \<open>Every call ends\<close>







lemma pending_calls_end_witness:
  "\<exists>b. bridge_run demo_env [Issue LogCall JNull None, Cancel (call_name 0)] demo_bridge = Some b \<and>
     is_pending (call_name 0) (br_tracker b) \<and> tracker_ok (br_tracker b)"
proof -
  have "\<exists>b. bridge_run demo_env [Issue LogCall JNull None, Cancel (call_name 0)] demo_bridge = Some b \<and>
     is_pending (call_name 0) (br_tracker b)"
    by (simp add: bridge_eval cancel_hostcall_def cancel_def is_pending_def stream_next_seq_def
        enqueue_stream_chunk_def)
  then obtain b where b: "bridge_run demo_env [Issue LogCall JNull None, Cancel (call_name 0)] demo_bridge = Some b"
    "is_pending (call_name 0) (br_tracker b)" by blast
  with pending_calls_end [OF b(1) [unfolded demo_bridge_def]] show ?thesis by simp
qed


end
