(* ===== verification/Text_Edit.thy ===== *)
theory Text_Edit
  imports Messages
begin

text \<open>
  The line editor of the terminal interface (\<^verbatim>\<open>e-agent-tui/src/state.rs\<close>): a text and a
  cursor, which counts characters. An index out of range, where the code panics, is \<open>None\<close>.
\<close>

section \<open>Operations\<close>

abbreviation nl :: char where
  "nl \<equiv> CHR 10"

definition insert_text :: "string \<Rightarrow> nat \<Rightarrow> string \<Rightarrow> string \<times> nat" where
  "insert_text text cursor inserted =
     (take cursor text @ inserted @ drop cursor text, cursor + length inserted)"

definition backspace :: "string \<Rightarrow> nat \<Rightarrow> (string \<times> nat) option" where
  "backspace text cursor =
     (if cursor = 0 then Some (text, cursor)
      else if cursor - 1 < length text
      then Some (take (cursor - 1) text @ drop cursor text, cursor - 1) else None)"

definition delete :: "string \<Rightarrow> nat \<Rightarrow> string" where
  "delete text cursor =
     (if cursor < length text then take cursor text @ drop (Suc cursor) text else text)"

text \<open>\<^verbatim>\<open>iter().position(..)\<close> and \<^verbatim>\<open>iter().rposition(..)\<close>.\<close>

definition position :: "('a \<Rightarrow> bool) \<Rightarrow> 'a list \<Rightarrow> nat option" where
  "position p xs =
     (let n = length (takeWhile (\<lambda>x. \<not> p x) xs) in if n < length xs then Some n else None)"

definition rposition :: "('a \<Rightarrow> bool) \<Rightarrow> 'a list \<Rightarrow> nat option" where
  "rposition p xs = map_option (\<lambda>n. length xs - 1 - n) (position p (rev xs))"

definition line_start :: "string \<Rightarrow> nat \<Rightarrow> nat option" where
  "line_start chars index =
     (if index \<le> length chars
      then Some (case rposition ((=) nl) (take index chars) of None \<Rightarrow> 0 | Some pos \<Rightarrow> pos + 1)
      else None)"

definition move_vertical :: "string \<Rightarrow> nat \<Rightarrow> int \<Rightarrow> nat option" where
  "move_vertical text cursor direction =
     Option.bind (line_start text cursor) (\<lambda>current_start.
       let column = cursor - current_start
       in if direction < 0 then
            (if current_start = 0 then Some cursor
             else let previous_end = current_start - 1
                  in map_option (\<lambda>previous_start.
                       previous_start + min column (previous_end - previous_start))
                     (line_start text previous_end))
          else
            (case position ((=) nl) (drop cursor text) of
               None \<Rightarrow> Some cursor
             | Some offset \<Rightarrow>
                 (let next_start = cursor + offset + 1;
                      next_end = (case position ((=) nl) (drop next_start text) of
                          None \<Rightarrow> length text | Some off \<Rightarrow> next_start + off)
                  in Some (next_start + min column (next_end - next_start)))))"

section \<open>Searching\<close>

lemma position_append:
  "\<forall>x \<in> set xs. \<not> p x \<Longrightarrow> position p (xs @ ys) = map_option ((+) (length xs)) (position p ys)"
  by (auto simp: position_def takeWhile_append2 Let_def)

lemma position_simps [simp]:
  "position p [] = None" "p x \<Longrightarrow> position p (x # xs) = Some 0"
  by (simp_all add: position_def)

lemma position_none: "\<forall>x \<in> set xs. \<not> p x \<Longrightarrow> position p xs = None"
  using position_append [of xs p "[]"] by simp

lemma rposition_append:
  "p y \<Longrightarrow> \<forall>x \<in> set zs. \<not> p x \<Longrightarrow> rposition p (xs @ y # zs) = Some (length xs)"
  by (simp add: rposition_def position_append)

lemma rposition_none: "\<forall>x \<in> set xs. \<not> p x \<Longrightarrow> rposition p xs = None"
  by (simp add: rposition_def position_none)

section \<open>Lines\<close>

text \<open>\<^verbatim>\<open>split('\n')\<close>, and the offset of a column of a line.\<close>

fun split_nl :: "string \<Rightarrow> string list" where
  "split_nl [] = [[]]"
| "split_nl (c # cs) =
     (if c = nl then [] # split_nl cs
      else case split_nl cs of [] \<Rightarrow> [[c]] | l # ls \<Rightarrow> (c # l) # ls)"

definition offset_at :: "string list \<Rightarrow> nat \<Rightarrow> nat \<Rightarrow> nat" where
  "offset_at ls row col = sum_list (map (\<lambda>l. Suc (length l)) (take row ls)) + col"

lemma split_nl_nonempty [simp]: "split_nl t \<noteq> []"
  by (cases t) (auto split: list.splits)

lemma split_nl_no_nl: "l \<in> set (split_nl t) \<Longrightarrow> nl \<notin> set l"
  by (induction t arbitrary: l) (auto split: list.splits if_splits)

text \<open>The text around one of its lines.\<close>

definition before :: "string list \<Rightarrow> nat \<Rightarrow> string" where
  "before ls row = concat (map (\<lambda>l. l @ [nl]) (take row ls))"

definition after :: "string list \<Rightarrow> nat \<Rightarrow> string" where
  "after ls row = concat (map (\<lambda>l. nl # l) (drop (Suc row) ls))"

lemma length_before: "length (before ls row) = offset_at ls row 0"
  by (simp add: before_def offset_at_def length_concat comp_def)

lemma split_nl_join: "concat (map (\<lambda>l. nl # l) (split_nl t)) = nl # t"
proof (induction t)
  case (Cons c cs)
  then show ?case by (cases "split_nl cs") auto
qed simp

lemma around_row:
  "row < length ls \<Longrightarrow> concat (map (\<lambda>l. nl # l) ls) = nl # before ls row @ ls ! row @ after ls row"
proof (induction row arbitrary: ls)
  case 0
  then show ?case by (cases ls) (simp_all add: before_def after_def)
next
  case (Suc row)
  then obtain l ls' where ls: "ls = l # ls'" by (cases ls) auto
  then show ?case using Suc.IH [of ls'] Suc.prems by (simp add: before_def after_def)
qed

lemma text_around:
  assumes "row < length (split_nl t)"
  shows "t = before (split_nl t) row @ split_nl t ! row @ after (split_nl t) row"
  using around_row [OF assms] split_nl_join [of t] by simp

lemma before_Suc: "row < length ls \<Longrightarrow> before ls (Suc row) = before ls row @ ls ! row @ [nl]"
  by (simp add: before_def take_Suc_conv_app_nth)

lemma after_Suc: "Suc row < length ls \<Longrightarrow> after ls row = nl # ls ! Suc row @ after ls (Suc row)"
  by (simp add: after_def Cons_nth_drop_Suc [symmetric])

lemma line_start_at:
  assumes row: "row < length (split_nl t)" and col: "col \<le> length (split_nl t ! row)"
  shows "line_start t (offset_at (split_nl t) row col) = Some (offset_at (split_nl t) row 0)"
proof -
  let ?ls = "split_nl t"
  let ?l = "take col (?ls ! row)"
  have off: "offset_at ?ls row col = length (before ?ls row) + col"
    by (simp add: length_before) (simp add: offset_at_def)
  note around = text_around [OF row]
  have "length t = length (before ?ls row) + (length (?ls ! row) + length (after ?ls row))"
    using arg_cong [OF around, of length] by simp
  then have le: "length (before ?ls row) + col \<le> length t" using col by simp
  have tk: "take (length (before ?ls row) + col) t = before ?ls row @ ?l"
    by (subst around) (use col in simp)
  have clean: "\<forall>x \<in> set ?l. nl \<noteq> x"
    using split_nl_no_nl [OF nth_mem [OF row]] by (auto dest: in_set_takeD)
  show ?thesis
  proof (cases row)
    case 0
    then show ?thesis using clean le tk unfolding off
      by (simp add: line_start_def rposition_none before_def) (simp add: offset_at_def)
  next
    case (Suc r)
    then have "before ?ls row = (before ?ls r @ ?ls ! r) @ [nl]" using row before_Suc [of r ?ls] by simp
    then have "rposition ((=) nl) (before ?ls row @ ?l) = Some (length (before ?ls row) - 1)"
      "length (before ?ls row) > 0"
      using rposition_append [of "(=) nl" nl ?l "before ?ls r @ ?ls ! r"] clean by simp_all
    then show ?thesis using le tk unfolding off
      by (simp add: line_start_def length_before [symmetric])
  qed
qed

lemma next_nl:
  assumes row: "row < length (split_nl t)" and col: "col \<le> length (split_nl t ! row)"
  shows "position ((=) nl) (drop (offset_at (split_nl t) row col) t) =
    (if Suc row < length (split_nl t) then Some (length (split_nl t ! row) - col) else None)"
proof -
  let ?ls = "split_nl t"
  have "offset_at ?ls row col = length (before ?ls row) + col"
    by (simp add: length_before) (simp add: offset_at_def)
  then have "drop (offset_at ?ls row col) t = drop col (?ls ! row) @ after ?ls row"
    by (subst (2) text_around [OF row]) (use col in simp)
  moreover have "\<forall>x \<in> set (drop col (?ls ! row)). nl \<noteq> x"
    using split_nl_no_nl [OF nth_mem [OF row]] by (auto dest: in_set_dropD)
  moreover have "position ((=) nl) (after ?ls row) = (if Suc row < length ?ls then Some 0 else None)"
    by (simp add: after_Suc) (simp add: after_def)
  ultimately show ?thesis by (simp add: position_append)
qed

lemma offset_Suc:
  "row < length ls \<Longrightarrow> offset_at ls (Suc row) col = offset_at ls row 0 + length (ls ! row) + 1 + col"
  by (simp add: offset_at_def take_Suc_conv_app_nth)

lemma offset_col: "offset_at ls row col = offset_at ls row 0 + col"
  by (simp add: offset_at_def)

lemma offset_exists:
  assumes "cursor \<le> length t"
  obtains row col where "row < length (split_nl t)" "col \<le> length (split_nl t ! row)"
    "cursor = offset_at (split_nl t) row col"
proof -
  have "\<exists>row col. row < length (split_nl t) \<and> col \<le> length (split_nl t ! row) \<and>
      cursor = offset_at (split_nl t) row col"
    using assms
  proof (induction t arbitrary: cursor)
    case Nil
    then show ?case by (simp add: offset_at_def)
  next
    case (Cons c cs)
    show ?case
    proof (cases cursor)
      case 0
      then show ?thesis by (intro exI [of _ 0]) (simp add: offset_at_def del: split_nl.simps)
    next
      case (Suc k)
      then have "k \<le> length cs" using Cons.prems by simp
      then obtain row col where rc: "row < length (split_nl cs)" "col \<le> length (split_nl cs ! row)"
        "k = offset_at (split_nl cs) row col" using Cons.IH [of k] by blast
      show ?thesis
      proof (cases "c = nl")
        case True
        then show ?thesis using rc Suc
          by (intro exI [of _ "Suc row"] exI [of _ col]) (simp add: offset_at_def)
      next
        case False
        obtain l ls where ls: "split_nl cs = l # ls" by (cases "split_nl cs") simp_all
        show ?thesis
        proof (cases row)
          case 0
          then show ?thesis using rc Suc False ls
            by (intro exI [of _ 0] exI [of _ "Suc col"]) (simp add: offset_at_def)
        next
          case (Suc r)
          then show ?thesis using rc \<open>cursor = Suc k\<close> False ls
            by (intro exI [of _ row] exI [of _ col]) (simp add: offset_at_def)
        qed
      qed
    qed
  qed
  then show thesis using that by blast
qed

text \<open>Moving up or down is moving by a line. With the cursor at a column of a line, it goes to
  the same column of the line above or below, or to the end of that line if it is shorter; on the
  first or last line it stays.\<close>

theorem move_vertical_lines:
  assumes "row < length (split_nl t)" and "col \<le> length (split_nl t ! row)"
  shows "move_vertical t (offset_at (split_nl t) row col) dir = Some (
    if dir < 0
    then (if row = 0 then offset_at (split_nl t) row col
          else offset_at (split_nl t) (row - 1) (min col (length (split_nl t ! (row - 1)))))
    else (if Suc row = length (split_nl t) then offset_at (split_nl t) row col
          else offset_at (split_nl t) (Suc row) (min col (length (split_nl t ! Suc row)))))"
proof (cases "dir < 0")
  case up: True
  let ?ls = "split_nl t"
  note start = line_start_at [OF assms]
  show ?thesis
  proof (cases row)
    case 0
    then show ?thesis using start up by (simp add: move_vertical_def) (simp add: offset_at_def)
  next
    case (Suc r)
    then have r: "r < length ?ls" using assms by simp
    have o: "offset_at ?ls row 0 = offset_at ?ls r (length (?ls ! r)) + 1"
      using offset_Suc [OF r, of 0] offset_col [of ?ls r "length (?ls ! r)"] Suc by simp
    have "line_start t (offset_at ?ls row 0 - 1) = Some (offset_at ?ls r 0)"
      using line_start_at [OF r order_refl] o by simp
    moreover have "offset_at ?ls row col - offset_at ?ls row 0 = col"
      "offset_at ?ls row 0 - 1 - offset_at ?ls r 0 = length (?ls ! r)" "offset_at ?ls row 0 \<noteq> 0"
      using o by (simp_all add: offset_at_def)
    moreover have "offset_at ?ls r 0 + min col (length (?ls ! r)) = offset_at ?ls r (min col (length (?ls ! r)))"
      by (simp add: offset_at_def)
    ultimately show ?thesis
      using start up Suc by (simp add: move_vertical_def Let_def)
  qed
next
  case down: False
  let ?ls = "split_nl t"
  note start = line_start_at [OF assms] and nn = next_nl [OF assms]
  show ?thesis
  proof (cases "Suc row < length ?ls")
    case False
    then show ?thesis using start nn down assms by (simp add: move_vertical_def)
  next
    case True
    have ns: "offset_at ?ls row col + (length (?ls ! row) - col) + 1 = offset_at ?ls (Suc row) 0"
      using offset_Suc [OF assms(1), of 0] offset_col [of ?ls row col] assms(2) by simp
    have ne: "(case position ((=) nl) (drop (offset_at ?ls (Suc row) 0) t) of
        None \<Rightarrow> length t | Some off \<Rightarrow> offset_at ?ls (Suc row) 0 + off)
      = offset_at ?ls (Suc row) 0 + length (?ls ! Suc row)"
    proof (cases "Suc (Suc row) < length ?ls")
      case True
      then show ?thesis using next_nl [OF \<open>Suc row < length ?ls\<close>, of 0] by simp
    next
      case last: False
      have "length t = length (before ?ls (Suc row)) + length (?ls ! Suc row)"
        using arg_cong [OF text_around [OF True], of length] last by (simp add: after_def)
      then show ?thesis using last next_nl [OF True, of 0] by (simp add: length_before)
    qed
    have col: "offset_at ?ls row col - offset_at ?ls row 0 = col"
      and fin: "offset_at ?ls (Suc row) 0 + min col (length (?ls ! Suc row))
        = offset_at ?ls (Suc row) (min col (length (?ls ! Suc row)))"
      by (simp_all add: offset_at_def)
    have "move_vertical t (offset_at ?ls row col) dir =
      Some (offset_at ?ls (Suc row) 0 + min col (length (?ls ! Suc row)))"
      unfolding move_vertical_def start Let_def bind.bind_lunit nn if_P [OF True] option.case col ns ne
      using down by simp
    then show ?thesis using down True unfolding fin by simp
  qed
qed

lemma move_vertical_lines_witness:
  "move_vertical [CHR ''a'', CHR ''b'', nl, CHR ''c''] 2 1 = Some 4"
  using move_vertical_lines [of 0 "[CHR ''a'', CHR ''b'', nl, CHR ''c'']" 2 1]
  by (simp add: offset_at_def eval_nat_numeral)

section \<open>The cursor stays in the text\<close>

definition editor_ok :: "string \<Rightarrow> nat \<Rightarrow> bool" where
  [wf_defs]: "editor_ok text cursor \<longleftrightarrow> cursor \<le> length text"

lemma insert_text_ok:
  "editor_ok text cursor \<Longrightarrow> case_prod editor_ok (insert_text text cursor ins)"
  by (simp add: insert_text_def editor_ok_def)

lemma backspace_ok:
  assumes "editor_ok text cursor"
  obtains t c where "backspace text cursor = Some (t, c)" "editor_ok t c"
proof (cases "cursor = 0")
  case False
  with assms have "cursor - 1 < length text" "cursor - 1 \<le> length (take (cursor - 1) text @ drop cursor text)"
    by (auto simp: editor_ok_def)
  then show thesis using False that by (simp add: backspace_def editor_ok_def)
qed (use assms that in \<open>simp add: backspace_def\<close>)

lemma delete_ok: "editor_ok text cursor \<Longrightarrow> editor_ok (delete text cursor) cursor"
  by (auto simp: delete_def editor_ok_def)

lemma offset_le:
  "row < length (split_nl t) \<Longrightarrow> col \<le> length (split_nl t ! row) \<Longrightarrow>
   offset_at (split_nl t) row col \<le> length t"
  using arg_cong [OF text_around [of row t], of length]
  by (simp add: length_before offset_col [of _ row col])

lemma move_vertical_ok:
  assumes "editor_ok text cursor"
  obtains c where "move_vertical text cursor dir = Some c" "editor_ok text c"
proof -
  from assms have "cursor \<le> length text" by (simp add: editor_ok_def)
  then obtain row col where rc: "row < length (split_nl text)" "col \<le> length (split_nl text ! row)"
    "cursor = offset_at (split_nl text) row col"
    by (rule offset_exists)
  note moved = move_vertical_lines [OF rc(1,2), of dir]
  obtain c where c: "move_vertical text cursor dir = Some c"
    using moved rc(3) by blast
  have le: "offset_at (split_nl text) r k \<le> length text"
    if "r < length (split_nl text)" "k \<le> length (split_nl text ! r)" for r k
    using offset_le that by blast
  have "c \<le> length text"
    using moved c rc le by (auto split: if_splits)
  then show thesis using that c by (simp add: editor_ok_def)
qed

text \<open>Typing and then erasing restores the text and the cursor.\<close>

lemma backspace_insert:
  "editor_ok text cursor \<Longrightarrow>
   backspace (fst (insert_text text cursor [c])) (snd (insert_text text cursor [c])) = Some (text, cursor)"
  by (simp add: insert_text_def backspace_def editor_ok_def)

end
