(* ===== verification/Ui_Protocol.thy ===== *)
theory Ui_Protocol
  imports Text_Edit
begin

text \<open>
  The protocol between extensions and the terminal interface
  (\<^verbatim>\<open>e-agent-tui/src/ui_protocol.rs\<close>), its input events (\<^verbatim>\<open>input.rs\<close>), and the semantic frames
  an extension may draw (\<^verbatim>\<open>render.rs\<close>, \<^verbatim>\<open>component.rs\<close>).
\<close>

section \<open>Input\<close>

datatype key_code =
    Enter | Esc | KChar char | Backspace | Delete | KLeft | KRight | Up | Down | Home | End | PageUp | PageDown

record modifiers =
  md_ctrl :: bool
  md_alt :: bool
  md_shift :: bool

datatype key_kind = Press | Repeat | Release

record key_event =
  ke_code :: key_code
  ke_modifiers :: modifiers
  ke_kind :: key_kind

datatype mouse_button = LeftButton | RightButton | MiddleButton

datatype mouse_kind = MouseDown | MouseUp | Drag | Move | ScrollUp | ScrollDown

record mouse_event =
  me_kind :: mouse_kind
  me_column :: nat
  me_row :: nat
  me_button :: "mouse_button option"

datatype input_event =
    Key key_event | InputText string | PasteText string | Mouse mouse_event | Resize nat nat
  | FocusGained | FocusLost

section \<open>Frames\<close>

record fsize =
  sz_width :: nat
  sz_height :: nat

record style =
  st_foreground :: "u32 option"
  st_background :: "u32 option"
  st_bold :: bool
  st_italic :: bool
  st_underline :: bool
  st_inverse :: bool
  st_strikethrough :: bool

record cell =
  cl_symbol :: utext
  cl_style :: style
  cl_hyperlink :: "utext option"

record semantic_frame =
  sf_size :: fsize
  sf_cells :: "cell list"

record cursor_anchor =
  ca_component :: u64
  ca_x :: nat
  ca_y :: nat
  ca_visible :: bool
  ca_ime :: bool

section \<open>Operations and replies\<close>

datatype ui_operation_kind =
    DialogKind | NotificationKind | ContributionKind | EditorKind | OverlayKind | ThemeKind
  | KeybindingsKind | TerminalInputKind | ClipboardKind | RenderKind | CapabilitiesKind | UnknownKind

datatype support_level = Native | Adapted | Degraded string | Unsupported string

record protocol_version =
  pv_major :: nat
  pv_minor :: nat

record ui_capabilities =
  uc_protocol :: protocol_version
  uc_operations :: "ui_operation_kind \<rightharpoonup> support_level"

datatype dialog_request =
    SelectDialog string "string list" | ConfirmDialog string string | InputDialog string string
  | EditorDialog string string

datatype dialog_result =
    Selected "string option" | Confirmed bool | InputResult "string option" | Edited "string option"

datatype notification_level = Info | Warning | ErrorLevel

record notification =
  no_message :: string
  no_level :: notification_level

datatype contribution = SetC string string string | RemoveC string string

datatype overlay_action = ShowO string bool | HideO | SetHidden bool | FocusO | UnfocusO

datatype ui_operation =
    Dialog dialog_request
  | Notify notification
  | Contribution contribution
  | EditorOp "string option"
  | Paste string
  | CustomEditor "string option"
  | Overlay u64 u64 overlay_action
  | Theme u64
  | Keybindings "(string \<times> string) list"
  | TerminalInput u64 bool
  | Clipboard string
  | Render string string
  | Frame string semantic_frame "cursor_anchor option"
  | Capabilities
  | UnknownOp string

datatype ui_reply =
    DialogReply dialog_result | InputReply input_event | ValueReply string | Ack
  | CapabilitiesReply ui_capabilities | UnsupportedReply ui_operation_kind string | BusyReply
  | Cancelled | StaleHandle | Failed string

record ui_envelope =
  en_version :: protocol_version
  en_extension :: string
  en_request :: u64
  en_generation :: u64
  en_deadline :: "u64 option"
  en_operation :: ui_operation

definition current_version :: protocol_version where
  "current_version = \<lparr>pv_major = 1, pv_minor = 0\<rparr>"

fun kind :: "ui_operation \<Rightarrow> ui_operation_kind" where
  "kind (Dialog d) = DialogKind"
| "kind (Notify n) = NotificationKind"
| "kind (Contribution c) = ContributionKind"
| "kind (EditorOp t) = EditorKind"
| "kind (Paste t) = EditorKind"
| "kind (CustomEditor c) = EditorKind"
| "kind (Overlay i g a) = OverlayKind"
| "kind (Theme g) = ThemeKind"
| "kind (Keybindings e) = KeybindingsKind"
| "kind (TerminalInput s e) = TerminalInputKind"
| "kind (Clipboard t) = ClipboardKind"
| "kind (Render k c) = RenderKind"
| "kind (Frame k f c) = RenderKind"
| "kind Capabilities = CapabilitiesKind"
| "kind (UnknownOp t) = UnknownKind"

fun coalesce_key :: "ui_operation \<Rightarrow> string option" where
  "coalesce_key (Contribution (SetC slot key c)) = Some (''contribution:'' @ slot @ '':'' @ key)"
| "coalesce_key (Contribution (RemoveC slot key)) = Some (''contribution:'' @ slot @ '':'' @ key)"
| "coalesce_key (Render key c) = Some (''render:'' @ key)"
| "coalesce_key (Frame key f c) = Some (''render:'' @ key)"
| "coalesce_key (EditorOp t) = Some ''editor''"
| "coalesce_key (CustomEditor c) = Some ''custom-editor''"
| "coalesce_key (Theme g) = Some ''theme''"
| "coalesce_key _ = None"

definition all_kinds :: "ui_operation_kind list" where
  "all_kinds = [DialogKind, NotificationKind, ContributionKind, EditorKind, OverlayKind, ThemeKind,
     KeybindingsKind, TerminalInputKind, ClipboardKind, RenderKind, CapabilitiesKind]"

definition default_capabilities :: ui_capabilities where
  "default_capabilities = \<lparr>uc_protocol = current_version,
     uc_operations = fold (\<lambda>k m. m(k \<mapsto> Unsupported ''not enabled by this frontend'')) all_kinds Map.empty\<rparr>"

definition support :: "ui_capabilities \<Rightarrow> ui_operation_kind \<Rightarrow> support_level" where
  "support c k = (case uc_operations c k of Some l \<Rightarrow> l | None \<Rightarrow> Unsupported ''unknown operation'')"

definition native_capabilities :: ui_capabilities where
  "native_capabilities = default_capabilities\<lparr>uc_operations :=
     (fold (\<lambda>k m. m(k \<mapsto> Native))
        [DialogKind, NotificationKind, ContributionKind, EditorKind, OverlayKind, ThemeKind,
         KeybindingsKind, TerminalInputKind, RenderKind] (uc_operations default_capabilities))
     (ClipboardKind \<mapsto> Degraded ''paste is native; copy depends on terminal selection'')\<rparr>"

text \<open>\<^verbatim>\<open>Ok(())\<close> is \<open>None\<close>.\<close>

definition supported :: "ui_capabilities \<Rightarrow> ui_operation_kind \<Rightarrow> ui_reply option" where
  "supported c k = (case support c k of
     Unsupported reason \<Rightarrow> Some (UnsupportedReply k reason) | _ \<Rightarrow> None)"

lemma native_supported:
  "supported native_capabilities k = None \<longleftrightarrow> k \<notin> {CapabilitiesKind, UnknownKind}"
  by (cases k) (simp_all add: supported_def support_def native_capabilities_def
      default_capabilities_def all_kinds_def)

end
