(* ===== verification/Ui_Reducer.thy ===== *)
theory Ui_Reducer
  imports Ui_Protocol Session
begin

text \<open>
  The state of the terminal interface (\<^verbatim>\<open>e-agent-tui/src/state.rs\<close>) and its reducer
  (\<^verbatim>\<open>reducer.rs\<close>): session events, input events and requests of extensions change the state and
  yield effects. A reduction that would panic is \<open>None\<close>.
\<close>

section \<open>State\<close>

record tool_state =
  ts_name :: string
  ts_status :: string
  ts_input :: string
  ts_update :: "json option"
  ts_result :: "json option"
  ts_is_error :: bool

record pending_dialog =
  pd_request :: u64
  pd_dialog :: dialog_request
  pd_text :: string
  pd_cursor :: nat
  pd_selected :: nat

record overlay_state =
  ov_extension :: string
  ov_id :: u64
  ov_generation :: u64
  ov_content :: string
  ov_hidden :: bool
  ov_capturing :: bool

record ui_state =
  ui_dialog :: "pending_dialog option"
  ui_contributions :: "(string \<times> string \<times> string, string) bmap"
  ui_frames :: "(string \<times> string, semantic_frame \<times> cursor_anchor option) bmap"
  ui_notifications :: "notification list"
  ui_overlays :: "overlay_state list"
  ui_custom_editor :: "(string \<times> string \<times> string) option"
  ui_theme_generation :: u64
  ui_keybindings :: "(string, string) bmap"
  ui_keybinding_conflicts :: "string list"
  ui_terminal_size :: "nat \<times> nat"
  ui_terminal_focused :: bool

record app_state =
  as_messages :: "message list"
  as_partial_id :: "string option"
  as_partial :: string
  as_thinking :: string
  as_tool_call_input :: string
  as_partial_unpersisted :: bool
  as_tools :: "(string, tool_state) bmap"
  as_status :: session_status
  as_editor :: string
  as_cursor :: nat
  as_scroll :: nat
  as_follow :: bool
  as_fatal_error :: "string option"
  as_ui :: ui_state

definition ui_default :: ui_state where
  "ui_default = \<lparr>ui_dialog = None, ui_contributions = [], ui_frames = [], ui_notifications = [],
     ui_overlays = [], ui_custom_editor = None, ui_theme_generation = 0, ui_keybindings = [],
     ui_keybinding_conflicts = [], ui_terminal_size = (0, 0), ui_terminal_focused = False\<rparr>"

definition app_new :: "message list \<Rightarrow> session_status \<Rightarrow> app_state" where
  "app_new messages status = \<lparr>as_messages = messages, as_partial_id = None, as_partial = [],
     as_thinking = [], as_tool_call_input = [], as_partial_unpersisted = False, as_tools = [],
     as_status = status, as_editor = [], as_cursor = 0, as_scroll = 0, as_follow = True,
     as_fatal_error = None, as_ui = ui_default\<rparr>"

abbreviation in_ui :: "(ui_state \<Rightarrow> ui_state) \<Rightarrow> app_state \<Rightarrow> app_state" where
  "in_ui f a \<equiv> a\<lparr>as_ui := f (as_ui a)\<rparr>"

section \<open>Editing\<close>

definition app_insert_text :: "string \<Rightarrow> app_state \<Rightarrow> app_state" where
  "app_insert_text text a =
     (let (t, c) = insert_text (as_editor a) (as_cursor a) text in a\<lparr>as_editor := t, as_cursor := c\<rparr>)"

definition app_insert :: "char \<Rightarrow> app_state \<Rightarrow> app_state" where
  "app_insert ch a = app_insert_text [ch] a"

definition app_backspace :: "app_state \<Rightarrow> app_state option" where
  "app_backspace a =
     map_option (\<lambda>(t, c). a\<lparr>as_editor := t, as_cursor := c\<rparr>) (backspace (as_editor a) (as_cursor a))"

definition app_delete :: "app_state \<Rightarrow> app_state" where
  "app_delete a = a\<lparr>as_editor := delete (as_editor a) (as_cursor a)\<rparr>"

definition app_move_vertical :: "int \<Rightarrow> app_state \<Rightarrow> app_state option" where
  "app_move_vertical direction a =
     map_option (\<lambda>c. a\<lparr>as_cursor := c\<rparr>) (move_vertical (as_editor a) (as_cursor a) direction)"

definition scroll_up :: "nat \<Rightarrow> app_state \<Rightarrow> app_state" where
  "scroll_up amount a = a\<lparr>as_follow := False, as_scroll := as_scroll a - amount\<rparr>"

definition scroll_down :: "nat \<Rightarrow> app_state \<Rightarrow> app_state" where
  "scroll_down amount a = a\<lparr>as_scroll := min (as_scroll a + amount) 65535\<rparr>"

definition take_editor :: "app_state \<Rightarrow> string option \<times> app_state" where
  "take_editor a =
     (if trim (as_editor a) = [] then (None, a)
      else (Some (as_editor a), a\<lparr>as_cursor := 0, as_editor := []\<rparr>))"

text \<open>\<^verbatim>\<open>str::lines\<close>, and the lines that extensions contribute to a slot.\<close>

definition trim_cr :: "string \<Rightarrow> string" where
  "trim_cr l = (if l \<noteq> [] \<and> last l = CHR 13 then butlast l else l)"

definition str_lines :: "string \<Rightarrow> string list" where
  "str_lines t = (let ls = split_nl t in
     if last ls = [] then map trim_cr (butlast ls) else map trim_cr (butlast ls) @ [last ls])"

definition contribution_lines :: "string \<Rightarrow> app_state \<Rightarrow> string list" where
  "contribution_lines slot a =
     concat (map (\<lambda>(k, shown). str_lines shown)
       (filter (\<lambda>((e, s, k), shown). s = slot) (ui_contributions (as_ui a))))"

definition code_name :: "key_code \<Rightarrow> string" where
  "code_name c = (case c of
     Enter \<Rightarrow> ''enter'' | Esc \<Rightarrow> ''esc'' | KChar ch \<Rightarrow> [ch] | Backspace \<Rightarrow> ''backspace''
   | Delete \<Rightarrow> ''delete'' | KLeft \<Rightarrow> ''left'' | KRight \<Rightarrow> ''right'' | Up \<Rightarrow> ''up'' | Down \<Rightarrow> ''down''
   | Home \<Rightarrow> ''home'' | End \<Rightarrow> ''end'' | PageUp \<Rightarrow> ''pageup'' | PageDown \<Rightarrow> ''pagedown'')"

fun key_name :: "input_event \<Rightarrow> string option" where
  "key_name (Key e) = Some
     ((if md_ctrl (ke_modifiers e) then ''ctrl+'' else []) @
      (if md_alt (ke_modifiers e) then ''alt+'' else []) @
      (if md_shift (ke_modifiers e) then ''shift+'' else []) @ code_name (ke_code e))"
| "key_name _ = None"

definition resolve_command :: "input_event \<Rightarrow> app_state \<Rightarrow> string option" where
  "resolve_command ev a = Option.bind (key_name ev) (bm_get (ui_keybindings (as_ui a)))"

section \<open>Session events\<close>

datatype ui_session_command = Prompt string | Steer string | FollowUp string | Abort | Close

datatype effect =
    SessionEff ui_session_command | UiReplyEff u64 ui_reply | SetTitle string | ExitEff

datatype app_event =
    SessionEv agent_event | InputEv input_event | UiEv ui_envelope | ObserverLagged u64 | Shutdown

definition clear_partial :: "app_state \<Rightarrow> app_state" where
  "clear_partial a = a\<lparr>as_partial := [], as_thinking := [], as_tool_call_input := [],
     as_partial_unpersisted := False\<rparr>"

definition interrupt_tool :: "tool_state \<Rightarrow> tool_state" where
  "interrupt_tool t =
     (if ts_status t \<in> {''running'', ''updating''} then t\<lparr>ts_status := ''interrupted''\<rparr> else t)"

definition update_tool :: "string \<Rightarrow> (tool_state \<Rightarrow> tool_state) \<Rightarrow> app_state \<Rightarrow> app_state" where
  "update_tool i f a = (case bm_get (as_tools a) i of
     Some t \<Rightarrow> a\<lparr>as_tools := bm_put i (f t) (as_tools a)\<rparr> | None \<Rightarrow> a)"

fun reduce_delta :: "message_delta \<Rightarrow> app_state \<Rightarrow> app_state" where
  "reduce_delta (ThinkingD t) a = a\<lparr>as_thinking := as_thinking a @ t\<rparr>"
| "reduce_delta (ToolCallInputD t) a = a\<lparr>as_tool_call_input := as_tool_call_input a @ t\<rparr>"
| "reduce_delta (TextD t) a = a\<lparr>as_partial := as_partial a @ t\<rparr>"
| "reduce_delta (ContentD c) a = a"

fun reduce_session :: "agent_event \<Rightarrow> app_state \<Rightarrow> app_state" where
  "reduce_session (AgentStart n) a = a\<lparr>as_status := Running\<rparr>"
| "reduce_session (MessageStart i m) a =
     (case m of Assistant _ \<Rightarrow> clear_partial (a\<lparr>as_partial_id := Some i\<rparr>) | _ \<Rightarrow> a)"
| "reduce_session (MessageUpdate i n d u) a =
     (if as_partial_id a = Some i then reduce_delta d a else a)"
| "reduce_session (MessageEnd i m) a =
     (let a1 = (if as_partial_id a = Some i then clear_partial (a\<lparr>as_partial_id := None\<rparr>) else a)
      in a1\<lparr>as_messages := as_messages a1 @ [m]\<rparr>)"
| "reduce_session (ToolExecutionStart i name input) a =
     a\<lparr>as_tools := bm_put i \<lparr>ts_name = name, ts_status = ''running'', ts_input = input,
       ts_update = None, ts_result = None, ts_is_error = False\<rparr> (as_tools a)\<rparr>"
| "reduce_session (ToolExecutionUpdate i v) a =
     update_tool i (\<lambda>t. t\<lparr>ts_status := ''updating'', ts_update := Some v\<rparr>) a"
| "reduce_session (ToolExecutionEnd i name v is_error) a =
     update_tool i (\<lambda>t. t\<lparr>ts_status := (if is_error then ''error'' else ''done''),
       ts_result := Some v, ts_is_error := is_error\<rparr>) a"
| "reduce_session (AgentSettled n) a = a\<lparr>as_status := Idle\<rparr>"
| "reduce_session (SessionFatal e) a =
     a\<lparr>as_status := Fatal, as_partial_unpersisted := (as_partial a \<noteq> []), as_fatal_error := Some e,
       as_tools := map (\<lambda>(k, t). (k, interrupt_tool t)) (as_tools a)\<rparr>"
| "reduce_session SessionShutdown a =
     (if as_status a \<noteq> Fatal then a\<lparr>as_status := Closed\<rparr> else a)"
| "reduce_session _ a = a"

section \<open>Requests of extensions\<close>

definition remove_at :: "nat \<Rightarrow> 'a list \<Rightarrow> 'a list" where
  "remove_at i xs = take i xs @ drop (Suc i) xs"

definition swap_down :: "nat \<Rightarrow> 'a list \<Rightarrow> 'a list" where
  "swap_down i xs = (if i > 0 then xs[i := xs ! (i - 1), i - 1 := xs ! i] else xs)"

definition open_dialog :: "u64 \<Rightarrow> dialog_request \<Rightarrow> pending_dialog" where
  "open_dialog request d =
     (let text = (case d of EditorDialog _ prefill \<Rightarrow> prefill | _ \<Rightarrow> [])
      in \<lparr>pd_request = request, pd_dialog = d, pd_text = text, pd_cursor = length text, pd_selected = 0\<rparr>)"

definition notification_limit :: nat where
  "notification_limit = 32"

text \<open>\<^verbatim>\<open>push_back\<close>, then \<^verbatim>\<open>pop_front\<close> while there are more than 32.\<close>

definition add_notification :: "notification \<Rightarrow> ui_state \<Rightarrow> ui_state" where
  "add_notification n u = (let ns = ui_notifications u @ [n]
     in u\<lparr>ui_notifications := drop (length ns - notification_limit) ns\<rparr>)"

definition reduce_overlay ::
  "string \<Rightarrow> u64 \<Rightarrow> u64 \<Rightarrow> overlay_action \<Rightarrow> overlay_state list \<Rightarrow> overlay_state list option" where
  "reduce_overlay ext i g action os =
     (let index = position (\<lambda>ov. ov_id ov = i \<and> ov_generation ov = g) os
      in case action of
        ShowO shown capturing \<Rightarrow> Some (os @
          [\<lparr>ov_extension = ext, ov_id = i, ov_generation = g, ov_content = shown,
            ov_hidden = False, ov_capturing = capturing\<rparr>])
      | HideO \<Rightarrow> map_option (\<lambda>n. remove_at n os) index
      | SetHidden hidden \<Rightarrow> map_option (\<lambda>n. os[n := (os ! n)\<lparr>ov_hidden := hidden\<rparr>]) index
      | FocusO \<Rightarrow> map_option (\<lambda>n. remove_at n os @ [os ! n]) index
      | UnfocusO \<Rightarrow> map_option (\<lambda>n. swap_down n os) index)"

fun bind_keys :: "(string \<times> string) list \<Rightarrow> (string, string) bmap \<Rightarrow> ui_state \<Rightarrow> ui_state" where
  "bind_keys [] seen u = u"
| "bind_keys ((command, key) # entries) seen u =
     (let u1 = (case bm_get seen key of
          Some previous \<Rightarrow> u\<lparr>ui_keybinding_conflicts := ui_keybinding_conflicts u @
            [key @ '': '' @ previous @ '', '' @ command]\<rparr>
        | None \<Rightarrow> u)
      in bind_keys entries (bm_put key command seen)
           (u1\<lparr>ui_keybindings := bm_put key command (ui_keybindings u1)\<rparr>))"

definition put_contribution :: "string \<Rightarrow> string \<Rightarrow> string \<Rightarrow> string \<Rightarrow> app_state \<Rightarrow> app_state" where
  "put_contribution ext slot key c a =
     in_ui (\<lambda>u. u\<lparr>ui_contributions := bm_put (ext, slot, key) c (ui_contributions u)\<rparr>) a"

text \<open>The state and the effects before the reply; \<open>None\<close> as reply when the arm returns early.\<close>

fun ui_operation_step :: "string \<Rightarrow> u64 \<Rightarrow> ui_operation \<Rightarrow> app_state \<Rightarrow> app_state \<times> effect list \<times> ui_reply option" where
  "ui_operation_step ext request (Dialog d) a =
     (in_ui (\<lambda>u. u\<lparr>ui_dialog := Some (open_dialog request d)\<rparr>) a, [], None)"
| "ui_operation_step ext request (Notify n) a = (in_ui (add_notification n) a, [], Some Ack)"
| "ui_operation_step ext request (Contribution (SetC slot key c)) a =
     (put_contribution ext slot key c a, (if slot = ''title'' then [SetTitle c] else []), Some Ack)"
| "ui_operation_step ext request (Contribution (RemoveC slot key)) a =
     (in_ui (\<lambda>u. u\<lparr>ui_contributions := bm_del (ext, slot, key) (ui_contributions u)\<rparr>) a, [], Some Ack)"
| "ui_operation_step ext request (EditorOp (Some t)) a =
     (a\<lparr>as_editor := t, as_cursor := length t\<rparr>, [], Some Ack)"
| "ui_operation_step ext request (EditorOp None) a = (a, [], Some (ValueReply (as_editor a)))"
| "ui_operation_step ext request (Paste t) a = (app_insert_text t a, [], Some Ack)"
| "ui_operation_step ext request (CustomEditor c) a =
     (in_ui (\<lambda>u. u\<lparr>ui_custom_editor := map_option (\<lambda>c. (ext, as_editor a, c)) c\<rparr>) a, [], Some Ack)"
| "ui_operation_step ext request (Overlay i g action) a =
     (case reduce_overlay ext i g action (ui_overlays (as_ui a)) of
        Some os \<Rightarrow> (in_ui (\<lambda>u. u\<lparr>ui_overlays := os\<rparr>) a, [], Some Ack)
      | None \<Rightarrow> (a, [], Some StaleHandle))"
| "ui_operation_step ext request (Theme g) a = (in_ui (\<lambda>u. u\<lparr>ui_theme_generation := g\<rparr>) a, [], Some Ack)"
| "ui_operation_step ext request (Keybindings entries) a =
     (in_ui (\<lambda>u. bind_keys entries [] (u\<lparr>ui_keybindings := [], ui_keybinding_conflicts := []\<rparr>)) a, [], Some Ack)"
| "ui_operation_step ext request (Render key c) a = (put_contribution ext ''render'' key c a, [], Some Ack)"
| "ui_operation_step ext request (Frame key f cur) a =
     (in_ui (\<lambda>u. u\<lparr>ui_frames := bm_put (ext, key) (f, cur) (ui_frames u)\<rparr>) a, [], Some Ack)"
| "ui_operation_step ext request Capabilities a = (a, [], None)"
| "ui_operation_step ext request (TerminalInput s e) a = (a, [], None)"
| "ui_operation_step ext request (Clipboard t) a = (a, [], None)"
| "ui_operation_step ext request (UnknownOp t) a = (a, [], None)"

definition reduce_ui :: "ui_envelope \<Rightarrow> app_state \<Rightarrow> app_state \<times> effect list" where
  "reduce_ui e a =
     (let (a1, effs, reply) = ui_operation_step (en_extension e) (en_request e) (en_operation e) a
      in (a1, effs @ (case reply of Some r \<Rightarrow> [UiReplyEff (en_request e) r] | None \<Rightarrow> [])))"

section \<open>Input events\<close>

definition cancelled_dialog :: "dialog_request \<Rightarrow> dialog_result" where
  "cancelled_dialog d = (case d of
     SelectDialog _ _ \<Rightarrow> Selected None | ConfirmDialog _ _ \<Rightarrow> Confirmed False
   | InputDialog _ _ \<Rightarrow> InputResult None | EditorDialog _ _ \<Rightarrow> Edited None)"

definition dialog_insert :: "string \<Rightarrow> pending_dialog \<Rightarrow> pending_dialog" where
  "dialog_insert text d =
     (let (t, c) = insert_text (pd_text d) (pd_cursor d) text in d\<lparr>pd_text := t, pd_cursor := c\<rparr>)"

definition nth_opt :: "'a list \<Rightarrow> nat \<Rightarrow> 'a option" where
  "nth_opt xs n = (if n < length xs then Some (xs ! n) else None)"

fun select_key :: "key_code \<Rightarrow> string list \<Rightarrow> pending_dialog \<Rightarrow> pending_dialog \<times> dialog_result option" where
  "select_key Up options d = (d\<lparr>pd_selected := pd_selected d - 1\<rparr>, None)"
| "select_key Down options d = (d\<lparr>pd_selected := min (pd_selected d + 1) (length options - 1)\<rparr>, None)"
| "select_key Enter options d = (d, Some (Selected (nth_opt options (pd_selected d))))"
| "select_key _ options d = (d, None)"

definition confirm_key :: "key_code \<Rightarrow> dialog_result option" where
  "confirm_key c =
     (if c \<in> {KChar (CHR ''y''), KChar (CHR ''Y''), Enter} then Some (Confirmed True)
      else if c \<in> {KChar (CHR ''n''), KChar (CHR ''N'')} then Some (Confirmed False) else None)"

text \<open>The keys of the \<open>Input\<close> and \<open>Editor\<close> dialogs.\<close>

definition text_key :: "bool \<Rightarrow> key_event \<Rightarrow> pending_dialog \<Rightarrow> (pending_dialog \<times> dialog_result option) option" where
  "text_key is_editor key d = (case ke_code key of
     Enter \<Rightarrow> Some
       (if is_editor \<and> md_shift (ke_modifiers key) then (dialog_insert [nl] d, None)
        else (d, Some (if is_editor then Edited (Some (pd_text d)) else InputResult (Some (pd_text d)))))
   | KChar ch \<Rightarrow> Some (if md_ctrl (ke_modifiers key) then d else dialog_insert [ch] d, None)
   | Backspace \<Rightarrow> map_option (\<lambda>(t, c). (d\<lparr>pd_text := t, pd_cursor := c\<rparr>, None))
       (backspace (pd_text d) (pd_cursor d))
   | Delete \<Rightarrow> Some (d\<lparr>pd_text := delete (pd_text d) (pd_cursor d)\<rparr>, None)
   | KLeft \<Rightarrow> Some (d\<lparr>pd_cursor := pd_cursor d - 1\<rparr>, None)
   | KRight \<Rightarrow> Some (d\<lparr>pd_cursor := min (pd_cursor d + 1) (length (pd_text d))\<rparr>, None)
   | Up \<Rightarrow> map_option (\<lambda>c. (d\<lparr>pd_cursor := c\<rparr>, None)) (move_vertical (pd_text d) (pd_cursor d) (- 1))
   | Down \<Rightarrow> map_option (\<lambda>c. (d\<lparr>pd_cursor := c\<rparr>, None)) (move_vertical (pd_text d) (pd_cursor d) 1)
   | _ \<Rightarrow> Some (d, None))"

definition handle_dialog ::
  "input_event \<Rightarrow> pending_dialog \<Rightarrow> (pending_dialog \<times> dialog_result option) option" where
  "handle_dialog ev d = (case ev of
     PasteText t \<Rightarrow> Some (dialog_insert t d, None)
   | InputText t \<Rightarrow> Some (dialog_insert t d, None)
   | Key key \<Rightarrow>
       (if ke_kind key = Release then Some (d, None)
        else if ke_code key = Esc then Some (d, Some (cancelled_dialog (pd_dialog d)))
        else case pd_dialog d of
          SelectDialog _ options \<Rightarrow> Some (select_key (ke_code key) options d)
        | ConfirmDialog _ _ \<Rightarrow> Some (d, confirm_key (ke_code key))
        | InputDialog _ _ \<Rightarrow> text_key False key d
        | EditorDialog _ _ \<Rightarrow> text_key True key d)
   | _ \<Rightarrow> Some (d, None))"

definition command_effect :: "string \<Rightarrow> app_state \<Rightarrow> app_state \<times> effect list" where
  "command_effect command a =
     (if command = ''app.exit'' then (a, [ExitEff])
      else if command = ''app.interrupt'' \<and> as_status a = Running then (a, [SessionEff Abort])
      else if command = ''input.newline'' then (app_insert nl a, [])
      else if command = ''transcript.page-up'' then (scroll_up 10 a, [])
      else if command = ''transcript.page-down'' then (scroll_down 10 a, [])
      else (a, []))"

definition is_capturing :: "overlay_state \<Rightarrow> bool" where
  "is_capturing ov \<longleftrightarrow> \<not> ov_hidden ov \<and> ov_capturing ov"

definition escape_pressed :: "input_event \<Rightarrow> bool" where
  "escape_pressed ev = (case ev of Key k \<Rightarrow> ke_code k = Esc \<and> ke_kind k \<noteq> Release | _ \<Rightarrow> False)"

text \<open>A key that is neither bound nor taken by a dialog or an overlay, and not released.\<close>

definition reduce_key :: "key_event \<Rightarrow> app_state \<Rightarrow> (app_state \<times> effect list) option" where
  "reduce_key e a =
     (if ke_code e = Esc then Some (a, [ExitEff])
      else if ke_code e = KChar (CHR ''c'') \<and> md_ctrl (ke_modifiers e)
      then Some (a, [if as_status a = Running then SessionEff Abort else ExitEff])
      else if as_status a = Fatal then Some (a, [])
      else case ke_code e of
        Enter \<Rightarrow> Some
          (if md_shift (ke_modifiers e) then (app_insert nl a, [])
           else case take_editor a of
             (Some t, a1) \<Rightarrow> (a1, [SessionEff (Prompt t)]) | (None, a1) \<Rightarrow> (a1, []))
      | KChar ch \<Rightarrow> Some (if md_ctrl (ke_modifiers e) then a else app_insert ch a, [])
      | Backspace \<Rightarrow> map_option (\<lambda>a. (a, [])) (app_backspace a)
      | Delete \<Rightarrow> Some (app_delete a, [])
      | KLeft \<Rightarrow> Some (a\<lparr>as_cursor := as_cursor a - 1\<rparr>, [])
      | KRight \<Rightarrow> Some (a\<lparr>as_cursor := min (as_cursor a + 1) (length (as_editor a))\<rparr>, [])
      | Home \<Rightarrow> Some (a\<lparr>as_cursor := 0\<rparr>, [])
      | End \<Rightarrow> Some (a\<lparr>as_cursor := length (as_editor a)\<rparr>, [])
      | Up \<Rightarrow> (if as_editor a = [] then Some (scroll_up 1 a, [])
          else map_option (\<lambda>a. (a, [])) (app_move_vertical (- 1) a))
      | Down \<Rightarrow> (if as_editor a = [] then Some (scroll_down 1 a, [])
          else map_option (\<lambda>a. (a, [])) (app_move_vertical 1 a))
      | PageUp \<Rightarrow> Some (scroll_up 10 a, [])
      | PageDown \<Rightarrow> Some (scroll_down 10 a, [])
      | _ \<Rightarrow> Some (a, []))"

text \<open>The arms of \<^verbatim>\<open>reduce_input\<close> below the key bindings.\<close>

fun reduce_plain :: "input_event \<Rightarrow> app_state \<Rightarrow> (app_state \<times> effect list) option" where
  "reduce_plain (Mouse e) a = Some
     (case me_kind e of ScrollUp \<Rightarrow> scroll_up 3 a | ScrollDown \<Rightarrow> scroll_down 3 a | _ \<Rightarrow> a, [])"
| "reduce_plain (Resize columns rows) a = Some (in_ui (\<lambda>u. u\<lparr>ui_terminal_size := (columns, rows)\<rparr>) a, [])"
| "reduce_plain FocusGained a = Some (in_ui (\<lambda>u. u\<lparr>ui_terminal_focused := True\<rparr>) a, [])"
| "reduce_plain FocusLost a = Some (in_ui (\<lambda>u. u\<lparr>ui_terminal_focused := False\<rparr>) a, [])"
| "reduce_plain (PasteText t) a = Some (if as_status a = Fatal then a else app_insert_text t a, [])"
| "reduce_plain (InputText t) a = Some (if as_status a = Fatal then a else app_insert_text t a, [])"
| "reduce_plain (Key e) a = (if ke_kind e = Release then Some (a, []) else reduce_key e a)"

definition reduce_input :: "input_event \<Rightarrow> app_state \<Rightarrow> (app_state \<times> effect list) option" where
  "reduce_input ev a = (case ui_dialog (as_ui a) of
     Some d \<Rightarrow>
       map_option (\<lambda>(d1, result). case result of
           Some r \<Rightarrow> (in_ui (\<lambda>u. u\<lparr>ui_dialog := None\<rparr>) a, [UiReplyEff (pd_request d1) (DialogReply r)])
         | None \<Rightarrow> (in_ui (\<lambda>u. u\<lparr>ui_dialog := Some d1\<rparr>) a, []))
         (handle_dialog ev d)
   | None \<Rightarrow>
       (if list_ex is_capturing (rev (ui_overlays (as_ui a)))
        then Some (if escape_pressed ev
          then (case rposition is_capturing (ui_overlays (as_ui a)) of
             Some n \<Rightarrow> (in_ui (\<lambda>u. u\<lparr>ui_overlays := remove_at n (ui_overlays u)\<rparr>) a, [])
           | None \<Rightarrow> (a, []))
          else (a, []))
        else case resolve_command ev a of
          Some command \<Rightarrow> Some (command_effect command a)
        | None \<Rightarrow> reduce_plain ev a))"

fun reduce :: "app_event \<Rightarrow> app_state \<Rightarrow> (app_state \<times> effect list) option" where
  "reduce (SessionEv ev) a = Some (reduce_session ev a, [])"
| "reduce (InputEv ev) a = reduce_input ev a"
| "reduce (UiEv e) a = Some (reduce_ui e a)"
| "reduce (ObserverLagged skipped) a = Some
     (a\<lparr>as_status := Fatal,
        as_fatal_error := Some (''event observer lagged by '' @ show_nat (unat skipped) @ '' records'')\<rparr>, [])"
| "reduce Shutdown a = Some (a, [SessionEff Abort, SessionEff Close])"

fun reduce_all :: "app_event list \<Rightarrow> app_state \<Rightarrow> (app_state \<times> effect list) option" where
  "reduce_all [] a = Some (a, [])"
| "reduce_all (ev # evs) a =
     Option.bind (reduce ev a) (\<lambda>(a1, effs).
       map_option (\<lambda>(a2, effs2). (a2, effs @ effs2)) (reduce_all evs a1))"

end
