(* ===== verification/Ui_Transcript.thy ===== *)
theory Ui_Transcript
  imports Ui_Reducer Session_Run
begin

text \<open>
  What the interface shows of a session: the transcript is the sequence of stored messages, and
  while a message streams in, its text so far.
\<close>

section \<open>The transcript\<close>

text \<open>The interface of an observer that has reduced the events of a session, starting with the
  messages of its attachment (\<^verbatim>\<open>SessionAttachment\<close>).\<close>

definition ui_of :: "message list \<Rightarrow> agent_event list \<Rightarrow> app_state" where
  "ui_of attached events = fold reduce_session events (app_new attached Idle)"

lemma reduce_delta_messages: "as_messages (reduce_delta d a) = as_messages a"
  by (cases d) simp_all

lemma reduce_session_messages:
  "as_messages (reduce_session ev a) = as_messages a @ ends [ev]"
  by (cases ev) (auto simp: update_tool_def clear_partial_def reduce_delta_messages Let_def
      split: option.splits message.splits)

lemma fold_messages: "as_messages (fold reduce_session evs a) = as_messages a @ ends evs"
proof (induction evs arbitrary: a)
  case (Cons ev evs)
  have "ends (ev # evs) = ends [ev] @ ends evs" using ends_simps(2) [of "[ev]" evs] by simp
  then show ?case using Cons by (simp add: reduce_session_messages)
qed simp

lemma ends_visible: "ends (visible s) = ends (s_events s)"
proof -
  have "ends (filter (\<lambda>ev. \<not> quiet ev) es) = ends es" for es
  proof (induction es)
    case (Cons ev es)
    then show ?case by (cases ev) simp_all
  qed simp
  then show ?thesis by (simp add: visible_def)
qed

text \<open>C2 (refinement): the transcript on the screen is the conversation on disk. An interface that shows
  exactly the stored messages before a run, of any outcome, shows exactly the stored messages after
  it, once it has reduced the events that the session has published.\<close>

theorem transcript_shows_stored:
  assumes "\<not> s_shutdown_emitted s"
    and "as_messages (ui_of attached (s_events s)) = js_messages (s_store s)"
    and "run_agent (jsonl_env enc H) fuel input s = Some (r, s')"
  shows "as_messages (ui_of attached (s_events s')) = js_messages (s_store s')"
proof -
  obtain tr where "visible s' = visible s @ tr" "js_messages (s_store s') = js_messages (s_store s) @ ends tr"
    using run_publishes_stored [OF assms(1,3)] by blast
  then have "ends (s_events s') = ends (s_events s) @ ends tr"
    using ends_visible [of s'] ends_visible [of s] by simp
  then show ?thesis
    using assms(2) \<open>js_messages (s_store s') = _\<close> by (simp add: ui_of_def fold_messages)
qed

lemma transcript_shows_stored_witness:
  "\<exists>s. hello_run = Some (Inr (), s) \<and> as_messages (ui_of [] (s_events s)) = js_messages (s_store s) \<and>
     length (js_messages (s_store s)) = 2"
proof -
  obtain s where s: "hello_run = Some (Inr (), s)" "js_messages (s_store s) =
    [User (user_text ''hi''),
     Assistant \<lparr>am_content = [TextC ''yo''], am_stop_reason = Stop, am_usage = None,
                am_error_message = None\<rparr>]" by (rule hello_returns)
  let ?s = "fresh_session [] [ContentDelta 0 (TextC ''yo''), Done Stop]"
  have "as_messages (ui_of [] (s_events ?s)) = js_messages (s_store ?s)"
    using ends_visible [of ?s]
    by (simp add: ui_of_def fold_messages fresh_visible fresh_messages app_new_def)
  from transcript_shows_stored [OF fresh_alive this s(1) [unfolded hello_run_def script_env_def]] s
  show ?thesis by auto
qed

end
