(* ===== verification/Ui_Broker.thy ===== *)
theory Ui_Broker
  imports Ui_Protocol
begin

text \<open>
  The broker between the extensions and the terminal interface
  (\<^verbatim>\<open>e-agent-tui/src/broker.rs\<close>): its shared state, the clients' and the server's operations.
  \<^verbatim>\<open>request_until\<close> runs in two parts, registering under the lock and sending the envelope
  afterwards, so other operations can come between them; the caller then waits for the reply, an
  entry of the reply log. A \<^verbatim>\<open>BTreeSet<T>\<close> is a \<^verbatim>\<open>BTreeMap<T, ()>\<close>.
\<close>

section \<open>State\<close>

definition queue_capacity :: nat where
  "queue_capacity = 64"

definition notification_capacity :: nat where
  "notification_capacity = 32"

datatype ui_diagnostic = NotificationsOverflowed | RawInputSubscriberDisabled u64

record ui_pending =
  up_extension :: string
  up_modal :: bool

text \<open>A bounded channel of the runtime: its capacity, what it holds, whether its receiver exists.\<close>

record raw_channel =
  rc_capacity :: nat
  rc_queue :: "string list"
  rc_open :: bool

record ui_broker =
  bk_next :: u64
  bk_generation :: u64
  bk_pending :: "(u64, ui_pending) bmap"
  bk_modal :: "(string, unit) bmap"
  bk_owned :: "(string, (u64, unit) bmap) bmap"
  bk_coalesced :: "(string \<times> string, u64) bmap"
  bk_notifications :: "(string \<times> notification) list"
  bk_input_polls :: "u64 list"
  bk_raw :: "(u64, raw_channel) bmap"
  bk_diagnostics :: "ui_diagnostic list"
  bk_overflow_reported :: bool
  bk_closed :: bool
  bk_capabilities :: ui_capabilities
  bk_channel :: "ui_envelope list"
  bk_server_alive :: bool
  bk_receivers :: nat
  bk_unsent :: "ui_envelope list"
  bk_replies :: "(u64 \<times> ui_reply) list"

datatype broker_error = BrokerClosed | QueueFull | Busy

definition broker_new :: "ui_capabilities \<Rightarrow> ui_broker" where
  "broker_new capabilities = \<lparr>bk_next = 0, bk_generation = 0, bk_pending = [], bk_modal = [],
     bk_owned = [], bk_coalesced = [], bk_notifications = [], bk_input_polls = [], bk_raw = [],
     bk_diagnostics = [], bk_overflow_reported = False, bk_closed = False,
     bk_capabilities = capabilities, bk_channel = [], bk_server_alive = True, bk_receivers = 0,
     bk_unsent = [], bk_replies = []\<rparr>"

section \<open>Completing requests\<close>

definition completed :: "u64 \<Rightarrow> ui_pending \<Rightarrow> ui_reply \<Rightarrow> ui_broker \<Rightarrow> ui_broker" where
  "completed i p reply b = b\<lparr>bk_pending := bm_del i (bk_pending b),
     bk_modal := (if up_modal p then bm_del (up_extension p) (bk_modal b) else bk_modal b),
     bk_owned := (case bm_get (bk_owned b) (up_extension p) of
         Some ids \<Rightarrow> bm_put (up_extension p) (bm_del i ids) (bk_owned b) | None \<Rightarrow> bk_owned b),
     bk_coalesced := filter (\<lambda>e. snd e \<noteq> i) (bk_coalesced b),
     bk_input_polls := filter (\<lambda>r. r \<noteq> i) (bk_input_polls b),
     bk_replies := bk_replies b @ [(i, reply)]\<rparr>"

definition complete_locked :: "u64 \<Rightarrow> ui_reply \<Rightarrow> ui_broker \<Rightarrow> bool \<times> ui_broker" where
  "complete_locked i reply b =
     (case bm_get (bk_pending b) i of
        None \<Rightarrow> (False, b) | Some p \<Rightarrow> (True, completed i p reply b))"

definition cancel_locked :: "u64 \<Rightarrow> ui_reply \<Rightarrow> ui_broker \<Rightarrow> ui_broker" where
  "cancel_locked i reply b = snd (complete_locked i reply b)"

definition cancel_ids :: "u64 list \<Rightarrow> ui_broker \<Rightarrow> ui_broker" where
  "cancel_ids ids b = fold (\<lambda>i. cancel_locked i Cancelled) ids b"

definition cancel_extension :: "string \<Rightarrow> ui_broker \<Rightarrow> ui_broker" where
  "cancel_extension ext b =
     cancel_ids (case bm_get (bk_owned b) ext of Some ids \<Rightarrow> map fst ids | None \<Rightarrow> []) b"

section \<open>Clients\<close>

fun is_dialog :: "ui_operation \<Rightarrow> bool" where
  "is_dialog (Dialog d) = True"
| "is_dialog _ = False"

text \<open>A request takes the place of an older one with the same key, which is cancelled.\<close>

definition supersede :: "string \<Rightarrow> ui_operation \<Rightarrow> u64 \<Rightarrow> ui_broker \<Rightarrow> ui_broker" where
  "supersede ext op request b = (case coalesce_key op of
     None \<Rightarrow> b
   | Some key \<Rightarrow>
       (let b1 = b\<lparr>bk_coalesced := bm_put (ext, key) request (bk_coalesced b)\<rparr>
        in case bm_get (bk_coalesced b) (ext, key) of
             Some old \<Rightarrow> cancel_locked old Cancelled b1 | None \<Rightarrow> b1))"

text \<open>The entry of the request in the tables, after the checks.\<close>

definition admit :: "string \<Rightarrow> ui_operation \<Rightarrow> u64 option \<Rightarrow> ui_broker \<Rightarrow> ui_envelope \<times> ui_broker" where
  "admit ext op deadline b =
     (let request = bk_next b;
          b2 = supersede ext op request (b\<lparr>bk_next := request + 1\<rparr>);
          ids = (case bm_get (bk_owned b2) ext of Some ids \<Rightarrow> ids | None \<Rightarrow> [])
      in (\<lparr>en_version = current_version, en_extension = ext, en_request = request,
           en_generation = bk_generation b2, en_deadline = deadline, en_operation = op\<rparr>,
          b2\<lparr>bk_pending := bm_put request \<lparr>up_extension = ext, up_modal = is_dialog op\<rparr> (bk_pending b2),
             bk_owned := bm_put ext (bm_put request () ids) (bk_owned b2)\<rparr>))"

definition register_request ::
  "string \<Rightarrow> ui_operation \<Rightarrow> u64 option \<Rightarrow> ui_broker \<Rightarrow> (broker_error + u64) \<times> ui_broker" where
  "register_request ext op deadline b =
     (if bk_closed b then (Inl BrokerClosed, b)
      else if is_dialog op \<and> bm_get (bk_modal b) ext \<noteq> None then (Inl Busy, b)
      else let b1 = (if is_dialog op then b\<lparr>bk_modal := bm_put ext () (bk_modal b)\<rparr> else b);
               (e, b2) = admit ext op deadline b1
           in (Inr (en_request e), b2\<lparr>bk_unsent := bk_unsent b2 @ [e]\<rparr>))"

text \<open>\<^verbatim>\<open>try_send\<close> of an envelope that a caller has registered.\<close>

definition send_envelope :: "ui_envelope \<Rightarrow> ui_broker \<Rightarrow> broker_error option \<times> ui_broker" where
  "send_envelope e b0 =
     (let b = b0\<lparr>bk_unsent := remove1 e (bk_unsent b0)\<rparr>
      in if \<not> bk_server_alive b then (Some BrokerClosed, cancel_locked (en_request e) Cancelled b)
         else if length (bk_channel b) \<ge> queue_capacity
         then (Some QueueFull, cancel_locked (en_request e) Cancelled b)
         else (None, b\<lparr>bk_channel := bk_channel b @ [e]\<rparr>))"

text \<open>\<^verbatim>\<open>cancel\<close>, which is also what an expired deadline does.\<close>

definition broker_cancel :: "u64 \<Rightarrow> ui_broker \<Rightarrow> ui_broker" where
  "broker_cancel i b = cancel_locked i Cancelled b"

definition notify :: "string \<Rightarrow> notification \<Rightarrow> ui_broker \<Rightarrow> ui_broker" where
  "notify ext n b =
     (let b1 = (if length (bk_notifications b) = notification_capacity
          then let pos = (case position (\<lambda>(x, item). no_level item \<noteq> ErrorLevel) (bk_notifications b) of
                     Some p \<Rightarrow> p | None \<Rightarrow> 0);
                   b' = b\<lparr>bk_notifications := take pos (bk_notifications b) @ drop (Suc pos) (bk_notifications b)\<rparr>
               in if bk_overflow_reported b' then b'
                  else b'\<lparr>bk_diagnostics := bk_diagnostics b' @ [NotificationsOverflowed],
                          bk_overflow_reported := True\<rparr>
          else b)
      in b1\<lparr>bk_notifications := bk_notifications b1 @ [(ext, n)]\<rparr>)"

definition broker_unload :: "string \<Rightarrow> ui_broker \<Rightarrow> ui_broker" where
  "broker_unload ext b = cancel_extension ext b"

definition broker_close :: "ui_broker \<Rightarrow> ui_broker" where
  "broker_close b = cancel_ids (map fst (bk_pending b)) (b\<lparr>bk_closed := True\<rparr>)"

definition subscribe_input :: "ui_broker \<Rightarrow> ui_broker" where
  "subscribe_input b = b\<lparr>bk_receivers := bk_receivers b + 1\<rparr>"

section \<open>The server\<close>

definition broker_recv :: "ui_broker \<Rightarrow> ui_envelope option \<times> ui_broker" where
  "broker_recv b = (case bk_channel b of
     [] \<Rightarrow> (None, b) | e # es \<Rightarrow> (Some e, b\<lparr>bk_channel := es\<rparr>))"

definition default_reply :: "ui_envelope \<Rightarrow> ui_broker \<Rightarrow> ui_reply" where
  "default_reply e b =
     (if pv_major (en_version e) \<noteq> pv_major (uc_protocol (bk_capabilities b))
      then Failed (''unsupported UI protocol major '' @ show_nat (pv_major (en_version e)))
      else if en_generation e \<noteq> bk_generation b then StaleHandle
      else case en_operation e of
        Capabilities \<Rightarrow> CapabilitiesReply (bk_capabilities b)
      | UnknownOp _ \<Rightarrow> UnsupportedReply UnknownKind ''unknown operation''
      | _ \<Rightarrow> (case supported (bk_capabilities b) (kind (en_operation e)) of
          None \<Rightarrow> Ack | Some reply \<Rightarrow> reply))"

definition broker_reply :: "u64 \<Rightarrow> ui_reply \<Rightarrow> ui_broker \<Rightarrow> bool \<times> ui_broker" where
  "broker_reply i reply b = complete_locked i reply b"

definition take_notification :: "ui_broker \<Rightarrow> (string \<times> notification) option \<times> ui_broker" where
  "take_notification b =
     (let (item, b1) = (case bk_notifications b of
          [] \<Rightarrow> (None, b) | n # ns \<Rightarrow> (Some n, b\<lparr>bk_notifications := ns\<rparr>))
      in (item, if bk_notifications b1 = [] then b1\<lparr>bk_overflow_reported := False\<rparr> else b1))"

definition queue_input_poll :: "u64 \<Rightarrow> ui_broker \<Rightarrow> bool \<times> ui_broker" where
  "queue_input_poll i b =
     (if bm_get (bk_pending b) i \<noteq> None \<and> i \<notin> set (bk_input_polls b)
      then (True, b\<lparr>bk_input_polls := bk_input_polls b @ [i]\<rparr>) else (False, b))"

text \<open>The loop of \<^verbatim>\<open>reply_input\<close> over the polls, the newest first.\<close>

fun reply_polls :: "input_event \<Rightarrow> u64 list \<Rightarrow> ui_broker \<Rightarrow> bool \<times> ui_broker" where
  "reply_polls ev [] b = (False, b)"
| "reply_polls ev (r # rs) b =
     (let (ok, b1) = complete_locked r (InputReply ev) (b\<lparr>bk_input_polls := rev rs\<rparr>)
      in if ok then (True, b1) else reply_polls ev rs b1)"

definition reply_input :: "input_event \<Rightarrow> ui_broker \<Rightarrow> bool \<times> ui_broker" where
  "reply_input ev b = reply_polls ev (rev (bk_input_polls b)) b"

definition publish_input :: "input_event \<Rightarrow> ui_broker \<Rightarrow> bool" where
  "publish_input ev b \<longleftrightarrow> bk_receivers b > 0"

definition subscribe_raw_input :: "u64 \<Rightarrow> nat \<Rightarrow> ui_broker \<Rightarrow> ui_broker" where
  "subscribe_raw_input i capacity b =
     b\<lparr>bk_raw := bm_put i \<lparr>rc_capacity = capacity, rc_queue = [], rc_open = True\<rparr> (bk_raw b)\<rparr>"

definition raw_accepts :: "raw_channel \<Rightarrow> bool" where
  "raw_accepts c \<longleftrightarrow> rc_open c \<and> length (rc_queue c) < rc_capacity c"

definition deliver_raw_input :: "string \<Rightarrow> ui_broker \<Rightarrow> ui_broker" where
  "deliver_raw_input input b =
     (let disabled = map fst (filter (\<lambda>(i, c). \<not> raw_accepts c) (bk_raw b));
          sent = map (\<lambda>(i, c). (i, if raw_accepts c then c\<lparr>rc_queue := rc_queue c @ [input]\<rparr> else c)) (bk_raw b)
      in b\<lparr>bk_raw := fold bm_del disabled sent,
           bk_diagnostics := bk_diagnostics b @ map RawInputSubscriberDisabled disabled\<rparr>)"

definition take_diagnostic :: "ui_broker \<Rightarrow> ui_diagnostic option \<times> ui_broker" where
  "take_diagnostic b = (case bk_diagnostics b of
     [] \<Rightarrow> (None, b) | d # ds \<Rightarrow> (Some d, b\<lparr>bk_diagnostics := ds\<rparr>))"

definition invalidate_handles :: "ui_broker \<Rightarrow> ui_broker" where
  "invalidate_handles b = b\<lparr>bk_generation := bk_generation b + 1\<rparr>"

definition drop_server :: "ui_broker \<Rightarrow> ui_broker" where
  "drop_server b = (broker_close b)\<lparr>bk_server_alive := False, bk_channel := []\<rparr>"

section \<open>Runs\<close>

datatype broker_op =
    Register string ui_operation "u64 option"
  | Send ui_envelope
  | CancelRequest u64
  | NotifyUser string notification
  | Unload string
  | CloseBroker
  | SubscribeInput
  | Recv
  | Reply u64 ui_reply
  | TakeNotification
  | QueueInputPoll u64
  | ReplyInput input_event
  | SubscribeRaw u64 nat
  | DeliverRaw string
  | TakeDiagnostic
  | InvalidateHandles
  | DropServer

text \<open>Only an envelope that a caller has registered and not yet sent can be sent.\<close>

fun broker_step :: "broker_op \<Rightarrow> ui_broker \<Rightarrow> ui_broker" where
  "broker_step (Register ext op deadline) b = snd (register_request ext op deadline b)"
| "broker_step (Send e) b = (if e \<in> set (bk_unsent b) then snd (send_envelope e b) else b)"
| "broker_step (CancelRequest i) b = broker_cancel i b"
| "broker_step (NotifyUser ext n) b = notify ext n b"
| "broker_step (Unload ext) b = broker_unload ext b"
| "broker_step CloseBroker b = broker_close b"
| "broker_step SubscribeInput b = subscribe_input b"
| "broker_step Recv b = snd (broker_recv b)"
| "broker_step (Reply i reply) b = snd (broker_reply i reply b)"
| "broker_step TakeNotification b = snd (take_notification b)"
| "broker_step (QueueInputPoll i) b = snd (queue_input_poll i b)"
| "broker_step (ReplyInput ev) b = snd (reply_input ev b)"
| "broker_step (SubscribeRaw i capacity) b = subscribe_raw_input i capacity b"
| "broker_step (DeliverRaw input) b = deliver_raw_input input b"
| "broker_step TakeDiagnostic b = snd (take_diagnostic b)"
| "broker_step InvalidateHandles b = invalidate_handles b"
| "broker_step DropServer b = drop_server b"

definition broker_run :: "broker_op list \<Rightarrow> ui_broker \<Rightarrow> ui_broker" where
  "broker_run ops b = fold broker_step ops b"

section \<open>The invariant\<close>

definition dialog_of :: "ui_broker \<Rightarrow> string \<Rightarrow> u64 \<Rightarrow> bool" where
  "dialog_of b ext i \<longleftrightarrow>
     (\<exists>p. bm_get (bk_pending b) i = Some p \<and> up_modal p \<and> up_extension p = ext)"

text \<open>The requests issued so far are those of \<open>S\<close>: each is pending or has been answered, once; the
  table of modal extensions is exact, and every pending request is among those its extension owns.
  A closed broker has no pending request.\<close>

definition answered_once :: "u64 set \<Rightarrow> ui_broker \<Rightarrow> bool" where
  [wf_defs]: "answered_once S b \<longleftrightarrow> bm_ok (bk_pending b) \<and> distinct (map fst (bk_replies b)) \<and>
     (\<forall>i. i \<in> S \<longleftrightarrow> bm_get (bk_pending b) i \<noteq> None \<or> i \<in> fst ` set (bk_replies b)) \<and>
     (\<forall>i \<in> fst ` set (bk_replies b). bm_get (bk_pending b) i = None)"

definition modal_exact :: "ui_broker \<Rightarrow> bool" where
  [wf_defs]: "modal_exact b \<longleftrightarrow>
     (\<forall>ext. bm_get (bk_modal b) ext \<noteq> None \<longleftrightarrow> (\<exists>i. dialog_of b ext i)) \<and>
     (\<forall>ext i j. dialog_of b ext i \<longrightarrow> dialog_of b ext j \<longrightarrow> i = j)"

definition owned_all :: "ui_broker \<Rightarrow> bool" where
  [wf_defs]: "owned_all b \<longleftrightarrow> (\<forall>i p. bm_get (bk_pending b) i = Some p \<longrightarrow>
     (\<exists>ids. bm_get (bk_owned b) (up_extension p) = Some ids \<and> bm_get ids i \<noteq> None))"

definition requests_ok :: "u64 set \<Rightarrow> ui_broker \<Rightarrow> bool" where
  "requests_ok S b \<longleftrightarrow> answered_once S b \<and> modal_exact b \<and> owned_all b"

definition broker_ok :: "ui_broker \<Rightarrow> bool" where
  "broker_ok b \<longleftrightarrow> requests_ok {..<bk_next b} b \<and> (bk_closed b \<longrightarrow> bk_pending b = [])"

text \<open>Whatever leaves the tables of the requests alone keeps the invariant.\<close>

lemma requests_ok_frame:
  assumes "bk_pending b' = bk_pending b" "bk_replies b' = bk_replies b" "bk_modal b' = bk_modal b"
    "bk_owned b' = bk_owned b" "requests_ok S b"
  shows "requests_ok S b'"
  using assms by (simp add: requests_ok_def wf_defs dialog_of_def)

lemma complete_unknown: "bm_get (bk_pending b) i = None \<Longrightarrow> complete_locked i r b = (False, b)"
  by (simp add: complete_locked_def)

lemma completed_simps [simp]:
  "bk_pending (completed i p r b) = bm_del i (bk_pending b)"
  "bk_replies (completed i p r b) = bk_replies b @ [(i, r)]"
  "bk_modal (completed i p r b) = (if up_modal p then bm_del (up_extension p) (bk_modal b) else bk_modal b)"
  "bk_owned (completed i p r b) = (case bm_get (bk_owned b) (up_extension p) of
        Some ids \<Rightarrow> bm_put (up_extension p) (bm_del i ids) (bk_owned b) | None \<Rightarrow> bk_owned b)"
  "bk_next (completed i p r b) = bk_next b" "bk_closed (completed i p r b) = bk_closed b"
  "bk_channel (completed i p r b) = bk_channel b" "bk_unsent (completed i p r b) = bk_unsent b"
  "bk_generation (completed i p r b) = bk_generation b"
  "bk_capabilities (completed i p r b) = bk_capabilities b"
  "bk_receivers (completed i p r b) = bk_receivers b"
  "bk_input_polls (completed i p r b) = filter (\<lambda>r. r \<noteq> i) (bk_input_polls b)"
  by (simp_all add: completed_def)

lemma complete_known:
  "bm_get (bk_pending b) i = Some p \<Longrightarrow> complete_locked i r b = (True, completed i p r b)"
  by (simp add: complete_locked_def)

lemma dialog_of_complete:
  "bk_pending b' = bm_del i (bk_pending b) \<Longrightarrow> dialog_of b' ext j \<longleftrightarrow> dialog_of b ext j \<and> j \<noteq> i"
  by (auto simp: dialog_of_def)

lemma completed_answered:
  assumes "answered_once S b" and "bm_get (bk_pending b) i = Some p"
  shows "answered_once S (completed i p r b)"
  using assms by (auto simp: answered_once_def)

lemma completed_modal:
  assumes ok: "modal_exact b" and p: "bm_get (bk_pending b) i = Some p"
  shows "modal_exact (completed i p r b)"
proof -
  have dlg: "dialog_of (completed i p r b) ext j \<longleftrightarrow> dialog_of b ext j \<and> j \<noteq> i" for ext j
    by (rule dialog_of_complete) simp
  have "bm_get (bk_modal (completed i p r b)) ext \<noteq> None \<longleftrightarrow> (\<exists>j. dialog_of b ext j \<and> j \<noteq> i)" for ext
  proof (cases "up_modal p \<and> up_extension p = ext")
    case True
    then have "dialog_of b ext i" using p by (auto simp: dialog_of_def)
    then show ?thesis using ok True by (auto simp: modal_exact_def)
  next
    case False
    then have "\<not> dialog_of b ext i" using p by (auto simp: dialog_of_def)
    then have "(\<exists>j. dialog_of b ext j \<and> j \<noteq> i) \<longleftrightarrow> (\<exists>j. dialog_of b ext j)" by metis
    moreover have "bm_get (bk_modal (completed i p r b)) ext = bm_get (bk_modal b) ext"
      using False by auto
    ultimately show ?thesis using ok by (simp add: modal_exact_def)
  qed
  then show ?thesis using ok unfolding modal_exact_def dlg by blast
qed

lemma completed_owned:
  assumes ok: "owned_all b" and p: "bm_get (bk_pending b) i = Some p"
  shows "owned_all (completed i p r b)"
  unfolding owned_all_def
proof (intro allI impI)
  fix j q assume "bm_get (bk_pending (completed i p r b)) j = Some q"
  then have j: "j \<noteq> i" "bm_get (bk_pending b) j = Some q" by (auto split: if_splits)
  then obtain ids where "bm_get (bk_owned b) (up_extension q) = Some ids" "bm_get ids j \<noteq> None"
    using ok unfolding owned_all_def by blast
  then show "\<exists>ids. bm_get (bk_owned (completed i p r b)) (up_extension q) = Some ids \<and> bm_get ids j \<noteq> None"
    using j(1) by (auto split: option.splits)
qed

lemma complete_ok: "requests_ok S b \<Longrightarrow> requests_ok S (snd (complete_locked i r b))"
  by (cases "bm_get (bk_pending b) i")
    (simp_all add: complete_unknown complete_known requests_ok_def completed_answered completed_modal
      completed_owned)

lemma broker_cancel_ok': "requests_ok S b \<Longrightarrow> requests_ok S (cancel_locked i r b)"
  by (simp add: cancel_locked_def complete_ok)

lemma cancel_ids_ok: "requests_ok S b \<Longrightarrow> requests_ok S (cancel_ids ids b)"
  by (induction ids arbitrary: b) (simp_all add: cancel_ids_def broker_cancel_ok')

lemma complete_frame [simp]:
  "bk_next (snd (complete_locked i r b)) = bk_next b" "bk_closed (snd (complete_locked i r b)) = bk_closed b"
  "bk_channel (snd (complete_locked i r b)) = bk_channel b" "bk_unsent (snd (complete_locked i r b)) = bk_unsent b"
  "bk_generation (snd (complete_locked i r b)) = bk_generation b"
  "bk_capabilities (snd (complete_locked i r b)) = bk_capabilities b"
  "bk_receivers (snd (complete_locked i r b)) = bk_receivers b"
  "bk_pending (snd (complete_locked i r b)) = bm_del i (bk_pending b)"
  by (cases "bm_get (bk_pending b) i"; simp add: complete_locked_def bm_del_None)+

lemma cancel_ids_frame [simp]:
  "bk_next (cancel_ids ids b) = bk_next b" "bk_closed (cancel_ids ids b) = bk_closed b"
  "bk_channel (cancel_ids ids b) = bk_channel b"
  "bk_pending (cancel_ids ids b) = filter (\<lambda>e. fst e \<notin> set ids) (bk_pending b)"
proof (induction ids arbitrary: b)
  case (Cons i ids)
  {
    case 1 then show ?case using Cons by (simp add: cancel_ids_def cancel_locked_def)
  next
    case 2 then show ?case using Cons by (simp add: cancel_ids_def cancel_locked_def)
  next
    case 3 then show ?case using Cons by (simp add: cancel_ids_def cancel_locked_def)
  next
    case 4 then show ?case using Cons
      by (simp add: cancel_ids_def cancel_locked_def bm_del_def conj_commute)
  }
qed (simp_all add: cancel_ids_def)

lemma keys_gone: "filter (\<lambda>e. fst e \<notin> set (map fst m)) m = []"
  by (auto simp: filter_empty_conv)

lemma close_ok:
  assumes "requests_ok S b"
  shows "requests_ok S (broker_close b)" and "bk_pending (broker_close b) = []"
    and "bk_next (broker_close b) = bk_next b" and "bk_closed (broker_close b)"
proof -
  have "requests_ok S (b\<lparr>bk_closed := True\<rparr>)"
    by (rule requests_ok_frame [OF _ _ _ _ assms]) simp_all
  then show "requests_ok S (broker_close b)" unfolding broker_close_def by (rule cancel_ids_ok)
  show "bk_pending (broker_close b) = []"
    unfolding broker_close_def cancel_ids_frame using keys_gone [of "bk_pending b"] by simp
  show "bk_next (broker_close b) = bk_next b" "bk_closed (broker_close b)"
    unfolding broker_close_def cancel_ids_frame by simp_all
qed

section \<open>Every operation keeps it\<close>

lemma add_request:
  assumes ok: "requests_ok S b" and fresh: "i \<notin> S" and free: "m \<Longrightarrow> bm_get (bk_modal b) ext = None"
    and f: "bk_pending b' = bm_put i \<lparr>up_extension = ext, up_modal = m\<rparr> (bk_pending b)"
      "bk_replies b' = bk_replies b"
      "bk_modal b' = (if m then bm_put ext () (bk_modal b) else bk_modal b)"
      "bk_owned b' = bm_put ext (bm_put i () ids) (bk_owned b)"
    and ids: "\<And>l. bm_get (bk_owned b) ext = Some l \<Longrightarrow> ids = l"
  shows "requests_ok (insert i S) b'"
proof -
  have once: "answered_once S b" and modal: "modal_exact b" and owned: "owned_all b"
    using ok by (simp_all add: requests_ok_def)
  have new: "bm_get (bk_pending b) i = None" "i \<notin> fst ` set (bk_replies b)"
    using once fresh unfolding answered_once_def by blast+
  have dlg: "dialog_of b' e j \<longleftrightarrow> dialog_of b e j \<or> (m \<and> e = ext \<and> j = i)" for e j
    using new(1) by (auto simp: dialog_of_def f(1))
  have "answered_once (insert i S) b'"
    using once new by (auto simp: answered_once_def f(1,2))
  moreover have "modal_exact b'"
  proof (cases m)
    case True
    then have none: "\<not> dialog_of b ext j" for j
      using free modal unfolding modal_exact_def by blast
    have "bm_get (bk_modal b') e \<noteq> None \<longleftrightarrow> (\<exists>j. dialog_of b' e j)" for e
      using modal True by (cases "e = ext") (auto simp: modal_exact_def f(3) dlg)
    moreover have "x = y" if "dialog_of b' e x" "dialog_of b' e y" for e x y
      using modal none that unfolding modal_exact_def dlg by blast
    ultimately show ?thesis unfolding modal_exact_def by blast
  next
    case False
    then have "dialog_of b' = dialog_of b" by (intro ext) (simp add: dlg)
    then show ?thesis using modal False by (simp add: modal_exact_def f(3))
  qed
  moreover have "owned_all b'"
    unfolding owned_all_def
  proof (intro allI impI)
    fix j q assume "bm_get (bk_pending b') j = Some q"
    then consider "j = i" "q = \<lparr>up_extension = ext, up_modal = m\<rparr>" | "bm_get (bk_pending b) j = Some q"
      by (cases "j = i") (simp_all add: f(1))
    then show "\<exists>ids. bm_get (bk_owned b') (up_extension q) = Some ids \<and> bm_get ids j \<noteq> None"
    proof cases
      case 2
      then obtain l where l: "bm_get (bk_owned b) (up_extension q) = Some l" "bm_get l j \<noteq> None"
        using owned unfolding owned_all_def by blast
      then show ?thesis using ids [of l] by (cases "up_extension q = ext") (auto simp: f(4))
    qed (simp add: f(4))
  qed
  ultimately show ?thesis by (simp add: requests_ok_def)
qed

lemma lessThan_Suc_u64:
  assumes "unat (n :: u64) + 1 < 2 ^ 64"
  shows "{..<n + 1} = insert n {..<n}"
proof -
  have "unat (n + 1) = Suc (unat n)" using assms by (simp add: unat_word_ariths)
  then have "x < n + 1 \<longleftrightarrow> x = n \<or> x < n" for x
    by (auto simp: word_less_nat_alt less_Suc_eq intro: unsigned_word_eqI)
  then show ?thesis by auto
qed

lemma supersede_ok:
  assumes "requests_ok S b"
  shows "requests_ok S (supersede ext op i b)"
proof -
  have "requests_ok S (b\<lparr>bk_coalesced := m\<rparr>)" for m
    by (rule requests_ok_frame [OF _ _ _ _ assms]) simp_all
  then show ?thesis using assms broker_cancel_ok' by (simp add: supersede_def Let_def split: option.split)
qed

text \<open>A registered request is the next one; the tables it enters are those after the cancellation of
  the request that it replaces.\<close>

lemma register_cases:
  obtains (closed) "bk_closed b" "register_request ext op dl b = (Inl BrokerClosed, b)"
  | (busy) "\<not> bk_closed b" "is_dialog op" "bm_get (bk_modal b) ext \<noteq> None"
      "register_request ext op dl b = (Inl Busy, b)"
  | (admitted) b2 r e where "\<not> bk_closed b" "\<not> (is_dialog op \<and> bm_get (bk_modal b) ext \<noteq> None)"
      "register_request ext op dl b = (Inr (bk_next b), r)" "\<And>S. requests_ok S b \<Longrightarrow> requests_ok S b2"
      "bk_closed r = bk_closed b" "bk_next r = bk_next b + 1"
      "is_dialog op \<Longrightarrow> bk_modal b2 = bk_modal b"
      "bk_pending r = bm_put (bk_next b) \<lparr>up_extension = ext, up_modal = is_dialog op\<rparr> (bk_pending b2)"
      "bk_replies r = bk_replies b2"
      "bk_modal r = (if is_dialog op then bm_put ext () (bk_modal b2) else bk_modal b2)"
      "bk_owned r = bm_put ext (bm_put (bk_next b) ()
         (case bm_get (bk_owned b2) ext of Some ids \<Rightarrow> ids | None \<Rightarrow> [])) (bk_owned b2)"
      "bk_unsent r = bk_unsent b @ [e]" "en_request e = bk_next b" "bk_channel r = bk_channel b"
proof (cases "bk_closed b \<or> is_dialog op \<and> bm_get (bk_modal b) ext \<noteq> None")
  case True
  then show thesis using closed busy by (cases "bk_closed b") (auto simp: register_request_def)
next
  case False
  show thesis
  proof (cases "is_dialog op")
    case True
    then obtain d where op: "op = Dialog d" by (cases op) simp_all
    define e where "e = \<lparr>en_version = current_version, en_extension = ext, en_request = bk_next b,
      en_generation = bk_generation b, en_deadline = dl, en_operation = Dialog d\<rparr>"
    have r: "register_request ext op dl b = (Inr (bk_next b),
        b\<lparr>bk_modal := bm_put ext () (bk_modal b), bk_next := bk_next b + 1,
           bk_pending := bm_put (bk_next b) \<lparr>up_extension = ext, up_modal = True\<rparr> (bk_pending b),
           bk_owned := bm_put ext (bm_put (bk_next b) ()
             (case bm_get (bk_owned b) ext of Some ids \<Rightarrow> ids | None \<Rightarrow> [])) (bk_owned b),
           bk_unsent := bk_unsent b @ [e]\<rparr>)"
      using False op by (simp add: register_request_def admit_def supersede_def Let_def e_def)
    show thesis
      by (rule admitted [where ?b2.0 = b and e = e, OF _ _ r]) (use False op in \<open>simp_all add: e_def\<close>)
  next
    case nd: False
    define b2 where "b2 = supersede ext op (bk_next b) (b\<lparr>bk_next := bk_next b + 1\<rparr>)"
    have fr: "bk_next b2 = bk_next b + 1" "bk_closed b2 = bk_closed b" "bk_unsent b2 = bk_unsent b"
        "bk_channel b2 = bk_channel b"
      by (simp_all add: b2_def supersede_def Let_def cancel_locked_def split: option.split)
    have ok: "requests_ok S b2" if "requests_ok S b" for S
      unfolding b2_def by (rule supersede_ok) (rule requests_ok_frame [OF _ _ _ _ that]; simp)
    define e where "e = \<lparr>en_version = current_version, en_extension = ext, en_request = bk_next b,
      en_generation = bk_generation b2, en_deadline = dl, en_operation = op\<rparr>"
    have r: "register_request ext op dl b = (Inr (bk_next b),
        b2\<lparr>bk_pending := bm_put (bk_next b) \<lparr>up_extension = ext, up_modal = False\<rparr> (bk_pending b2),
           bk_owned := bm_put ext (bm_put (bk_next b) ()
             (case bm_get (bk_owned b2) ext of Some ids \<Rightarrow> ids | None \<Rightarrow> [])) (bk_owned b2),
           bk_unsent := bk_unsent b2 @ [e]\<rparr>)"
      using False nd by (simp add: register_request_def admit_def b2_def Let_def e_def)
    show thesis
      by (rule admitted [where ?b2.0 = b2 and e = e, OF _ _ r ok]) (use False nd fr in \<open>simp_all add: e_def\<close>)
  qed
qed

lemma broker_register_ok:
  assumes ok: "broker_ok b" and room: "unat (bk_next b) + 1 < 2 ^ 64"
  shows "broker_ok (snd (register_request ext op dl b))"
proof (cases rule: register_cases [of b ext op dl])
  case (admitted b2 r e)
  have "requests_ok (insert (bk_next b) {..<bk_next b}) r"
  proof (rule add_request)
    show "requests_ok {..<bk_next b} b2" using admitted(4) ok by (simp add: broker_ok_def)
    show "bm_get (bk_modal b2) ext = None" if "is_dialog op"
      using admitted(2) that unfolding admitted(7) [OF that] by blast
  qed (use admitted in \<open>auto split: option.splits\<close>)
  then show ?thesis using admitted(1,3,5,6) lessThan_Suc_u64 [OF room] by (simp add: broker_ok_def)
qed (use ok in simp_all)

lemma frame_broker_ok:
  assumes "bk_pending b' = bk_pending b" "bk_replies b' = bk_replies b" "bk_modal b' = bk_modal b"
    "bk_owned b' = bk_owned b" "bk_next b' = bk_next b" "bk_closed b' = bk_closed b" "broker_ok b"
  shows "broker_ok b'"
  using requests_ok_frame [OF assms(1-4), of "{..<bk_next b}"] assms(1,5-7) by (simp add: broker_ok_def)

lemma complete_broker_ok:
  assumes "broker_ok b"
  shows "broker_ok (snd (complete_locked i r b))"
proof -
  have "bk_closed b \<longrightarrow> bm_del i (bk_pending b) = []" using assms by (auto simp: broker_ok_def bm_del_def)
  then show ?thesis using assms complete_ok by (simp add: broker_ok_def)
qed

lemma cancel_ids_broker_ok: "broker_ok b \<Longrightarrow> broker_ok (cancel_ids ids b)"
  by (induction ids arbitrary: b) (simp_all add: cancel_ids_def cancel_locked_def complete_broker_ok)

lemma reply_polls_ok:
  "broker_ok b \<Longrightarrow> broker_ok (snd (reply_polls ev rs b)) \<and> bk_next (snd (reply_polls ev rs b)) = bk_next b"
proof (induction rs arbitrary: b)
  case (Cons r rs)
  let ?b1 = "snd (complete_locked r (InputReply ev) (b\<lparr>bk_input_polls := rev rs\<rparr>))"
  have "broker_ok (b\<lparr>bk_input_polls := rev rs\<rparr>)"
    by (rule frame_broker_ok [OF _ _ _ _ _ _ Cons.prems]) simp_all
  then have "broker_ok ?b1" by (rule complete_broker_ok)
  moreover have "bk_next ?b1 = bk_next b" by simp
  ultimately show ?case using Cons.IH [of ?b1] by (simp add: case_prod_unfold Let_def)
qed simp

lemma send_ok:
  assumes "broker_ok b"
  shows "broker_ok (snd (send_envelope e b)) \<and> bk_next (snd (send_envelope e b)) = bk_next b"
proof -
  let ?b = "b\<lparr>bk_unsent := remove1 e (bk_unsent b)\<rparr>"
  have ok: "broker_ok ?b" by (rule frame_broker_ok [OF _ _ _ _ _ _ assms]) simp_all
  have "broker_ok (?b\<lparr>bk_channel := bk_channel b @ [e]\<rparr>)"
    by (rule frame_broker_ok [OF _ _ _ _ _ _ ok]) simp_all
  then show ?thesis using complete_broker_ok [OF ok]
    by (simp add: send_envelope_def Let_def cancel_locked_def)
qed

lemma close_broker_ok:
  assumes "broker_ok b"
  shows "broker_ok (broker_close b)"
  using close_ok [of "{..<bk_next b}" b] assms by (simp add: broker_ok_def)

text \<open>What concerns neither the tables of requests nor their counter.\<close>

definition same_requests :: "ui_broker \<Rightarrow> ui_broker \<Rightarrow> bool" where
  "same_requests b b' \<longleftrightarrow> bk_pending b' = bk_pending b \<and> bk_replies b' = bk_replies b \<and>
     bk_modal b' = bk_modal b \<and> bk_owned b' = bk_owned b \<and> bk_next b' = bk_next b \<and>
     bk_closed b' = bk_closed b"

lemma notify_same: "same_requests b (notify ext n b)"
  by (simp add: same_requests_def notify_def Let_def)

lemma quiet_steps:
  "same_requests b (snd (broker_recv b))" "same_requests b (snd (take_notification b))"
  "same_requests b (snd (queue_input_poll i b))" "same_requests b (subscribe_raw_input i c b)"
  "same_requests b (deliver_raw_input t b)" "same_requests b (snd (take_diagnostic b))"
  "same_requests b (invalidate_handles b)" "same_requests b (subscribe_input b)"
  by (simp_all add: same_requests_def broker_recv_def take_notification_def queue_input_poll_def
      subscribe_raw_input_def deliver_raw_input_def take_diagnostic_def invalidate_handles_def
      subscribe_input_def Let_def split: list.split)

lemma same_requests_ok: "same_requests b b' \<Longrightarrow> broker_ok b \<Longrightarrow> broker_ok b' \<and> bk_next b' = bk_next b"
  using frame_broker_ok [of b' b] by (simp add: same_requests_def)

lemma broker_step_ok:
  assumes ok: "broker_ok b" and room: "unat (bk_next b) + 1 < 2 ^ 64"
  shows "broker_ok (broker_step op b) \<and>
    (bk_next (broker_step op b) = bk_next b \<or> bk_next (broker_step op b) = bk_next b + 1)"
proof (cases op)
  case (Register ext op' dl)
  have "bk_next (snd (register_request ext op' dl b)) = bk_next b \<or>
      bk_next (snd (register_request ext op' dl b)) = bk_next b + 1"
    by (cases rule: register_cases [of b ext op' dl]) simp_all
  then show ?thesis using Register broker_register_ok [OF ok room] by simp
next
  case (Send e)
  then show ?thesis using send_ok [OF ok, of e] ok by simp
next
  case (CancelRequest i)
  then show ?thesis using complete_broker_ok [OF ok] by (simp add: broker_cancel_def cancel_locked_def)
next
  case (Unload ext)
  then show ?thesis using cancel_ids_broker_ok [OF ok] by (simp add: broker_unload_def cancel_extension_def)
next
  case CloseBroker
  then show ?thesis using close_broker_ok [OF ok] close_ok(3) ok by (auto simp: broker_ok_def)
next
  case (Reply i r)
  then show ?thesis using complete_broker_ok [OF ok] by (simp add: broker_reply_def)
next
  case (ReplyInput ev)
  then show ?thesis using reply_polls_ok [OF ok] by (simp add: reply_input_def)
next
  case DropServer
  have "broker_ok (drop_server b)" unfolding drop_server_def
    by (rule frame_broker_ok [OF _ _ _ _ _ _ close_broker_ok [OF ok]]) simp_all
  then show ?thesis using DropServer close_ok(3) ok by (auto simp: broker_ok_def drop_server_def)
next
  case (NotifyUser ext n)
  then show ?thesis using same_requests_ok [OF notify_same ok] by simp
qed (use same_requests_ok [OF quiet_steps(1) ok] same_requests_ok [OF quiet_steps(2) ok]
      same_requests_ok [OF quiet_steps(3) ok] same_requests_ok [OF quiet_steps(4) ok]
      same_requests_ok [OF quiet_steps(5) ok] same_requests_ok [OF quiet_steps(6) ok]
      same_requests_ok [OF quiet_steps(7) ok] same_requests_ok [OF quiet_steps(8) ok] in simp_all)

lemma broker_run_ok:
  "broker_ok b \<Longrightarrow> unat (bk_next b) + length ops < 2 ^ 64 \<Longrightarrow> broker_ok (broker_run ops b)"
proof (induction ops arbitrary: b)
  case (Cons op ops)
  have room: "unat (bk_next b) + 1 < 2 ^ 64" using Cons.prems(2) by simp
  note step = broker_step_ok [OF Cons.prems(1) room, of op]
  have "unat (bk_next b + 1) \<le> unat (bk_next b) + 1" by (simp add: unat_word_ariths)
  then have "unat (bk_next (broker_step op b)) + length ops < 2 ^ 64" using step Cons.prems(2) by auto
  then show ?case using Cons.IH step by (simp add: broker_run_def)
qed (simp add: broker_run_def)

lemma broker_new_ok: "broker_ok (broker_new c)"
  by (auto simp: broker_new_def broker_ok_def requests_ok_def wf_defs dialog_of_def)

text \<open>C22 (safety): every request of an extension is answered at most once, and none is forgotten. Over every
  interleaving of callers, the interface, deadlines, cancellations, unloading and closing, each
  identifier issued is either still pending or has exactly one reply in the log, replies go only to
  issued requests, and once the broker is closed every request has been answered. The counter of
  requests must not wrap.\<close>

theorem requests_answered_once:
  assumes "length ops < 2 ^ 64"
  shows "let b = broker_run ops (broker_new c) in
    distinct (map fst (bk_replies b)) \<and>
    (\<forall>i. i < bk_next b \<longleftrightarrow> bm_get (bk_pending b) i \<noteq> None \<or> i \<in> fst ` set (bk_replies b)) \<and>
    (\<forall>i \<in> fst ` set (bk_replies b). bm_get (bk_pending b) i = None) \<and>
    (bk_closed b \<longrightarrow> (\<forall>i. i < bk_next b \<longleftrightarrow> i \<in> fst ` set (bk_replies b)))"
proof -
  let ?b = "broker_run ops (broker_new c)"
  have "broker_ok ?b"
    by (rule broker_run_ok [OF broker_new_ok]) (use assms in \<open>simp add: broker_new_def\<close>)
  then show ?thesis by (auto simp: broker_ok_def requests_ok_def answered_once_def Let_def)
qed

definition two_themes :: "broker_op list" where
  "two_themes = [Register ''x'' (Theme 1) None, Register ''x'' (Theme 2) None, CloseBroker]"

lemmas broker_eval = broker_run_def broker_new_def register_request_def admit_def supersede_def
  cancel_locked_def complete_locked_def completed_def broker_close_def cancel_ids_def bm_del_def Let_def

lemma requests_answered_once_witness:
  "map fst (bk_replies (broker_run two_themes (broker_new default_capabilities))) = [0, 1] \<and>
   distinct (map fst (bk_replies (broker_run two_themes (broker_new default_capabilities))))"
proof -
  have "map fst (bk_replies (broker_run two_themes (broker_new default_capabilities))) = [0, 1]"
    by (simp add: two_themes_def broker_eval)
  moreover have "length two_themes < 2 ^ 64" by (simp add: two_themes_def)
  from requests_answered_once [OF this, of default_capabilities]
  have "distinct (map fst (bk_replies (broker_run two_themes (broker_new default_capabilities))))"
    by (simp add: Let_def)
  ultimately show ?thesis by blast
qed

text \<open>C25 (invariant): an extension has at most one dialog open at a time. A second dialog request is refused
  as busy exactly while the first is pending, so a dialog that was answered, cancelled, timed out,
  or whose envelope could not be sent never blocks the next; and unloading an extension cancels
  everything it has pending.\<close>

theorem one_dialog_per_extension:
  assumes "length ops < 2 ^ 64"
  shows "let b = broker_run ops (broker_new c) in
    (\<forall>i j. dialog_of b ext i \<and> dialog_of b ext j \<longrightarrow> i = j) \<and>
    (fst (register_request ext (Dialog d) dl b) = Inl Busy \<longleftrightarrow> (\<exists>i. dialog_of b ext i)) \<and>
    (\<forall>i p. bm_get (bk_pending (broker_unload ext b)) i = Some p \<longrightarrow> up_extension p \<noteq> ext)"
proof -
  let ?b = "broker_run ops (broker_new c)"
  have ok: "broker_ok ?b"
    by (rule broker_run_ok [OF broker_new_ok]) (use assms in \<open>simp add: broker_new_def\<close>)
  then have modal: "modal_exact ?b" and owned: "owned_all ?b"
    by (simp_all add: broker_ok_def requests_ok_def)
  have "fst (register_request ext (Dialog d) dl ?b) = Inl Busy \<longleftrightarrow>
      \<not> bk_closed ?b \<and> bm_get (bk_modal ?b) ext \<noteq> None"
    by (simp add: register_request_def Let_def case_prod_unfold)
  moreover have "\<not> dialog_of ?b ext i" if "bk_closed ?b" for i
    using that ok by (simp add: broker_ok_def dialog_of_def)
  moreover have "bm_get (bk_modal ?b) ext \<noteq> None \<longleftrightarrow> (\<exists>i. dialog_of ?b ext i)"
    using modal unfolding modal_exact_def by blast
  moreover have "up_extension p \<noteq> ext" if p: "bm_get (bk_pending (broker_unload ext ?b)) i = Some p" for i p
  proof
    assume e: "up_extension p = ext"
    let ?ids = "case bm_get (bk_owned ?b) ext of Some ids \<Rightarrow> map fst ids | None \<Rightarrow> []"
    have "bm_ok (bk_pending ?b)" using ok by (simp add: broker_ok_def requests_ok_def answered_once_def)
    moreover have "(i, p) \<in> set (filter (\<lambda>e. fst e \<notin> set ?ids) (bk_pending ?b))"
      using map_of_SomeD [OF p] by (simp add: broker_unload_def cancel_extension_def)
    ultimately have "bm_get (bk_pending ?b) i = Some p" and no: "i \<notin> set ?ids" by (auto simp: bm_get_in)
    then obtain ids where "bm_get (bk_owned ?b) ext = Some ids" "bm_get ids i \<noteq> None"
      using owned e unfolding owned_all_def by blast
    then show False using no by (simp add: bm_get_None)
  qed
  moreover have "i = j" if "dialog_of ?b ext i" "dialog_of ?b ext j" for i j
    using modal that unfolding modal_exact_def by blast
  ultimately show ?thesis unfolding Let_def by blast
qed

lemma one_dialog_per_extension_witness:
  "let b = broker_run [Register ''x'' (Dialog (ConfirmDialog ''t'' ''m'')) None] (broker_new default_capabilities)
   in fst (register_request ''x'' (Dialog (ConfirmDialog ''t'' ''m'')) None b) = Inl Busy"
proof -
  let ?ops = "[Register ''x'' (Dialog (ConfirmDialog ''t'' ''m'')) None]"
  have "dialog_of (broker_run ?ops (broker_new default_capabilities)) ''x'' 0"
    by (simp add: broker_eval dialog_of_def)
  then show ?thesis
    using one_dialog_per_extension [of ?ops default_capabilities "''x''" "ConfirmDialog ''t'' ''m''" None]
    by (auto simp: Let_def)
qed

end
