(* ===== verification/Ui_Safety.thy ===== *)
theory Ui_Safety
  imports Ui_Reducer
begin

text \<open>
  The reducer of the terminal interface never panics: the cursors stay inside their texts, the
  selection inside its options, the notifications within their limit, whatever the events.
\<close>

section \<open>The invariant\<close>

definition dialog_ok :: "pending_dialog \<Rightarrow> bool" where
  [wf_defs]: "dialog_ok d \<longleftrightarrow> editor_ok (pd_text d) (pd_cursor d) \<and>
     (case pd_dialog d of SelectDialog _ options \<Rightarrow> pd_selected d \<le> length options - 1 | _ \<Rightarrow> True)"

definition ui_ok :: "ui_state \<Rightarrow> bool" where
  [wf_defs]: "ui_ok u \<longleftrightarrow> pred_option dialog_ok (ui_dialog u) \<and>
     length (ui_notifications u) \<le> notification_limit \<and>
     bm_ok (ui_contributions u) \<and> bm_ok (ui_frames u) \<and> bm_ok (ui_keybindings u)"

definition app_ok :: "app_state \<Rightarrow> bool" where
  [wf_defs]: "app_ok a \<longleftrightarrow> editor_ok (as_editor a) (as_cursor a) \<and> as_scroll a \<le> 65535 \<and>
     bm_ok (as_tools a) \<and> ui_ok (as_ui a)"

lemma app_new_ok [simp]: "app_ok (app_new messages status)"
  by (simp add: app_new_def ui_default_def wf_defs)

section \<open>Session events and editing\<close>

lemma map_tools_ok: "bm_ok m \<Longrightarrow> bm_ok (map (\<lambda>(k, t). (k, f t)) m)"
  by (simp add: bm_ok_def comp_def case_prod_beta)

lemma update_tool_ok: "app_ok a \<Longrightarrow> app_ok (update_tool i f a)"
  by (auto simp: update_tool_def app_ok_def split: option.splits)

lemma reduce_delta_frame [simp]:
  "as_editor (reduce_delta d a) = as_editor a" "as_cursor (reduce_delta d a) = as_cursor a"
  "as_scroll (reduce_delta d a) = as_scroll a" "as_tools (reduce_delta d a) = as_tools a"
  "as_ui (reduce_delta d a) = as_ui a" "as_messages (reduce_delta d a) = as_messages a"
  by (cases d; simp)+

lemma reduce_session_ok:
  assumes "app_ok a"
  shows "app_ok (reduce_session ev a)"
proof (cases ev)
  case (SessionFatal e)
  then show ?thesis using assms map_tools_ok [of "as_tools a" interrupt_tool] by (simp add: app_ok_def)
next
  case (ToolExecutionUpdate i v)
  then show ?thesis using assms update_tool_ok by simp
next
  case (ToolExecutionEnd i n v e)
  then show ?thesis using assms update_tool_ok by simp
qed (use assms in \<open>auto simp: app_ok_def clear_partial_def Let_def split: message.splits\<close>)

lemma app_insert_text_ok: "app_ok a \<Longrightarrow> app_ok (app_insert_text t a)"
  by (auto simp: app_insert_text_def insert_text_def editor_ok_def app_ok_def)

lemma app_backspace_ok:
  assumes "app_ok a"
  obtains a' where "app_backspace a = Some a'" "app_ok a'"
proof -
  obtain t c where "backspace (as_editor a) (as_cursor a) = Some (t, c)" "editor_ok t c"
    using backspace_ok [of "as_editor a" "as_cursor a"] assms by (auto simp: app_ok_def)
  then show thesis using that assms by (auto simp: app_backspace_def app_ok_def)
qed

lemma app_move_vertical_ok:
  assumes "app_ok a"
  obtains a' where "app_move_vertical dir a = Some a'" "app_ok a'"
proof -
  obtain c where "move_vertical (as_editor a) (as_cursor a) dir = Some c" "editor_ok (as_editor a) c"
    using move_vertical_ok [of "as_editor a" "as_cursor a"] assms by (auto simp: app_ok_def)
  then show thesis using that assms by (auto simp: app_move_vertical_def app_ok_def)
qed

lemma app_simple_ok:
  assumes "app_ok a"
  shows "app_ok (app_insert c a)" "app_ok (app_delete a)" "app_ok (scroll_up n a)"
    "app_ok (scroll_down n a)" "app_ok (snd (take_editor a))"
    "app_ok (a\<lparr>as_cursor := as_cursor a - 1\<rparr>)" "app_ok (a\<lparr>as_cursor := 0\<rparr>)"
    "app_ok (a\<lparr>as_cursor := length (as_editor a)\<rparr>)"
    "app_ok (a\<lparr>as_cursor := min (as_cursor a + 1) (length (as_editor a))\<rparr>)"
  using assms app_insert_text_ok [OF assms, of "[c]"] delete_ok [of "as_editor a" "as_cursor a"]
  by (auto simp: app_ok_def app_insert_def app_delete_def scroll_up_def scroll_down_def
      take_editor_def editor_ok_def)

section \<open>Requests\<close>

lemma open_dialog_ok: "dialog_ok (open_dialog r d)"
  by (cases d) (simp_all add: open_dialog_def wf_defs)

lemma bind_keys_frame:
  "ui_ok u \<Longrightarrow> ui_ok (bind_keys es seen u)"
proof (induction es seen u rule: bind_keys.induct)
  case (2 command key entries seen u)
  then show ?case by (auto simp: Let_def ui_ok_def split: option.splits)
qed simp

lemma ui_operation_ok:
  assumes "app_ok a"
  shows "app_ok (fst (ui_operation_step ext r op a))"
proof (cases op)
  case (Keybindings es)
  then show ?thesis using assms bind_keys_frame
    by (auto simp: ui_ok_def app_ok_def)
next
  case (Dialog d)
  then show ?thesis using assms open_dialog_ok by (auto simp: ui_ok_def app_ok_def)
next
  case (Notify n)
  then show ?thesis using assms
    by (auto simp: ui_ok_def add_notification_def Let_def notification_limit_def app_ok_def)
next
  case (Contribution c)
  then show ?thesis using assms by (cases c) (auto simp: ui_ok_def put_contribution_def app_ok_def)
next
  case (EditorOp t)
  then show ?thesis using assms by (cases t) (auto simp: editor_ok_def app_ok_def)
next
  case (Paste t)
  then show ?thesis using assms app_insert_text_ok by simp
next
  case (Overlay i g action)
  then show ?thesis using assms by (auto simp: ui_ok_def app_ok_def split: option.splits)
qed (use assms in \<open>auto simp: ui_ok_def put_contribution_def app_ok_def\<close>)

lemma reduce_ui_ok: "app_ok a \<Longrightarrow> app_ok (fst (reduce_ui e a))"
  using ui_operation_ok by (auto simp: reduce_ui_def Let_def split: prod.splits) (metis fst_conv)

section \<open>Input\<close>

lemma dialog_insert_ok: "dialog_ok d \<Longrightarrow> dialog_ok (dialog_insert t d)"
  by (auto simp: dialog_insert_def insert_text_def wf_defs split: dialog_request.splits)

lemma select_key_ok:
  "dialog_ok d \<Longrightarrow> pd_dialog d = SelectDialog t options \<Longrightarrow> dialog_ok (fst (select_key c options d))"
  by (cases c) (auto simp: wf_defs)

lemma text_key_ok:
  assumes "dialog_ok d" and "\<And>t os. pd_dialog d \<noteq> SelectDialog t os"
  obtains d' r where "text_key e k d = Some (d', r)" "dialog_ok d'"
proof -
  have ed: "editor_ok (pd_text d) (pd_cursor d)" using assms by (simp add: dialog_ok_def)
  obtain t c where b: "backspace (pd_text d) (pd_cursor d) = Some (t, c)" "editor_ok t c"
    using backspace_ok [OF ed] .
  obtain c1 where up: "move_vertical (pd_text d) (pd_cursor d) (- 1) = Some c1" "editor_ok (pd_text d) c1"
    using move_vertical_ok [OF ed] .
  obtain c2 where down: "move_vertical (pd_text d) (pd_cursor d) 1 = Some c2" "editor_ok (pd_text d) c2"
    using move_vertical_ok [OF ed] .
  have other: "dialog_ok (d\<lparr>pd_text := t', pd_cursor := c'\<rparr>)" if "editor_ok t' c'" for t' c'
    using that assms(2) by (auto simp: dialog_ok_def split: dialog_request.splits)
  have cur: "dialog_ok (d\<lparr>pd_cursor := c'\<rparr>)" if "editor_ok (pd_text d) c'" for c'
    using that assms(2) by (auto simp: dialog_ok_def split: dialog_request.splits)
  have del: "dialog_ok (d\<lparr>pd_text := delete (pd_text d) (pd_cursor d)\<rparr>)"
    using delete_ok [OF ed] assms(2) by (auto simp: dialog_ok_def split: dialog_request.splits)
  show thesis
    by (rule that [of "fst (the (text_key e k d))" "snd (the (text_key e k d))"];
        use b up down ed other cur del assms(1) dialog_insert_ok in
          \<open>cases "ke_code k"; simp add: text_key_def editor_ok_def\<close>)
qed

lemma handle_dialog_ok:
  assumes "dialog_ok d"
  obtains d' r where "handle_dialog ev d = Some (d', r)" "dialog_ok d'"
proof (cases ev)
  case (Key k)
  show thesis
  proof (cases "ke_kind k = Release \<or> ke_code k = Esc")
    case True
    then have "\<exists>r. handle_dialog ev d = Some (d, r)" using Key by (auto simp: handle_dialog_def)
    then show thesis using that assms by blast
  next
    case no: False
    then have h: "handle_dialog ev d = (case pd_dialog d of
          SelectDialog _ options \<Rightarrow> Some (select_key (ke_code k) options d)
        | ConfirmDialog _ _ \<Rightarrow> Some (d, confirm_key (ke_code k))
        | InputDialog _ _ \<Rightarrow> text_key False k d
        | EditorDialog _ _ \<Rightarrow> text_key True k d)"
      using Key by (simp add: handle_dialog_def)
    show thesis
    proof (cases "pd_dialog d")
      case (SelectDialog t os)
      then show thesis using that select_key_ok [OF assms SelectDialog] h
        by (metis dialog_request.case(1) prod.collapse)
    next
      case (ConfirmDialog t m)
      then show thesis using that assms h by simp
    next
      case (InputDialog t m)
      then show thesis using that text_key_ok [OF assms, of False k] h by (metis dialog_request.simps)
    next
      case (EditorDialog t m)
      then show thesis using that text_key_ok [OF assms, of True k] h by (metis dialog_request.simps)
    qed
  qed
qed (use that assms dialog_insert_ok in \<open>simp_all add: handle_dialog_def\<close>)

lemma command_effect_ok: "app_ok a \<Longrightarrow> app_ok (fst (command_effect c a))"
  by (simp add: command_effect_def app_simple_ok)

lemma reduce_key_ok:
  assumes "app_ok a"
  shows "\<exists>a' effs. reduce_key e a = Some (a', effs) \<and> app_ok a'"
proof -
  obtain b where b: "app_backspace a = Some b" "app_ok b" using app_backspace_ok [OF assms] .
  obtain u where u: "app_move_vertical (- 1) a = Some u" "app_ok u" using app_move_vertical_ok [OF assms] .
  obtain d where d: "app_move_vertical 1 a = Some d" "app_ok d" using app_move_vertical_ok [OF assms] .
  note ok = app_simple_ok [OF assms]
  show ?thesis using ok assms b u d ok(5)
    by (cases "ke_code e"; cases "take_editor a") (auto simp: reduce_key_def split: option.splits)
qed

lemma reduce_plain_ok:
  assumes "app_ok a"
  shows "\<exists>a' effs. reduce_plain ev a = Some (a', effs) \<and> app_ok a'"
proof (cases ev)
  case (Key e)
  then show ?thesis using assms reduce_key_ok by auto
next
  case (Mouse e)
  then show ?thesis using assms app_simple_ok(3,4) [OF assms] by (cases "me_kind e") simp_all
qed (use assms app_insert_text_ok in \<open>auto simp: ui_ok_def app_ok_def\<close>)

lemma reduce_input_ok:
  assumes "app_ok a"
  shows "\<exists>a' effs. reduce_input ev a = Some (a', effs) \<and> app_ok a'"
proof (cases "ui_dialog (as_ui a)")
  case (Some d)
  then have "dialog_ok d" using assms by (auto simp: ui_ok_def app_ok_def)
  then obtain d' r where h: "handle_dialog ev d = Some (d', r)" "dialog_ok d'"
    using handle_dialog_ok by blast
  then show ?thesis using assms Some
    by (cases r) (auto simp: reduce_input_def ui_ok_def app_ok_def)
next
  case None
  have ov: "app_ok (in_ui (\<lambda>u. u\<lparr>ui_overlays := os\<rparr>) a)" for os
    using assms by (auto simp: ui_ok_def app_ok_def)
  then show ?thesis using None assms reduce_plain_ok [OF assms, of ev] command_effect_ok [OF assms]
    by (auto simp: reduce_input_def split: option.splits) (metis prod.collapse)+
qed

lemma reduce_ok:
  assumes "app_ok a"
  shows "\<exists>a' effs. reduce ev a = Some (a', effs) \<and> app_ok a'"
proof (cases ev)
  case (UiEv e)
  then show ?thesis using assms reduce_ui_ok by (metis prod.collapse reduce.simps(3))
next
  case (SessionEv e)
  then show ?thesis using assms reduce_session_ok by simp
next
  case (InputEv e)
  then show ?thesis using assms reduce_input_ok by simp
qed (use assms in \<open>auto simp: app_ok_def\<close>)

lemma reduce_all_ok: "app_ok a \<Longrightarrow> \<exists>a' effs. reduce_all evs a = Some (a', effs) \<and> app_ok a'"
proof (induction evs arbitrary: a)
  case (Cons ev evs)
  obtain a1 effs where a1: "reduce ev a = Some (a1, effs)" "app_ok a1" using reduce_ok [OF Cons.prems] by blast
  obtain a2 effs2 where "reduce_all evs a1 = Some (a2, effs2)" "app_ok a2" using Cons.IH [OF a1(2)] by blast
  then show ?case using a1 by simp
qed simp

text \<open>C24 (type): the reducer never panics. Whatever session events, keys, pastes, mouse events and
  extension requests arrive, in whatever order, every reduction returns; afterwards the cursors of
  the editor and of an open dialog are inside their texts, the selection is inside its options, at
  most 32 notifications are kept, the scroll position fits its 16 bits and the maps are ordered.\<close>

theorem reducer_never_panics:
  "\<exists>a effs. reduce_all evs (app_new messages status) = Some (a, effs) \<and> app_ok a"
  by (rule reduce_all_ok) simp

section \<open>Dialogs are modal\<close>

lemma dialog_modal:
  assumes "ui_dialog (as_ui a) = Some d" and "reduce_input ev a = Some (a', effs)"
  shows "a' = in_ui (\<lambda>u. u\<lparr>ui_dialog := ui_dialog (as_ui a')\<rparr>) a \<and>
    (if ui_dialog (as_ui a') = None
     then \<exists>r. effs = [UiReplyEff (pd_request d) (DialogReply r)]
     else effs = [] \<and> (\<exists>d'. ui_dialog (as_ui a') = Some d' \<and> pd_request d' = pd_request d \<and>
       pd_dialog d' = pd_dialog d))"
proof -
  obtain d' r where h: "handle_dialog ev d = Some (d', r)" using assms by (auto simp: reduce_input_def)
  have "pd_request d' = pd_request d \<and> pd_dialog d' = pd_dialog d"
  proof (cases ev)
    case (Key k)
    then show ?thesis using h
      by (cases "ke_code k"; cases "pd_dialog d")
        (auto simp: handle_dialog_def text_key_def dialog_insert_def insert_text_def split: if_splits)
  qed (use h in \<open>auto simp: handle_dialog_def dialog_insert_def insert_text_def\<close>)
  then show ?thesis using assms h by (cases r) (auto simp: reduce_input_def)
qed

text \<open>An open dialog takes all input. Nothing but the dialog changes, no command reaches the
  session, and the only effect is the reply to the dialog's own request, exactly when it closes.\<close>

theorem dialogs_are_modal:
  assumes "ui_dialog (as_ui a) = Some d" and "reduce_input ev a = Some (a', effs)"
  shows "a' = in_ui (\<lambda>u. u\<lparr>ui_dialog := ui_dialog (as_ui a')\<rparr>) a \<and>
    (if ui_dialog (as_ui a') = None
     then \<exists>r. effs = [UiReplyEff (pd_request d) (DialogReply r)]
     else effs = [] \<and> (\<exists>d'. ui_dialog (as_ui a') = Some d' \<and> pd_request d' = pd_request d \<and>
       pd_dialog d' = pd_dialog d))"
  by (rule dialog_modal [OF assms])

definition asking :: app_state where
  "asking = fst (reduce_ui \<lparr>en_version = current_version, en_extension = ''x'', en_request = 7,
     en_generation = 0, en_deadline = None, en_operation = Dialog (ConfirmDialog ''t'' ''m'')\<rparr>
     (app_new [] Idle))"

lemma dialogs_are_modal_witness:
  "\<exists>a' r. reduce_input (Key \<lparr>ke_code = Esc, ke_modifiers = \<lparr>md_ctrl = False, md_alt = False, md_shift = False\<rparr>,
      ke_kind = Press\<rparr>) asking = Some (a', [UiReplyEff 7 (DialogReply r)]) \<and> ui_dialog (as_ui a') = None"
proof -
  let ?ev = "Key \<lparr>ke_code = Esc, ke_modifiers = \<lparr>md_ctrl = False, md_alt = False, md_shift = False\<rparr>,
      ke_kind = Press\<rparr>"
  have d: "ui_dialog (as_ui asking) = Some (open_dialog 7 (ConfirmDialog ''t'' ''m''))"
    by (simp add: asking_def reduce_ui_def)
  obtain a' effs where r: "reduce_input ?ev asking = Some (a', effs)" "ui_dialog (as_ui a') = None"
    by (simp add: reduce_input_def d handle_dialog_def)
  from dialogs_are_modal [OF d r(1)] r show ?thesis by (auto simp: open_dialog_def)
qed

end
