(* ===== verification/Ui_Loop.thy ===== *)
theory Ui_Loop
  imports Ui_Broker Ui_Safety
begin

text \<open>
  The loop of the terminal interface (\<^verbatim>\<open>e-agent-tui/src/lib.rs\<close>:
  \<^verbatim>\<open>run_with_renderer_and_broker\<close>), the composition of the broker's server and the reducer: session
  events, input events and envelopes of extensions, one at a time, and the execution of effects
  (\<^verbatim>\<open>runner.rs\<close>). Commands to the session are collected; drawing is left out.
\<close>

section \<open>The loop\<close>

record tui =
  tl_broker :: ui_broker
  tl_app :: app_state
  tl_commands :: "ui_session_command list"
  tl_exit :: bool

fun execute_effect :: "effect \<Rightarrow> tui \<Rightarrow> tui" where
  "execute_effect (SessionEff c) s = s\<lparr>tl_commands := tl_commands s @ [c]\<rparr>"
| "execute_effect (UiReplyEff i r) s = s\<lparr>tl_broker := snd (broker_reply i r (tl_broker s))\<rparr>"
| "execute_effect (SetTitle t) s = s"
| "execute_effect ExitEff s = s\<lparr>tl_exit := True\<rparr>"

definition execute_effects :: "effect list \<Rightarrow> tui \<Rightarrow> tui" where
  "execute_effects effs s = fold execute_effect effs s"

definition take_session_event :: "agent_event \<Rightarrow> tui \<Rightarrow> tui" where
  "take_session_event ev s = s\<lparr>tl_app := reduce_session ev (tl_app s)\<rparr>"

definition take_input :: "input_event \<Rightarrow> tui \<Rightarrow> tui option" where
  "take_input ev s =
     (let (answered, b) = reply_input ev (tl_broker s); s1 = s\<lparr>tl_broker := b\<rparr>;
          consumed = (answered \<or> (ui_custom_editor (as_ui (tl_app s1)) \<noteq> None \<and> publish_input ev b))
      in if consumed then Some s1
         else map_option (\<lambda>(a, effs). execute_effects effs (s1\<lparr>tl_app := a\<rparr>))
                (reduce_input ev (tl_app s1)))"

definition is_terminal_input :: "ui_operation \<Rightarrow> bool" where
  "is_terminal_input op = (case op of TerminalInput _ _ \<Rightarrow> True | _ \<Rightarrow> False)"

definition take_envelope :: "ui_envelope \<Rightarrow> tui \<Rightarrow> tui" where
  "take_envelope e s =
     (if is_terminal_input (en_operation e)
      then s\<lparr>tl_broker := snd (queue_input_poll (en_request e) (tl_broker s))\<rparr>
      else let default = default_reply e (tl_broker s)
           in if default = Ack
              then let (a, effs) = reduce_ui e (tl_app s) in execute_effects effs (s\<lparr>tl_app := a\<rparr>)
              else s\<lparr>tl_broker := snd (broker_reply (en_request e) default (tl_broker s))\<rparr>)"

definition take_next :: "tui \<Rightarrow> tui" where
  "take_next s = (case broker_recv (tl_broker s) of
     (None, b) \<Rightarrow> s | (Some e, b) \<Rightarrow> take_envelope e (s\<lparr>tl_broker := b\<rparr>))"

datatype tui_op = NextEnvelope | Input input_event | SessionEvent agent_event

fun tui_step :: "tui_op \<Rightarrow> tui \<Rightarrow> tui option" where
  "tui_step NextEnvelope s = Some (take_next s)"
| "tui_step (Input ev) s = take_input ev s"
| "tui_step (SessionEvent ev) s = Some (take_session_event ev s)"

fun tui_run :: "tui_op list \<Rightarrow> tui \<Rightarrow> tui option" where
  "tui_run [] s = Some s"
| "tui_run (op # ops) s = Option.bind (tui_step op s) (tui_run ops)"

section \<open>Requests that are answered at once\<close>

lemma broker_reply_answers:
  assumes "bm_get (bk_pending b) i \<noteq> None"
  shows "bk_replies (snd (broker_reply i r b)) = bk_replies b @ [(i, r)] \<and>
    bm_get (bk_pending (snd (broker_reply i r b))) i = None"
  using assms by (auto simp: broker_reply_def complete_known)

lemma execute_nonreply:
  "\<forall>eff \<in> set effs. \<forall>i r. eff \<noteq> UiReplyEff i r \<Longrightarrow> tl_broker (execute_effects effs s) = tl_broker s"
proof (induction effs arbitrary: s)
  case (Cons eff effs)
  then have "tl_broker (execute_effect eff s) = tl_broker s" by (cases eff) auto
  then show ?case using Cons by (simp add: execute_effects_def)
qed (simp add: execute_effects_def)

text \<open>The operations that \<^verbatim>\<open>reduce_ui\<close> leaves without a reply.\<close>

fun deferred :: "ui_operation \<Rightarrow> bool" where
  "deferred (Dialog d) = True"
| "deferred (TerminalInput i e) = True"
| "deferred (Clipboard t) = True"
| "deferred _ = False"

lemma reduce_ui_replies:
  assumes "\<not> deferred (en_operation e)" and "default_reply e b = Ack"
  shows "\<exists>effs r. snd (reduce_ui e a) = effs @ [UiReplyEff (en_request e) r] \<and>
    (\<forall>eff \<in> set effs. \<forall>i r. eff \<noteq> UiReplyEff i r)"
proof (cases "en_operation e")
  case (Contribution c)
  then show ?thesis by (cases c) (auto simp: reduce_ui_def)
next
  case (EditorOp t)
  then show ?thesis by (cases t) (auto simp: reduce_ui_def)
next
  case (Overlay i g act)
  then show ?thesis by (auto simp: reduce_ui_def split: option.split)
qed (use assms in \<open>auto simp: reduce_ui_def default_reply_def split: if_splits\<close>)

text \<open>The interface answers at once. When it takes the envelope of a pending request that is
  no dialog, no wait for input and no clipboard access, that request is answered in the same step,
  with exactly one reply: an acknowledgement, a value, or the reason why the operation is stale,
  unsupported or of another protocol version.\<close>

theorem envelope_answered:
  assumes "bk_channel (tl_broker s) = e # es"
    and "bm_get (bk_pending (tl_broker s)) (en_request e) \<noteq> None"
    and "\<not> deferred (en_operation e)"
  shows "\<exists>r. bk_replies (tl_broker (take_next s)) = bk_replies (tl_broker s) @ [(en_request e, r)] \<and>
    bm_get (bk_pending (tl_broker (take_next s))) (en_request e) = None"
proof -
  let ?b = "(tl_broker s)\<lparr>bk_channel := es\<rparr>" and ?i = "en_request e"
  let ?s = "s\<lparr>tl_broker := ?b\<rparr>"
  have tn: "take_next s = take_envelope e ?s" using assms(1) by (simp add: take_next_def broker_recv_def)
  have pend: "bm_get (bk_pending ?b) ?i \<noteq> None" using assms(2) by simp
  have nt: "\<not> is_terminal_input (en_operation e)"
    using assms(3) by (auto simp: is_terminal_input_def split: ui_operation.splits)
  show ?thesis
  proof (cases "default_reply e ?b = Ack")
    case False
    then show ?thesis using tn nt broker_reply_answers [OF pend]
      by (simp add: take_envelope_def Let_def)
  next
    case True
    obtain a effs where r: "reduce_ui e (tl_app s) = (a, effs)" by fastforce
    obtain effs' r' where e: "effs = effs' @ [UiReplyEff ?i r']"
      "\<forall>eff \<in> set effs'. \<forall>i r. eff \<noteq> UiReplyEff i r"
      using reduce_ui_replies [OF assms(3) True, of "tl_app s"] r by auto
    have "tl_broker (execute_effects effs' (?s\<lparr>tl_app := a\<rparr>)) = ?b"
      using execute_nonreply [OF e(2)] by simp
    then have "tl_broker (take_next s) = snd (broker_reply ?i r' ?b)"
      using tn nt True r e(1) by (simp add: take_envelope_def Let_def execute_effects_def)
    then show ?thesis using broker_reply_answers [OF pend, of r'] by auto
  qed
qed

text \<open>An interface whose broker has received the given operations, each of its own extension.\<close>

fun ask :: "(string \<times> ui_operation) list \<Rightarrow> ui_broker \<Rightarrow> ui_broker" where
  "ask [] b = b"
| "ask ((ext, op) # qs) b =
     (let b1 = snd (register_request ext op None b)
      in ask qs (snd (send_envelope (last (bk_unsent b1)) b1)))"

definition tui_asked :: "(string \<times> ui_operation) list \<Rightarrow> tui" where
  "tui_asked qs = \<lparr>tl_broker = ask qs (broker_new native_capabilities), tl_app = app_new [] Idle,
     tl_commands = [], tl_exit = False\<rparr>"

lemmas tui_eval = tui_asked_def send_envelope_def queue_capacity_def broker_eval

lemma envelope_answered_witness:
  "\<exists>r. bk_replies (tl_broker (take_next (tui_asked [(''x'', Theme 3)]))) = [(0, r)]"
proof -
  let ?s = "tui_asked [(''x'', Theme 3)]"
  have s: "map en_request (bk_channel (tl_broker ?s)) = [0]" "bk_replies (tl_broker ?s) = []"
    "bm_get (bk_pending (tl_broker ?s)) 0 \<noteq> None" "map en_operation (bk_channel (tl_broker ?s)) = [Theme 3]"
    by (simp_all add: tui_eval)
  then obtain e where e: "bk_channel (tl_broker ?s) = e # []" "en_request e = 0" "en_operation e = Theme 3"
    by (cases "bk_channel (tl_broker ?s)") auto
  show ?thesis using envelope_answered [OF e(1)] s e by simp
qed

section \<open>Requests that are lost\<close>

text \<open>A pending request that neither the dialog on the screen nor a wait for input belongs to, and whose
  envelope has been taken.\<close>

definition orphan :: "u64 \<Rightarrow> tui \<Rightarrow> bool" where
  "orphan i s \<longleftrightarrow> bm_get (bk_pending (tl_broker s)) i \<noteq> None \<and>
     i \<notin> set (bk_input_polls (tl_broker s)) \<and> i \<notin> en_request ` set (bk_channel (tl_broker s)) \<and>
     (\<forall>d. ui_dialog (as_ui (tl_app s)) = Some d \<longrightarrow> pd_request d \<noteq> i)"

lemma complete_keeps_orphan:
  "orphan i s \<Longrightarrow> j \<noteq> i \<Longrightarrow> orphan i (s\<lparr>tl_broker := snd (complete_locked j r (tl_broker s))\<rparr>)"
  by (cases "bm_get (bk_pending (tl_broker s)) j")
    (auto simp: orphan_def complete_unknown complete_known)

lemma execute_keeps_orphan:
  "orphan i s \<Longrightarrow> \<forall>r. UiReplyEff i r \<notin> set effs \<Longrightarrow> orphan i (execute_effects effs s)"
proof (induction effs arbitrary: s)
  case (Cons eff effs)
  have "orphan i (execute_effect eff s)"
  proof (cases eff)
    case (UiReplyEff j r)
    then show ?thesis using Cons.prems complete_keeps_orphan [of i s j r] by (auto simp: broker_reply_def)
  qed (use Cons.prems in \<open>simp_all add: orphan_def\<close>)
  then show ?case using Cons by (simp add: execute_effects_def)
qed (simp add: execute_effects_def)

lemma polls_keep_orphan:
  assumes "orphan i s" and "i \<notin> set rs"
  shows "orphan i (s\<lparr>tl_broker := snd (reply_polls ev rs (tl_broker s))\<rparr>)"
  using assms
proof (induction rs arbitrary: s)
  case (Cons r rs)
  let ?b = "(tl_broker s)\<lparr>bk_input_polls := rev rs\<rparr>"
  let ?b1 = "snd (complete_locked r (InputReply ev) ?b)"
  have "orphan i (s\<lparr>tl_broker := ?b\<rparr>)" using Cons.prems by (auto simp: orphan_def)
  then have o: "orphan i (s\<lparr>tl_broker := ?b1\<rparr>)"
    using complete_keeps_orphan [of i "s\<lparr>tl_broker := ?b\<rparr>" r "InputReply ev"] Cons.prems(2) by auto
  then show ?case using Cons.IH [OF o] Cons.prems(2) by (simp add: case_prod_unfold Let_def)
qed simp

lemma ui_dialog_reduce:
  "ui_dialog (as_ui (fst (reduce_ui e a))) = ui_dialog (as_ui a) \<or>
   (\<exists>d. ui_dialog (as_ui (fst (reduce_ui e a))) = Some (open_dialog (en_request e) d))"
proof -
  have keys: "ui_dialog (bind_keys es seen u) = ui_dialog u" for es seen u
    by (induction es seen u rule: bind_keys.induct) (auto simp: Let_def split: option.split)
  show ?thesis
  proof (cases "en_operation e")
    case (Contribution c)
    then show ?thesis by (cases c) (simp_all add: reduce_ui_def put_contribution_def)
  next
    case (EditorOp t)
    then show ?thesis by (cases t) (simp_all add: reduce_ui_def)
  next
    case (Dialog d)
    then show ?thesis by (auto simp: reduce_ui_def)
  qed (simp_all add: reduce_ui_def put_contribution_def add_notification_def app_insert_text_def
      insert_text_def keys Let_def split: option.split)
qed

lemma reduce_ui_other: "UiReplyEff i r \<in> set (snd (reduce_ui e a)) \<Longrightarrow> i = en_request e"
proof -
  have "\<forall>eff \<in> set (fst (snd (ui_operation_step ext q op a))). \<forall>i r. eff \<noteq> UiReplyEff i r" for ext q op
    by (induction ext q op a rule: ui_operation_step.induct) (auto split: option.splits)
  then show "UiReplyEff i r \<in> set (snd (reduce_ui e a)) \<Longrightarrow> i = en_request e"
    by (fastforce simp: reduce_ui_def case_prod_unfold Let_def split: option.splits)
qed

lemma envelope_keeps_orphan:
  assumes o: "orphan i s" and ne: "en_request e \<noteq> i"
  shows "orphan i (take_envelope e s)"
proof -
  have dlg: "pd_request d \<noteq> i" if "ui_dialog (as_ui (fst (reduce_ui e (tl_app s)))) = Some d" for d
  proof -
    from ui_dialog_reduce [of e "tl_app s"] that
    consider "ui_dialog (as_ui (tl_app s)) = Some d" | d' where "d = open_dialog (en_request e) d'" by auto
    then show ?thesis using o ne by cases (auto simp: orphan_def open_dialog_def Let_def)
  qed
  have "orphan i (execute_effects (snd (reduce_ui e (tl_app s))) (s\<lparr>tl_app := fst (reduce_ui e (tl_app s))\<rparr>))"
    by (rule execute_keeps_orphan) (use o dlg reduce_ui_other ne in \<open>auto simp: orphan_def\<close>)
  moreover have "orphan i (s\<lparr>tl_broker := snd (queue_input_poll (en_request e) (tl_broker s))\<rparr>)"
    using o ne by (auto simp: orphan_def queue_input_poll_def)
  ultimately show ?thesis
    using complete_keeps_orphan [OF o ne]
    by (simp add: take_envelope_def case_prod_unfold Let_def broker_reply_def)
qed

lemma app_frames [simp]:
  "as_ui (app_insert_text t a) = as_ui a" "as_ui (app_insert c a) = as_ui a"
  "as_ui (app_delete a) = as_ui a" "as_ui (scroll_up n a) = as_ui a" "as_ui (scroll_down n a) = as_ui a"
  "as_ui (snd (take_editor a)) = as_ui a"
  by (simp_all add: app_insert_def app_insert_text_def insert_text_def app_delete_def scroll_up_def
      scroll_down_def take_editor_def)

lemma reduce_key_frame:
  "reduce_key e a = Some (a', effs) \<Longrightarrow> as_ui a' = as_ui a \<and> UiReplyEff i r \<notin> set effs"
  using app_frames(6) [of a]
  by (cases "ke_code e"; cases "take_editor a")
    (auto simp: reduce_key_def app_backspace_def app_move_vertical_def split: if_splits option.splits)

lemma command_effect_frame:
  "as_ui (fst (command_effect c a)) = as_ui a \<and> UiReplyEff i r \<notin> set (snd (command_effect c a))"
  by (simp add: command_effect_def)

lemma reduce_plain_frame:
  "reduce_plain ev a = Some (a', effs) \<Longrightarrow>
   ui_dialog (as_ui a') = ui_dialog (as_ui a) \<and> UiReplyEff i r \<notin> set effs"
proof (cases ev)
  case (Key e)
  assume "reduce_plain ev a = Some (a', effs)"
  then show ?thesis using Key reduce_key_frame [of e a a' effs i r] by (auto split: if_splits)
qed (auto split: mouse_kind.splits if_splits)

lemma plain_no_dialog:
  assumes none: "ui_dialog (as_ui a) = None" and r: "reduce_input ev a = Some (a', effs)"
  shows "ui_dialog (as_ui a') = None \<and> (\<forall>i r. UiReplyEff i r \<notin> set effs)"
proof (cases "list_ex is_capturing (rev (ui_overlays (as_ui a)))")
  case True
  then show ?thesis using r none
    by (auto simp: reduce_input_def split: if_splits option.splits)
next
  case plain: False
  show ?thesis
  proof (cases "resolve_command ev a")
    case None
    then show ?thesis using r none plain reduce_plain_frame by (auto simp: reduce_input_def)
  next
    case (Some c)
    then have "command_effect c a = (a', effs)" using r none plain by (simp add: reduce_input_def)
    then show ?thesis using command_effect_frame [of c a] none by auto
  qed
qed

lemma reduce_input_dialog:
  assumes "reduce_input ev a = Some (a', effs)"
  shows "(\<forall>d'. ui_dialog (as_ui a') = Some d' \<longrightarrow>
      (\<exists>d. ui_dialog (as_ui a) = Some d \<and> pd_request d = pd_request d')) \<and>
    (\<forall>i r. UiReplyEff i r \<in> set effs \<longrightarrow> (\<exists>d. ui_dialog (as_ui a) = Some d \<and> pd_request d = i))"
proof (cases "ui_dialog (as_ui a)")
  case (Some d)
  then show ?thesis using dialog_modal [OF Some assms] by (auto split: if_splits)
next
  case None
  then show ?thesis using plain_no_dialog [OF None assms] by simp
qed

lemma input_keeps_orphan:
  assumes o: "orphan i s" and t: "take_input ev s = Some s'"
  shows "orphan i s'"
proof -
  let ?b = "snd (reply_input ev (tl_broker s))"
  have "i \<notin> set (rev (bk_input_polls (tl_broker s)))" using o by (simp add: orphan_def)
  then have o1: "orphan i (s\<lparr>tl_broker := ?b\<rparr>)"
    using polls_keep_orphan [OF o] by (simp add: reply_input_def)
  show ?thesis
  proof (cases "s' = s\<lparr>tl_broker := ?b\<rparr>")
    case False
    then obtain a effs where r: "reduce_input ev (tl_app s) = Some (a, effs)"
      and s': "s' = execute_effects effs (s\<lparr>tl_broker := ?b, tl_app := a\<rparr>)"
      using t by (auto simp: take_input_def Let_def case_prod_unfold split: if_splits)
    note d = reduce_input_dialog [OF r]
    have "orphan i (s\<lparr>tl_broker := ?b, tl_app := a\<rparr>)"
      using o1 d by (auto simp: orphan_def)
    then show ?thesis unfolding s'
      by (rule execute_keeps_orphan) (use d o in \<open>auto simp: orphan_def\<close>)
  qed (use o1 in simp)
qed

lemma step_keeps_orphan:
  assumes o: "orphan i s" and st: "tui_step op s = Some s'"
  shows "orphan i s'"
proof (cases op)
  case NextEnvelope
  show ?thesis
  proof (cases "bk_channel (tl_broker s)")
    case Nil
    then show ?thesis using NextEnvelope st o by (auto simp: take_next_def broker_recv_def)
  next
    case (Cons e es)
    let ?s = "s\<lparr>tl_broker := (tl_broker s)\<lparr>bk_channel := es\<rparr>\<rparr>"
    have "s' = take_envelope e ?s"
      using NextEnvelope st Cons by (auto simp: take_next_def broker_recv_def)
    moreover have "orphan i ?s" "en_request e \<noteq> i" using o Cons by (auto simp: orphan_def)
    ultimately show ?thesis using envelope_keeps_orphan by simp
  qed
next
  case (Input ev)
  then show ?thesis using st input_keeps_orphan [OF o] by simp
next
  case (SessionEvent ev)
  have "as_ui (reduce_session ev a) = as_ui a" for a
    by (cases ev) (auto simp: update_tool_def clear_partial_def Let_def
        split: option.split message.split)
  then show ?thesis using SessionEvent st o by (auto simp: take_session_event_def orphan_def)
qed

lemma run_keeps_orphan: "orphan i s \<Longrightarrow> tui_run ops s = Some s' \<Longrightarrow> orphan i s'"
  by (induction ops arbitrary: s) (auto simp: bind_eq_Some_conv dest: step_keeps_orphan)

lemma default_reply_channel: "default_reply e (b\<lparr>bk_channel := es\<rparr>) = default_reply e b"
  by (cases "en_operation e") (simp_all add: default_reply_def)

text \<open>C23 (error): two kinds of requests are never answered by the interface. The dialog of one extension that
  arrives while the dialog of another is on the screen takes its place, and nothing the user does
  afterwards answers the first; and a clipboard access, which the capabilities of the interface
  announce, gets no reply at all. Both stay pending whatever input, envelopes and session events
  follow, until the extension's own deadline, if it set one, or the end of the interface.\<close>

theorem lost_requests:
  assumes chan: "bk_channel (tl_broker s) = e # es"
    and ack: "default_reply e (tl_broker s) = Ack"
    and pend: "bm_get (bk_pending (tl_broker s)) i \<noteq> None"
    and polls: "i \<notin> set (bk_input_polls (tl_broker s))" and gone: "i \<notin> en_request ` set es"
    and kind: "(\<exists>d d'. en_operation e = Dialog d \<and> en_request e \<noteq> i \<and>
          ui_dialog (as_ui (tl_app s)) = Some d' \<and> pd_request d' = i) \<or>
        (\<exists>t. en_operation e = Clipboard t \<and> en_request e = i \<and>
          (\<forall>d. ui_dialog (as_ui (tl_app s)) = Some d \<longrightarrow> pd_request d \<noteq> i))"
    and run: "tui_run ops (take_next s) = Some s'"
  shows "bm_get (bk_pending (tl_broker s')) i \<noteq> None"
proof -
  let ?s = "s\<lparr>tl_broker := (tl_broker s)\<lparr>bk_channel := es\<rparr>\<rparr>"
  have tn: "take_next s = take_envelope e ?s" "default_reply e (tl_broker ?s) = Ack"
    using chan ack by (simp_all add: take_next_def broker_recv_def default_reply_channel)
  have "orphan i (take_next s)"
    using kind
  proof (elim disjE exE conjE)
    fix d d' assume op: "en_operation e = Dialog d" "en_request e \<noteq> i"
    then have "take_next s = ?s\<lparr>tl_app := in_ui (\<lambda>u. u\<lparr>ui_dialog := Some (open_dialog (en_request e) d)\<rparr>) (tl_app s)\<rparr>"
      using tn by (simp add: take_envelope_def is_terminal_input_def reduce_ui_def execute_effects_def)
    then show ?thesis using op pend polls gone by (auto simp: orphan_def open_dialog_def Let_def)
  next
    fix t assume op: "en_operation e = Clipboard t"
      "\<forall>d. ui_dialog (as_ui (tl_app s)) = Some d \<longrightarrow> pd_request d \<noteq> i"
    then have "take_next s = ?s"
      using tn by (simp add: take_envelope_def is_terminal_input_def reduce_ui_def execute_effects_def)
    then show ?thesis using op pend polls gone by (simp add: orphan_def)
  qed
  then have "orphan i s'" by (rule run_keeps_orphan [OF _ run])
  then show ?thesis unfolding orphan_def by blast
qed

definition two_dialogs :: tui where
  "two_dialogs = take_next (tui_asked [(''x'', Dialog (ConfirmDialog ''a'' ''b'')), (''y'', Dialog (ConfirmDialog ''c'' ''d''))])"

definition escape_key :: input_event where
  "escape_key = Key \<lparr>ke_code = Esc, ke_modifiers = \<lparr>md_ctrl = False, md_alt = False, md_shift = False\<rparr>, ke_kind = Press\<rparr>"

lemma two_dialogs_eval:
  "map en_request (bk_channel (tl_broker two_dialogs)) = [1]"
  "map en_operation (bk_channel (tl_broker two_dialogs)) = [Dialog (ConfirmDialog ''c'' ''d'')]"
  "map (\<lambda>e. default_reply e (tl_broker two_dialogs)) (bk_channel (tl_broker two_dialogs)) = [Ack]"
  "bm_get (bk_pending (tl_broker two_dialogs)) 0 \<noteq> None" "bk_input_polls (tl_broker two_dialogs) = []"
  "map_option pd_request (ui_dialog (as_ui (tl_app two_dialogs))) = Some 0"
  by (simp_all add: two_dialogs_def tui_eval take_next_def broker_recv_def take_envelope_def
      is_terminal_input_def default_reply_def current_version_def native_capabilities_def
      default_capabilities_def all_kinds_def supported_def support_def reduce_ui_def execute_effects_def
      app_new_def ui_default_def open_dialog_def)

lemma lost_requests_witness:
  "\<exists>s'. tui_run [] (take_next two_dialogs) = Some s' \<and> bm_get (bk_pending (tl_broker s')) 0 \<noteq> None"
proof -
  obtain e where e: "bk_channel (tl_broker two_dialogs) = e # []" "en_request e = 1"
    "en_operation e = Dialog (ConfirmDialog ''c'' ''d'')" "default_reply e (tl_broker two_dialogs) = Ack"
    using two_dialogs_eval(1,2,3) by (cases "bk_channel (tl_broker two_dialogs)") auto
  obtain d where d: "ui_dialog (as_ui (tl_app two_dialogs)) = Some d" "pd_request d = 0"
    using two_dialogs_eval(6) by auto
  have "bm_get (bk_pending (tl_broker (take_next two_dialogs))) 0 \<noteq> None"
    by (rule lost_requests [OF e(1,4) two_dialogs_eval(4), of "[]"])
      (use two_dialogs_eval(5) e d in auto)
  then show ?thesis by simp
qed

end
