(* ===== verification/Provider.thy ===== *)
theory Provider
  imports Session_Run
begin

text \<open>
  \<^verbatim>\<open>e-agent-provider-openai/src/openai/mod.rs\<close>: the request that a conversation becomes, the
  translation of the service's event stream into the stream the session reads, and the translation
  of a whole response (\<^verbatim>\<open>from_response\<close>).

  The types of the client library are the datatypes of the first section: the constructors and
  fields that the source matches on or fills in, and one constructor for the rest. The service's
  answers are arguments. A panic is \<open>None\<close>.
\<close>

section \<open>The service's data\<close>

datatype api_role = RoleUser | RoleAssistant

datatype request_item =
    EasyMessage api_role string
  | FunctionCallItem (fc_call_id: string) (fc_name: string) (fc_arguments: string)
  | CustomCallItem (cc_call_id: string) (cc_name: string) (cc_input: string) (cc_id: string)
  | FunctionOutputItem (fo_call_id: string) (fo_text: string)
  | CustomOutputItem (co_call_id: string) (co_parts: "string list")

datatype custom_format = FormatText | FormatLark string

datatype api_tool =
    FunctionToolDef string string json bool
  | CustomToolDef string string custom_format

record request =
  rq_model :: string
  rq_effort :: string
  rq_input :: "request_item list"
  rq_store :: bool
  rq_instructions :: "string option"
  rq_tools :: "api_tool list option"

datatype output_part = OutputText string | RefusalText string

datatype output_item =
    MessageOut "output_part list"
  | FunctionCallOut string string string "string option"
  | CustomCallOut string string string string
  | ReasoningOut "string list"
  | OtherOut

record api_usage =
  au_input :: u32
  au_output :: u32

datatype response_event =
    OutputTextDelta nat string
  | RefusalDelta nat string
  | ReasoningSummaryDelta nat string
  | OutputItemDone nat output_item
  | ResponseCompleted "api_usage option"
  | ResponseIncomplete "api_usage option"
  | ResponseFailed "string option"
  | ResponseError string
  | OtherResponseEvent

datatype response_status = StCompleted | StFailed | StInProgress | StCancelled | StQueued | StIncomplete

record response =
  rs_status :: response_status
  rs_error :: "string option"
  rs_incomplete :: "string option"
  rs_output :: "output_item list"
  rs_usage :: "api_usage option"

section \<open>The request\<close>

definition to_tool :: "tool_def \<Rightarrow> api_tool" where
  "to_tool t = (case td_input t of
     JsonInput parameters \<Rightarrow> FunctionToolDef (td_name t) (td_description t) parameters False
   | TextInput \<Rightarrow> CustomToolDef (td_name t) (td_description t) FormatText
   | LarkInput definition \<Rightarrow> CustomToolDef (td_name t) (td_description t) (FormatLark definition))"

definition to_input_content :: "message_content \<Rightarrow> string option" where
  "to_input_content c = (case c of TextC t \<Rightarrow> Some t | _ \<Rightarrow> None)"

text \<open>The item of a tool result.\<close>

definition result_item :: "tool_result_message \<Rightarrow> request_item" where
  "result_item r =
     (if tr_custom r
      then CustomOutputItem (tr_tool_use_id r) (List.map_filter to_input_content (tr_content r))
      else FunctionOutputItem (tr_tool_use_id r)
        (join_with [CHR 10] (List.map_filter to_input_content (tr_content r))))"

text \<open>
  The item of a tool call. The identifier of a custom call is a plain string of the service
  (\<^verbatim>\<open>item_id: Some(call.id)\<close>), so that decoding \<^verbatim>\<open>"id": null\<close> fails and \<^verbatim>\<open>expect\<close> panics.
\<close>

definition call_item ::
  "string \<Rightarrow> string \<Rightarrow> string \<Rightarrow> bool \<Rightarrow> string option \<Rightarrow> request_item option" where
  "call_item i name input custom item_id =
     (if custom then map_option (CustomCallItem i name input) item_id
      else Some (FunctionCallItem i name input))"

definition flush_text :: "api_role \<Rightarrow> string \<Rightarrow> request_item list \<Rightarrow> request_item list" where
  "flush_text r t items = (if t = [] then items else items @ [EasyMessage r t])"

text \<open>The loop over the blocks of a message, with the text collected so far.\<close>

fun block_items ::
  "api_role \<Rightarrow> string \<Rightarrow> message_content list \<Rightarrow> request_item list \<Rightarrow> request_item list option" where
  "block_items r t [] items = Some (flush_text r t items)"
| "block_items r t (TextC chunk # cs) items = block_items r (t @ chunk) cs items"
| "block_items r t (ToolUseC i name input custom item_id # cs) items =
     (case call_item i name input custom item_id of
        None \<Rightarrow> None
      | Some it \<Rightarrow> block_items r [] cs (flush_text r t items @ [it]))"
| "block_items r t (ThinkingC _ _ # cs) items = block_items r t cs items"

fun message_items :: "message list \<Rightarrow> request_item list \<Rightarrow> request_item list option" where
  "message_items [] items = Some items"
| "message_items (ToolResult r # ms) items = message_items ms (items @ [result_item r])"
| "message_items (User u # ms) items =
     (case block_items RoleUser [] (content (User u)) items of
        None \<Rightarrow> None | Some items' \<Rightarrow> message_items ms items')"
| "message_items (Assistant a # ms) items =
     (case block_items RoleAssistant [] (content (Assistant a)) items of
        None \<Rightarrow> None | Some items' \<Rightarrow> message_items ms items')"

definition to_input_items :: "message list \<Rightarrow> request_item list option" where
  "to_input_items ms = message_items ms []"

text \<open>\<^verbatim>\<open>split_once(":")\<close>, and the request; \<open>efforts\<close> is the client library's
  decoder of a reasoning effort.\<close>

definition split_once :: "char \<Rightarrow> string \<Rightarrow> (string \<times> string) option" where
  "split_once c t =
     (if c \<in> set t then Some (takeWhile (\<lambda>x. x \<noteq> c) t, tl (dropWhile (\<lambda>x. x \<noteq> c) t)) else None)"

definition openai_request ::
  "(string \<Rightarrow> (string + unit)) \<Rightarrow> string \<Rightarrow> string option \<Rightarrow> message list \<Rightarrow> tool_def list \<Rightarrow>
   (string + request) option" where
  "openai_request efforts model system_prompt ms tools =
     (let (model', effort) = (case split_once (CHR '':'') model of
                                Some p \<Rightarrow> p | None \<Rightarrow> (model, ''none''))
      in case efforts effort of
           Inl e \<Rightarrow> Some (Inl e)
         | Inr _ \<Rightarrow> map_option (\<lambda>items. Inr
             \<lparr>rq_model = model', rq_effort = effort, rq_input = items, rq_store = False,
              rq_instructions = system_prompt,
              rq_tools = (if tools = [] then None else Some (map to_tool tools))\<rparr>)
             (to_input_items ms))"

section \<open>The stream\<close>

definition usage_of :: "api_usage \<Rightarrow> usage" where
  "usage_of u = \<lparr>input_tokens = ucast (au_input u), output_tokens = ucast (au_output u)\<rparr>"

definition usage_events :: "api_usage option \<Rightarrow> provider_event list" where
  "usage_events u = (case u of None \<Rightarrow> [] | Some u \<Rightarrow> [UsageEvent (usage_of u)])"

text \<open>One event of the service: the events yielded, and the new \<^verbatim>\<open>had_content\<close> and \<^verbatim>\<open>terminal\<close>.\<close>

fun translate :: "response_event \<Rightarrow> bool \<times> bool \<Rightarrow> provider_event list \<times> bool \<times> bool" where
  "translate (OutputTextDelta i d) (had, term) = ([ContentDelta i (TextC d)], True, term)"
| "translate (RefusalDelta i d) (had, term) = ([ContentDelta i (TextC d)], True, term)"
| "translate (ReasoningSummaryDelta i d) (had, term) =
     ([ContentDelta i (ThinkingC d None)], True, term)"
| "translate (OutputItemDone i (FunctionCallOut c n a item_id)) (had, term) =
     ([ContentDelta i (ToolUseC c n a False item_id)], True, term)"
| "translate (OutputItemDone i (CustomCallOut c n inp item_id)) (had, term) =
     ([ContentDelta i (ToolUseC c n inp True (Some item_id))], True, term)"
| "translate (OutputItemDone i _) (had, term) = ([], had, term)"
| "translate (ResponseCompleted u) (had, term) = (usage_events u @ [Done Stop], had, True)"
| "translate (ResponseIncomplete u) (had, term) = (usage_events u @ [Done Length], had, True)"
| "translate (ResponseFailed e) (had, term) =
     ([ProviderError (case e of Some m \<Rightarrow> m | None \<Rightarrow> ''provider response failed'')], had, True)"
| "translate (ResponseError m) (had, term) = ([ProviderError m], had, True)"
| "translate OtherResponseEvent (had, term) = ([], had, term)"

fun stream_items ::
  "bool \<times> bool \<Rightarrow> (string + response_event) list \<Rightarrow> (string + provider_event) list" where
  "stream_items (had, term) [] = (if had \<and> \<not> term then [Inr (Done Stop)] else [])"
| "stream_items (had, term) (Inl e # evs) = (if had then [Inr (Done Stop)] else [Inl e])"
| "stream_items st (Inr ev # evs) =
     (let (out, st') = translate ev st in map Inr out @ stream_items st' evs)"

text \<open>The provider's stream: opening it at the service fails with the first item.\<close>

definition provider_stream ::
  "string + (string + response_event) list \<Rightarrow> (string + provider_event) list" where
  "provider_stream opened = (case opened of
     Inl e \<Rightarrow> [Inl e] | Inr evs \<Rightarrow> stream_items (False, False) evs)"

section \<open>A whole response\<close>





section \<open>What the request says\<close>

text \<open>
  A conversation and a request, read character by character: who says what, which tool is called
  with what, and the result items, in their order.
\<close>

datatype token =
    Said api_role char
  | Called string string string bool "string option"
  | Resulted request_item

fun item_tokens :: "request_item \<Rightarrow> token list" where
  "item_tokens (EasyMessage r t) = map (Said r) t"
| "item_tokens (FunctionCallItem i n a) = [Called i n a False None]"
| "item_tokens (CustomCallItem i n a item_id) = [Called i n a True (Some item_id)]"
| "item_tokens it = [Resulted it]"

fun content_tokens :: "api_role \<Rightarrow> message_content \<Rightarrow> token list" where
  "content_tokens r (TextC t) = map (Said r) t"
| "content_tokens r (ThinkingC _ _) = []"
| "content_tokens r (ToolUseC i n a custom item_id) =
     [Called i n a custom (if custom then item_id else None)]"

fun message_tokens :: "message \<Rightarrow> token list" where
  "message_tokens (User u) = concat (map (content_tokens RoleUser) (um_content u))"
| "message_tokens (Assistant a) = concat (map (content_tokens RoleAssistant) (am_content a))"
| "message_tokens (ToolResult r) = [Resulted (result_item r)]"

text \<open>A custom call without the service's identifier, which no request can hold.\<close>

fun lacks_id :: "message_content \<Rightarrow> bool" where
  "lacks_id (ToolUseC _ _ _ custom item_id) \<longleftrightarrow> custom \<and> item_id = None"
| "lacks_id _ \<longleftrightarrow> False"

fun spoken :: "message \<Rightarrow> message_content list" where
  "spoken (ToolResult _) = []"
| "spoken m = content m"

abbreviation tokens :: "request_item list \<Rightarrow> token list" where
  "tokens items \<equiv> concat (map item_tokens items)"

definition no_empty_text :: "request_item list \<Rightarrow> bool" where
  "no_empty_text items \<longleftrightarrow> (\<forall>r. EasyMessage r [] \<notin> set items)"

lemma flush_text_tokens [simp]:
  "tokens (flush_text r t items) = tokens items @ map (Said r) t"
  "no_empty_text (flush_text r t items) \<longleftrightarrow> no_empty_text items"
  by (auto simp: flush_text_def no_empty_text_def)

lemma call_item_cases:
  "call_item i n a custom item_id = None \<longleftrightarrow> custom \<and> item_id = None"
  "call_item i n a custom item_id = Some it \<Longrightarrow>
     item_tokens it = [Called i n a custom (if custom then item_id else None)] \<and>
     (\<forall>r t. it \<noteq> EasyMessage r t)"
  by (auto simp: call_item_def split: if_splits)

lemma block_items_tokens:
  "block_items r t cs items = Some items' \<Longrightarrow>
     tokens items' = tokens items @ map (Said r) t @ concat (map (content_tokens r) cs) \<and>
     no_empty_text items' = no_empty_text items"
proof (induction r t cs items rule: block_items.induct)
  case (3 r t i n a custom item_id cs items)
  then obtain it where it: "call_item i n a custom item_id = Some it"
    and "block_items r [] cs (flush_text r t items @ [it]) = Some items'"
    by (auto split: option.splits)
  with 3 call_item_cases(2) [OF it] show ?case
    by (auto simp: no_empty_text_def) (metis Un_iff flush_text_tokens(2) no_empty_text_def)+
qed auto

lemma block_items_None:
  "block_items r t cs items = None \<longleftrightarrow> list_ex lacks_id cs"
proof (induction r t cs items rule: block_items.induct)
  case (3 r t i n a custom item_id cs items)
  then show ?case
    by (cases "call_item i n a custom item_id") (auto simp: call_item_def split: if_splits)
qed auto

lemma result_item_plain: "result_item r \<noteq> EasyMessage role' t"
  "EasyMessage role' t \<noteq> result_item r"
  "item_tokens (result_item r) = [Resulted (result_item r)]"
  by (simp_all add: result_item_def)

lemma message_items_tokens:
  "message_items ms items = Some items' \<Longrightarrow>
     tokens items' = tokens items @ concat (map message_tokens ms) \<and>
     (no_empty_text items \<longrightarrow> no_empty_text items')"
proof (induction ms items rule: message_items.induct)
  case (2 r ms items)
  then show ?case by (simp add: result_item_plain no_empty_text_def)
qed (auto split: option.splits dest!: block_items_tokens)

lemma message_items_None:
  "message_items ms items = None \<longleftrightarrow> list_ex (\<lambda>m. list_ex lacks_id (spoken m)) ms"
proof (induction ms items rule: message_items.induct)
  case (3 u ms items)
  then show ?case
    using block_items_None [of RoleUser "[]" "um_content u" items] by (auto split: option.splits)
next
  case (4 a ms items)
  then show ?case
    using block_items_None [of RoleAssistant "[]" "am_content a" items]
    by (auto split: option.splits)
qed auto

text \<open>C21 (refinement): the request says what the conversation says. Building it panics exactly when a
  custom tool call has no identifier of the service; otherwise its items, read in order, are the
  messages in order: every character of the user and of the assistant, every tool call with its
  name, input and kind, every tool result. Only the thinking is left out, and no message item is
  empty.\<close>

theorem request_says_conversation:
  "(to_input_items ms = None \<longleftrightarrow> (\<exists>m \<in> set ms. \<exists>c \<in> set (spoken m). lacks_id c)) \<and>
   (\<forall>items. to_input_items ms = Some items \<longrightarrow>
      concat (map item_tokens items) = concat (map message_tokens ms) \<and>
      (\<forall>r. EasyMessage r [] \<notin> set items))"
  unfolding to_input_items_def message_items_None
  using message_items_tokens [of ms "[]"]
  by (auto simp: list_ex_iff no_empty_text_def)

definition sample_turn :: "message list" where
  "sample_turn =
     [User (user_text ''hi''),
      Assistant \<lparr>am_content = [ThinkingC ''hm'' None, TextC ''be'', TextC ''fore'',
          ToolUseC ''c'' ''node'' ''x'' True (Some ''ctc''), TextC ''after''],
        am_stop_reason = ToolUseStop, am_usage = None, am_error_message = None\<rparr>,
      ToolResult ((tool_result_text ''c'' ''1'')\<lparr>tr_custom := True\<rparr>)]"

definition sample_items :: "request_item list" where
  "sample_items = [EasyMessage RoleUser ''hi'', EasyMessage RoleAssistant ''before'',
     CustomCallItem ''c'' ''node'' ''x'' ''ctc'', EasyMessage RoleAssistant ''after'',
     CustomOutputItem ''c'' [''1'']]"

lemma sample_request: "to_input_items sample_turn = Some sample_items"
  by (simp add: to_input_items_def sample_turn_def sample_items_def user_text_def flush_text_def
      call_item_def result_item_def tool_result_text_def to_input_content_def
      List.map_filter_simps)

theorem request_says_conversation_witness:
  "concat (map item_tokens sample_items) = concat (map message_tokens sample_turn)"
  using request_says_conversation [of sample_turn] sample_request by simp

section \<open>The request of a restored session\<close>





lemma content_token [simp]:
  "Called i n a custom k \<in> set (content_tokens r c) \<longleftrightarrow>
     (\<exists>item_id. c = ToolUseC i n a custom item_id \<and> k = (if custom then item_id else None))"
  "Resulted out \<notin> set (content_tokens r c)"
  by (cases c; auto)+














section \<open>The stream as the session reads it\<close>

text \<open>
  An environment whose provider delivers a given list of items, whatever the rest of the host does:
  the items wait beside the host's own state. \<open>cancels\<close> says when the session's token is found
  cancelled while the session waits for an item.
\<close>

type_synonym stream_feed = "(string + provider_event) list"

definition beside :: "('w \<Rightarrow> 'a \<times> 'w) \<Rightarrow> 'w \<times> stream_feed \<Rightarrow> 'a \<times> 'w \<times> stream_feed" where
  "beside op w = (let (r, w') = op (fst w) in (r, w', snd w))"

definition feed_next ::
  "(nat \<Rightarrow> 'w \<Rightarrow> bool) \<Rightarrow> nat \<Rightarrow> 'w \<times> stream_feed \<Rightarrow>
   (string + provider_event) option selected \<times> 'w \<times> stream_feed" where
  "feed_next cancels tok w =
     (if cancels tok (fst w) then (Cancelled, w)
      else case snd w of [] \<Rightarrow> (Completed None, w)
                       | x # xs \<Rightarrow> (Completed (Some x), fst w, xs))"

definition feeding ::
  "(nat \<Rightarrow> 'w \<Rightarrow> bool) \<Rightarrow> ('w, 's) env \<Rightarrow> ('w \<times> stream_feed, 's) env" where
  "feeding cancels E =
     \<lparr>ex_tool_defs = (\<lambda>w. ex_tool_defs E (fst w)),
      ex_system_prompts = (\<lambda>w. ex_system_prompts E (fst w)),
      ex_commands = (\<lambda>w. ex_commands E (fst w)),
      ex_command = (\<lambda>n a c. beside (ex_command E n a c)),
      ex_take_host_actions = beside (ex_take_host_actions E),
      ex_observe = (\<lambda>ev c. beside (ex_observe E ev c)),
      ex_call = (\<lambda>tok n i. beside (ex_call E tok n i)),
      ex_drop_session = beside (ex_drop_session E),
      hk_input = (\<lambda>m c. beside (hk_input E m c)),
      hk_before_agent_start = (\<lambda>b c. beside (hk_before_agent_start E b c)),
      hk_context = (\<lambda>ms c. beside (hk_context E ms c)),
      hk_tool_call = (\<lambda>t c. beside (hk_tool_call E t c)),
      hk_tool_result = (\<lambda>r c. beside (hk_tool_result E r c)),
      hk_message_finalizing = (\<lambda>m c. beside (hk_message_finalizing E m c)),
      pr_stream = (\<lambda>tok model sysp ms tools. beside (pr_stream E tok model sysp ms tools)),
      pr_next = feed_next cancels,
      wall_clock = (\<lambda>w. wall_clock E (fst w)),
      label_time = label_time E, label_cwd = label_cwd E, schema_check = schema_check E,
      clients = beside (clients E),
      st_append_message = st_append_message E, st_append_custom = st_append_custom E,
      st_messages = st_messages E, st_entries = st_entries E, st_id = st_id E, st_save = st_save E\<rparr>"

abbreviation feed :: "('w \<times> stream_feed, 's) session \<Rightarrow> stream_feed" where
  "feed s \<equiv> snd (s_world s)"

lemma beside_feed [simp]: "snd (snd (beside op w)) = snd w"
  by (simp add: beside_def split_beta Let_def)

lemma client_acts_world [simp]: "s_world (fold client_act acts s) = s_world s"
proof (induction acts arbitrary: s)
  case (Cons a acts)
  have "s_world (client_act a s) = s_world s"
    by (cases a) (simp_all add: publish_def Let_def split: sum.splits)
  then show ?case using Cons by simp
qed simp

lemma call_async_feed:
  "feed (snd (call_async (feeding cancels E) op s)) = snd (snd (op (s_world s)))"
  by (simp add: call_async_def split_beta Let_def feeding_def)

lemma call_async_beside [simp]:
  "feed (snd (call_async (feeding cancels E) (beside op) s)) = feed s"
  by (simp add: call_async_feed)

lemma apply_action_list_feed [simp]:
  "feed (snd (apply_action_list E acts s)) = feed s"
proof (induction acts arbitrary: s)
  case (Cons a acts)
  have "feed (snd (apply_action E a s)) = feed s" for s
    by (cases a) (auto simp: store_custom_def enqueue_local_def split_beta Let_def
        split: sum.splits option.splits)
  then show ?case using Cons
    by (auto split: sum.splits prod.splits) (metis snd_conv)+
qed simp

lemma emit_feed [simp]: "feed (emit (feeding cancels E) ev s) = feed s"
  by (simp add: emit_def apply_actions_def hook_error_def publish_def split_beta Let_def
      feeding_def beside_def call_async_def split: sum.split)

text \<open>What reading a list of items to its first terminal item gives.\<close>

fun read_items ::
  "(nat, message_content) bmap \<Rightarrow> usage option \<Rightarrow> stream_feed \<Rightarrow> stream_result" where
  "read_items blocks u [] =
     \<lparr>sr_stop = ErrorStop, sr_error = None, sr_terminal = False, sr_blocks = blocks, sr_usage = u\<rparr>"
| "read_items blocks u (Inl e # xs) =
     \<lparr>sr_stop = ErrorStop, sr_error = Some e, sr_terminal = True, sr_blocks = blocks, sr_usage = u\<rparr>"
| "read_items blocks u (Inr (Done reason) # xs) =
     \<lparr>sr_stop = reason, sr_error = None, sr_terminal = True, sr_blocks = blocks, sr_usage = u\<rparr>"
| "read_items blocks u (Inr (ProviderError e) # xs) =
     \<lparr>sr_stop = ErrorStop, sr_error = Some e, sr_terminal = True, sr_blocks = blocks, sr_usage = u\<rparr>"
| "read_items blocks u (Inr ProviderAborted # xs) =
     \<lparr>sr_stop = Aborted, sr_error = None, sr_terminal = True, sr_blocks = blocks, sr_usage = u\<rparr>"
| "read_items blocks u (Inr (UsageEvent v) # xs) = read_items blocks (Some v) xs"
| "read_items blocks u (Inr (ContentDelta i d) # xs) = read_items (merge_delta blocks i d) u xs"

lemma call_async_next:
  assumes "\<And>w. \<not> cancels tok w"
  shows "fst (call_async (feeding cancels E) (pr_next (feeding cancels E) tok) s) =
      (case feed s of [] \<Rightarrow> Completed None | x # _ \<Rightarrow> Completed (Some x))"
    and "feed (snd (call_async (feeding cancels E) (pr_next (feeding cancels E) tok) s)) = tl (feed s)"
  using assms
  by (simp_all add: call_async_def feeding_def feed_next_def beside_def split_beta Let_def
      split: list.split)

lemma stream_loop_reads:
  assumes "\<And>w. \<not> cancels tok w" and "length (feed s) < fuel"
  shows "\<exists>s'. stream_loop (feeding cancels E) tok aid fuel blocks u s =
    Some (read_items blocks u (feed s), s')"
  using assms(2)
proof (induction fuel arbitrary: blocks u s)
  case (Suc n)
  let ?E = "feeding cancels E"
  obtain item s1 where c: "call_async ?E (pr_next ?E tok) s = (item, s1)" by fastforce
  with call_async_next [where cancels = cancels and tok = tok and E = E and s = s, OF assms(1)]
  have item: "item = (case feed s of [] \<Rightarrow> Completed None | x # _ \<Rightarrow> Completed (Some x))"
    and f1: "feed s1 = tl (feed s)" by simp_all
  show ?case
  proof (cases "feed s")
    case Nil
    with c item show ?thesis by simp
  next
    case (Cons x xs)
    then have f: "feed s1 = xs" and len: "length xs < n" using f1 Suc.prems by auto
    have IH: "\<exists>s'. stream_loop ?E tok aid n b v s2 = Some (read_items b v xs, s')"
      if "feed s2 = xs" for b v s2
      using Suc.IH [of s2] that len by auto
    show ?thesis
    proof (cases x)
      case (Inl e)
      with c item Cons show ?thesis by simp
    next
      case (Inr ev)
      with c item Cons IH [OF f] IH [of "emit ?E ev' s1" for ev'] f show ?thesis by (cases ev) simp_all
    qed
  qed
qed simp

section \<open>The answer in a stream of the service\<close>

text \<open>The reference: what a stream of the service says, up to the event that ends it.\<close>

fun content_event :: "response_event \<Rightarrow> (nat \<times> message_content) option" where
  "content_event (OutputTextDelta i d) = Some (i, TextC d)"
| "content_event (RefusalDelta i d) = Some (i, TextC d)"
| "content_event (ReasoningSummaryDelta i d) = Some (i, ThinkingC d None)"
| "content_event (OutputItemDone i (FunctionCallOut c n a k)) = Some (i, ToolUseC c n a False k)"
| "content_event (OutputItemDone i (CustomCallOut c n a k)) = Some (i, ToolUseC c n a True (Some k))"
| "content_event _ = None"

fun closing :: "string + response_event \<Rightarrow> bool" where
  "closing (Inl _) = True"
| "closing (Inr (ResponseCompleted _)) = True"
| "closing (Inr (ResponseIncomplete _)) = True"
| "closing (Inr (ResponseFailed _)) = True"
| "closing (Inr (ResponseError _)) = True"
| "closing (Inr _) = False"

definition contents :: "(string + response_event) list \<Rightarrow> (nat \<times> message_content) list" where
  "contents evs = List.map_filter (\<lambda>x. case x of Inl _ \<Rightarrow> None | Inr ev \<Rightarrow> content_event ev) evs"

definition gather :: "(nat \<times> message_content) list \<Rightarrow> (nat, message_content) bmap \<Rightarrow>
    (nat, message_content) bmap" where
  "gather cs blocks = fold (\<lambda>(i, d) bs. merge_delta bs i d) cs blocks"

text \<open>How the answer ends: stop reason, error, whether a terminal event was seen, usage.\<close>

definition closed_by ::
  "bool \<Rightarrow> (string + response_event) list \<Rightarrow> stop_reason \<times> string option \<times> bool \<times> usage option" where
  "closed_by had rest = (case rest of
     [] \<Rightarrow> if had then (Stop, None, True, None) else (ErrorStop, None, False, None)
   | Inl e # _ \<Rightarrow> if had then (Stop, None, True, None) else (ErrorStop, Some e, True, None)
   | Inr (ResponseCompleted u) # _ \<Rightarrow> (Stop, None, True, map_option usage_of u)
   | Inr (ResponseIncomplete u) # _ \<Rightarrow> (Length, None, True, map_option usage_of u)
   | Inr (ResponseFailed e) # _ \<Rightarrow>
       (ErrorStop, Some (case e of Some m \<Rightarrow> m | None \<Rightarrow> ''provider response failed''), True, None)
   | Inr (ResponseError m) # _ \<Rightarrow> (ErrorStop, Some m, True, None)
   | Inr _ # _ \<Rightarrow> (ErrorStop, None, False, None))"

definition answer_in :: "(string + response_event) list \<Rightarrow> stream_result" where
  "answer_in evs =
     (let said = takeWhile (\<lambda>x. \<not> closing x) evs;
          (stop, err, term, u) = closed_by (contents said \<noteq> []) (dropWhile (\<lambda>x. \<not> closing x) evs)
      in \<lparr>sr_stop = stop, sr_error = err, sr_terminal = term, sr_blocks = gather (contents said) [],
          sr_usage = u\<rparr>)"

lemma translate_open:
  assumes "\<not> closing (Inr ev)"
  shows "translate ev (had, False) =
    (case content_event ev of None \<Rightarrow> ([], had, False)
     | Some (i, d) \<Rightarrow> ([ContentDelta i d], True, False))"
  using assms
  by (cases ev rule: content_event.cases) auto

lemma contents_simps [simp]:
  "contents [] = []"
  "contents (Inl e # evs) = contents evs"
  "contents (Inr ev # evs) =
     (case content_event ev of None \<Rightarrow> contents evs | Some c \<Rightarrow> c # contents evs)"
  by (simp_all add: contents_def List.map_filter_simps split: option.split)

lemma gather_simps [simp]:
  "gather [] bs = bs" "gather ((i, d) # cs) bs = gather cs (merge_delta bs i d)"
  by (simp_all add: gather_def)

lemma read_stream:
  "read_items blocks None (stream_items (had, False) evs) =
     (let said = takeWhile (\<lambda>x. \<not> closing x) evs;
          (stop, err, term, u) =
            closed_by (had \<or> contents said \<noteq> []) (dropWhile (\<lambda>x. \<not> closing x) evs)
      in \<lparr>sr_stop = stop, sr_error = err, sr_terminal = term,
          sr_blocks = gather (contents said) blocks, sr_usage = u\<rparr>)"
proof (induction evs arbitrary: had blocks)
  case Nil
  show ?case by (simp add: closed_by_def)
next
  case (Cons x evs)
  show ?case
  proof (cases "closing x")
    case True
    then show ?thesis
      by (cases x rule: closing.cases)
        (auto simp: closed_by_def usage_events_def usage_of_def split: option.splits)
  next
    case False
    then obtain ev where x: "x = Inr ev" by (cases x) auto
    show ?thesis
      using Cons.IH False translate_open [of ev had] unfolding x
      by (cases "content_event ev") (auto simp: Let_def split_beta)
  qed
qed

text \<open>C17 (functional): the answer the session assembles from a stream of the service. While the token is
  not cancelled, reading the provider's stream ends, whatever observers and clients do meanwhile,
  and gives: the blocks merged from the content events before the closing event; stop, length or
  the service's error as the closing event says, with its usage; and when the stream breaks off or
  ends without a closing event, an error if nothing was said, but a regular stop if anything was.\<close>

theorem stream_answer:
  assumes "\<And>w. \<not> cancels tok w" and "feed s = provider_stream (Inr evs)"
    and "length (feed s) < fuel"
  shows "\<exists>s'. stream_loop (feeding cancels E) tok aid fuel [] None s = Some (answer_in evs, s')"
  using stream_loop_reads [where cancels = cancels and tok = tok and E = E and s = s
      and fuel = fuel and aid = aid and blocks = "[]" and u = None] assms
  by (simp add: read_stream provider_stream_def answer_in_def)

definition broken_stream :: "(string + response_event) list" where
  "broken_stream = [Inr (OutputTextDelta 0 ''half''), Inl ''connection reset'']"

definition waiting :: "stream_feed \<Rightarrow> (provider_event list \<times> stream_feed, jsonl_store) session" where
  "waiting xs = with_store ''/'' ''m'' ''p''
     \<lparr>js_id = 7, js_path = ''s'', js_messages = [], js_entries = [], js_file = None,
      js_schedule = []\<rparr> ([], xs)"

theorem stream_answer_witness:
  "\<exists>s'. stream_loop (feeding (\<lambda>_ _. False) script_env) 0 ''a'' 5 []
     None (waiting (provider_stream (Inr broken_stream))) =
   Some (\<lparr>sr_stop = Stop, sr_error = None, sr_terminal = True, sr_blocks = [(0, TextC ''half'')],
          sr_usage = None\<rparr>, s')"
proof -
  let ?s = "waiting (provider_stream (Inr broken_stream))"
  have "feed ?s = provider_stream (Inr broken_stream)" "length (feed ?s) < 5"
    by (simp_all add: waiting_def with_store_def broken_stream_def provider_stream_def)
  from stream_answer [where cancels = "\<lambda>_ _. False" and E = script_env and aid = "''a''" and tok = 0,
      OF _ this]
  have "\<exists>s'. stream_loop (feeding (\<lambda>_ _. False) script_env) 0 ''a'' 5 [] None ?s =
      Some (answer_in broken_stream, s')"
    by simp
  moreover have "answer_in broken_stream =
      \<lparr>sr_stop = Stop, sr_error = None, sr_terminal = True, sr_blocks = [(0, TextC ''half'')],
       sr_usage = None\<rparr>"
    by (simp add: answer_in_def broken_stream_def closed_by_def merge_delta_def)
  ultimately show ?thesis by simp
qed

section \<open>The stream and the whole response\<close>



lemma contents_append [simp]: "contents (xs @ ys) = contents xs @ contents ys"
  by (induction xs) (auto simp: contents_def List.map_filter_simps split: sum.splits option.splits)

lemma gather_append [simp]: "gather (xs @ ys) bs = gather ys (gather xs bs)"
  by (simp add: gather_def)













end
