(* ===== verification/Event_Loop.thy ===== *)
theory Event_Loop
  imports Scheduler
begin

text \<open>
  The event loop of \<^verbatim>\<open>runtime.rs\<close> (\<^verbatim>\<open>PiEventLoop\<close>): arrivals wait apart and become macrotasks at
  the next tick. A binary heap is the list of its entries in the order of \<^verbatim>\<open>pop\<close>; entries that
  compare as equal keep the order of their insertion. The theorem at the end compares the loop with
  the scheduler of \<^verbatim>\<open>scheduler.rs\<close>.
\<close>

section \<open>The loop\<close>

datatype loop_kind = LoopTimer u64 | LoopHostcall string | LoopEvent string

record loop_task =
  lk_seq :: u64
  lk_trace :: u64
  lk_kind :: loop_kind

record loop_timer =
  lt_deadline :: u64
  lt_order :: u64
  lt_id :: u64
  lt_trace :: u64

record pi_loop =
  pl_clock :: u64
  pl_seq :: u64
  pl_next_id :: u64
  pl_pending :: "(u64 \<times> loop_kind) list"
  pl_queue :: "loop_task list"
  pl_timers :: "loop_timer list"
  pl_cancelled :: "u64 set"

text \<open>\<^verbatim>\<open>impl Ord for MacrotaskEntry\<close> and \<^verbatim>\<open>impl Ord for TimerEntry\<close>, with the heaps' \<^verbatim>\<open>push\<close>.\<close>

fun task_push :: "loop_task \<Rightarrow> loop_task list \<Rightarrow> loop_task list" where
  "task_push e [] = [e]"
| "task_push e (x # xs) = (if lk_seq e < lk_seq x then e # x # xs else x # task_push e xs)"

definition loop_timer_before :: "loop_timer \<Rightarrow> loop_timer \<Rightarrow> bool" where
  "loop_timer_before a b \<longleftrightarrow>
     (lt_deadline a, lt_order a, lt_id a) < (lt_deadline b, lt_order b, lt_id b)"

fun timer_push :: "loop_timer \<Rightarrow> loop_timer list \<Rightarrow> loop_timer list" where
  "timer_push e [] = [e]"
| "timer_push e (x # xs) = (if loop_timer_before e x then e # x # xs else x # timer_push e xs)"

definition loop_new :: "u64 \<Rightarrow> pi_loop" where
  "loop_new now = \<lparr>pl_clock = now, pl_seq = 0, pl_next_id = 1, pl_pending = [], pl_queue = [],
     pl_timers = [], pl_cancelled = {}\<rparr>"

definition loop_next_seq :: "pi_loop \<Rightarrow> u64 \<times> pi_loop" where
  "loop_next_seq l = (pl_seq l, l\<lparr>pl_seq := sat_inc (pl_seq l)\<rparr>)"

definition loop_arrive :: "loop_kind \<Rightarrow> pi_loop \<Rightarrow> pi_loop" where
  "loop_arrive k l =
     (let (trace, l1) = loop_next_seq l in l1\<lparr>pl_pending := pl_pending l1 @ [(trace, k)]\<rparr>)"

definition enqueue_hostcall_completion :: "string \<Rightarrow> pi_loop \<Rightarrow> pi_loop" where
  "enqueue_hostcall_completion call_id l = loop_arrive (LoopHostcall call_id) l"

definition enqueue_inbound_event :: "string \<Rightarrow> pi_loop \<Rightarrow> pi_loop" where
  "enqueue_inbound_event event_id l = loop_arrive (LoopEvent event_id) l"

definition loop_set_timeout :: "u64 \<Rightarrow> pi_loop \<Rightarrow> u64 \<times> pi_loop" where
  "loop_set_timeout delay l =
     (let i = pl_next_id l; (order, l1) = loop_next_seq (l\<lparr>pl_next_id := sat_inc i\<rparr>);
          e = \<lparr>lt_deadline = sat_add (pl_clock l1) delay, lt_order = order, lt_id = i, lt_trace = order\<rparr>
      in (i, l1\<lparr>pl_timers := timer_push e (pl_timers l1)\<rparr>))"

definition loop_clear_timeout :: "u64 \<Rightarrow> pi_loop \<Rightarrow> bool \<times> pi_loop" where
  "loop_clear_timeout i l =
     (if list_ex (\<lambda>e. lt_id e = i) (pl_timers l) \<and> i \<notin> pl_cancelled l
      then (True, l\<lparr>pl_cancelled := insert i (pl_cancelled l)\<rparr>) else (False, l))"

definition enqueue_macrotask :: "u64 \<Rightarrow> loop_kind \<Rightarrow> pi_loop \<Rightarrow> pi_loop" where
  "enqueue_macrotask trace k l =
     (let (seq, l1) = loop_next_seq l
      in l1\<lparr>pl_queue := task_push \<lparr>lk_seq = seq, lk_trace = trace, lk_kind = k\<rparr> (pl_queue l1)\<rparr>)"

fun ingest :: "(u64 \<times> loop_kind) list \<Rightarrow> pi_loop \<Rightarrow> pi_loop" where
  "ingest [] l = l\<lparr>pl_pending := []\<rparr>"
| "ingest ((trace, k) # ps) l = ingest ps (enqueue_macrotask trace k l)"

definition ingest_pending :: "pi_loop \<Rightarrow> pi_loop" where
  "ingest_pending l = ingest (pl_pending l) l"

fun enqueue_due :: "u64 \<Rightarrow> loop_timer list \<Rightarrow> pi_loop \<Rightarrow> pi_loop" where
  "enqueue_due now [] l = l\<lparr>pl_timers := []\<rparr>"
| "enqueue_due now (e # es) l =
     (if lt_deadline e > now then l\<lparr>pl_timers := e # es\<rparr>
      else if lt_id e \<in> pl_cancelled l
           then enqueue_due now es (l\<lparr>pl_cancelled := pl_cancelled l - {lt_id e}\<rparr>)
           else enqueue_due now es (enqueue_macrotask (lt_trace e) (LoopTimer (lt_id e)) l))"

definition enqueue_due_timers :: "pi_loop \<Rightarrow> pi_loop" where
  "enqueue_due_timers l = enqueue_due (pl_clock l) (pl_timers l) l"

definition pop_next_macrotask :: "pi_loop \<Rightarrow> loop_task option \<times> pi_loop" where
  "pop_next_macrotask l =
     (case pl_queue l of [] \<Rightarrow> (None, l) | t # ts \<Rightarrow> (Some t, l\<lparr>pl_queue := ts\<rparr>))"

text \<open>
  \<open>drains\<close> is how often the host's \<^verbatim>\<open>drain_microtasks\<close> reports progress after the macrotask. The
  result is the macrotask given to \<^verbatim>\<open>on_macrotask\<close> and the fields of \<^verbatim>\<open>TickResult\<close>.
\<close>

definition loop_tick :: "nat \<Rightarrow> pi_loop \<Rightarrow> (loop_task option \<times> bool \<times> nat) \<times> pi_loop" where
  "loop_tick drains l =
     (let (t, l1) = pop_next_macrotask (enqueue_due_timers (ingest_pending l));
          ran_macrotask = (t \<noteq> None)
      in ((t, ran_macrotask, if ran_macrotask then drains else 0), l1))"

section \<open>A common specification\<close>

text \<open>What the loop and the scheduler are about: the tasks to run in order, and the timers in order.\<close>

record agenda =
  ag_clock :: u64
  ag_next :: u64
  ag_tasks :: "loop_kind list"
  ag_timers :: "(u64 \<times> u64) list"
  ag_cancelled :: "u64 set"

fun put_timer :: "u64 \<times> u64 \<Rightarrow> (u64 \<times> u64) list \<Rightarrow> (u64 \<times> u64) list" where
  "put_timer e [] = [e]"
| "put_timer e (x # xs) = (if snd e < snd x then e # x # xs else x # put_timer e xs)"

fun fire :: "u64 \<Rightarrow> (u64 \<times> u64) list \<Rightarrow> agenda \<Rightarrow> agenda" where
  "fire now [] a = a\<lparr>ag_timers := []\<rparr>"
| "fire now ((i, d) # es) a =
     (if d > now then a\<lparr>ag_timers := (i, d) # es\<rparr>
      else if i \<in> ag_cancelled a then fire now es (a\<lparr>ag_cancelled := ag_cancelled a - {i}\<rparr>)
      else fire now es (a\<lparr>ag_tasks := ag_tasks a @ [LoopTimer i]\<rparr>))"

datatype loop_op =
    OpSet u64 | OpClear u64 | OpComplete string hostcall_outcome | OpEvent string json
  | OpTick nat | OpClock u64

datatype loop_out = Timer u64 | Cleared bool | RanTask "loop_kind option" | Quiet

fun agenda_step :: "loop_op \<Rightarrow> agenda \<Rightarrow> loop_out \<times> agenda" where
  "agenda_step (OpSet d) a =
     (Timer (ag_next a), a\<lparr>ag_next := ag_next a + 1,
        ag_timers := put_timer (ag_next a, sat_add (ag_clock a) d) (ag_timers a)\<rparr>)"
| "agenda_step (OpClear i) a =
     (if i \<in> fst ` set (ag_timers a) \<and> i \<notin> ag_cancelled a
      then (Cleared True, a\<lparr>ag_cancelled := insert i (ag_cancelled a)\<rparr>) else (Cleared False, a))"
| "agenda_step (OpComplete call_id out) a = (Quiet, a\<lparr>ag_tasks := ag_tasks a @ [LoopHostcall call_id]\<rparr>)"
| "agenda_step (OpEvent event_id p) a = (Quiet, a\<lparr>ag_tasks := ag_tasks a @ [LoopEvent event_id]\<rparr>)"
| "agenda_step (OpTick n) a =
     (let a1 = fire (ag_clock a) (ag_timers a) a
      in case ag_tasks a1 of [] \<Rightarrow> (RanTask None, a1)
           | k # ks \<Rightarrow> (RanTask (Some k), a1\<lparr>ag_tasks := ks\<rparr>))"
| "agenda_step (OpClock t) a = (Quiet, a\<lparr>ag_clock := t\<rparr>)"

section \<open>The loop implements it\<close>

fun loop_step :: "loop_op \<Rightarrow> pi_loop \<Rightarrow> loop_out \<times> pi_loop" where
  "loop_step (OpSet d) l = (let (i, l1) = loop_set_timeout d l in (Timer i, l1))"
| "loop_step (OpClear i) l = (let (b, l1) = loop_clear_timeout i l in (Cleared b, l1))"
| "loop_step (OpComplete call_id out) l = (Quiet, enqueue_hostcall_completion call_id l)"
| "loop_step (OpEvent event_id p) l = (Quiet, enqueue_inbound_event event_id l)"
| "loop_step (OpTick n) l =
     (let ((t, ran, drained), l1) = loop_tick n l in (RanTask (map_option lk_kind t), l1))"
| "loop_step (OpClock t) l = (Quiet, l\<lparr>pl_clock := t\<rparr>)"

fun loop_run :: "loop_op list \<Rightarrow> pi_loop \<Rightarrow> loop_out list \<times> pi_loop" where
  "loop_run [] l = ([], l)"
| "loop_run (op # ops) l =
     (let (out, l1) = loop_step op l; (outs, l2) = loop_run ops l1 in (out # outs, l2))"

definition loop_view :: "pi_loop \<Rightarrow> agenda" where
  "loop_view l = \<lparr>ag_clock = pl_clock l, ag_next = pl_next_id l,
     ag_tasks = map lk_kind (pl_queue l) @ map snd (pl_pending l),
     ag_timers = map (\<lambda>e. (lt_id e, lt_deadline e)) (pl_timers l), ag_cancelled = pl_cancelled l\<rparr>"

text \<open>After \<open>n\<close> operations at most \<open>2 * n\<close> sequence numbers are drawn or will be for what waits.\<close>

definition loop_ok :: "nat \<Rightarrow> pi_loop \<Rightarrow> bool" where
  [wf_defs]: "loop_ok n l \<longleftrightarrow>
     unat (pl_seq l) + length (pl_pending l) + length (pl_timers l) \<le> 2 * n \<and>
     unat (pl_next_id l) \<le> Suc n \<and>
     (\<forall>t \<in> set (pl_queue l). lk_seq t < pl_seq l) \<and> (\<forall>e \<in> set (pl_timers l). lt_order e < pl_seq l)"

lemma task_push_last: "(\<forall>t \<in> set q. lk_seq t < lk_seq e) \<Longrightarrow> task_push e q = q @ [e]"
  by (induction q) (auto simp: less_not_sym)

lemma timer_push_view:
  "(\<forall>x \<in> set ts. lt_order x < lt_order e) \<Longrightarrow>
   map (\<lambda>e. (lt_id e, lt_deadline e)) (timer_push e ts) =
     put_timer (lt_id e, lt_deadline e) (map (\<lambda>e. (lt_id e, lt_deadline e)) ts)"
  by (induction ts) (auto simp: loop_timer_before_def less_prod_def dest: less_not_sym)

lemma set_timer_push [simp]: "set (timer_push e ts) = insert e (set ts)"
  "length (timer_push e ts) = Suc (length ts)"
  by (induction ts) auto

lemma unat_sat_inc_room: "unat a < 2 ^ 64 - 1 \<Longrightarrow> unat (sat_inc a) = Suc (unat a)"
  by (simp add: unat_sat_inc)

lemma sat_inc_above: "unat a < 2 ^ 64 - 1 \<Longrightarrow> x \<le> a \<Longrightarrow> x < sat_inc a"
  by (simp add: word_less_nat_alt word_le_nat_alt unat_sat_inc_room)

definition queue_below :: "pi_loop \<Rightarrow> bool" where
  "queue_below l \<longleftrightarrow> (\<forall>t \<in> set (pl_queue l). lk_seq t < pl_seq l)"

lemma enqueue_macrotask_last:
  "queue_below l \<Longrightarrow> enqueue_macrotask trace k l = l\<lparr>pl_seq := sat_inc (pl_seq l),
     pl_queue := pl_queue l @ [\<lparr>lk_seq = pl_seq l, lk_trace = trace, lk_kind = k\<rparr>]\<rparr>"
  by (simp add: enqueue_macrotask_def loop_next_seq_def task_push_last queue_below_def)

lemma enqueue_macrotask_below:
  assumes "queue_below l" and "unat (pl_seq l) < 2 ^ 64 - 1"
  shows "queue_below (enqueue_macrotask trace k l)"
  using assms sat_inc_above [OF assms(2)]
  by (auto simp: enqueue_macrotask_last queue_below_def intro: less_imp_le)

lemma enqueue_macrotask_simps [simp]:
  "pl_timers (enqueue_macrotask trace k l) = pl_timers l"
  "pl_pending (enqueue_macrotask trace k l) = pl_pending l"
  "pl_next_id (enqueue_macrotask trace k l) = pl_next_id l"
  "pl_clock (enqueue_macrotask trace k l) = pl_clock l"
  "pl_cancelled (enqueue_macrotask trace k l) = pl_cancelled l"
  "pl_seq (enqueue_macrotask trace k l) = sat_inc (pl_seq l)"
  by (simp_all add: enqueue_macrotask_def loop_next_seq_def)

lemma ingest_spec:
  assumes "queue_below l" and "unat (pl_seq l) + length ps < 2 ^ 64"
  shows "queue_below (ingest ps l) \<and> pl_pending (ingest ps l) = [] \<and>
    pl_timers (ingest ps l) = pl_timers l \<and> pl_next_id (ingest ps l) = pl_next_id l \<and>
    pl_clock (ingest ps l) = pl_clock l \<and> pl_cancelled (ingest ps l) = pl_cancelled l \<and>
    unat (pl_seq (ingest ps l)) = unat (pl_seq l) + length ps \<and>
    map lk_kind (pl_queue (ingest ps l)) = map lk_kind (pl_queue l) @ map snd ps"
  using assms
proof (induction ps arbitrary: l)
  case Nil
  then show ?case by (simp add: queue_below_def)
next
  case (Cons p ps)
  obtain trace k where p: "p = (trace, k)" by (metis surj_pair)
  have room: "unat (pl_seq l) < 2 ^ 64 - 1" using Cons.prems by simp
  let ?l = "enqueue_macrotask trace k l"
  have "queue_below ?l" by (rule enqueue_macrotask_below [OF Cons.prems(1) room])
  from Cons.IH [OF this] Cons.prems room show ?case
    by (simp add: p unat_sat_inc_room) (simp add: enqueue_macrotask_last)
qed

lemma enqueue_due_spec:
  assumes "queue_below l" and "unat (pl_seq l) + length es < 2 ^ 64" and "pl_pending l = []"
  shows "queue_below (enqueue_due now es l) \<and> pl_pending (enqueue_due now es l) = [] \<and>
    set (pl_timers (enqueue_due now es l)) \<subseteq> set es \<and>
    unat (pl_seq l) \<le> unat (pl_seq (enqueue_due now es l)) \<and>
    unat (pl_seq (enqueue_due now es l)) + length (pl_timers (enqueue_due now es l)) \<le>
      unat (pl_seq l) + length es \<and>
    loop_view (enqueue_due now es l) =
      fire now (map (\<lambda>e. (lt_id e, lt_deadline e)) es) (loop_view l)"
  using assms
proof (induction es arbitrary: l)
  case Nil
  then show ?case by (simp add: queue_below_def loop_view_def)
next
  case (Cons e es)
  have room: "unat (pl_seq l) < 2 ^ 64 - 1" using Cons.prems by simp
  consider (later) "lt_deadline e > now"
    | (cancelled) "\<not> lt_deadline e > now" "lt_id e \<in> pl_cancelled l"
    | (fires) "\<not> lt_deadline e > now" "lt_id e \<notin> pl_cancelled l" by blast
  then show ?case
  proof cases
    case later
    then show ?thesis using Cons.prems by (simp add: queue_below_def loop_view_def)
  next
    case cancelled
    let ?l = "l\<lparr>pl_cancelled := pl_cancelled l - {lt_id e}\<rparr>"
    have "queue_below ?l" "unat (pl_seq ?l) + length es < 2 ^ 64" "pl_pending ?l = []"
      using Cons.prems by (simp_all add: queue_below_def)
    from Cons.IH [OF this] cancelled show ?thesis by (auto simp: loop_view_def)
  next
    case fires
    let ?l = "enqueue_macrotask (lt_trace e) (LoopTimer (lt_id e)) l"
    have "queue_below ?l" by (rule enqueue_macrotask_below [OF Cons.prems(1) room])
    moreover have "unat (pl_seq ?l) + length es < 2 ^ 64" "pl_pending ?l = []"
      using Cons.prems room by (simp_all add: unat_sat_inc_room)
    moreover have "loop_view ?l = (loop_view l)\<lparr>ag_tasks := ag_tasks (loop_view l) @ [LoopTimer (lt_id e)]\<rparr>"
      using Cons.prems by (simp add: loop_view_def) (simp add: enqueue_macrotask_last)
    ultimately show ?thesis
      using Cons.IH [of ?l] fires room by (auto simp: unat_sat_inc_room loop_view_def)
  qed
qed

lemma loop_ok_below: "loop_ok n l \<Longrightarrow> queue_below l"
  by (simp add: loop_ok_def queue_below_def)

lemma loop_tick_view:
  assumes ok: "loop_ok n l" and n: "n < 2 ^ 62"
  shows "\<exists>out l'. loop_step (OpTick d) l = (out, l') \<and> loop_ok (Suc n) l' \<and>
    agenda_step (OpTick d) (loop_view l) = (out, loop_view l')"
proof -
  let ?l1 = "ingest_pending l" and ?l2 = "enqueue_due_timers (ingest_pending l)"
  have room: "unat (pl_seq l) + length (pl_pending l) + length (pl_timers l) < 2 ^ 64"
    using ok n by (simp add: loop_ok_def)
  have i: "queue_below ?l1" "pl_pending ?l1 = []" "pl_timers ?l1 = pl_timers l"
    "pl_next_id ?l1 = pl_next_id l" "pl_clock ?l1 = pl_clock l" "pl_cancelled ?l1 = pl_cancelled l"
    "unat (pl_seq ?l1) = unat (pl_seq l) + length (pl_pending l)"
    "map lk_kind (pl_queue ?l1) = map lk_kind (pl_queue l) @ map snd (pl_pending l)"
    using ingest_spec [OF loop_ok_below [OF ok], of "pl_pending l"] room
    by (simp_all add: ingest_pending_def)
  have v1: "loop_view ?l1 = loop_view l" using i by (simp add: loop_view_def)
  have d: "queue_below ?l2" "pl_pending ?l2 = []" "set (pl_timers ?l2) \<subseteq> set (pl_timers l)"
    "unat (pl_seq ?l1) \<le> unat (pl_seq ?l2)"
    "unat (pl_seq ?l2) + length (pl_timers ?l2) \<le> unat (pl_seq ?l1) + length (pl_timers l)"
    "loop_view ?l2 = fire (pl_clock l) (map (\<lambda>e. (lt_id e, lt_deadline e)) (pl_timers l)) (loop_view l)"
    using enqueue_due_spec [OF i(1), of "pl_timers l" "pl_clock l"] i room
    by (simp_all add: enqueue_due_timers_def v1)
  have next_id: "pl_next_id ?l2 = pl_next_id l"
  proof -
    have "ag_next (fire now es a) = ag_next a" for now es a
      by (induction now es a rule: fire.induct) auto
    then show ?thesis using arg_cong [OF d(6), of ag_next] by (simp add: loop_view_def)
  qed
  have "pl_seq l \<le> pl_seq ?l2" using d(4) i(7) by (simp add: word_le_nat_alt)
  then have orders: "\<forall>e \<in> set (pl_timers ?l2). lt_order e < pl_seq ?l2"
    using ok d(3) by (auto simp: loop_ok_def intro: less_le_trans)
  have ok2: "loop_ok (Suc n) (?l2\<lparr>pl_queue := q\<rparr>)" if "set q \<subseteq> set (pl_queue ?l2)" for q
    using that d(1,2,5) i(7) next_id orders ok by (auto simp: loop_ok_def queue_below_def)
  have ag: "ag_timers (loop_view l) = map (\<lambda>e. (lt_id e, lt_deadline e)) (pl_timers l)"
    "ag_clock (loop_view l) = pl_clock l" by (simp_all add: loop_view_def)
  show ?thesis
  proof (cases "pl_queue ?l2")
    case Nil
    then have "ag_tasks (loop_view ?l2) = []" using d(2) by (simp add: loop_view_def)
    then show ?thesis
      using Nil ok2 [of "[]"] unfolding d(6)
      by (simp add: loop_tick_def pop_next_macrotask_def ag d(6) [symmetric]) (metis Nil pi_loop.surjective pi_loop.update_convs(5))
  next
    case (Cons t ts)
    then have "ag_tasks (loop_view ?l2) = lk_kind t # map lk_kind ts" using d(2) by (simp add: loop_view_def)
    moreover have "loop_view (?l2\<lparr>pl_queue := ts\<rparr>) = (loop_view ?l2)\<lparr>ag_tasks := map lk_kind ts\<rparr>"
      using d(2) by (simp add: loop_view_def)
    ultimately show ?thesis
      using Cons ok2 [of ts]
      by (simp add: loop_tick_def pop_next_macrotask_def ag d(6) [symmetric] subset_insertI)
  qed
qed

lemma loop_step_view:
  assumes ok: "loop_ok n l" and n: "n < 2 ^ 62"
  shows "\<exists>out l'. loop_step op l = (out, l') \<and> loop_ok (Suc n) l' \<and>
    agenda_step op (loop_view l) = (out, loop_view l')"
proof (cases op)
  case (OpSet d)
  have seq: "unat (pl_seq l) < 2 ^ 64 - 1" using ok n by (simp add: loop_ok_def)
  have "unat (pl_next_id l) < 2 ^ 64 - 1" using ok n by (simp add: loop_ok_def)
  then have i: "sat_inc (pl_next_id l) = pl_next_id l + 1"
    by (auto simp: sat_inc_def sat_add_def unat_u64_max u64_max_iff)
  have next_id: "unat (pl_next_id l + 1) \<le> Suc (Suc n)"
    using ok by (simp add: loop_ok_def unat_word_ariths) (meson le_trans mod_less_eq_dividend not_less_eq_eq)
  define e where "e = \<lparr>lt_deadline = sat_add (pl_clock l) d, lt_order = pl_seq l, lt_id = pl_next_id l,
    lt_trace = pl_seq l\<rparr>"
  define l' where "l' = l\<lparr>pl_next_id := pl_next_id l + 1, pl_seq := sat_inc (pl_seq l),
    pl_timers := timer_push e (pl_timers l)\<rparr>"
  have "loop_step op l = (Timer (pl_next_id l), l')"
    by (simp add: OpSet loop_set_timeout_def loop_next_seq_def Let_def i e_def l'_def)
  moreover have "loop_ok (Suc n) l'"
    using ok seq next_id
    by (auto simp: loop_ok_def l'_def e_def unat_sat_inc_room sat_inc_above intro: less_sat_inc_trans)
  moreover have "agenda_step op (loop_view l) = (Timer (pl_next_id l), loop_view l')"
    using ok timer_push_view [of "pl_timers l" e]
    by (simp add: OpSet loop_view_def l'_def e_def loop_ok_def)
  ultimately show ?thesis by blast
next
  case (OpTick d)
  then show ?thesis using loop_tick_view [OF ok n] by blast
qed (use ok n in \<open>auto simp: loop_clear_timeout_def enqueue_hostcall_completion_def
    enqueue_inbound_event_def loop_arrive_def loop_next_seq_def loop_ok_def loop_view_def list_ex_iff
    unat_sat_inc image_iff intro: less_sat_inc_trans split: if_splits\<close>)

section \<open>The scheduler implements it, too\<close>

fun kind_view :: "macrotask_kind \<Rightarrow> loop_kind" where
  "kind_view (TimerFired i) = LoopTimer i"
| "kind_view (HostcallComplete call_id out) = LoopHostcall call_id"
| "kind_view (InboundEvent event_id p) = LoopEvent event_id"

fun twin_step :: "loop_op \<Rightarrow> scheduler \<Rightarrow> (loop_out \<times> scheduler) option" where
  "twin_step (OpSet d) s = map_option (\<lambda>(i, s1). (Timer i, s1)) (set_timeout d s)"
| "twin_step (OpClear i) s = (let (b, s1) = clear_timeout i s in Some (Cleared b, s1))"
| "twin_step (OpComplete call_id out) s = Some (Quiet, enqueue_hostcall_complete call_id out s)"
| "twin_step (OpEvent event_id p) s = Some (Quiet, enqueue_event event_id p s)"
| "twin_step (OpTick n) s =
     (let (t, s1) = tick s in Some (RanTask (map_option (\<lambda>t. kind_view (mt_kind t)) t), s1))"
| "twin_step (OpClock t) s = Some (Quiet, s\<lparr>sc_clock := t\<rparr>)"

fun twin_run :: "loop_op list \<Rightarrow> scheduler \<Rightarrow> (loop_out list \<times> scheduler) option" where
  "twin_run [] s = Some ([], s)"
| "twin_run (op # ops) s = (case twin_step op s of None \<Rightarrow> None
     | Some (out, s1) \<Rightarrow> map_option (\<lambda>(outs, s2). (out # outs, s2)) (twin_run ops s1))"

definition sched_view :: "scheduler \<Rightarrow> agenda" where
  "sched_view s = \<lparr>ag_clock = sc_clock s, ag_next = sc_next_id s,
     ag_tasks = map (\<lambda>t. kind_view (mt_kind t)) (sc_queue s),
     ag_timers = map (\<lambda>e. (te_id e, te_deadline e)) (sc_heap s), ag_cancelled = sc_cancelled s\<rparr>"

definition twin_ok :: "nat \<Rightarrow> scheduler \<Rightarrow> bool" where
  [wf_defs]: "twin_ok n s \<longleftrightarrow>
     unat (sc_seq s) + length (sc_heap s) \<le> 2 * n \<and> unat (sc_next_id s) \<le> Suc n \<and>
     (\<forall>e \<in> set (sc_heap s). te_seq e < sc_seq s \<and> te_id e < sc_next_id s) \<and>
     sc_heap_ids s = te_id ` set (sc_heap s) \<and> distinct (map te_id (sc_heap s))"

lemma heap_push_view:
  "(\<forall>x \<in> set h. te_seq x < te_seq e) \<Longrightarrow>
   map (\<lambda>e. (te_id e, te_deadline e)) (heap_push e h) =
     put_timer (te_id e, te_deadline e) (map (\<lambda>e. (te_id e, te_deadline e)) h)"
  by (induction h) (auto simp: timer_before_def dest: less_not_sym)

lemma length_heap_push [simp]: "length (heap_push e h) = Suc (length h)"
  by (induction h) auto

lemma move_due_view:
  "distinct (map te_id es) \<Longrightarrow>
   sched_view (move_due now es s) = fire now (map (\<lambda>e. (te_id e, te_deadline e)) es) (sched_view s)"
proof (induction es arbitrary: s)
  case (Cons e es)
  then show ?case by (simp add: Let_def) (simp add: sched_view_def)
qed (simp add: sched_view_def)

lemma move_due_draws:
  "unat (sc_seq (move_due now es s)) + length (sc_heap (move_due now es s)) \<le>
     unat (sc_seq s) + length es \<and> sc_seq s \<le> sc_seq (move_due now es s)"
proof (induction es arbitrary: s)
  case (Cons e es)
  have step: "unat (sat_inc a) \<le> Suc (unat a)" for a by (simp add: unat_sat_inc)
  show ?case
    using Cons [of "enqueue_task (TimerFired (te_id e)) (s\<lparr>sc_heap_ids := sc_heap_ids s - {te_id e}\<rparr>)"]
      Cons [of "s\<lparr>sc_heap_ids := sc_heap_ids s - {te_id e}, sc_cancelled := sc_cancelled s - {te_id e}\<rparr>"]
      step [of "sc_seq s"]
    by (auto simp: Let_def not_less intro: order_trans [OF sat_inc_ge])
qed simp

lemma twin_set_view:
  assumes ok: "twin_ok n s" and n: "n < 2 ^ 62"
  shows "\<exists>s'. set_timeout d s = Some (sc_next_id s, s') \<and> twin_ok (Suc n) s' \<and>
    agenda_step (OpSet d) (sched_view s) = (Timer (sc_next_id s), sched_view s')"
proof -
  have seq: "unat (sc_seq s) < 2 ^ 64 - 1" and nid: "unat (sc_next_id s) < 2 ^ 64 - 1"
    using ok n by (simp_all add: twin_ok_def)
  have fresh: "sc_next_id s \<notin> sc_heap_ids s" using ok by (auto simp: twin_ok_def)
  have "sc_next_id s \<noteq> u64_max" using nid by (auto simp: u64_max_iff)
  then have nxt: "next_id (sc_next_id s) = sc_next_id s + 1" by (simp add: next_id_def)
  have suc: "unat (sc_next_id s + 1) = Suc (unat (sc_next_id s))"
    using nid by (simp add: unat_word_ariths)
  define e where "e = \<lparr>te_id = sc_next_id s, te_deadline = sat_add (sc_clock s) d, te_seq = sc_seq s\<rparr>"
  define s' where "s' = s\<lparr>sc_seq := sat_inc (sc_seq s), sc_heap := heap_push e (sc_heap s),
    sc_next_id := sc_next_id s + 1, sc_heap_ids := insert (sc_next_id s) (sc_heap_ids s)\<rparr>"
  have "set_timeout d s = Some (sc_next_id s, s')"
    using fresh by (simp add: set_timeout_def allocate_timer_id_def next_seq_def Let_def nxt e_def s'_def)
  moreover have "twin_ok (Suc n) s'"
    using ok seq fresh suc
    by (auto simp: twin_ok_def s'_def e_def unat_sat_inc_room sat_inc_above distinct_heap_push
        word_less_nat_alt less_Suc_eq intro: less_sat_inc_trans [unfolded word_less_nat_alt])
  moreover have "agenda_step (OpSet d) (sched_view s) = (Timer (sc_next_id s), sched_view s')"
    using ok heap_push_view [of "sc_heap s" e]
    by (simp add: sched_view_def s'_def e_def twin_ok_def)
  ultimately show ?thesis by blast
qed

lemma twin_move_ok:
  assumes ok: "twin_ok n s"
  shows "twin_ok (Suc n) ((move_due_timers s)\<lparr>sc_queue := q\<rparr>)"
proof -
  let ?m = "move_due_timers s"
  have m: "unat (sc_seq ?m) + length (sc_heap ?m) \<le> 2 * n" "sc_seq s \<le> sc_seq ?m"
    using move_due_draws [of "sc_clock s" "sc_heap s" s] ok
    by (auto simp: move_due_timers_def twin_ok_def)
  let ?P = "\<lambda>e. te_deadline e \<le> sc_clock s"
  have h: "sc_heap s = due_front (sc_clock s) (sc_heap s) @ dropWhile ?P (sc_heap s)"
    by (simp add: due_front_def)
  have dist: "distinct (map te_id (due_front (sc_clock s) (sc_heap s) @ dropWhile ?P (sc_heap s)))"
    using ok h by (simp add: twin_ok_def)
  then have ids: "te_id ` set (sc_heap s) - te_id ` set (due_front (sc_clock s) (sc_heap s)) =
      te_id ` set (dropWhile ?P (sc_heap s))"
    by (subst h) (auto simp: image_Un)
  show ?thesis
    using m ok ids dist set_dropWhileD [of _ ?P "sc_heap s"]
    by (auto simp: twin_ok_def move_due_timers_def intro: less_le_trans)
qed

lemma twin_step_view:
  assumes ok: "twin_ok n s" and n: "n < 2 ^ 62"
  shows "\<exists>out s'. twin_step op s = Some (out, s') \<and> twin_ok (Suc n) s' \<and>
    agenda_step op (sched_view s) = (out, sched_view s')"
proof (cases op)
  case (OpSet d)
  then show ?thesis using twin_set_view [OF ok n, of d] by auto
next
  case (OpTick d)
  have v: "sched_view (move_due_timers s) =
      fire (sc_clock s) (map (\<lambda>e. (te_id e, te_deadline e)) (sc_heap s)) (sched_view s)"
    using ok by (simp add: move_due_timers_def move_due_view twin_ok_def)
  have ag: "ag_timers (sched_view s) = map (\<lambda>e. (te_id e, te_deadline e)) (sc_heap s)"
    "ag_clock (sched_view s) = sc_clock s"
    "ag_tasks (sched_view s') = map (\<lambda>t. kind_view (mt_kind t)) (sc_queue s')"
    "sched_view (s'\<lparr>sc_queue := q\<rparr>) =
       (sched_view s')\<lparr>ag_tasks := map (\<lambda>t. kind_view (mt_kind t)) q\<rparr>" for s' q
    by (simp_all add: sched_view_def)
  note ok' = twin_move_ok [OF ok]
  show ?thesis
  proof (rule tick_cases [of s])
    assume "sc_queue (move_due_timers s) = []" "tick s = (None, move_due_timers s)"
    then show ?thesis
      using OpTick ok' [of "[]"] by (simp add: ag v [symmetric]) (metis scheduler.surjective scheduler.update_convs(2))
  next
    fix t ts assume "sc_queue (move_due_timers s) = t # ts"
      "tick s = (Some t, (move_due_timers s)\<lparr>sc_queue := ts\<rparr>)"
    then show ?thesis using OpTick ok' [of ts] by (simp add: ag v [symmetric])
  qed
qed (use ok n in \<open>auto simp: clear_timeout_def enqueue_hostcall_complete_def enqueue_event_def
    twin_ok_def sched_view_def unat_sat_inc image_iff intro: less_sat_inc_trans split: if_splits\<close>)

text \<open>C38 (equivalence): the two event loops of the runtime are one. Under every sequence of fewer than
  \<open>2 ^ 62\<close> operations (setting and clearing timers, completions, events, ticks, and any moves of the
  clock), \<^verbatim>\<open>PiEventLoop\<close> and the scheduler hand out the same timer identifiers, give the same
  answers to \<^verbatim>\<open>clear_timeout\<close> and run the same macrotasks at the same ticks, although the one lets
  arrivals wait until the next tick and the other queues them at once.\<close>

theorem event_loop_equals_scheduler:
  assumes "length ops < 2 ^ 62"
  shows "\<exists>s. twin_run ops (with_clock now) = Some (fst (loop_run ops (loop_new now)), s)"
proof -
  have "\<exists>s'. twin_run ops s = Some (fst (loop_run ops l), s')"
    if "loop_ok n l" "twin_ok n s" "loop_view l = sched_view s" "n + length ops < 2 ^ 62" for n l s ops
    using that
  proof (induction ops arbitrary: n l s)
    case (Cons op ops)
    have n: "n < 2 ^ 62" using Cons.prems(4) by simp
    obtain out l' where l: "loop_step op l = (out, l')" "loop_ok (Suc n) l'"
      "agenda_step op (loop_view l) = (out, loop_view l')"
      using loop_step_view [OF Cons.prems(1) n] by blast
    obtain out' s' where s: "twin_step op s = Some (out', s')" "twin_ok (Suc n) s'"
      "agenda_step op (sched_view s) = (out', sched_view s')"
      using twin_step_view [OF Cons.prems(2) n] by blast
    have "out' = out" "loop_view l' = sched_view s'" using l(3) s(3) Cons.prems(3) by auto
    then show ?case
      using Cons.IH [OF l(2) s(2)] Cons.prems(4) l(1) s(1) by (auto simp: split_beta)
  qed simp
  from this [of 0 "loop_new now" "with_clock now" ops] assms show ?thesis
    by (simp add: loop_ok_def loop_new_def twin_ok_def with_clock_def loop_view_def sched_view_def)
qed

definition loop_sample :: "loop_op list" where
  "loop_sample = [OpSet 5, OpComplete ''c'' (Success JNull), OpSet 3, OpClear 1, OpClock 9, OpTick 2, OpTick 0]"

theorem event_loop_equals_scheduler_witness:
  "\<exists>s. twin_run loop_sample (with_clock 0) =
     Some ([Timer 1, Quiet, Timer 2, Cleared True, Quiet, RanTask (Some (LoopHostcall ''c'')),
            RanTask (Some (LoopTimer 2))], s)"
proof -
  have "length loop_sample < 2 ^ 62" by (simp add: loop_sample_def)
  from event_loop_equals_scheduler [OF this, of 0]
  have "\<exists>s. twin_run loop_sample (with_clock 0) = Some (fst (loop_run loop_sample (loop_new 0)), s)" .
  moreover have "fst (loop_run loop_sample (loop_new 0)) =
      [Timer 1, Quiet, Timer 2, Cleared True, Quiet, RanTask (Some (LoopHostcall ''c'')),
       RanTask (Some (LoopTimer 2))]"
    by (simp add: loop_sample_def loop_new_def loop_set_timeout_def loop_next_seq_def sat_inc_def
        sat_add_def loop_clear_timeout_def enqueue_hostcall_completion_def loop_arrive_def
        loop_tick_def ingest_pending_def enqueue_due_timers_def enqueue_macrotask_def
        pop_next_macrotask_def loop_timer_before_def less_prod_def Let_def)
  ultimately show ?thesis by simp
qed

end
