(* ===== verification/Ansi.thy ===== *)
theory Ansi
  imports Prelude "HOL-Library.Sublist"
begin

text \<open>
  \<^verbatim>\<open>e-agent-pi-compat/src/ansi.rs\<close>: the parser of terminal text, as the extensions' components
  draw it, into lines of styled cells. A character is its Unicode scalar value, since widths and
  control ranges matter here; a 16-bit parameter is a number below \<open>2 ^ 16\<close>, a colour a 32-bit word.
\<close>

unbundle bit_operations_syntax

section \<open>Cells\<close>

record ansi_style =
  an_foreground :: "u32 option"
  an_background :: "u32 option"
  an_bold :: bool
  an_italic :: bool
  an_underline :: bool
  an_inverse :: bool
  an_strikethrough :: bool

record ansi_cell =
  ac_symbol :: uchar
  ac_style :: ansi_style
  ac_hyperlink :: "utext option"

record ansi_line =
  al_cells :: "ansi_cell list"
  al_cursor :: "nat option"

record ansi_frame =
  af_width :: nat
  af_lines :: "ansi_line list"

definition plain_style :: ansi_style where
  "plain_style = \<lparr>an_foreground = None, an_background = None, an_bold = False, an_italic = False,
     an_underline = False, an_inverse = False, an_strikethrough = False\<rparr>"

definition is_control :: "uchar \<Rightarrow> bool" where
  "is_control c \<longleftrightarrow> c < 32 \<or> 127 \<le> c \<and> c < 160"

definition char_width :: "uchar \<Rightarrow> nat" where
  "char_width c =
     (if is_control c \<or> c < 128 then (if is_control c then 0 else 1)
      else if 0x1100 \<le> c \<and> c \<le> 0x115f \<or> 0x2329 \<le> c \<and> c \<le> 0x232a \<or> 0x2e80 \<le> c \<and> c \<le> 0xa4cf
        \<or> 0xac00 \<le> c \<and> c \<le> 0xd7a3 \<or> 0xf900 \<le> c \<and> c \<le> 0xfaff \<or> 0xfe10 \<le> c \<and> c \<le> 0xfe19
        \<or> 0xfe30 \<le> c \<and> c \<le> 0xfe6f \<or> 0xff00 \<le> c \<and> c \<le> 0xff60 \<or> 0xffe0 \<le> c \<and> c \<le> 0xffe6
        \<or> 0x1f300 \<le> c \<and> c \<le> 0x1faff \<or> 0x20000 \<le> c \<and> c \<le> 0x3fffd
      then 2 else 1)"

section \<open>Control sequences\<close>

abbreviation "ESC \<equiv> (0x1b :: uchar)"
abbreviation "BEL \<equiv> (7 :: uchar)"
abbreviation "SEMI \<equiv> (0x3b :: uchar)"

text \<open>\<^verbatim>\<open>value.parse::<u16>().unwrap_or(0)\<close>: an optional plus sign, then digits, below \<open>2 ^ 16\<close>.\<close>

definition is_digit :: "uchar \<Rightarrow> bool" where
  "is_digit c \<longleftrightarrow> 0x30 \<le> c \<and> c \<le> 0x39"

definition digits_value :: "utext \<Rightarrow> nat" where
  "digits_value t = fold (\<lambda>c n. 10 * n + (c - 0x30)) t 0"

definition parse_u16 :: "utext \<Rightarrow> nat" where
  "parse_u16 t =
     (let ds = (case t of c # cs \<Rightarrow> if c = 0x2b then cs else t | [] \<Rightarrow> t)
      in if ds \<noteq> [] \<and> list_all is_digit ds \<and> digits_value ds < 2 ^ 16 then digits_value ds else 0)"

fun split_on :: "uchar \<Rightarrow> utext \<Rightarrow> utext list" where
  "split_on s [] = [[]]"
| "split_on s (c # cs) =
     (if c = s then [] # split_on s cs
      else case split_on s cs of p # ps \<Rightarrow> (c # p) # ps | [] \<Rightarrow> [[c]])"

definition ansi_color :: "nat \<Rightarrow> u32" where
  "ansi_color code =
     (if 30 \<le> code \<and> code \<le> 37 then 0x01000000 OR of_nat (code - 30)
      else if 90 \<le> code \<and> code \<le> 97 then 0x02000000 OR of_nat (code - 90)
      else if 40 \<le> code \<and> code \<le> 47 then 0x01000000 OR of_nat (code - 40)
      else if 100 \<le> code \<and> code \<le> 107 then 0x02000000 OR of_nat (code - 100)
      else 0)"

text \<open>\<^verbatim>\<open>parse_extended_color\<close>: the colour and the parameters after it.\<close>

fun parse_extended_color :: "nat list \<Rightarrow> (u32 \<times> nat list) option" where
  "parse_extended_color (v # vs) =
     (if v = 5 then (case vs of c # rest \<Rightarrow> Some (of_nat c, rest) | [] \<Rightarrow> None)
      else if v = 2 then
        (case vs of
           r # g # b # rest \<Rightarrow>
             Some (push_bit 16 (of_nat r) OR push_bit 8 (of_nat g) OR of_nat b, rest)
         | _ \<Rightarrow> None)
      else None)"
| "parse_extended_color [] = None"

lemma parse_extended_color_shorter:
  "parse_extended_color vs = Some (c, rest) \<Longrightarrow> length rest < length vs"
  by (cases vs) (auto split: if_splits list.splits)

definition sgr_simple :: "nat \<Rightarrow> ansi_style \<Rightarrow> ansi_style" where
  "sgr_simple v st =
     (if v = 0 then plain_style
      else if v = 1 then st\<lparr>an_bold := True\<rparr>
      else if v = 3 then st\<lparr>an_italic := True\<rparr>
      else if v = 4 then st\<lparr>an_underline := True\<rparr>
      else if v = 7 then st\<lparr>an_inverse := True\<rparr>
      else if v = 9 then st\<lparr>an_strikethrough := True\<rparr>
      else if v = 22 then st\<lparr>an_bold := False\<rparr>
      else if v = 23 then st\<lparr>an_italic := False\<rparr>
      else if v = 24 then st\<lparr>an_underline := False\<rparr>
      else if v = 27 then st\<lparr>an_inverse := False\<rparr>
      else if v = 29 then st\<lparr>an_strikethrough := False\<rparr>
      else if 30 \<le> v \<and> v \<le> 37 \<or> 90 \<le> v \<and> v \<le> 97 then st\<lparr>an_foreground := Some (ansi_color v)\<rparr>
      else if v = 39 then st\<lparr>an_foreground := None\<rparr>
      else if 40 \<le> v \<and> v \<le> 47 \<or> 100 \<le> v \<and> v \<le> 107 then st\<lparr>an_background := Some (ansi_color v)\<rparr>
      else if v = 49 then st\<lparr>an_background := None\<rparr>
      else st)"

text \<open>The loop over the parameters; \<open>38\<close> and \<open>48\<close> consume the parameters of their colour.\<close>

function apply_sgr :: "nat list \<Rightarrow> ansi_style \<Rightarrow> ansi_style" where
  "apply_sgr [] st = st"
| "apply_sgr (v # vs) st =
     (if v = 38 \<or> v = 48 then
        (case parse_extended_color vs of
           None \<Rightarrow> apply_sgr vs st
         | Some (c, rest) \<Rightarrow>
             apply_sgr rest (if v = 38 then st\<lparr>an_foreground := Some c\<rparr>
                             else st\<lparr>an_background := Some c\<rparr>))
      else apply_sgr vs (sgr_simple v st))"
  by pat_completeness auto
termination
  by (relation "measure (\<lambda>(vs, st). length vs)") (auto dest: parse_extended_color_shorter)

definition parse_sgr :: "utext \<Rightarrow> ansi_style \<Rightarrow> ansi_style" where
  "parse_sgr sequence st =
     apply_sgr (if sequence = [] then [0] else map parse_u16 (split_on SEMI sequence)) st"

declare apply_sgr.simps [simp del]

text \<open>A parser of a control sequence returns the characters it leaves.\<close>

fun parse_csi :: "utext \<Rightarrow> utext \<Rightarrow> ansi_style \<Rightarrow> utext \<times> ansi_style" where
  "parse_csi sequence [] st = ([], st)"
| "parse_csi sequence (c # cs) st =
     (if 0x40 \<le> c \<and> c \<le> 0x7e then (cs, if c = 0x6d then parse_sgr sequence st else st)
      else parse_csi (sequence @ [c]) cs st)"

fun read_string_control :: "utext \<Rightarrow> utext \<Rightarrow> utext \<times> utext" where
  "read_string_control payload [] = (payload, [])"
| "read_string_control payload (c # cs) =
     (if c = BEL then (payload, cs)
      else if c = ESC then
        (case cs of
           [] \<Rightarrow> (payload, [])
         | d # ds \<Rightarrow> if d = 0x5c then (payload, ds) else read_string_control payload ds)
      else read_string_control (payload @ [c]) cs)"

fun split_semi :: "utext \<Rightarrow> (utext \<times> utext) option" where
  "split_semi [] = None"
| "split_semi (c # cs) = (if c = SEMI then Some ([], cs)
     else map_option (\<lambda>(a, b). (c # a, b)) (split_semi cs))"

definition parse_osc :: "utext \<Rightarrow> utext option \<Rightarrow> utext \<times> utext option" where
  "parse_osc cs link =
     (let (payload, rest) = read_string_control [] cs
      in (rest,
          case payload of
            a # b # tail \<Rightarrow>
              if a = 0x38 \<and> b = SEMI
              then (case split_semi tail of
                      Some (_, uri) \<Rightarrow> if uri = [] then None else Some uri
                    | None \<Rightarrow> link)
              else link
          | _ \<Rightarrow> link))"

lemma parse_csi_shorter: "length (fst (parse_csi sequence cs st)) \<le> length cs"
  by (induction sequence cs st rule: parse_csi.induct) auto

lemma read_string_control_shorter: "length (snd (read_string_control payload cs)) \<le> length cs"
proof (induction payload cs rule: read_string_control.induct)
  case (2 payload c cs)
  then show ?case by (cases cs) auto
qed simp

lemma parse_osc_shorter: "length (fst (parse_osc cs link)) \<le> length cs"
  using read_string_control_shorter [of "[]" cs] by (simp add: parse_osc_def split_beta Let_def)

lemma parse_csi_le: "(rest, st') = parse_csi sequence cs st \<Longrightarrow> length rest \<le> Suc (length cs)"
  using parse_csi_shorter [of sequence cs st] by (metis fst_conv le_SucI)

lemma parse_osc_le: "(rest, link') = parse_osc cs link \<Longrightarrow> length rest \<le> Suc (length cs)"
  using parse_osc_shorter [of cs link] by (metis fst_conv le_SucI)

lemma read_control_le: "(payload', rest) = read_string_control payload cs \<Longrightarrow> length rest \<le> Suc (length cs)"
  using read_string_control_shorter [of payload cs] by (metis snd_conv le_SucI)

section \<open>Lines and frames\<close>

definition cursor_marker :: utext where
  "cursor_marker = map of_char ''pi:c''"

text \<open>The loop of \<^verbatim>\<open>parse_line\<close>: the style, the link, the columns used and the line so far.\<close>

function line_loop ::
  "nat \<Rightarrow> utext \<Rightarrow> ansi_style \<Rightarrow> utext option \<Rightarrow> nat \<Rightarrow> ansi_line \<Rightarrow> ansi_line" where
  "line_loop width [] st link used line = line"
| "line_loop width (c # cs) st link used line =
     (if c \<noteq> ESC then
        (if is_control c \<or> char_width c = 0 \<or> used + char_width c > width
         then line_loop width cs st link used line
         else line_loop width cs st link (used + char_width c)
           (line\<lparr>al_cells := al_cells line @
              [\<lparr>ac_symbol = c, ac_style = st, ac_hyperlink = link\<rparr>]\<rparr>))
      else case cs of
        [] \<Rightarrow> line
      | d # ds \<Rightarrow>
          if d = 0x5b then (let (rest, st') = parse_csi [] ds st in line_loop width rest st' link used line)
          else if d = 0x5d then (let (rest, link') = parse_osc ds link in line_loop width rest st link' used line)
          else if d = 0x5f then
            (let (payload, rest) = read_string_control [] ds
             in line_loop width rest st link used
                  (if payload = cursor_marker then line\<lparr>al_cursor := Some used\<rparr> else line))
          else if d = 0x50 \<or> d = 0x5e \<or> d = 0x58 then
            line_loop width (snd (read_string_control [] ds)) st link used line
          else line_loop width ds st link used line)"
  by pat_completeness auto
termination
  by (relation "measure (\<lambda>(width, cs, st, link, used, line). length cs)")
    (auto simp: less_Suc_eq_le parse_csi_le parse_osc_le read_control_le
      le_SucI [OF read_string_control_shorter])

definition parse_line :: "utext \<Rightarrow> nat \<Rightarrow> ansi_line" where
  "parse_line input width =
     line_loop width input plain_style None 0 \<lparr>al_cells = [], al_cursor = None\<rparr>"

definition parse_frame :: "utext list \<Rightarrow> nat \<Rightarrow> ansi_frame" where
  "parse_frame lines width = \<lparr>af_width = width, af_lines = map (\<lambda>l. parse_line l width) lines\<rparr>"

definition plain_line :: "utext \<Rightarrow> nat \<Rightarrow> utext" where
  "plain_line input width = map ac_symbol (al_cells (parse_line input width))"

fun join_lines :: "utext list \<Rightarrow> utext" where
  "join_lines [] = []"
| "join_lines [l] = l"
| "join_lines (l # ls) = l @ [10] @ join_lines ls"

definition plain_lines :: "utext list \<Rightarrow> nat \<Rightarrow> utext" where
  "plain_lines lines width =
     join_lines (map (\<lambda>line. map ac_symbol (al_cells line)) (af_lines (parse_frame lines width)))"

section \<open>What a line can hold\<close>

definition columns :: "ansi_cell list \<Rightarrow> nat" where
  "columns cells = sum_list (map (\<lambda>c. char_width (ac_symbol c)) cells)"

lemma columns_simps [simp]:
  "columns [] = 0" "columns (c # cs) = char_width (ac_symbol c) + columns cs"
  "columns (xs @ ys) = columns xs + columns ys"
  by (simp_all add: columns_def)

lemma parse_csi_suffix: "suffix (fst (parse_csi sequence cs st)) cs"
  by (induction sequence cs st rule: parse_csi.induct) (auto simp: suffix_Cons)

lemma read_string_control_suffix: "suffix (snd (read_string_control payload cs)) cs"
proof (induction payload cs rule: read_string_control.induct)
  case (2 payload c cs)
  then show ?case by (cases cs) (auto simp: suffix_Cons)
qed simp

lemma parse_osc_suffix: "suffix (fst (parse_osc cs link)) cs"
  using read_string_control_suffix [of "[]" cs] by (simp add: parse_osc_def split_beta Let_def)

lemma subseq_suffix: "subseq xs rest \<Longrightarrow> suffix rest cs \<Longrightarrow> subseq xs (c # d # cs)"
  by (meson list_emb_Cons subseq_order.order_trans suffix_imp_subseq)

text \<open>
  The cells that the loop adds: drawn characters of the text in order, within the columns left; a
  cursor it sets stands before one of them or at their end.
\<close>

definition drawn :: "nat \<Rightarrow> utext \<Rightarrow> nat \<Rightarrow> ansi_line \<Rightarrow> ansi_line \<Rightarrow> ansi_cell list \<Rightarrow> bool" where
  "drawn width cs used line line' new \<longleftrightarrow>
     al_cells line' = al_cells line @ new \<and> used + columns new \<le> width \<and>
     subseq (map ac_symbol new) cs \<and>
     (\<forall>c \<in> set new. \<not> is_control (ac_symbol c) \<and> 0 < char_width (ac_symbol c)) \<and>
     (al_cursor line' = al_cursor line \<or>
      (\<exists>i \<le> length new. al_cursor line' = Some (used + columns (take i new))))"

lemma drawn_skip:
  assumes "drawn width rest used line line' new" and "suffix rest cs"
  shows "drawn width (c # d # cs) used line line' new"
  using assms subseq_suffix [of "map ac_symbol new" rest cs] by (simp add: drawn_def)

lemma drawn_cursor:
  assumes "drawn width cs used (line\<lparr>al_cursor := Some used\<rparr>) line' new"
  shows "drawn width cs used line line' new"
  using assms unfolding drawn_def by (auto intro: exI [of _ 0])

lemma drawn_cell:
  assumes "drawn width cs (used + char_width c) (line\<lparr>al_cells := al_cells line @ [x]\<rparr>) line' new"
    and "ac_symbol x = c" "\<not> is_control c" "char_width c \<noteq> 0"
  shows "drawn width (c # cs) used line line' (x # new)"
proof -
  have "al_cursor line' = al_cursor line \<or>
      (\<exists>i \<le> length (x # new). al_cursor line' = Some (used + columns (take i (x # new))))"
  proof (cases "al_cursor line' = al_cursor line")
    case False
    then obtain i where "i \<le> length new"
      "al_cursor line' = Some (used + char_width c + columns (take i new))"
      using assms(1) unfolding drawn_def by auto
    then show ?thesis using assms(2) by (intro disjI2 exI [of _ "Suc i"]) simp
  qed simp
  then show ?thesis using assms unfolding drawn_def by simp
qed

lemma line_loop_drawn:
  "used \<le> width \<Longrightarrow> \<exists>new. drawn width cs used line (line_loop width cs st link used line) new"
proof (induction width cs st link used line rule: line_loop.induct)
  case (1 width st link used line)
  then show ?case by (intro exI [of _ "[]"]) (simp add: drawn_def)
next
  case (2 width c cs st link used line)
  show ?case
  proof (cases "c = ESC")
    case False
    show ?thesis
    proof (cases "is_control c \<or> char_width c = 0 \<or> used + char_width c > width")
      case True
      then obtain new where "drawn width cs used line (line_loop width cs st link used line) new"
        using 2 False by blast
      then show ?thesis using True False
        by (intro exI [of _ new]) (auto simp: drawn_def)
    next
      case fits: False
      let ?x = "\<lparr>ac_symbol = c, ac_style = st, ac_hyperlink = link\<rparr>"
      obtain new where "drawn width cs (used + char_width c) (line\<lparr>al_cells := al_cells line @ [?x]\<rparr>)
          (line_loop width cs st link (used + char_width c) (line\<lparr>al_cells := al_cells line @ [?x]\<rparr>)) new"
        using 2(2) [OF False fits] fits by auto
      from drawn_cell [OF this] fits False show ?thesis by auto
    qed
  next
    case True
    show ?thesis
    proof (cases cs)
      case Nil
      then show ?thesis using 2(8) True by (intro exI [of _ "[]"]) (simp add: drawn_def)
    next
      case (Cons d ds)
      obtain r1 st' where r1: "parse_csi [] ds st = (r1, st')" by fastforce
      obtain r2 link' where r2: "parse_osc ds link = (r2, link')" by fastforce
      obtain payload r3 where r3: "read_string_control [] ds = (payload, r3)" by fastforce
      note s = parse_csi_suffix [of "[]" ds st, unfolded r1 fst_conv]
        parse_osc_suffix [of ds link, unfolded r2 fst_conv]
        read_string_control_suffix [of "[]" ds, unfolded r3 snd_conv]
      have esc: "\<not> c \<noteq> ESC" using True by simp
      note IH = 2(3) [OF esc Cons _ refl r1 [symmetric] 2(8)]
        2(4) [OF esc Cons _ _ refl r2 [symmetric] 2(8)]
        2(5) [OF esc Cons _ _ _ refl r3 [symmetric] 2(8)]
        2(6) [OF esc Cons _ _ _ _ 2(8)] 2(7) [OF esc Cons _ _ _ _ 2(8)]
      consider "d = 0x5b" | "d = 0x5d" | "d = 0x5f" | "d = 0x50 \<or> d = 0x5e \<or> d = 0x58"
        | "d \<noteq> 0x5b \<and> d \<noteq> 0x5d \<and> d \<noteq> 0x5f \<and> \<not> (d = 0x50 \<or> d = 0x5e \<or> d = 0x58)" by blast
      then show ?thesis
      proof cases
        case 1
        with IH(1) obtain new where "drawn width r1 used line (line_loop width r1 st' link used line) new"
          by blast
        from drawn_skip [OF this s(1)] show ?thesis using True Cons r1 1 by auto
      next
        case d: 2
        with IH(2) obtain new where "drawn width r2 used line (line_loop width r2 st link' used line) new"
          by auto
        from drawn_skip [OF this s(2)] show ?thesis using True Cons r2 d by auto
      next
        case 3
        let ?l = "if payload = cursor_marker then line\<lparr>al_cursor := Some used\<rparr> else line"
        from 3 IH(3) obtain new where "drawn width r3 used ?l (line_loop width r3 st link used ?l) new"
          by auto
        then have "drawn width r3 used line (line_loop width r3 st link used ?l) new"
          using drawn_cursor by (cases "payload = cursor_marker") auto
        from drawn_skip [OF this s(3), of c d] show ?thesis
          using True Cons r3 3 by (intro exI [of _ new]) simp
      next
        case 4
        with IH(4) r3 obtain new where "drawn width r3 used line (line_loop width r3 st link used line) new"
          by auto
        from drawn_skip [OF this s(3)] show ?thesis using True Cons r3 4 by auto
      next
        case 5
        with IH(5) obtain new where "drawn width ds used line (line_loop width ds st link used line) new"
          by auto
        from drawn_skip [OF this] show ?thesis using True Cons 5 by auto
      qed
    qed
  qed
qed

lemma parse_line_drawn:
  "\<exists>new. drawn width input 0 \<lparr>al_cells = [], al_cursor = None\<rparr> (parse_line input width) new"
  using line_loop_drawn [of 0 width input] by (simp add: parse_line_def)

lemma parse_line_fits:
  "columns (al_cells (parse_line input width)) \<le> width"
  "\<forall>c \<in> set (al_cells (parse_line input width)). 0 < char_width (ac_symbol c)"
  using parse_line_drawn [of width input] by (auto simp: drawn_def)

end
