(* ===== verification/Frames.thy ===== *)
theory Frames
  imports Ansi Ui_Protocol
begin

text \<open>
  Semantic frames (\<^verbatim>\<open>e-agent-tui/src/render.rs\<close>), focus and the editor component
  (\<^verbatim>\<open>component.rs\<close>), the frames that the extensions' terminal text becomes
  (\<^verbatim>\<open>e-agent-pi-compat/src/renderers.rs\<close>), and their colours on the terminal (\<^verbatim>\<open>lib.rs\<close>).

  \<^verbatim>\<open>u16\<close> values are numbers with \<^verbatim>\<open>saturating_add\<close> written out. The width table of the library
  (\<^verbatim>\<open>UnicodeWidthChar::width\<close>) is the parameter \<open>uw\<close>. A panic (an index out of bounds) is \<open>None\<close>.
\<close>

section \<open>Drawing cells\<close>

definition sat16 :: "nat \<Rightarrow> nat" where
  "sat16 n = min n 65535"

record rect =
  rc_x :: nat
  rc_y :: nat
  rc_width :: nat
  rc_height :: nat

definition rect_contains :: "rect \<Rightarrow> nat \<Rightarrow> nat \<Rightarrow> bool" where
  "rect_contains r x y \<longleftrightarrow>
     rc_x r \<le> x \<and> rc_y r \<le> y \<and> x < sat16 (rc_x r + rc_width r) \<and> y < sat16 (rc_y r + rc_height r)"




definition set_at :: "nat \<Rightarrow> 'a \<Rightarrow> 'a list \<Rightarrow> 'a list option" where
  "set_at i v xs = (if i < length xs then Some (xs[i := v]) else None)"

definition width_of :: "(uchar \<Rightarrow> nat option) \<Rightarrow> uchar \<Rightarrow> nat" where
  "width_of uw c = (case uw c of Some n \<Rightarrow> n mod 65536 | None \<Rightarrow> 0)"

text \<open>The cells after the first of a wide symbol, from \<open>offset\<close> on.\<close>

fun put_tail :: "nat \<Rightarrow> nat \<Rightarrow> nat \<Rightarrow> style \<Rightarrow> cell list \<Rightarrow> cell list option" where
  "put_tail base offset 0 st cells = Some cells"
| "put_tail base offset (Suc n) st cells =
     (case set_at (base + offset) \<lparr>cl_symbol = [], cl_style = st, cl_hyperlink = None\<rparr> cells of
        None \<Rightarrow> None | Some cells' \<Rightarrow> put_tail base (Suc offset) n st cells')"

definition put_cell ::
  "(uchar \<Rightarrow> nat option) \<Rightarrow> rect \<Rightarrow> nat \<Rightarrow> nat \<Rightarrow> uchar \<Rightarrow> style \<Rightarrow> utext option \<Rightarrow> semantic_frame \<Rightarrow>
   semantic_frame option" where
  "put_cell uw clip x y symbol st link f =
     (let sz = sf_size f; w = width_of uw symbol; base = y * sz_width sz + x
      in if \<not> rect_contains clip x y \<or> sz_width sz \<le> x \<or> sz_height sz \<le> y then Some f
         else if w = 0 \<or> sat16 (x + w) > sat16 (rc_x clip + rc_width clip) \<or> sat16 (x + w) > sz_width sz
         then Some f
         else case set_at base \<lparr>cl_symbol = [symbol], cl_style = st, cl_hyperlink = link\<rparr> (sf_cells f) of
             None \<Rightarrow> None
           | Some cells \<Rightarrow>
               map_option (\<lambda>cells'. f\<lparr>sf_cells := cells'\<rparr>) (put_tail base 1 (w - 1) st cells))"

definition put ::
  "(uchar \<Rightarrow> nat option) \<Rightarrow> rect \<Rightarrow> nat \<Rightarrow> nat \<Rightarrow> uchar \<Rightarrow> style \<Rightarrow> semantic_frame \<Rightarrow>
   semantic_frame option" where
  "put uw clip x y symbol st f = put_cell uw clip x y symbol st None f"

section \<open>Damage and focus\<close>

datatype damage = NoDamage | ComponentDamage | FullDamage

record render_scheduler =
  rs_dirty :: damage
  rs_components :: "(u64, unit) bmap"

definition request_damage :: "damage \<Rightarrow> render_scheduler \<Rightarrow> render_scheduler" where
  "request_damage d r = r\<lparr>rs_dirty :=
     (if rs_dirty r = FullDamage \<or> d = FullDamage then FullDamage
      else if rs_dirty r = ComponentDamage \<or> d = ComponentDamage then ComponentDamage
      else NoDamage)\<rparr>"

definition invalidate_component :: "u64 \<Rightarrow> render_scheduler \<Rightarrow> render_scheduler" where
  "invalidate_component i r =
     request_damage ComponentDamage (r\<lparr>rs_components := bm_put i () (rs_components r)\<rparr>)"

definition has_damage :: "render_scheduler \<Rightarrow> bool" where
  "has_damage r \<longleftrightarrow> rs_dirty r \<noteq> NoDamage"

definition take_damage :: "render_scheduler \<Rightarrow> damage \<times> render_scheduler" where
  "take_damage r = (rs_dirty r, r\<lparr>rs_components := [], rs_dirty := NoDamage\<rparr>)"

record focus_manager =
  fm_focused :: "u64 option"
  fm_mounted :: "(u64, unit) bmap"
  fm_history :: "u64 list"

definition focus_mount :: "u64 \<Rightarrow> focus_manager \<Rightarrow> focus_manager" where
  "focus_mount i f = f\<lparr>fm_mounted := bm_put i () (fm_mounted f)\<rparr>"

definition focus_remove :: "u64 \<Rightarrow> focus_manager \<Rightarrow> focus_manager" where
  "focus_remove i f =
     (let f1 = f\<lparr>fm_mounted := bm_del i (fm_mounted f),
                 fm_history := filter (\<lambda>j. j \<noteq> i) (fm_history f)\<rparr>
      in if fm_focused f1 = Some i
         then f1\<lparr>fm_focused := List.find (\<lambda>j. bm_get (fm_mounted f1) j \<noteq> None) (rev (fm_history f1))\<rparr>
         else f1)"

definition focus_set :: "u64 \<Rightarrow> focus_manager \<Rightarrow> bool \<times> focus_manager" where
  "focus_set i f =
     (if bm_get (fm_mounted f) i = None then (False, f)
      else (True, (case fm_focused f of
                     Some previous \<Rightarrow>
                       if previous \<noteq> i then f\<lparr>fm_history := fm_history f @ [previous]\<rparr> else f
                   | None \<Rightarrow> f)\<lparr>fm_focused := Some i\<rparr>))"

definition focus_ok :: "focus_manager \<Rightarrow> bool" where
  [wf_defs]: "focus_ok f \<longleftrightarrow> bm_ok (fm_mounted f) \<and>
     (\<forall>i. fm_focused f = Some i \<longrightarrow> bm_get (fm_mounted f) i \<noteq> None) \<and>
     (\<forall>i \<in> set (fm_history f). bm_get (fm_mounted f) i \<noteq> None)"

lemma focus_ok_ops:
  "focus_ok f \<Longrightarrow> focus_ok (focus_mount i f)" "focus_ok f \<Longrightarrow> focus_ok (focus_remove i f)"
  "focus_ok f \<Longrightarrow> focus_ok (snd (focus_set i f))"
  by (auto simp: wf_defs focus_mount_def focus_remove_def focus_set_def Let_def find_Some_iff
      split: option.splits)

section \<open>The editor component\<close>

definition cursor_position :: "(uchar \<Rightarrow> nat option) \<Rightarrow> utext \<Rightarrow> nat \<Rightarrow> nat \<times> nat" where
  "cursor_position uw t cursor =
     fold (\<lambda>ch (row, col).
        if ch = 10 then (Suc row, 0)
        else if ch = 9 then (row, col + (4 - col mod 4))
        else (row, col + (case uw ch of Some n \<Rightarrow> n | None \<Rightarrow> 0)))
      (take cursor t) (0, 0)"

fun draw_text ::
  "(uchar \<Rightarrow> nat option) \<Rightarrow> rect \<Rightarrow> nat \<Rightarrow> style \<Rightarrow> nat \<Rightarrow> nat \<Rightarrow> utext \<Rightarrow> semantic_frame \<Rightarrow>
   semantic_frame option" where
  "draw_text uw clip left st x y [] f = Some f"
| "draw_text uw clip left st x y (ch # t) f =
     (if ch = 10 then draw_text uw clip left st left (sat16 (y + 1)) t f
      else case put uw clip x y ch st f of
          None \<Rightarrow> None
        | Some f' \<Rightarrow> draw_text uw clip left st (sat16 (x + width_of uw ch)) y t f')"

definition editor_render ::
  "(uchar \<Rightarrow> nat option) \<Rightarrow> u64 \<Rightarrow> rect \<Rightarrow> style \<Rightarrow> rect \<Rightarrow> utext \<Rightarrow> nat \<Rightarrow> semantic_frame \<Rightarrow>
   (semantic_frame \<times> cursor_anchor) option" where
  "editor_render uw i clip st area editor cursor f =
     map_option (\<lambda>f'. let (row, column) = cursor_position uw editor cursor
        in (f', \<lparr>ca_component = i, ca_x = sat16 (rc_x area + column mod 65536),
                 ca_y = sat16 (rc_y area + row mod 65536), ca_visible = True, ca_ime = True\<rparr>))
       (draw_text uw clip (rc_x area) st (rc_x area) (rc_y area) editor f)"

section \<open>Frames of terminal text\<close>

definition native_style :: "ansi_style \<Rightarrow> style" where
  "native_style s = \<lparr>st_foreground = an_foreground s, st_background = an_background s,
     st_bold = an_bold s, st_italic = an_italic s, st_underline = an_underline s,
     st_inverse = an_inverse s, st_strikethrough = an_strikethrough s\<rparr>"





section \<open>Colours on the terminal\<close>

datatype terminal_color =
    Black | Red | Green | Yellow | Blue | Magenta | Cyan | Gray | DarkGray | LightRed | LightGreen
  | LightYellow | LightBlue | LightMagenta | LightCyan | White | Rgb nat nat nat

definition semantic_color :: "u32 \<Rightarrow> terminal_color" where
  "semantic_color v =
     (let tag = v AND 0xff000000; k = unat (v AND 7)
      in if tag = 0x01000000 then [Black, Red, Green, Yellow, Blue, Magenta, Cyan, Gray] ! k
         else if tag = 0x02000000 then
           [DarkGray, LightRed, LightGreen, LightYellow, LightBlue, LightMagenta, LightCyan, White] ! k
         else Rgb (unat (drop_bit 16 v AND 0xff)) (unat (drop_bit 8 v AND 0xff)) (unat (v AND 0xff)))"

text \<open>The rows of a frame without the empty cells: symbol, foreground, background and modifiers.\<close>

record terminal_span =
  sp_symbol :: utext
  sp_fg :: "terminal_color option"
  sp_bg :: "terminal_color option"
  sp_modifiers :: "string list"

definition cell_span :: "cell \<Rightarrow> terminal_span" where
  "cell_span c =
     (let s = cl_style c
      in \<lparr>sp_symbol = cl_symbol c, sp_fg = map_option semantic_color (st_foreground s),
          sp_bg = map_option semantic_color (st_background s),
          sp_modifiers = map snd (filter fst
            [(st_bold s, ''BOLD''), (st_italic s, ''ITALIC''), (st_underline s, ''UNDERLINED''),
             (st_inverse s, ''REVERSED''), (st_strikethrough s, ''CROSSED_OUT'')])\<rparr>)"

definition semantic_frame_lines :: "semantic_frame \<Rightarrow> terminal_span list list" where
  "semantic_frame_lines f =
     map (\<lambda>row. map cell_span (filter (\<lambda>c. cl_symbol c \<noteq> [])
        (take (sz_width (sf_size f)) (drop (row * sz_width (sf_size f)) (sf_cells f)))))
      [0..<sz_height (sf_size f)]"

section \<open>What a frame of terminal text shows\<close>

definition expand :: "ansi_cell \<Rightarrow> cell list" where
  "expand c =
     \<lparr>cl_symbol = [ac_symbol c], cl_style = native_style (ac_style c), cl_hyperlink = ac_hyperlink c\<rparr> #
     replicate (char_width (ac_symbol c) - 1)
       \<lparr>cl_symbol = [], cl_style = native_style (ac_style c), cl_hyperlink = None\<rparr>"














section \<open>Colours\<close>

lemma parse_csi_run:
  "list_all (\<lambda>c. \<not> (0x40 \<le> c \<and> c \<le> 0x7e)) xs \<Longrightarrow>
   parse_csi sequence (xs @ 0x6d # rest) st = (rest, parse_sgr (sequence @ xs) st)"
  by (induction xs arbitrary: sequence) auto

lemma split_on_none: "s \<notin> set xs \<Longrightarrow> split_on s xs = [xs]"
  by (induction xs) auto

lemma parse_u16_bound: "parse_u16 t < 2 ^ 16"
  by (simp add: parse_u16_def Let_def)

lemma low_byte:
  "unat (w AND 0xff :: u32) = unat w mod 256" "unat (drop_bit 8 (w :: u32)) = unat w div 256"
proof -
  have "w AND 0xff = take_bit 8 w" by (simp add: take_bit_eq_mask mask_eq_exp_minus_1)
  then show "unat (w AND 0xff) = unat w mod 256"
    by (simp only: unsigned_take_bit_eq) (simp add: take_bit_eq_mod)
  show "unat (drop_bit 8 w) = unat w div 256" by (simp add: drop_bit_eq_div unat_div_distrib)
qed

lemma semantic_color_small:
  assumes "n < 2 ^ 16"
  shows "semantic_color (of_nat n) = Rgb 0 (n div 256) (n mod 256)"
proof -
  let ?v = "of_nat n :: u32"
  have u: "unat ?v = n" using assms by (simp add: unat_of_nat)
  have "?v = of_nat (take_bit 16 n)" using assms by (simp add: take_bit_nat_eq_self)
  then have v: "?v = take_bit 16 ?v" by (simp only: of_nat_take_bit)
  then have "?v AND 0xff000000 = take_bit 16 ?v AND 0xff000000" by simp
  also have "\<dots> = ?v AND take_bit 16 0xff000000"
    by (simp only: take_bit_eq_mask and.assoc and.commute and.left_commute)
  finally have tag: "?v AND 0xff000000 = 0" by simp
  have "drop_bit 16 ?v = drop_bit 16 (take_bit 16 ?v)" using v by simp
  then have high: "drop_bit 16 ?v = 0" by (simp only: drop_bit_take_bit) simp
  show ?thesis
    unfolding semantic_color_def Let_def tag high low_byte u using assms by simp
qed

lemma indexed_parameters:
  "parse_u16 [0x33, 0x38] = 38" "parse_u16 [0x35] = 5"
  "apply_sgr [38, 5, n] st = st\<lparr>an_foreground := Some (of_nat n)\<rparr>"
  by (simp_all add: parse_u16_def is_digit_def digits_value_def apply_sgr.simps)

text \<open>The eight colours and their bright variants arrive on the terminal as what they are, as
  foreground and as background. A colour of the 256-colour palette does not: \<^verbatim>\<open>38;5;n\<close> is kept
  as the bare number, which the terminal is told as the 24-bit colour with blue \<open>n mod 256\<close>.\<close>

theorem indexed_colors_turn_blue:
  assumes "ds \<noteq> []" and "list_all is_digit ds" and "\<not> is_control c" and "char_width c \<le> width"
    and "n = parse_u16 ds"
  shows "map (\<lambda>k. semantic_color (ansi_color (30 + k))) [0..<8] =
      [Black, Red, Green, Yellow, Blue, Magenta, Cyan, Gray] \<and>
    map (\<lambda>k. semantic_color (ansi_color (90 + k))) [0..<8] =
      [DarkGray, LightRed, LightGreen, LightYellow, LightBlue, LightMagenta, LightCyan, White] \<and>
    (\<forall>k < 8. ansi_color (40 + k) = ansi_color (30 + k) \<and> ansi_color (100 + k) = ansi_color (90 + k)) \<and>
    (\<exists>cell. al_cells (parse_line ([ESC, 0x5b] @ map of_char ''38;5;'' @ ds @ [0x6d, c]) width) = [cell] \<and>
       ac_symbol cell = c \<and>
       sp_fg (cell_span (hd (expand cell))) = Some (Rgb 0 (n div 256) (n mod 256)))"
proof (intro conjI)
  show "map (\<lambda>k. semantic_color (ansi_color (30 + k))) [0..<8] =
      [Black, Red, Green, Yellow, Blue, Magenta, Cyan, Gray]"
    by (simp add: upt_rec semantic_color_def ansi_color_def Let_def)
  show "map (\<lambda>k. semantic_color (ansi_color (90 + k))) [0..<8] =
      [DarkGray, LightRed, LightGreen, LightYellow, LightBlue, LightMagenta, LightCyan, White]"
    by (simp add: upt_rec semantic_color_def ansi_color_def Let_def)
  show "\<forall>k < 8. ansi_color (40 + k) = ansi_color (30 + k) \<and> ansi_color (100 + k) = ansi_color (90 + k)"
    by (simp add: ansi_color_def)
  let ?seq = "map of_char ''38;5;'' @ ds"
  have digit: "\<not> (0x40 \<le> d \<and> d \<le> 0x7e) \<and> d \<noteq> SEMI" if "d \<in> set ds" for d
    using assms(2) that by (auto simp: list_all_iff is_digit_def)
  have "split_on SEMI ?seq = [[0x33, 0x38], [0x35], ds]"
    using digit split_on_none [of SEMI ds] by auto
  then have sgr: "parse_sgr ?seq plain_style = plain_style\<lparr>an_foreground := Some (of_nat n)\<rparr>"
    using assms(5) by (simp only: parse_sgr_def list.map indexed_parameters) (simp add: indexed_parameters)
  have "list_all (\<lambda>c. \<not> (0x40 \<le> c \<and> c \<le> 0x7e)) ds" using digit by (simp add: list_all_iff)
  then have run: "list_all (\<lambda>c. \<not> (0x40 \<le> c \<and> c \<le> 0x7e)) ?seq" by simp
  define t where "t = ?seq @ [0x6d, c]"
  have "parse_csi [] t plain_style = ([c], plain_style\<lparr>an_foreground := Some (of_nat n)\<rparr>)"
    using parse_csi_run [OF run, of "[]" "[c]" plain_style] unfolding append_Nil sgr t_def .
  moreover have "c \<noteq> ESC" using assms(3) by (auto simp: is_control_def)
  moreover have "char_width c \<noteq> 0" using assms(3) by (simp add: char_width_def)
  ultimately have "al_cells (parse_line ([ESC, 0x5b] @ t) width) =
      [\<lparr>ac_symbol = c, ac_style = plain_style\<lparr>an_foreground := Some (of_nat n)\<rparr>, ac_hyperlink = None\<rparr>]"
    using assms(3,4) by (simp add: parse_line_def)
  moreover have "semantic_color (of_nat n) = Rgb 0 (n div 256) (n mod 256)"
    using semantic_color_small parse_u16_bound [of ds] assms(5) by simp
  moreover have "[ESC, 0x5b] @ map of_char ''38;5;'' @ ds @ [0x6d, c] = [ESC, 0x5b] @ t"
    by (simp only: t_def append_assoc)
  ultimately show "\<exists>cell. al_cells (parse_line ([ESC, 0x5b] @ map of_char ''38;5;'' @ ds @ [0x6d, c]) width) = [cell] \<and>
       ac_symbol cell = c \<and>
       sp_fg (cell_span (hd (expand cell))) = Some (Rgb 0 (n div 256) (n mod 256))"
    by (simp only:) (simp add: expand_def cell_span_def native_style_def Let_def)
qed

theorem indexed_colors_turn_blue_witness:
  "\<exists>cell. al_cells (parse_line ([ESC, 0x5b] @ map of_char ''38;5;'' @ [0x31, 0x39, 0x36] @ [0x6d, 0x61]) 80) =
       [cell] \<and> sp_fg (cell_span (hd (expand cell))) = Some (Rgb 0 0 196)"
proof -
  have n: "parse_u16 [0x31, 0x39, 0x36] = 196"
    by (simp add: parse_u16_def is_digit_def digits_value_def)
  have "char_width 0x61 \<le> 80" "\<not> is_control 0x61" by (simp_all add: char_width_def is_control_def)
  moreover have "[0x31, 0x39, 0x36] \<noteq> ([] :: utext)" "list_all is_digit [0x31, 0x39, 0x36]"
    by (simp_all add: is_digit_def)
  moreover have "Rgb 0 (196 div 256) (196 mod 256) = Rgb 0 0 196" by simp
  ultimately show ?thesis
    using indexed_colors_turn_blue [of "[0x31, 0x39, 0x36]" "0x61" 80 196] n by metis
qed

end
