(* ===== verification/Pi_Ui.thy ===== *)
theory Pi_Ui
  imports Frames Ui_Broker Hostcall_Bridge
begin

text \<open>
  \<^verbatim>\<open>e-agent-pi-compat/src/ui.rs\<close>: the adapter between the user-interface hostcalls of the scripts and
  the interface's operations. The wait for the broker's reply is the argument \<open>ask\<close>, the width
  table of the frames \<open>uw\<close>, the JSON parser of the standard crate \<open>parse_json\<close>.
\<close>

section \<open>Reading the payload\<close>












definition contribution_value :: "string \<Rightarrow> string \<Rightarrow> string \<Rightarrow> ui_operation" where
  "contribution_value slot key value =
     Contribution (if value = [] then RemoveC slot key else SetC slot key value)"

section \<open>Operations\<close>







definition support_kind :: "string \<Rightarrow> ui_operation_kind" where
  "support_kind name =
     (if name \<in> {''select'', ''confirm'', ''input'', ''editor''} then DialogKind
      else if name = ''notify'' then NotificationKind
      else if name \<in> {''setStatus'', ''setWidget'', ''setTitle'', ''setHeader'', ''setFooter'',
          ''setWorkingMessage'', ''setWorkingVisible'', ''setWorkingIndicator'',
          ''setHiddenThinkingLabel'', ''setToolsExpanded''} then ContributionKind
      else if name = ''setTheme'' then ThemeKind
      else if name = ''render'' then RenderKind
      else if name = ''setKeybindings'' then KeybindingsKind
      else if name \<in> {''setEditorText'', ''set_editor_text'', ''getEditorText'', ''pasteToEditor''}
      then EditorKind
      else if name = ''onTerminalInput'' then TerminalInputKind
      else if name = ''custom'' then OverlayKind
      else UnknownKind)"

definition pi_operation_support :: "ui_capabilities \<Rightarrow> string \<Rightarrow> support_level" where
  "pi_operation_support capabilities name = support capabilities (support_kind name)"

section \<open>Replies\<close>







section \<open>The call\<close>




section \<open>What is announced and what is done\<close>

text \<open>The names that the adapter turns into an operation of the kind it announces.\<close>

lemma contribution_kind [simp]: "kind (contribution_value slot key v) = ContributionKind"
  by (simp add: contribution_value_def)








lemma support_kind_simps [simp]:
  "support_kind ''custom'' = OverlayKind" "support_kind ''render'' = RenderKind"
  "support_kind ''setWidget'' = ContributionKind" "support_kind ''onTerminalInput'' = TerminalInputKind"
  by (simp_all add: support_kind_def)






end
