(* ===== verification/Utf8.thy ===== *)
theory Utf8
  imports Prelude
begin

text \<open>
  UTF-8 as the standard library of the code has it: the bytes of a \<^verbatim>\<open>str\<close> and
  \<^verbatim>\<open>String::from_utf8\<close>, which refuses overlong forms, surrogates, scalar values above
  0x10FFFF and truncated sequences. The two are inverse to each other.
\<close>

type_synonym u8 = "8 word"

section \<open>Bytes of a text\<close>

definition scalar :: "uchar \<Rightarrow> bool" where
  "scalar c = (c < 0xd800 \<or> 0xe000 \<le> c \<and> c < 0x110000)"

definition char_bytes :: "uchar \<Rightarrow> nat list" where
  "char_bytes c =
     (if c < 0x80 then [c]
      else if c < 0x800 then [0xc0 + c div 64, 0x80 + c mod 64]
      else if c < 0x10000 then [0xe0 + c div 4096, 0x80 + c div 64 mod 64, 0x80 + c mod 64]
      else [0xf0 + c div 262144, 0x80 + c div 4096 mod 64, 0x80 + c div 64 mod 64, 0x80 + c mod 64])"

definition as_bytes :: "utext \<Rightarrow> u8 list" where
  "as_bytes t = map word_of_nat (concat (map char_bytes t))"

section \<open>Validation\<close>

definition continuation :: "nat \<Rightarrow> bool" where
  "continuation b = (0x80 \<le> b \<and> b < 0xc0)"

text \<open>One scalar value at the front of the bytes, with the bytes after it.\<close>

definition decode_char :: "nat list \<Rightarrow> (uchar \<times> nat list) option" where
  "decode_char bs =
     (case bs of
        [] \<Rightarrow> None
      | a # r \<Rightarrow>
          if a < 0x80 then Some (a, r)
          else if a < 0xc2 then None
          else if a < 0xe0 then
            (case r of b # r \<Rightarrow>
               if continuation b then Some ((a - 0xc0) * 64 + (b - 0x80), r) else None
             | _ \<Rightarrow> None)
          else if a < 0xf0 then
            (case r of b # c # r \<Rightarrow>
               let v = (a - 0xe0) * 4096 + (b - 0x80) * 64 + (c - 0x80)
               in if continuation b \<and> continuation c \<and> 0x800 \<le> v \<and> scalar v then Some (v, r) else None
             | _ \<Rightarrow> None)
          else if a < 0xf5 then
            (case r of b # c # d # r \<Rightarrow>
               let v = (a - 0xf0) * 262144 + (b - 0x80) * 4096 + (c - 0x80) * 64 + (d - 0x80)
               in if continuation b \<and> continuation c \<and> continuation d \<and> 0x10000 \<le> v \<and> v < 0x110000
                  then Some (v, r) else None
             | _ \<Rightarrow> None)
          else None)"

lemma decode_char_shorter:
  "decode_char bs = Some (c, r) \<Longrightarrow> length r < length bs"
  by (auto simp: decode_char_def Let_def split: list.splits if_splits)

function decode_text :: "nat list \<Rightarrow> utext option" where
  "decode_text bs =
     (if bs = [] then Some []
      else case decode_char bs of
        None \<Rightarrow> None
      | Some (c, r) \<Rightarrow> map_option ((#) c) (decode_text r))"
  by pat_completeness auto
termination
  by (relation "measure length") (auto dest: decode_char_shorter)

declare decode_text.simps [simp del]

definition from_utf8 :: "u8 list \<Rightarrow> utext option" where
  "from_utf8 bs = decode_text (map unat bs)"

section \<open>The two are inverse\<close>

lemma char_bytes_nonempty: "char_bytes c \<noteq> []"
  by (simp add: char_bytes_def)

lemma char_bytes_bound:
  "scalar c \<Longrightarrow> b \<in> set (char_bytes c) \<Longrightarrow> b < 256"
  by (auto simp: char_bytes_def scalar_def split: if_splits)

lemma base64_digit:
  "j < 64 \<Longrightarrow> (k * 64 + j) div 64 = (k :: nat)"
  "j < 64 \<Longrightarrow> (k * 64 + j) mod 64 = (j :: nat)"
  by simp_all

lemma div_4096: "(c :: nat) div 4096 = c div 64 div 64"
  by (simp add: div_mult2_eq [symmetric])

lemma div_262144: "(c :: nat) div 262144 = c div 64 div 64 div 64"
  by (simp add: div_mult2_eq [symmetric])

lemma split_base64:
  "(c :: nat) div 64 * 64 + c mod 64 = c"
  "(c :: nat) div 4096 * 4096 + c div 64 mod 64 * 64 + c mod 64 = c"
  "(c :: nat) div 262144 * 262144 + c div 4096 mod 64 * 4096 + c div 64 mod 64 * 64 + c mod 64 = c"
proof -
  have *: "x div 64 * 64 + x mod 64 = x" for x :: nat by (rule div_mult_mod_eq)
  from * [of c] * [of "c div 64"] * [of "c div 64 div 64"]
  show "c div 64 * 64 + c mod 64 = c"
    and "c div 4096 * 4096 + c div 64 mod 64 * 64 + c mod 64 = c"
    and "c div 262144 * 262144 + c div 4096 mod 64 * 4096 + c div 64 mod 64 * 64 + c mod 64 = c"
    unfolding div_4096 div_262144 by linarith+
qed

lemma decode_char_bytes:
  assumes "scalar c"
  shows "decode_char (char_bytes c @ r) = Some (c, r)"
proof -
  have m: "x mod 64 < 64" for x :: nat by simp
  consider "c < 0x80" | "0x80 \<le> c" "c < 0x800" | "0x800 \<le> c" "c < 0x10000" | "0x10000 \<le> c" by linarith
  then show ?thesis
  proof cases
    case 1
    then show ?thesis by (simp add: char_bytes_def decode_char_def)
  next
    case 2
    then have "2 \<le> c div 64" "c div 64 < 32" by linarith+
    with 2 show ?thesis by (simp add: char_bytes_def decode_char_def continuation_def)
  next
    case 3
    then have "c div 4096 < 16" by linarith
    with 3 assms show ?thesis
      by (simp add: char_bytes_def decode_char_def continuation_def Let_def split_base64)
  next
    case 4
    moreover have "c div 262144 < 5" using assms by (simp add: scalar_def) linarith
    ultimately show ?thesis using assms
      by (simp add: char_bytes_def decode_char_def continuation_def Let_def split_base64 scalar_def)
  qed
qed

lemma decode_text_bytes:
  "list_all scalar t \<Longrightarrow> decode_text (concat (map char_bytes t)) = Some t"
proof (induction t)
  case Nil
  then show ?case by (simp add: decode_text.simps)
next
  case (Cons c t)
  then show ?case
    by (subst decode_text.simps) (simp add: char_bytes_nonempty decode_char_bytes)
qed

lemma map_unat_word_of_nat:
  "\<forall>b \<in> set bs. b < 256 \<Longrightarrow> map unat (map (word_of_nat :: nat \<Rightarrow> u8) bs) = bs"
  by (induction bs) (auto simp: unat_of_nat)

lemma from_utf8_bytes [simp]:
  assumes "list_all scalar t"
  shows "from_utf8 (as_bytes t) = Some t"
proof -
  have "\<forall>b \<in> set (concat (map char_bytes t)). b < 256"
    using assms by (auto simp: list_all_iff dest: char_bytes_bound)
  then show ?thesis
    using assms by (simp only: from_utf8_def as_bytes_def map_unat_word_of_nat decode_text_bytes)
qed

lemma char_bytes_decode:
  assumes "decode_char bs = Some (c, r)"
  shows "bs = char_bytes c @ r" and "scalar c"
proof -
  obtain a s where bs: "bs = a # s"
    using assms by (cases bs) (auto simp: decode_char_def)
  consider "a < 0x80" | "0xc2 \<le> a" "a < 0xe0" | "0xe0 \<le> a" "a < 0xf0" | "0xf0 \<le> a" "a < 0xf5"
    using assms bs by (fastforce simp: decode_char_def split: if_splits)
  then have "bs = char_bytes c @ r \<and> scalar c"
  proof cases
    case 1
    with assms bs show ?thesis by (simp add: decode_char_def char_bytes_def scalar_def)
  next
    case 2
    with assms bs obtain b where s: "s = b # r" "continuation b" "c = (a - 0xc0) * 64 + (b - 0x80)"
      by (auto simp: decode_char_def split: list.splits if_splits)
    define k j where "k = a - 0xc0" and "j = b - 0x80"
    have "a = 0xc0 + k" "b = 0x80 + j" "j < 64" "2 \<le> k" "k < 32" "c = k * 64 + j"
      using 2 s by (auto simp: k_def j_def continuation_def)
    then show ?thesis using bs s by (simp add: char_bytes_def scalar_def)
  next
    case 3
    with assms bs obtain b d where s: "s = b # d # r" "continuation b" "continuation d"
        "c = (a - 0xe0) * 4096 + (b - 0x80) * 64 + (d - 0x80)" "0x800 \<le> c" "scalar c"
      by (auto simp: decode_char_def Let_def split: list.splits if_splits)
    define k j i where "k = a - 0xe0" and "j = b - 0x80" and "i = d - 0x80"
    have e: "a = 0xe0 + k" "b = 0x80 + j" "d = 0x80 + i" "j < 64" "i < 64" "k < 16"
        "c = k * 4096 + j * 64 + i"
      using 3 s by (auto simp: k_def j_def i_def continuation_def)
    have "c = (k * 64 + j) * 64 + i" using e(7) by simp
    with e(4,5) have "c div 4096 = k" "c div 64 mod 64 = j" "c mod 64 = i"
      by (simp_all only: div_4096 base64_digit)
    moreover have "c < 0x10000" using e(4-7) by linarith
    ultimately show ?thesis using bs s(1,5,6) e(1-3) by (simp add: char_bytes_def)
  next
    case 4
    with assms bs obtain b d f where s: "s = b # d # f # r" "continuation b" "continuation d" "continuation f"
        "c = (a - 0xf0) * 262144 + (b - 0x80) * 4096 + (d - 0x80) * 64 + (f - 0x80)"
        "0x10000 \<le> c" "c < 0x110000"
      by (auto simp: decode_char_def Let_def split: list.splits if_splits)
    define k j i h where "k = a - 0xf0" and "j = b - 0x80" and "i = d - 0x80" and "h = f - 0x80"
    have e: "a = 0xf0 + k" "b = 0x80 + j" "d = 0x80 + i" "f = 0x80 + h" "j < 64" "i < 64" "h < 64" "k < 5"
        "c = k * 262144 + j * 4096 + i * 64 + h"
      using 4 s(2-5) unfolding k_def j_def i_def h_def continuation_def by linarith+
    have "c = ((k * 64 + j) * 64 + i) * 64 + h" using e(9) by simp
    with e(5-8) have "c div 262144 = k" "c div 4096 mod 64 = j" "c div 64 mod 64 = i" "c mod 64 = h"
      by (simp_all only: div_262144 div_4096 base64_digit)
    then show ?thesis using bs s(1,6,7) e(1-4) by (simp add: char_bytes_def scalar_def)
  qed
  then show "bs = char_bytes c @ r" and "scalar c" by auto
qed

lemma bytes_decode_text:
  "decode_text bs = Some t \<Longrightarrow> bs = concat (map char_bytes t) \<and> list_all scalar t"
proof (induction bs arbitrary: t rule: decode_text.induct)
  case (1 bs)
  show ?case
  proof (cases "bs = []")
    case True
    with "1.prems" show ?thesis by (simp add: decode_text.simps)
  next
    case False
    with "1.prems" obtain c r u where d: "decode_char bs = Some (c, r)" "decode_text r = Some u" "t = c # u"
      by (subst (asm) decode_text.simps) (auto split: option.splits)
    from "1.IH" [OF False d(1) refl d(2)] char_bytes_decode [OF d(1)] d(3)
    show ?thesis by simp
  qed
qed

lemma from_utf8_inverse:
  assumes "from_utf8 bs = Some t"
  shows "bs = as_bytes t" and "list_all scalar t"
proof -
  from assms have "map unat bs = concat (map char_bytes t) \<and> list_all scalar t"
    unfolding from_utf8_def by (rule bytes_decode_text)
  moreover have "bs = map word_of_nat (map unat bs)"
    by (simp add: o_def)
  ultimately show "bs = as_bytes t" and "list_all scalar t"
    by (simp_all add: as_bytes_def)
qed

end
