(* ===== verification/Assets.thy ===== *)
theory Assets
  imports Utf8
begin

unbundle bit_operations_syntax

text \<open>
  The codec of the embedded resources (\<^verbatim>\<open>e-agent-node-runtime/src/embedded_assets.rs\<close>):
  the constant evaluator compresses each JavaScript literal with a hash-table LZSS, the program
  decompresses it on demand. Positions and lengths are \<^typ>\<open>nat\<close> (the inputs are slices, far
  shorter than \<^verbatim>\<open>usize::MAX\<close>), the hash is computed on 64-bit words. The hash table is a
  function from slots to positions, initially the sentinel everywhere; the output array has its
  declared size and every write is checked as Rust checks it, so a wrong
  \<^verbatim>\<open>OUTPUT_LEN\<close> is the panic \<^term>\<open>None\<close>.
\<close>

section \<open>The hash table\<close>

definition hash_slots :: nat where "hash_slots = 2 ^ 12"
definition max_distance :: nat where "max_distance = 65535"
definition min_match :: nat where "min_match = 4"
definition max_match :: nat where "max_match = min_match + 0x7f"
definition literal_chunk :: nat where "literal_chunk = 0x80"
definition no_position :: nat where "no_position = 2 ^ 64 - 1"

type_synonym slots = "nat \<Rightarrow> nat"

definition le_byte :: "nat \<Rightarrow> nat \<Rightarrow> u8" where
  "le_byte i n = word_of_nat (n div 256 ^ i)"

definition lzss_hash :: "u8 list \<Rightarrow> nat \<Rightarrow> nat" where
  "lzss_hash input position =
     (let sequence = (ucast (input ! position) :: u64)
            OR push_bit 8 (ucast (input ! (position + 1)))
            OR push_bit 16 (ucast (input ! (position + 2)))
      in unat (drop_bit 16 (sequence * 2654435761) AND word_of_nat (hash_slots - 1)))"

function match_length :: "u8 list \<Rightarrow> nat \<Rightarrow> nat \<Rightarrow> nat \<Rightarrow> nat \<Rightarrow> nat" where
  "match_length input candidate position limit len =
     (if len < limit \<and> input ! (candidate + len) = input ! (position + len)
      then match_length input candidate position limit (len + 1)
      else len)"
  by pat_completeness auto
termination by (relation "measure (\<lambda>(_, _, _, limit, len). limit - len)") auto

declare match_length.simps [simp del]

definition lzss_match :: "u8 list \<Rightarrow> slots \<Rightarrow> nat \<Rightarrow> (nat \<times> nat) \<times> slots" where
  "lzss_match input positions position =
     (if position + min_match > length input then ((0, 0), positions)
      else
        let hash = lzss_hash input position;
            candidate = positions hash;
            positions = positions(hash := position)
        in if candidate = no_position \<or> candidate \<ge> position \<or> position - candidate > max_distance
           then ((0, 0), positions)
           else
             let available = length input - position;
                 limit = (if available < max_match then available else max_match);
                 len = match_length input candidate position limit 0
             in if len < min_match then ((0, 0), positions)
                else ((len, position - candidate), positions))"

function record_positions :: "u8 list \<Rightarrow> slots \<Rightarrow> nat \<Rightarrow> nat \<Rightarrow> slots" where
  "record_positions input positions cursor stop =
     (if cursor < stop then
        record_positions input
          (if cursor + min_match \<le> length input
           then positions(lzss_hash input cursor := cursor) else positions)
          (cursor + 1) stop
      else positions)"
  by pat_completeness auto
termination by (relation "measure (\<lambda>(_, _, cursor, stop). stop - cursor)") auto

declare record_positions.simps [simp del]

definition record_match_positions :: "u8 list \<Rightarrow> slots \<Rightarrow> nat \<Rightarrow> nat \<Rightarrow> slots" where
  "record_match_positions input positions position match_len =
     record_positions input positions (position + 1) (position + match_len)"

section \<open>The size of the compressed form\<close>

definition literal_encoded_len :: "nat \<Rightarrow> nat" where
  "literal_encoded_len len = len + (len + literal_chunk - 1) div literal_chunk"

function compressed_len_loop :: "u8 list \<Rightarrow> slots \<Rightarrow> nat \<Rightarrow> nat \<Rightarrow> nat \<Rightarrow> nat" where
  "compressed_len_loop input positions position literal_start encoded_len =
     (if position < length input then
        let ((match_len, _), positions) = lzss_match input positions position
        in if match_len = 0
           then compressed_len_loop input positions (position + 1) literal_start encoded_len
           else compressed_len_loop input
                  (record_match_positions input positions position match_len)
                  (position + match_len) (position + match_len)
                  (encoded_len + (literal_encoded_len (position - literal_start) + 3))
      else encoded_len + literal_encoded_len (length input - literal_start))"
  by pat_completeness auto
termination
  by (relation "measure (\<lambda>(input, _, position, _, _). length input - position)") auto

declare compressed_len_loop.simps [simp del]

definition lzss_compressed_len :: "u8 list \<Rightarrow> nat" where
  "lzss_compressed_len input = compressed_len_loop input (\<lambda>_. no_position) 0 0 0"

section \<open>Compression\<close>

text \<open>The output array and the next position to write.\<close>

type_synonym out = "u8 list \<times> nat"

definition put_byte :: "u8 \<Rightarrow> out \<Rightarrow> out option" where
  "put_byte b w = (if snd w < length (fst w) then Some ((fst w)[snd w := b], snd w + 1) else None)"

function copy_input :: "u8 list \<Rightarrow> nat \<Rightarrow> nat \<Rightarrow> out \<Rightarrow> out option" where
  "copy_input input position literal_end w =
     (if position < literal_end
      then Option.bind (put_byte (input ! position) w) (copy_input input (position + 1) literal_end)
      else Some w)"
  by pat_completeness auto
termination by (relation "measure (\<lambda>(_, position, literal_end, _). literal_end - position)") auto

declare copy_input.simps [simp del]

function put_literals :: "u8 list \<Rightarrow> nat \<Rightarrow> nat \<Rightarrow> out \<Rightarrow> out option" where
  "put_literals input literal_position stop w =
     (if literal_position < stop then
        let remaining = stop - literal_position;
            chunk_len = (if remaining < literal_chunk then remaining else literal_chunk)
        in Option.bind (put_byte (le_byte 0 (chunk_len - 1)) w) (\<lambda>w.
           Option.bind (copy_input input literal_position (literal_position + chunk_len) w)
             (put_literals input (literal_position + chunk_len) stop))
      else Some w)"
  by pat_completeness auto
termination
  by (relation "measure (\<lambda>(_, position, stop, _). stop - position)") (auto simp: literal_chunk_def)

declare put_literals.simps [simp del]

definition put_match :: "nat \<Rightarrow> nat \<Rightarrow> out \<Rightarrow> out option" where
  "put_match match_len match_distance w =
     Option.bind (put_byte (0x80 OR le_byte 0 (match_len - min_match)) w) (\<lambda>w.
     Option.bind (put_byte (le_byte 0 match_distance) w)
       (put_byte (le_byte 1 match_distance)))"

function compress_loop :: "u8 list \<Rightarrow> slots \<Rightarrow> nat \<Rightarrow> nat \<Rightarrow> out \<Rightarrow> out option" where
  "compress_loop input positions position literal_start w =
     (if position < length input then
        let ((match_len, match_distance), positions) = lzss_match input positions position
        in if match_len = 0
           then compress_loop input positions (position + 1) literal_start w
           else
             Option.bind (put_literals input literal_start position w) (\<lambda>w.
             Option.bind (put_match match_len match_distance w)
               (compress_loop input (record_match_positions input positions position match_len)
                  (position + match_len) (position + match_len)))
      else put_literals input literal_start (length input) w)"
  by pat_completeness auto
termination
  by (relation "measure (\<lambda>(input, _, position, _, _). length input - position)") auto

declare compress_loop.simps [simp del]

definition lzss_compress :: "nat \<Rightarrow> u8 list \<Rightarrow> u8 list option" where
  "lzss_compress output_len input =
     Option.bind (compress_loop input (\<lambda>_. no_position) 0 0 (replicate output_len 0, 0)) (\<lambda>(output, position).
       if position = output_len then Some output else None)"

section \<open>Decompression\<close>

datatype lzss_error =
    TruncatedLiteralRun
  | OutputExceedsLength
  | TruncatedMatchDistance
  | InvalidMatchDistance
  | LengthMismatch (expected: nat) (decoded: nat)
  | NotUtf8

primrec push_match :: "nat \<Rightarrow> nat \<Rightarrow> u8 list \<Rightarrow> u8 list" where
  "push_match distance 0 output = output"
| "push_match distance (Suc n) output =
     push_match distance n (output @ [output ! (length output - distance)])"

function decompress_loop :: "u8 list \<Rightarrow> nat \<Rightarrow> nat \<Rightarrow> u8 list \<Rightarrow> lzss_error + u8 list" where
  "decompress_loop input expected_len position output =
     (if position < length input then
        let header = input ! position;
            position = position + 1
        in if header AND 0x80 = 0 then
             let len = unat header + 1;
                 stop = position + len
             in if stop > length input then Inl TruncatedLiteralRun
                else if length output + len > expected_len then Inl OutputExceedsLength
                else decompress_loop input expected_len stop
                       (output @ take len (drop position input))
           else if position + 2 > length input then Inl TruncatedMatchDistance
           else
             let distance = unat (input ! position) + 256 * unat (input ! (position + 1));
                 position = position + 2
             in if distance = 0 \<or> distance > length output then Inl InvalidMatchDistance
                else
                  let len = unat (header AND 0x7f) + min_match
                  in if length output + len > expected_len then Inl OutputExceedsLength
                     else decompress_loop input expected_len position (push_match distance len output)
      else Inr output)"
  by pat_completeness auto
termination
  by (relation "measure (\<lambda>(input, _, position, _). length input - position)") auto

declare decompress_loop.simps [simp del]

definition lzss_decompress :: "u8 list \<Rightarrow> nat \<Rightarrow> lzss_error + utext" where
  "lzss_decompress input expected_len =
     (case decompress_loop input expected_len 0 [] of
        Inl e \<Rightarrow> Inl e
      | Inr output \<Rightarrow>
          if length output \<noteq> expected_len then Inl (LengthMismatch expected_len (length output))
          else case from_utf8 output of
            Some t \<Rightarrow> Inr t
          | None \<Rightarrow> Inl NotUtf8)"

section \<open>Abstract encoder\<close>

text \<open>The encoding as a list of bytes, without an output array.\<close>

definition segment :: "nat \<Rightarrow> nat \<Rightarrow> 'a list \<Rightarrow> 'a list" where
  "segment a b xs = take (b - a) (drop a xs)"

function literal_bytes :: "u8 list \<Rightarrow> u8 list" where
  "literal_bytes xs =
     (if xs = [] then []
      else le_byte 0 (min (length xs) literal_chunk - 1) # take literal_chunk xs
             @ literal_bytes (drop literal_chunk xs))"
  by pat_completeness auto
termination by (relation "measure length") (auto simp: literal_chunk_def)

declare literal_bytes.simps [simp del]

definition match_bytes :: "nat \<Rightarrow> nat \<Rightarrow> u8 list" where
  "match_bytes match_len match_distance =
     [0x80 OR le_byte 0 (match_len - min_match), le_byte 0 match_distance, le_byte 1 match_distance]"

function encoding :: "u8 list \<Rightarrow> slots \<Rightarrow> nat \<Rightarrow> nat \<Rightarrow> u8 list" where
  "encoding input positions position literal_start =
     (if position < length input then
        let ((match_len, match_distance), positions) = lzss_match input positions position
        in if match_len = 0 then encoding input positions (position + 1) literal_start
           else literal_bytes (segment literal_start position input)
             @ match_bytes match_len match_distance
             @ encoding input (record_match_positions input positions position match_len)
                 (position + match_len) (position + match_len)
      else literal_bytes (segment literal_start (length input) input))"
  by pat_completeness auto
termination
  by (relation "measure (\<lambda>(input, _, position, _). length input - position)") auto

declare encoding.simps [simp del]

lemma match_length_spec:
  assumes "m = match_length input candidate position limit len" and "len \<le> limit"
  shows "len \<le> m" and "m \<le> limit"
    and "\<And>i. len \<le> i \<Longrightarrow> i < m \<Longrightarrow> input ! (candidate + i) = input ! (position + i)"
proof -
  have "len \<le> m \<and> m \<le> limit \<and> (\<forall>i. len \<le> i \<longrightarrow> i < m \<longrightarrow> input ! (candidate + i) = input ! (position + i))"
    using assms
  proof (induction input candidate position limit len rule: match_length.induct)
    case (1 input candidate position limit len)
    show ?case
    proof (cases "len < limit \<and> input ! (candidate + len) = input ! (position + len)")
      case True
      then have "m = match_length input candidate position limit (len + 1)"
        using "1.prems"(1) by (subst (asm) match_length.simps) simp
      from "1.IH" [OF True this] True
      have m: "len + 1 \<le> m" "m \<le> limit"
        and eq: "\<And>i. len + 1 \<le> i \<Longrightarrow> i < m \<Longrightarrow> input ! (candidate + i) = input ! (position + i)"
        by auto
      have "input ! (candidate + i) = input ! (position + i)" if "len \<le> i" "i < m" for i
        using that True eq [of i] by (cases "i = len") auto
      with m show ?thesis by auto
    next
      case False
      then have "m = len" using "1.prems"(1) by (subst (asm) match_length.simps) auto
      then show ?thesis using "1.prems"(2) by simp
    qed
  qed
  then show "len \<le> m" and "m \<le> limit"
    and "\<And>i. len \<le> i \<Longrightarrow> i < m \<Longrightarrow> input ! (candidate + i) = input ! (position + i)" by auto
qed

text \<open>A reported match repeats input that was already encoded, at a distance of two bytes.\<close>

lemma lzss_match_spec:
  assumes "lzss_match input positions position = ((len, distance), positions')" and "len \<noteq> 0"
  shows "min_match \<le> len" and "len \<le> max_match" and "position + len \<le> length input"
    and "0 < distance" and "distance \<le> position" and "distance \<le> max_distance"
    and "\<And>i. i < len \<Longrightarrow> input ! (position - distance + i) = input ! (position + i)"
proof -
  define c limit where "c = positions (lzss_hash input position)"
    and "limit = (if length input - position < max_match then length input - position else max_match)"
  have pos: "\<not> position + min_match > length input" "\<not> (c = no_position \<or> c \<ge> position \<or> position - c > max_distance)"
    and len: "len = match_length input c position limit 0" "\<not> len < min_match" and d: "distance = position - c"
    using assms by (auto simp: lzss_match_def Let_def c_def [symmetric] limit_def [symmetric] split: if_splits)
  note spec = match_length_spec(2,3) [OF len(1) le0]
  show "min_match \<le> len" using len by simp
  show "len \<le> max_match" using spec(1) by (auto simp: limit_def split: if_splits)
  have "len \<le> length input - position" using spec(1) by (simp add: limit_def split: if_splits)
  then show "position + len \<le> length input" using pos(1) by simp
  show "0 < distance" "distance \<le> position" "distance \<le> max_distance" using pos(2) d by auto
  show "input ! (position - distance + i) = input ! (position + i)" if "i < len" for i
    using spec(2) [of i] that pos(2) d by simp
qed

lemma literal_bytes_length:
  "length (literal_bytes xs) = literal_encoded_len (length xs)"
proof (induction xs rule: literal_bytes.induct)
  case (1 xs)
  show ?case
  proof (cases "xs = []")
    case True
    then show ?thesis by (simp add: literal_bytes.simps literal_encoded_len_def literal_chunk_def)
  next
    case False
    have "length (literal_bytes xs) =
        1 + min (length xs) literal_chunk + literal_encoded_len (length xs - literal_chunk)"
      using False "1.IH" by (subst literal_bytes.simps) simp
    also have "\<dots> = literal_encoded_len (length xs)"
      using False
      by (cases "length xs \<le> 128")
        (auto simp: literal_encoded_len_def literal_chunk_def min_def Suc_le_eq le_div_geq neq_Nil_conv)
    finally show ?thesis .
  qed
qed

lemma compressed_len_encoding:
  "literal_start \<le> position \<Longrightarrow> position \<le> length input \<Longrightarrow>
   compressed_len_loop input positions position literal_start n =
     n + length (encoding input positions position literal_start)"
proof (induction input positions position literal_start arbitrary: n rule: encoding.induct)
  case (1 input positions position literal_start)
  show ?case
  proof (cases "position < length input")
    case False
    with "1.prems" show ?thesis
      by (subst compressed_len_loop.simps, subst encoding.simps)
        (simp add: literal_bytes_length segment_def)
  next
    case True
    obtain len d q where m: "lzss_match input positions position = ((len, d), q)"
      by (metis surj_pair)
    show ?thesis
    proof (cases "len = 0")
      case True
      with \<open>position < length input\<close> "1.prems" show ?thesis
        using "1.IH"(1) [OF \<open>position < length input\<close> refl m [symmetric] refl True]
        by (subst compressed_len_loop.simps, subst encoding.simps) (simp add: m)
    next
      case False
      note s = lzss_match_spec [OF m False]
      with \<open>position < length input\<close> "1.prems" show ?thesis
        using "1.IH"(2) [OF \<open>position < length input\<close> refl m [symmetric] refl False]
        by (subst compressed_len_loop.simps, subst encoding.simps)
          (simp add: m False literal_bytes_length segment_def match_bytes_def)
    qed
  qed
qed

lemma compressed_len_is:
  "lzss_compressed_len input = length (encoding input (\<lambda>_. no_position) 0 0)"
  by (simp add: lzss_compressed_len_def compressed_len_encoding)

section \<open>The output array receives the encoding\<close>

primrec write_all :: "u8 list \<Rightarrow> out \<Rightarrow> out option" where
  "write_all [] w = Some w"
| "write_all (b # bs) w = Option.bind (put_byte b w) (write_all bs)"

lemma write_all_append: "write_all (as @ bs) w = Option.bind (write_all as w) (write_all bs)"
  by (induction as arbitrary: w) (auto simp: bind_split split: option.split)

lemma write_all_into:
  "write_all bs (pre @ replicate k 0, length pre) =
     (if length bs \<le> k then Some (pre @ bs @ replicate (k - length bs) 0, length pre + length bs) else None)"
proof (induction bs arbitrary: pre k)
  case Nil
  then show ?case by simp
next
  case (Cons b bs)
  show ?case
  proof (cases k)
    case 0
    then show ?thesis by (simp add: put_byte_def)
  next
    case (Suc j)
    then have "put_byte b (pre @ replicate k 0, length pre) =
        Some ((pre @ [b]) @ replicate j 0, length (pre @ [b]))"
      by (simp add: put_byte_def list_update_append)
    with Cons.IH [of "pre @ [b]" j] Suc show ?thesis by simp
  qed
qed

lemma copy_input_write_all:
  "stop \<le> length input \<Longrightarrow> copy_input input position stop w = write_all (segment position stop input) w"
proof (induction input position stop w rule: copy_input.induct)
  case (1 input position stop w)
  show ?case
  proof (cases "position < stop")
    case True
    then have "segment position stop input = input ! position # segment (position + 1) stop input"
      using "1.prems" Cons_nth_drop_Suc [of position input]
      by (simp add: segment_def) (metis Suc_diff_Suc take_Suc_Cons)
    with True "1" show ?thesis
      by (subst copy_input.simps) (simp add: bind_split split: option.split)
  next
    case False
    then show ?thesis by (subst copy_input.simps) (simp add: segment_def)
  qed
qed

lemma put_literals_write_all:
  "stop \<le> length input \<Longrightarrow> put_literals input position stop w = write_all (literal_bytes (segment position stop input)) w"
proof (induction input position stop w rule: put_literals.induct)
  case (1 input position stop w)
  show ?case
  proof (cases "position < stop")
    case True
    define c where "c = min (stop - position) literal_chunk"
    have c: "(if stop - position < literal_chunk then stop - position else literal_chunk) = c"
      by (simp add: c_def)
    have s: "segment position stop input \<noteq> []" "length (segment position stop input) = stop - position"
      "take literal_chunk (segment position stop input) = segment position (position + c) input"
      "drop literal_chunk (segment position stop input) = segment (position + c) stop input"
      using True "1.prems" by (auto simp: segment_def c_def min_def drop_take ac_simps)
    have pc: "position + c \<le> length input" using True "1.prems" by (simp add: c_def)
    have IH: "put_literals input (position + c) stop v = write_all (literal_bytes (segment (position + c) stop input)) v"
      if "put_byte (le_byte 0 (c - 1)) w = Some u" "copy_input input position (position + c) u = Some v" for u v
      using "1.IH" [OF True refl c [symmetric] that] "1.prems" by simp
    show ?thesis
    proof (cases "put_byte (le_byte 0 (c - 1)) w")
      case None
      with True s show ?thesis
        by (subst put_literals.simps, subst literal_bytes.simps) (simp add: Let_def c c_def [symmetric])
    next
      case (Some u)
      with True s IH [OF Some] pc show ?thesis
        by (subst put_literals.simps, subst literal_bytes.simps)
          (simp add: Let_def c c_def [symmetric] write_all_append copy_input_write_all bind_split split: option.split)
    qed
  next
    case False
    then show ?thesis by (subst put_literals.simps, subst literal_bytes.simps) (simp add: segment_def)
  qed
qed

lemma put_match_write_all: "put_match len d w = write_all (match_bytes len d) w"
  by (simp add: put_match_def match_bytes_def bind_split split: option.split)

lemma compress_loop_write_all:
  "position \<le> length input \<Longrightarrow>
   compress_loop input positions position literal_start w = write_all (encoding input positions position literal_start) w"
proof (induction input positions position literal_start arbitrary: w rule: encoding.induct)
  case (1 input positions position literal_start)
  show ?case
  proof (cases "position < length input")
    case False
    then show ?thesis
      by (subst compress_loop.simps, subst encoding.simps) (simp add: put_literals_write_all)
  next
    case True
    obtain len d q where m: "lzss_match input positions position = ((len, d), q)"
      by (metis surj_pair)
    show ?thesis
    proof (cases "len = 0")
      case True
      with \<open>position < length input\<close> show ?thesis
        using "1.IH"(1) [OF \<open>position < length input\<close> refl m [symmetric] refl True]
        by (subst compress_loop.simps, subst encoding.simps) (simp add: m)
    next
      case False
      with \<open>position < length input\<close> lzss_match_spec(3) [OF m False] show ?thesis
        using "1.IH"(2) [OF \<open>position < length input\<close> refl m [symmetric] refl False]
        by (subst compress_loop.simps, subst encoding.simps)
          (simp add: m put_literals_write_all put_match_write_all write_all_append bind_split split: option.split)
    qed
  qed
qed

lemma lzss_compress_is:
  "lzss_compress n input =
     (if n = lzss_compressed_len input then Some (encoding input (\<lambda>_. no_position) 0 0) else None)"
  using write_all_into [of "encoding input (\<lambda>_. no_position) 0 0" "[]" n]
  by (auto simp: lzss_compress_def compress_loop_write_all compressed_len_is)

section \<open>The decoder reads the encoding\<close>

lemma header_literal: "(b AND 0x80 = 0) = (unat b < 128)" for b :: u8
proof -
  have lt: "unat b < 256" using unsigned_less [of b] by simp
  have "(b AND 0x80 = 0) = (\<not> bit b 7)"
    using and_exp_eq_0_iff_not_bit [of b 7] by simp
  also have "\<dots> = (\<not> odd (unat b div 128))"
    using bit_unsigned_iff [of b 7, where 'a = nat] by (simp add: bit_iff_odd possible_bit_def)
  also have "\<dots> = (unat b < 128)"
  proof (cases "unat b < 128")
    case False
    with lt have "unat b div 128 = 1" by linarith
    with False show ?thesis by simp
  qed simp
  finally show ?thesis .
qed

lemma le_byte_unat: "unat (le_byte i n) = n div 256 ^ i mod 256"
  by (simp add: le_byte_def unat_of_nat)

lemma or_128: "k < 128 \<Longrightarrow> 128 OR k = 128 + (k :: nat)"
proof -
  assume "k < 128"
  then have "take_bit 7 k = k" by (simp add: take_bit_eq_mod)
  moreover have "bit (128 :: nat) n = (n = 7)" for n
    using bit_exp_iff [of 7 n, where 'a = nat] by (simp add: possible_bit_def)
  ultimately have "128 AND k = 0"
    by (metis (mono_tags, lifting) bit_and_iff bit_eqI bit_0_eq bit_take_bit_iff bot_apply bot_bool_def less_irrefl)
  then show ?thesis by (simp add: disjunctive_add_eq_or)
qed

lemma match_header:
  assumes "min_match \<le> len" and "len \<le> max_match"
  shows "(0x80 OR le_byte 0 (len - min_match)) AND (0x80 :: u8) \<noteq> 0"
    and "unat ((0x80 OR le_byte 0 (len - min_match)) AND (0x7f :: u8)) + min_match = len"
proof -
  define k where "k = len - min_match"
  have k: "k < 128" "len = k + min_match" using assms by (auto simp: k_def max_match_def)
  have u: "unat ((0x80 :: u8) OR le_byte 0 k) = 128 + k"
    using k by (simp add: unsigned_or_eq le_byte_unat or_128)
  then show "(0x80 OR le_byte 0 (len - min_match)) AND (0x80 :: u8) \<noteq> 0"
    unfolding header_literal k_def [symmetric] by simp
  have t: "((0x80 :: u8) OR le_byte 0 k) AND 0x7f = take_bit 7 (0x80 OR le_byte 0 k)"
    by (simp add: take_bit_eq_mask mask_eq_exp_minus_1)
  have "unat (((0x80 :: u8) OR le_byte 0 k) AND 0x7f) = k"
    by (simp only: t unsigned_take_bit_eq u) (use k in \<open>simp add: take_bit_eq_mod\<close>)
  then show "unat ((0x80 OR le_byte 0 (len - min_match)) AND (0x7f :: u8)) + min_match = len"
    unfolding k_def [symmetric] using k by simp
qed


text \<open>One literal run, and one match, as the decoder reads them.\<close>

lemma read_literals:
  assumes "drop position input = le_byte 0 (n - 1) # xs @ r" and "length xs = n" and "0 < n" "n \<le> literal_chunk"
    and "length output + n \<le> expected_len"
  shows "decompress_loop input expected_len position output =
           decompress_loop input expected_len (position + 1 + n) (output @ xs)"
    and "drop (position + 1 + n) input = r"
proof -
  have lt: "position < length input"
    using assms(1) by (metis drop_all list.distinct(1) not_le)
  from assms(1) lt have h: "input ! position = le_byte 0 (n - 1)" "drop (position + 1) input = xs @ r"
    by (simp_all add: Cons_nth_drop_Suc [symmetric])
  have u: "unat (input ! position) = n - 1"
    using assms(3,4) by (simp add: h le_byte_unat literal_chunk_def)
  then have lit: "input ! position AND 0x80 = 0"
    using assms(3,4) by (simp add: header_literal literal_chunk_def)
  have "length (drop (position + 1) input) = n + length r" by (simp only: h(2) length_append assms(2))
  then have len: "position + 1 + n \<le> length input" using lt by simp
  show "decompress_loop input expected_len position output =
      decompress_loop input expected_len (position + 1 + n) (output @ xs)"
    using lt lit u len assms(2,3,5) h(2)
    by (subst decompress_loop.simps) simp
  show "drop (position + 1 + n) input = r"
    using arg_cong [OF h(2), of "drop n"] assms(2) by (simp add: ac_simps)
qed

lemma read_match:
  assumes "drop position input = match_bytes len distance @ r"
    and "min_match \<le> len" "len \<le> max_match" "0 < distance" "distance \<le> max_distance"
    and "distance \<le> length output" "length output + len \<le> expected_len"
  shows "decompress_loop input expected_len position output =
           decompress_loop input expected_len (position + 3) (push_match distance len output)"
    and "drop (position + 3) input = r"
proof -
  have lt: "position + 2 < length input"
  proof (rule ccontr)
    assume "\<not> position + 2 < length input"
    then have "length (drop position input) < 3" by simp
    then show False using assms(1) by (simp add: match_bytes_def)
  qed
  then have "drop position input =
      input ! position # input ! (position + 1) # input ! (position + 2) # drop (position + 3) input"
    by (simp add: Cons_nth_drop_Suc numeral_eq_Suc)
  with assms(1) have h: "input ! position = 0x80 OR le_byte 0 (len - min_match)"
      "input ! (position + 1) = le_byte 0 distance" "input ! (position + 2) = le_byte 1 distance"
      "drop (position + 3) input = r"
    by (simp_all add: match_bytes_def)
  have d: "unat (le_byte 0 distance) + 256 * unat (le_byte 1 distance) = distance"
    using assms(5) by (simp add: le_byte_unat max_distance_def)
  show "decompress_loop input expected_len position output =
      decompress_loop input expected_len (position + 3) (push_match distance len output)"
    using lt h(1-3) d match_header [OF assms(2,3)] assms(4,6,7)
    by (subst decompress_loop.simps) (simp add: Let_def ac_simps numeral_eq_Suc)
  show "drop (position + 3) input = r" by (rule h(4))
qed

lemma read_literal_bytes:
  "drop position input = literal_bytes xs @ r \<Longrightarrow> length decoded_bytes + length xs \<le> expected_len \<Longrightarrow>
   decompress_loop input expected_len position decoded_bytes =
     decompress_loop input expected_len (position + length (literal_bytes xs)) (decoded_bytes @ xs) \<and>
   drop (position + length (literal_bytes xs)) input = r"
proof (induction xs arbitrary: position decoded_bytes rule: literal_bytes.induct)
  case (1 xs)
  show ?case
  proof (cases "xs = []")
    case True
    with "1.prems" show ?thesis by (simp add: literal_bytes.simps)
  next
    case False
    define n where "n = min (length xs) literal_chunk"
    have n: "0 < n" "n \<le> literal_chunk" "length (take literal_chunk xs) = n" "n \<le> length xs"
      using False by (auto simp: n_def literal_chunk_def)
    have e: "literal_bytes xs =
        le_byte 0 (n - 1) # take literal_chunk xs @ literal_bytes (drop literal_chunk xs)"
      using False by (subst literal_bytes.simps) (simp add: n_def)
    from "1.prems"(1) have d: "drop position input =
        le_byte 0 (n - 1) # take literal_chunk xs @ literal_bytes (drop literal_chunk xs) @ r"
      by (simp add: e)
    have fit: "length decoded_bytes + n \<le> expected_len" using "1.prems"(2) n(4) by simp
    have tot: "length (take literal_chunk xs) + length (drop literal_chunk xs) = length xs" by simp
    have "length (decoded_bytes @ take literal_chunk xs) + length (drop literal_chunk xs) \<le> expected_len"
      using "1.prems"(2) tot by simp
    from read_literals [OF d n(3) n(1,2) fit]
      "1.IH" [OF False read_literals(2) [OF d n(3) n(1,2) fit] this]
    moreover have "length (literal_bytes xs) = 1 + n + length (literal_bytes (drop literal_chunk xs))"
      using n(3) by (simp add: e)
    ultimately show ?thesis by (simp add: ac_simps)
  qed
qed

lemma push_match_copies:
  assumes "\<And>i. i < len \<Longrightarrow> input ! (position - distance + i) = input ! (position + i)"
    and "0 < distance" "distance \<le> position" "position + len \<le> length input"
  shows "push_match distance len (take position input) = take (position + len) input"
  using assms
proof (induction len arbitrary: position)
  case 0
  then show ?case by simp
next
  case (Suc len)
  have lt: "position < length input" using Suc.prems(4) by simp
  have "take position input ! (length (take position input) - distance) = input ! position"
    using Suc.prems(1) [of 0] Suc.prems(2,3) lt by simp
  then have step: "push_match distance (Suc len) (take position input) =
      push_match distance len (take (position + 1) input)"
    using lt by (simp add: take_Suc_conv_app_nth)
  have "push_match distance len (take (position + 1) input) = take (position + 1 + len) input"
  proof (rule Suc.IH)
    show "input ! (position + 1 - distance + i) = input ! (position + 1 + i)" if "i < len" for i
      using Suc.prems(1) [of "Suc i"] that Suc.prems(3) by (simp add: Suc_diff_le)
  qed (use Suc.prems in simp_all)
  with step show ?case by simp
qed

lemma decoder_reads_encoding:
  "drop at bytes = encoding input positions position literal_start \<Longrightarrow>
   literal_start \<le> position \<Longrightarrow> position \<le> length input \<Longrightarrow>
   decompress_loop bytes (length input) at (take literal_start input) = Inr input"
proof (induction input positions position literal_start arbitrary: at rule: encoding.induct)
  case (1 input positions position literal_start)
  show ?case
  proof (cases "position < length input")
    case False
    with "1.prems" have d: "drop at bytes = literal_bytes (drop literal_start input) @ []"
      by (subst (asm) encoding.simps) (simp add: segment_def)
    have fit: "length (take literal_start input) + length (drop literal_start input) \<le> length input"
      by simp
    from read_literal_bytes [OF d fit] show ?thesis
      by (subst (asm) (2) decompress_loop.simps) simp
  next
    case True
    obtain len dist q where m: "lzss_match input positions position = ((len, dist), q)"
      by (metis surj_pair)
    show ?thesis
    proof (cases "len = 0")
      case len0: True
      from "1.prems"(1) True have d: "drop at bytes = encoding input q (position + 1) literal_start"
        by (subst (asm) encoding.simps) (simp add: m len0)
      from "1.IH"(1) [OF True refl m [symmetric] refl len0 d] "1.prems"(2) True
      show ?thesis by simp
    next
      case False
      define rest where "rest = encoding input (record_match_positions input q position len) (position + len) (position + len)"
      define lits where "lits = segment literal_start position input"
      note s = lzss_match_spec [OF m False]
      from "1.prems"(1) True have d: "drop at bytes = literal_bytes lits @ match_bytes len dist @ rest"
        by (subst (asm) encoding.simps) (simp add: m False rest_def lits_def)
      have app: "take literal_start input @ lits = take position input"
        using "1.prems"(2) by (simp add: lits_def segment_def take_add [symmetric])
      have fit: "length (take literal_start input) + length lits \<le> length input"
        using "1.prems"(2,3) by (simp add: lits_def segment_def)
      note l = read_literal_bytes [OF d fit, unfolded app]
      have p: "dist \<le> length (take position input)" "length (take position input) + len \<le> length input"
        using s True by simp_all
      note r = read_match [OF l [THEN conjunct2] s(1,2,4,6) p]
      have "push_match dist len (take position input) = take (position + len) input"
        using s by (intro push_match_copies) auto
      with "1.IH"(2) [OF True refl m [symmetric] refl False r(2) [unfolded rest_def]] l r(1) s(3)
      show ?thesis by simp
    qed
  qed
qed

lemma compress_decompress_bytes:
  assumes "lzss_compress (lzss_compressed_len input) input = Some c"
  shows "decompress_loop c (length input) 0 [] = Inr input"
  using assms decoder_reads_encoding [of 0 c input "\<lambda>_. no_position" 0 0]
  by (simp add: lzss_compress_is)

section \<open>Size of the encoding\<close>

lemma literal_encoded_len_bound: "128 * literal_encoded_len n \<le> 129 * n + 127"
  unfolding literal_encoded_len_def literal_chunk_def by (simp add: algebra_simps)

lemma encoding_bound:
  "literal_start \<le> position \<Longrightarrow> position \<le> length input \<Longrightarrow>
   128 * length (encoding input positions position literal_start) \<le> 129 * (length input - literal_start) + 127"
proof (induction input positions position literal_start rule: encoding.induct)
  case (1 input positions position literal_start)
  show ?case
  proof (cases "position < length input")
    case False
    with "1.prems" literal_encoded_len_bound [of "length input - literal_start"] show ?thesis
      by (subst encoding.simps) (simp add: literal_bytes_length segment_def)
  next
    case True
    obtain len d q where m: "lzss_match input positions position = ((len, d), q)"
      by (metis surj_pair)
    show ?thesis
    proof (cases "len = 0")
      case len0: True
      with "1.IH"(1) [OF True refl m [symmetric] refl len0] "1.prems" True show ?thesis
        by (subst encoding.simps) (simp add: m)
    next
      case False
      note s = lzss_match_spec [OF m False]
      define rest where "rest = length (encoding input (record_match_positions input q position len) (position + len) (position + len))"
      have IH: "128 * rest \<le> 129 * (length input - (position + len)) + 127"
        unfolding rest_def using "1.IH"(2) [OF True refl m [symmetric] refl False] s by simp
      have "length (encoding input positions position literal_start) =
          literal_encoded_len (position - literal_start) + 3 + rest"
        using True "1.prems"
        by (subst encoding.simps) (simp add: m False literal_bytes_length segment_def match_bytes_def rest_def)
      moreover have "4 \<le> len" using s(1) by (simp add: min_match_def)
      ultimately show ?thesis
        using IH literal_encoded_len_bound [of "position - literal_start"] s(3) "1.prems"(1) by linarith
    qed
  qed
qed

section \<open>Truncated input\<close>

lemma push_match_length [simp]: "length (push_match d n decoded_bytes) = length decoded_bytes + n"
  by (induction n arbitrary: decoded_bytes) auto

text \<open>One token of the compressed form: the position after it and the bytes decoded so far.\<close>

definition read_token :: "u8 list \<Rightarrow> nat \<Rightarrow> nat \<Rightarrow> u8 list \<Rightarrow> lzss_error + nat \<times> u8 list" where
  "read_token input expected_len position decoded_bytes =
     (if input ! position AND 0x80 = 0 then
        let stop = position + 1 + (unat (input ! position) + 1)
        in if stop > length input then Inl TruncatedLiteralRun
           else if length decoded_bytes + (unat (input ! position) + 1) > expected_len then Inl OutputExceedsLength
           else Inr (stop, decoded_bytes @ segment (position + 1) stop input)
      else if position + 3 > length input then Inl TruncatedMatchDistance
      else
        let distance = unat (input ! (position + 1)) + 256 * unat (input ! (position + 2));
            len = unat (input ! position AND 0x7f) + min_match
        in if distance = 0 \<or> distance > length decoded_bytes then Inl InvalidMatchDistance
           else if length decoded_bytes + len > expected_len then Inl OutputExceedsLength
           else Inr (position + 3, push_match distance len decoded_bytes))"

lemma decompress_loop_token:
  "decompress_loop input expected_len position decoded_bytes =
     (if position < length input then
        case read_token input expected_len position decoded_bytes of
          Inl e \<Rightarrow> Inl e
        | Inr (p, d) \<Rightarrow> decompress_loop input expected_len p d
      else Inr decoded_bytes)"
proof -
  have three: "position + 3 = Suc (Suc (Suc position))" by simp
  show ?thesis
    by (subst decompress_loop.simps) (simp add: read_token_def Let_def segment_def three del: add_is_0)
qed

lemma read_token_progress:
  assumes "read_token input expected_len position decoded_bytes = Inr (p, d)" and "position < length input"
  shows "position < p" and "p \<le> length input" and "length decoded_bytes < length d" and "length d \<le> expected_len"
  using assms by (auto simp: read_token_def Let_def segment_def min_match_def split: if_splits)

text \<open>A token whose bytes are not all there is an error; one whose bytes are is read as before.\<close>

lemma read_token_take:
  assumes "read_token input expected_len position decoded_bytes = Inr (p, d)" and "position < k"
    and "position < length input"
  shows "k < p \<Longrightarrow> \<exists>e. read_token (take k input) expected_len position decoded_bytes = Inl e"
    and "p \<le> k \<Longrightarrow> read_token (take k input) expected_len position decoded_bytes = Inr (p, d)"
proof -
  have h: "take k input ! position = input ! position" using assms(2) by simp
  show "\<exists>e. read_token (take k input) expected_len position decoded_bytes = Inl e" if "k < p"
  proof (cases "input ! position AND 0x80 = 0")
    case True
    with assms(1) have "p = position + 1 + (unat (input ! position) + 1)"
      by (simp add: read_token_def Let_def split: if_splits)
    moreover from this that assms(1) True have "length (take k input) = k"
      by (simp add: read_token_def Let_def split: if_splits)
    ultimately show ?thesis
      using True that unfolding read_token_def h by (simp only: if_True Let_def) auto
  next
    case False
    with assms(1) have "p = position + 3"
      by (simp add: read_token_def Let_def split: if_splits)
    with False that have "\<not> position + 3 \<le> length (take k input)" by simp
    with False show ?thesis unfolding read_token_def h by (simp only: not_le if_True if_False) blast
  qed
  show "read_token (take k input) expected_len position decoded_bytes = Inr (p, d)" if "p \<le> k"
  proof (cases "input ! position AND 0x80 = 0")
    case True
    define n where "n = unat (input ! position)"
    from True assms(1) have p: "p = position + 1 + (n + 1)" "p \<le> length input"
        "\<not> length decoded_bytes + (n + 1) > expected_len"
        "d = decoded_bytes @ segment (position + 1) p input"
      by (auto simp: read_token_def Let_def n_def split: if_splits)
    moreover from that have "segment (position + 1) p (take k input) = segment (position + 1) p input"
      by (simp add: segment_def drop_take min_def)
    ultimately show ?thesis
      using that True unfolding read_token_def h n_def [symmetric] by (simp add: Let_def)
  next
    case False
    with assms(1) have p: "p = position + 3"
      by (simp add: read_token_def Let_def split: if_splits)
    with that have "take k input ! (position + 1) = input ! (position + 1)"
      "take k input ! (position + 2) = input ! (position + 2)" by simp_all
    moreover from assms(1) False have "\<not> position + 3 > length input"
      by (simp add: read_token_def Let_def split: if_splits)
    ultimately show ?thesis
      using assms(1) that p False unfolding read_token_def h by (simp only: length_take) simp
  qed
qed

lemma decompress_bounded:
  "decompress_loop input expected_len position decoded_bytes = Inr r \<Longrightarrow>
   length decoded_bytes \<le> length r \<and> (position < length input \<longrightarrow> length decoded_bytes < length r)"
proof (induction "length input - position" arbitrary: position decoded_bytes rule: less_induct)
  case less
  show ?case
  proof (cases "position < length input")
    case False
    with less.prems show ?thesis by (subst (asm) decompress_loop_token) simp
  next
    case True
    with less.prems obtain p d where t: "read_token input expected_len position decoded_bytes = Inr (p, d)"
        "decompress_loop input expected_len p d = Inr r"
      by (subst (asm) decompress_loop_token) (auto split: sum.splits)
    note q = read_token_progress [OF t(1) True]
    from q True have "length input - p < length input - position" by simp
    from less.hyps [OF this t(2)] q show ?thesis by linarith
  qed
qed

lemma decompress_truncated:
  "decompress_loop input expected_len position decoded_bytes = Inr r \<Longrightarrow> k < length input \<Longrightarrow>
   case decompress_loop (take k input) expected_len position decoded_bytes of
     Inl e \<Rightarrow> True
   | Inr r' \<Rightarrow> position \<le> k \<longrightarrow> length r' < length r"
proof (induction "length input - position" arbitrary: position decoded_bytes rule: less_induct)
  case less
  show ?case
  proof (cases "position < k")
    case False
    have "length decoded_bytes < length r" if "position \<le> k"
      using decompress_bounded [OF less.prems(1)] less.prems(2) that by simp
    with False less.prems(2) show ?thesis by (subst decompress_loop_token) simp
  next
    case True
    with less.prems(2) have pos: "position < length input" by simp
    with less.prems(1) obtain p d where t: "read_token input expected_len position decoded_bytes = Inr (p, d)"
        "decompress_loop input expected_len p d = Inr r"
      by (subst (asm) decompress_loop_token) (auto split: sum.splits)
    note q = read_token_progress [OF t(1) pos]
    show ?thesis
    proof (cases "k < p")
      case short: True
      with read_token_take(1) [OF t(1) True pos] True less.prems(2) show ?thesis
        by (subst decompress_loop_token) auto
    next
      case False
      with read_token_take(2) [OF t(1) True pos] True less.prems(2)
      have "decompress_loop (take k input) expected_len position decoded_bytes =
          decompress_loop (take k input) expected_len p d"
        by (subst decompress_loop_token) simp
      moreover from q pos have "length input - p < length input - position" by simp
      ultimately show ?thesis
        using less.hyps [OF _ t(2) less.prems(2)] False by (auto split: sum.splits)
    qed
  qed
qed

section \<open>Properties\<close>

text \<open>C3 (roundtrip): Every text embedded at compile time is recovered exactly: with the
  declared length the compressor computed itself, compression fills the output array without a
  panic, and decompression of the array gives back the text; with any other length the compressor
  panics.\<close>

theorem embedded_text_round_trip:
  assumes "list_all scalar t"
  defines "bytes \<equiv> as_bytes t"
  shows "\<exists>c. lzss_compress (lzss_compressed_len bytes) bytes = Some c
          \<and> length c = lzss_compressed_len bytes
          \<and> lzss_decompress c (length bytes) = Inr t
          \<and> {n. lzss_compress n bytes \<noteq> None} = {lzss_compressed_len bytes}"
proof -
  let ?c = "encoding bytes (\<lambda>_. no_position) 0 0"
  have c: "lzss_compress (lzss_compressed_len bytes) bytes = Some ?c"
    by (simp add: lzss_compress_is)
  from compress_decompress_bytes [OF c] assms(1)
  have "lzss_decompress ?c (length bytes) = Inr t"
    by (simp add: lzss_decompress_def bytes_def)
  with c show ?thesis by (auto simp: lzss_compress_is compressed_len_is)
qed

theorem embedded_text_round_trip_witness:
  "\<exists>c. lzss_compress (lzss_compressed_len (as_bytes [97, 0x20ac, 98])) (as_bytes [97, 0x20ac, 98]) = Some c
     \<and> lzss_decompress c (length (as_bytes [97, 0x20ac, 98])) = Inr [97, 0x20ac, 98]"
  using embedded_text_round_trip [of "[97, 0x20ac, 98]"] by (auto simp: scalar_def)

text \<open>The compressed form never takes more than one byte per 128 bytes of input
  over the input itself, whatever the hash table finds: it is at most the size of the input written
  as literal runs.\<close>

theorem compression_expands_little:
  "lzss_compressed_len input \<le> literal_encoded_len (length input)"
proof -
  have "128 * lzss_compressed_len input \<le> 129 * length input + 127"
    using encoding_bound [of 0 0 input "\<lambda>_. no_position"] by (simp add: compressed_len_is)
  then show ?thesis by (simp add: literal_encoded_len_def literal_chunk_def)
qed

text \<open>Decompression fails closed: what it returns is a text of exactly the declared
  length, and cutting the input short anywhere turns success into an error, never into a shorter
  text.\<close>

theorem truncated_assets_are_refused:
  assumes "lzss_decompress c n = Inr t"
  shows "length (as_bytes t) = n \<and> list_all scalar t
       \<and> (\<forall>k < length c. \<exists>e. lzss_decompress (take k c) n = Inl e)"
proof -
  from assms obtain r where r: "decompress_loop c n 0 [] = Inr r" "length r = n" "from_utf8 r = Some t"
    by (auto simp: lzss_decompress_def split: sum.splits if_splits option.splits)
  have "\<exists>e. lzss_decompress (take k c) n = Inl e" if "k < length c" for k
    using decompress_truncated [OF r(1) that] r(2) by (auto simp: lzss_decompress_def split: sum.splits)
  with from_utf8_inverse [OF r(3)] r(2) show ?thesis by auto
qed

lemma decompress_aaaaaaaa: "lzss_decompress [0, 97, 0x83, 1, 0] 8 = Inr [97, 97, 97, 97, 97, 97, 97, 97]"
proof -
  have copied: "push_match 1 7 [97 :: u8] = [97, 97, 97, 97, 97, 97, 97, 97]"
    by (simp add: eval_nat_numeral)
  have "decompress_loop [0, 97, 0x83, 1, 0] 8 0 [] = decompress_loop [0, 97, 0x83, 1, 0] 8 2 [97 :: u8]"
    by (subst decompress_loop_token) (simp add: read_token_def segment_def numeral_2_eq_2)
  also have "\<dots> = decompress_loop [0, 97, 0x83, 1, 0] 8 5 [97, 97, 97, 97, 97, 97, 97, 97 :: u8]"
    by (subst decompress_loop_token) (simp add: read_token_def min_match_def copied [simplified] nth_Cons')
  also have "\<dots> = Inr [97, 97, 97, 97, 97, 97, 97, 97]"
    by (subst decompress_loop_token) simp
  finally show ?thesis
    by (simp add: lzss_decompress_def from_utf8_def decode_text.simps decode_char_def)
qed

theorem truncated_assets_are_refused_witness:
  "\<exists>e. lzss_decompress (take 2 [0, 97, 0x83, 1, 0]) 8 = Inl e"
  using truncated_assets_are_refused [OF decompress_aaaaaaaa] by force

end
