(* ===== verification/Paths.thy ===== *)
theory Paths
  imports Messages
begin

text \<open>
  Paths as \<^verbatim>\<open>std::path\<close> has them on Unix: a path is its list of components, and comparison,
  \<^verbatim>\<open>starts_with\<close>, \<^verbatim>\<open>join\<close> and \<^verbatim>\<open>pop\<close> work on components. On top of it,
  \<^verbatim>\<open>safe_canonicalize\<close> of \<^verbatim>\<open>e-agent-node-runtime/src/extensions.rs\<close>: what the file
  system says, and the lexical normal form when the file does not exist. The file system
  (\<^verbatim>\<open>fs::canonicalize\<close>, the working directory) is a parameter.
\<close>

section \<open>Components\<close>

datatype component = RootDir | CurDir | ParentDir | Normal string

type_synonym path = "component list"

primrec split_slash :: "string \<Rightarrow> string list" where
  "split_slash [] = [[]]"
| "split_slash (c # s) =
     (if c = CHR ''/'' then [] # split_slash s
      else case split_slash s of [] \<Rightarrow> [[c]] | h # t \<Rightarrow> (c # h) # t)"

definition component_of :: "string \<Rightarrow> component" where
  "component_of s = (if s = ''..'' then ParentDir else Normal s)"

definition path_of :: "string \<Rightarrow> path" where
  "path_of s =
     (let segments = split_slash s;
          body = map component_of (filter (\<lambda>x. x \<noteq> [] \<and> x \<noteq> ''.'') segments)
      in if take 1 s = ''/'' then RootDir # body
         else if hd segments = ''.'' then CurDir # body
         else body)"

definition is_absolute :: "path \<Rightarrow> bool" where
  "is_absolute p = (p \<noteq> [] \<and> hd p = RootDir)"

definition path_join :: "path \<Rightarrow> path \<Rightarrow> path" where
  "path_join a b =
     (if is_absolute b \<or> a = [] then b
      else a @ (case b of CurDir # r \<Rightarrow> r | _ \<Rightarrow> b))"

definition path_pop :: "path \<Rightarrow> path" where
  "path_pop p = (if p = [] \<or> last p = RootDir then p else butlast p)"

definition starts_with :: "path \<Rightarrow> path \<Rightarrow> bool" where
  "starts_with p r = (take (length r) p = r)"

lemma starts_with_refl [simp]: "starts_with p p"
  by (simp add: starts_with_def)

lemma starts_with_trans: "starts_with p q \<Longrightarrow> starts_with q r \<Longrightarrow> starts_with p r"
  unfolding starts_with_def
  by (metis append_take_drop_id append_eq_conv_conj append.assoc)

lemma starts_with_iff: "starts_with p r = (\<exists>s. p = r @ s)"
  unfolding starts_with_def by (metis append_eq_conv_conj append_take_drop_id)

lemma starts_with_same_length:
  "starts_with p q \<Longrightarrow> starts_with p r \<Longrightarrow> length q = length r \<Longrightarrow> q = r"
  by (simp add: starts_with_def)

lemma starts_with_longer:
  "starts_with p q \<Longrightarrow> starts_with p r \<Longrightarrow> length r \<le> length q \<Longrightarrow> starts_with q r"
  unfolding starts_with_def by (metis min.absorb1 take_take)

section \<open>The file name and its extension\<close>

definition file_name :: "path \<Rightarrow> string option" where
  "file_name p = (if p = [] then None else case last p of Normal n \<Rightarrow> Some n | _ \<Rightarrow> None)"

text \<open>\<^verbatim>\<open>Path::extension\<close>: what follows the last dot, unless the name starts there.\<close>

definition path_extension :: "path \<Rightarrow> string option" where
  "path_extension p = Option.bind (file_name p) (\<lambda>n.
     let r = rev n;
         ext = takeWhile (\<lambda>c. c \<noteq> CHR ''.'') r;
         before = drop (length ext + 1) r
     in if n = ''..'' \<or> before = [] then None else Some (rev ext))"

section \<open>Canonical paths\<close>

record fs_view =
  fs_canonicalize :: "path \<Rightarrow> path option"
  fs_cwd :: "path option"

definition normalize_step :: "component \<Rightarrow> path \<Rightarrow> path" where
  "normalize_step c normalized = (case c of
       CurDir \<Rightarrow> normalized
     | ParentDir \<Rightarrow> path_pop normalized
     | _ \<Rightarrow> path_join normalized [c])"

definition lexical :: "fs_view \<Rightarrow> path \<Rightarrow> path" where
  "lexical V p =
     fold normalize_step
       (if is_absolute p then p else path_join (case fs_cwd V of None \<Rightarrow> [] | Some d \<Rightarrow> d) p) []"

definition safe_canonicalize :: "fs_view \<Rightarrow> path \<Rightarrow> path" where
  "safe_canonicalize V p = (case fs_canonicalize V p of Some q \<Rightarrow> q | None \<Rightarrow> lexical V p)"

text \<open>A lexical normal form has no dots left: the only component that is no name is the root.\<close>

definition names_only :: "path \<Rightarrow> bool" where
  "names_only p = (\<forall>c \<in> set p. \<exists>n. c = Normal n)"

definition normal_path :: "path \<Rightarrow> bool" where
  "normal_path p = (names_only p \<or> (\<exists>r. p = RootDir # r \<and> names_only r))"

lemma names_only_butlast: "names_only p \<Longrightarrow> names_only (butlast p)"
  by (auto simp: names_only_def dest: in_set_butlastD)

lemma normal_path_step: "normal_path p \<Longrightarrow> normal_path (normalize_step c p)"
proof -
  assume n: "normal_path p"
  have pop: "normal_path (path_pop p)"
    using n names_only_butlast
    by (fastforce simp: normal_path_def path_pop_def)
  have push: "normal_path (path_join p [Normal x])" for x
    using n by (auto simp: normal_path_def path_join_def is_absolute_def names_only_def)
  have root: "normal_path (path_join p [RootDir])"
    by (simp add: normal_path_def path_join_def is_absolute_def names_only_def)
  show ?thesis
    using n pop push root by (cases c) (auto simp: normalize_step_def)
qed

lemma normal_path_lexical: "normal_path (lexical V p)"
proof -
  have "normal_path q \<Longrightarrow> normal_path (fold normalize_step cs q)" for cs q
    by (induction cs arbitrary: q) (auto intro: normal_path_step)
  then show ?thesis unfolding lexical_def by (simp add: normal_path_def names_only_def)
qed

lemma lexical_names:
  assumes "names_only p" and "normal_path d"
  shows "fold normalize_step p d = d @ p"
  using assms
proof (induction p arbitrary: d)
  case Nil
  then show ?case by simp
next
  case (Cons c p)
  from Cons.prems(1) obtain n where c: "c = Normal n" by (auto simp: names_only_def)
  have step: "normalize_step c d = d @ [c]"
    by (simp add: normalize_step_def c path_join_def is_absolute_def)
  have "normal_path (d @ [c])" using normal_path_step [OF Cons.prems(2), of c] step by simp
  with Cons step show ?case by (simp add: names_only_def)
qed

lemma lexical_normal:
  "normal_path p \<Longrightarrow> is_absolute p \<Longrightarrow> lexical V p = p"
proof -
  assume n: "normal_path p" and a: "is_absolute p"
  then obtain r where r: "p = RootDir # r" "names_only r"
    by (auto simp: normal_path_def names_only_def is_absolute_def neq_Nil_conv)
  have "normal_path [RootDir]" by (simp add: normal_path_def names_only_def)
  from lexical_names [OF r(2) this] a show ?thesis
    by (simp add: lexical_def r normalize_step_def path_join_def is_absolute_def)
qed

end
