(* ===== verification/Extension_Roots.thy ===== *)
theory Extension_Roots
  imports Paths
begin

text \<open>
  The file sandbox of the extensions (\<^verbatim>\<open>e-agent-node-runtime/src/runtime.rs\<close>): the
  registration of extension roots and of the roots of peers, the ownership test on the deepest
  root containing a path, the permission every synchronous \<^verbatim>\<open>node:fs\<close> call of the host asks,
  and those calls. A hash map from extension ids to roots is a \<^typ>\<open>(string, path list) bmap\<close>;
  the ownership test does not depend on the order of its entries. File-system calls are parameters,
  one per call the code makes, so that the file system may change between them.
\<close>

section \<open>State\<close>

datatype source_tier = Official | Community | UnknownTier

record ext_roots =
  er_owner :: "string option"
  er_read_roots :: "path list"
  er_roots :: "string list"
  er_canonical :: "path list"
  er_tiers :: "path \<Rightarrow> source_tier option"
  er_scopes :: "path \<Rightarrow> string option"
  er_by_id :: "(string, path list) bmap"
  er_without_id :: "path list"
  er_foreign :: "(string, path list) bmap"

definition ext_roots_new :: "string option \<Rightarrow> ext_roots" where
  "ext_roots_new owner =
     \<lparr>er_owner = owner, er_read_roots = [], er_roots = [], er_canonical = [],
      er_tiers = (\<lambda>_. None), er_scopes = (\<lambda>_. None), er_by_id = [], er_without_id = [], er_foreign = []\<rparr>"

section \<open>Source tiers and scopes\<close>

fun contains_text :: "string \<Rightarrow> string \<Rightarrow> bool" where
  "contains_text [] needle = (needle = [])"
| "contains_text (c # s) needle = (take (length needle) (c # s) = needle \<or> contains_text s needle)"

definition text_starts_with :: "string \<Rightarrow> string \<Rightarrow> bool" where
  "text_starts_with s p = (take (length p) s = p)"

definition to_lower :: "string \<Rightarrow> string" where
  "to_lower = map (\<lambda>c. let n = of_char c :: nat in if 65 \<le> n \<and> n \<le> 90 then char_of (n + 32) else c)"

definition root_path_hint_tier :: "string \<Rightarrow> source_tier" where
  "root_path_hint_tier root =
     (let normalized = to_lower (map (\<lambda>c. if c = CHR 0x5C then CHR ''/'' else c) root)
      in if \<exists>hint \<in> set [''/community/'', ''/npm/'', ''/agents-'', ''/third-party'', ''/third_party'',
                ''/plugins-community/'']. contains_text normalized hint
         then Community
         else if \<exists>hint \<in> set [''/official-pi-mono/'', ''/plugins-official/'', ''/official/''].
                contains_text normalized hint
         then Official
         else UnknownTier)"

definition classify_proxy_stub_source_tier :: "string \<Rightarrow> string \<Rightarrow> source_tier" where
  "classify_proxy_stub_source_tier extension_id root =
     (let i = to_lower (trim extension_id)
      in if \<exists>p \<in> set [''community/'', ''npm/'', ''agents-'', ''plugins-community/'', ''third-party'',
                ''third_party'']. text_starts_with i p
         then Community
         else if text_starts_with i ''plugins-official/'' then Official
         else root_path_hint_tier root)"

definition split_scoped_package :: "string \<Rightarrow> (string \<times> string) option" where
  "split_scoped_package spec =
     (if \<not> text_starts_with spec ''@'' then None
      else case split_slash spec of scope # package # _ \<Rightarrow> Some (scope, package) | _ \<Rightarrow> None)"

text \<open>\<^verbatim>\<open>package_json\<close> is the parsed file, when it can be read and parsed.\<close>

definition read_extension_package_scope :: "(path \<Rightarrow> json option) \<Rightarrow> path \<Rightarrow> string option" where
  "read_extension_package_scope package_json root =
     Option.bind (package_json (path_join root [Normal ''package.json''])) (\<lambda>parsed.
       case json_index parsed ''name'' of
         JString name \<Rightarrow> map_option fst (split_scoped_package (trim name))
       | _ \<Rightarrow> None)"

section \<open>Registration\<close>

definition push_new :: "'a \<Rightarrow> 'a list \<Rightarrow> 'a list" where
  "push_new x xs = (if x \<in> set xs then xs else xs @ [x])"

definition push_root :: "string \<Rightarrow> path \<Rightarrow> (string, path list) bmap \<Rightarrow> (string, path list) bmap" where
  "push_root i r m =
     bm_put i (push_new r (case bm_get m i of None \<Rightarrow> [] | Some rs \<Rightarrow> rs)) m"

definition add_allowed_read_root :: "fs_view \<Rightarrow> path \<Rightarrow> ext_roots \<Rightarrow> ext_roots" where
  "add_allowed_read_root V root st =
     (let canonical_root = safe_canonicalize V root;
          st = st\<lparr>er_read_roots := push_new canonical_root (er_read_roots st)\<rparr>
      in case er_owner st of
           Some owner \<Rightarrow> st\<lparr>er_by_id := push_root owner canonical_root (er_by_id st)\<rparr>
         | None \<Rightarrow> st\<lparr>er_without_id := push_new canonical_root (er_without_id st)\<rparr>)"

text \<open>The id a registration is made under; \<^term>\<open>None\<close> when a runtime owned by one extension
  refuses a root of another.\<close>

definition registration_id :: "string option \<Rightarrow> string option \<Rightarrow> string option option" where
  "registration_id owner extension_id =
     (case owner of
        Some owner \<Rightarrow>
          (case extension_id of
             Some requested \<Rightarrow> if requested \<noteq> owner then None else Some (Some owner)
           | None \<Rightarrow> Some (Some owner))
      | None \<Rightarrow> Some extension_id)"

definition add_extension_root_with_id ::
  "fs_view \<Rightarrow> (path \<Rightarrow> json option) \<Rightarrow> string \<Rightarrow> string option \<Rightarrow> ext_roots \<Rightarrow> ext_roots" where
  "add_extension_root_with_id V package_json root extension_id st =
     (case registration_id (er_owner st) extension_id of
        None \<Rightarrow> st
      | Some extension_id \<Rightarrow>
          let raw = path_of root;
              canonical_root = safe_canonicalize V raw;
              st = st\<lparr>er_read_roots := push_new canonical_root (er_read_roots st)\<rparr>;
              st = (if raw \<in> path_of ` set (er_roots st) then st
                    else st\<lparr>er_canonical := er_canonical st @ [canonical_root],
                            er_roots := er_roots st @ [root]\<rparr>);
              st = (case extension_id of
                      Some i \<Rightarrow> st\<lparr>er_by_id := push_root i canonical_root (er_by_id st)\<rparr>
                    | None \<Rightarrow> st\<lparr>er_without_id := push_new canonical_root (er_without_id st)\<rparr>);
              tier = (case extension_id of
                        None \<Rightarrow> root_path_hint_tier root
                      | Some i \<Rightarrow> classify_proxy_stub_source_tier i root);
              st = st\<lparr>er_tiers := (er_tiers st)(raw \<mapsto> tier)\<rparr>
          in case read_extension_package_scope package_json raw of
               Some scope \<Rightarrow> st\<lparr>er_scopes := (er_scopes st)(raw \<mapsto> scope)\<rparr>
             | None \<Rightarrow> st)"

definition add_extension_root ::
  "fs_view \<Rightarrow> (path \<Rightarrow> json option) \<Rightarrow> string \<Rightarrow> ext_roots \<Rightarrow> ext_roots" where
  "add_extension_root V package_json root st = add_extension_root_with_id V package_json root None st"

definition register_foreign_extension_root_boundary ::
  "fs_view \<Rightarrow> path \<Rightarrow> string \<Rightarrow> ext_roots \<Rightarrow> ext_roots" where
  "register_foreign_extension_root_boundary V root owner_extension_id st =
     (let owner = trim owner_extension_id
      in if owner = [] then st
         else if er_owner st = Some owner then st
         else st\<lparr>er_foreign := push_root owner (safe_canonicalize V root) (er_foreign st)\<rparr>)"

text \<open>What the transient reset and the scrub of a realm do to the roots.\<close>

definition clear_extension_roots :: "ext_roots \<Rightarrow> ext_roots" where
  "clear_extension_roots st =
     st\<lparr>er_read_roots := [], er_roots := [], er_canonical := [], er_tiers := (\<lambda>_. None),
        er_scopes := (\<lambda>_. None), er_by_id := [], er_without_id := [], er_foreign := []\<rparr>"

section \<open>Ownership\<close>

text \<open>\<^verbatim>\<open>path_is_in_owned_extension_root\<close>: the loop keeps the deepest boundaries seen.\<close>

definition boundaries :: "ext_roots \<Rightarrow> path list" where
  "boundaries st =
     er_without_id st @ concat (map snd (er_by_id st)) @ concat (map snd (er_foreign st))"

definition deepest_step :: "path \<Rightarrow> path \<Rightarrow> nat option \<times> path list \<Rightarrow> nat option \<times> path list" where
  "deepest_step p root s =
     (if \<not> starts_with p root then s
      else
        let depth = length root
        in case fst s of
             Some current \<Rightarrow>
               if depth < current then s
               else if depth = current then (fst s, push_new root (snd s))
               else (Some depth, [root])
           | None \<Rightarrow> (Some depth, [root]))"

definition deepest_roots :: "path \<Rightarrow> path list \<Rightarrow> path list" where
  "deepest_roots p roots = snd (fold (deepest_step p) roots (None, []))"

definition roots_of :: "string option \<Rightarrow> ext_roots \<Rightarrow> path list" where
  "roots_of extension_id st =
     (case extension_id of
        None \<Rightarrow> []
      | Some i \<Rightarrow> (case bm_get (er_by_id st) i of None \<Rightarrow> [] | Some rs \<Rightarrow> rs))"

definition in_owned_root :: "path \<Rightarrow> string option \<Rightarrow> ext_roots \<Rightarrow> bool" where
  "in_owned_root p extension_id st =
     (\<exists>root \<in> set (deepest_roots p (boundaries st)).
        root \<in> set (er_without_id st) \<or> root \<in> set (roots_of extension_id st))"

definition in_allowed_root :: "path \<Rightarrow> string option \<Rightarrow> ext_roots \<Rightarrow> bool" where
  "in_allowed_root p extension_id st =
     (if extension_id = None then \<exists>root \<in> set (er_read_roots st). starts_with p root
      else in_owned_root p extension_id st)"

definition in_registered_root :: "path \<Rightarrow> ext_roots \<Rightarrow> bool" where
  "in_registered_root p st =
     ((\<exists>root \<in> set (er_canonical st). starts_with p root)
      \<or> (\<exists>root \<in> set (concat (map snd (er_foreign st))). starts_with p root))"

definition in_workspace_or_registered_root :: "fs_view \<Rightarrow> path \<Rightarrow> path \<Rightarrow> ext_roots \<Rightarrow> bool" where
  "in_workspace_or_registered_root V p workspace_root st =
     (let checked_path = safe_canonicalize V p
      in starts_with checked_path workspace_root \<or> in_registered_root checked_path st)"

text \<open>The last of the deepest, as \<^verbatim>\<open>max_by_key\<close> picks it.\<close>

fun max_by_depth :: "path list \<Rightarrow> path option" where
  "max_by_depth [] = None"
| "max_by_depth (r # rs) =
     (case max_by_depth rs of
        None \<Rightarrow> Some r
      | Some m \<Rightarrow> if length m < length r then Some r else Some m)"

definition nearest_containing_root :: "fs_view \<Rightarrow> path \<Rightarrow> path list \<Rightarrow> path option" where
  "nearest_containing_root V p roots =
     max_by_depth (filter (starts_with (safe_canonicalize V p)) roots)"

definition in_leaf_allowed_root :: "fs_view \<Rightarrow> path \<Rightarrow> string option \<Rightarrow> ext_roots \<Rightarrow> bool" where
  "in_leaf_allowed_root V p extension_id st =
     (if extension_id \<noteq> None then in_owned_root p extension_id st
      else case nearest_containing_root V p (er_read_roots st) of
        None \<Rightarrow> False
      | Some nearest \<Rightarrow>
          \<not> (\<exists>root \<in> set (er_read_roots st). root \<noteq> nearest \<and> starts_with root nearest))"

definition fs_path_allowed :: "path \<Rightarrow> path \<Rightarrow> string option \<Rightarrow> ext_roots \<Rightarrow> bool" where
  "fs_path_allowed p workspace_root extension_id st =
     (let owned = in_allowed_root p extension_id st
      in if in_registered_root p st then owned
         else starts_with p workspace_root \<or> owned)"

section \<open>The deepest boundary\<close>

definition deepest :: "path \<Rightarrow> path set \<Rightarrow> path \<Rightarrow> bool" where
  "deepest p R r = (r \<in> R \<and> starts_with p r \<and> (\<forall>s \<in> R. starts_with p s \<longrightarrow> length s \<le> length r))"

lemma deepest_unique: "deepest p R r \<Longrightarrow> deepest p R s \<Longrightarrow> r = s"
  by (auto simp: deepest_def intro: starts_with_same_length le_antisym)

lemma deepest_exists: "finite R \<Longrightarrow> r \<in> R \<Longrightarrow> starts_with p r \<Longrightarrow> \<exists>s. deepest p R s"
proof -
  assume R: "finite R" "r \<in> R" "starts_with p r"
  let ?N = "length ` {r \<in> R. starts_with p r}"
  have "finite ?N" "?N \<noteq> {}" using R by auto
  from Max_in [OF this] obtain s where s: "s \<in> R" "starts_with p s" "length s = Max ?N" by auto
  have "length t \<le> length s" if "t \<in> R" "starts_with p t" for t
    using that R(1) s(3) by auto
  with s show ?thesis by (auto simp: deepest_def)
qed

lemma fold_deepest:
  "fold (deepest_step p) roots (None, []) =
     (if \<exists>r \<in> set roots. starts_with p r
      then let r = (THE r. deepest p (set roots) r) in (Some (length r), [r])
      else (None, []))"
proof (induction roots rule: rev_induct)
  case Nil
  then show ?case by simp
next
  case (snoc x xs)
  show ?case
  proof (cases "starts_with p x")
    case False
    then have "deepest p (set (xs @ [x])) = deepest p (set xs)"
      by (auto simp: deepest_def fun_eq_iff)
    with snoc False show ?thesis by (simp add: deepest_step_def)
  next
    case x: True
    show ?thesis
    proof (cases "\<exists>r \<in> set xs. starts_with p r")
      case False
      have "(THE r. deepest p (set (xs @ [x])) r) = x"
        using False x by (intro the_equality) (auto simp: deepest_def)
      with snoc False x show ?thesis by (simp add: deepest_step_def Let_def)
    next
      case True
      then have "\<exists>r. deepest p (set xs) r"
        using deepest_exists [of "set xs"] by auto
      then obtain r where r: "deepest p (set xs) r" ..
      then have the_r: "(THE r. deepest p (set xs) r) = r"
        by (intro the_equality) (auto dest: deepest_unique)
      define m where "m = (if length x \<le> length r then r else x)"
      have "deepest p (set (xs @ [x])) m"
        using r x by (auto simp: deepest_def m_def)
      then have the_m: "(THE r. deepest p (set (xs @ [x])) r) = m"
        by (intro the_equality) (auto dest: deepest_unique)
      have same: "length x = length r \<Longrightarrow> x = r"
        using r x by (auto simp: deepest_def intro: starts_with_same_length)
      show ?thesis
        using snoc True x the_r the_m same
        by (auto simp: deepest_step_def Let_def m_def push_new_def)
    qed
  qed
qed

lemma deepest_roots_iff: "r \<in> set (deepest_roots p roots) \<longleftrightarrow> deepest p (set roots) r"
proof (cases "\<exists>r \<in> set roots. starts_with p r")
  case False
  then show ?thesis by (auto simp: deepest_roots_def fold_deepest deepest_def)
next
  case True
  then obtain s where s: "deepest p (set roots) s" using deepest_exists [of "set roots"] by auto
  then have "(THE r. deepest p (set roots) r) = s"
    by (intro the_equality) (auto dest: deepest_unique)
  with True s show ?thesis
    by (auto simp: deepest_roots_def fold_deepest Let_def dest: deepest_unique)
qed

lemma in_owned_root_iff:
  "in_owned_root p i st \<longleftrightarrow>
     (\<exists>r \<in> set (er_without_id st) \<union> set (roots_of i st). deepest p (set (boundaries st)) r)"
  by (auto simp: in_owned_root_def deepest_roots_iff)


section \<open>Registrations, in any order\<close>

inductive roots_reachable :: "string option \<Rightarrow> ext_roots \<Rightarrow> bool" for owner where
  start: "roots_reachable owner (ext_roots_new owner)"
| read_root: "roots_reachable owner st \<Longrightarrow> roots_reachable owner (add_allowed_read_root V root st)"
| ext_root: "roots_reachable owner st \<Longrightarrow>
    roots_reachable owner (add_extension_root_with_id V package_json raw i st)"
| foreign: "roots_reachable owner st \<Longrightarrow>
    roots_reachable owner (register_foreign_extension_root_boundary V root i st)"
| clear: "roots_reachable owner st \<Longrightarrow> roots_reachable owner (clear_extension_roots st)"

text \<open>A runtime owned by one extension knows no other owner's roots but as boundaries.\<close>

definition roots_ok :: "string option \<Rightarrow> ext_roots \<Rightarrow> bool" where
  "roots_ok owner st =
     (er_owner st = owner \<and> bm_ok (er_by_id st) \<and> bm_ok (er_foreign st)
      \<and> (\<forall>o'. owner = Some o' \<longrightarrow>
            er_without_id st = [] \<and> fst ` set (er_by_id st) \<subseteq> {o'} \<and> o' \<notin> fst ` set (er_foreign st)))"

lemma push_root_ok [simp]: "bm_ok m \<Longrightarrow> bm_ok (push_root i r m)"
  by (simp add: push_root_def)

lemma push_root_keys [simp]: "fst ` set (push_root i r m) = insert i (fst ` set m)"
  by (simp add: push_root_def bm_keys_put)

lemma push_new_set [simp]: "set (push_new x xs) = insert x (set xs)"
  by (auto simp: push_new_def)

definition all_roots :: "(string, path list) bmap \<Rightarrow> path set" where
  "all_roots m = {r. \<exists>i rs. bm_get m i = Some rs \<and> r \<in> set rs}"

lemma all_roots_concat: "bm_ok m \<Longrightarrow> set (concat (map snd m)) = all_roots m"
proof -
  assume "bm_ok m"
  then have "all_roots m = {r. \<exists>i rs. (i, rs) \<in> set m \<and> r \<in> set rs}"
    by (simp add: all_roots_def bm_get_in)
  then show ?thesis by force
qed

lemma all_roots_push [simp]: "all_roots (push_root i r m) = insert r (all_roots m)"
proof -
  have "bm_get (push_root i r m) k =
      (if k = i then Some (push_new r (case bm_get m i of None \<Rightarrow> [] | Some rs \<Rightarrow> rs)) else bm_get m k)" for k
    by (simp add: push_root_def)
  moreover have "set (case bm_get m i of None \<Rightarrow> [] | Some rs \<Rightarrow> rs) \<subseteq> all_roots m"
    by (cases "bm_get m i") (auto simp: all_roots_def)
  ultimately show ?thesis
    by (auto simp: all_roots_def split: if_splits) (metis option.sel option.simps(5))
qed

lemma boundaries_set:
  "roots_ok owner st \<Longrightarrow>
   set (boundaries st) = set (er_without_id st) \<union> all_roots (er_by_id st) \<union> all_roots (er_foreign st)"
  using all_roots_concat [of "er_by_id st"] all_roots_concat [of "er_foreign st"]
  by (auto simp: boundaries_def roots_ok_def)

lemma roots_ok_clear: "roots_ok owner st \<Longrightarrow> roots_ok owner (clear_extension_roots st)"
  by (simp add: roots_ok_def clear_extension_roots_def)

lemma roots_ok_read_root: "roots_ok owner st \<Longrightarrow> roots_ok owner (add_allowed_read_root V root st)"
  by (auto simp: roots_ok_def add_allowed_read_root_def Let_def split: option.split)

lemma roots_ok_foreign:
  "roots_ok owner st \<Longrightarrow> roots_ok owner (register_foreign_extension_root_boundary V root i st)"
  by (auto simp: roots_ok_def register_foreign_extension_root_boundary_def Let_def)

lemma registration_id_owned: "registration_id (Some o') i = Some j \<Longrightarrow> j = Some o'"
  by (auto simp: registration_id_def split: option.splits if_splits)

lemma add_extension_root_fields:
  fixes V pj raw
  assumes "registration_id (er_owner st) i = Some j"
  defines "st' \<equiv> add_extension_root_with_id V pj raw i st" and "c \<equiv> safe_canonicalize V (path_of raw)"
  shows "er_owner st' = er_owner st" and "er_foreign st' = er_foreign st"
    and "er_by_id st' = (case j of Some k \<Rightarrow> push_root k c (er_by_id st) | None \<Rightarrow> er_by_id st)"
    and "er_without_id st' = (case j of Some k \<Rightarrow> er_without_id st | None \<Rightarrow> push_new c (er_without_id st))"
  using assms(1) unfolding st'_def c_def add_extension_root_with_id_def
  by (auto simp: Let_def split: option.split)

lemma roots_ok_ext_root:
  assumes "roots_ok owner st"
  shows "roots_ok owner (add_extension_root_with_id V pj raw i st)"
proof (cases "registration_id (er_owner st) i")
  case None
  then show ?thesis using assms by (simp add: add_extension_root_with_id_def)
next
  case (Some j)
  have "j = Some o'" if "owner = Some o'" for o'
    using Some assms that registration_id_owned by (auto simp: roots_ok_def)
  then show ?thesis
    using assms by (cases j) (auto simp: roots_ok_def add_extension_root_fields [OF Some])
qed

lemma roots_reachable_ok: "roots_reachable owner st \<Longrightarrow> roots_ok owner st"
proof (induction rule: roots_reachable.induct)
  case start
  then show ?case by (simp add: roots_ok_def ext_roots_new_def)
qed (simp_all add: roots_ok_read_root roots_ok_ext_root roots_ok_foreign roots_ok_clear)

lemma in_registered_root_iff:
  "bm_ok (er_foreign st) \<Longrightarrow>
   in_registered_root p st \<longleftrightarrow> (\<exists>r \<in> set (er_canonical st) \<union> all_roots (er_foreign st). starts_with p r)"
  unfolding in_registered_root_def by (simp only: all_roots_concat) auto

lemma in_registered_foreign:
  "bm_ok (er_foreign st) \<Longrightarrow> r \<in> all_roots (er_foreign st) \<Longrightarrow> starts_with p r \<Longrightarrow> in_registered_root p st"
  using all_roots_concat [of "er_foreign st"] by (auto simp: in_registered_root_def)

lemma in_owned_root_deep:
  assumes "roots_ok owner st" and "in_owned_root p i st"
  obtains r where "r \<in> set (er_without_id st) \<union> set (roots_of i st)" and "starts_with p r"
    and "\<And>s. s \<in> all_roots (er_foreign st) \<union> all_roots (er_by_id st) \<Longrightarrow> starts_with p s \<Longrightarrow> length s \<le> length r"
  using assms(2) boundaries_set [OF assms(1)] by (force simp: in_owned_root_iff deepest_def)

lemma register_foreign_fields:
  "er_read_roots (register_foreign_extension_root_boundary V root i st) = er_read_roots st"
  "er_canonical (register_foreign_extension_root_boundary V root i st) = er_canonical st"
  "er_without_id (register_foreign_extension_root_boundary V root i st) = er_without_id st"
  "er_by_id (register_foreign_extension_root_boundary V root i st) = er_by_id st"
  "all_roots (er_foreign st) \<subseteq> all_roots (er_foreign (register_foreign_extension_root_boundary V root i st))"
  by (auto simp: register_foreign_extension_root_boundary_def Let_def)

lemma in_owned_root_antimono:
  assumes "set (boundaries st) \<subseteq> set (boundaries st')"
    and "er_without_id st' = er_without_id st" and "er_by_id st' = er_by_id st"
    and "in_owned_root p i st'"
  shows "in_owned_root p i st"
proof -
  obtain r where r: "r \<in> set (er_without_id st) \<union> set (roots_of i st)" "deepest p (set (boundaries st')) r"
    using assms(2-4) by (auto simp: in_owned_root_iff roots_of_def)
  have "r \<in> set (boundaries st)"
  proof -
    have "set (roots_of i st) \<subseteq> set (concat (map snd (er_by_id st)))"
      by (auto simp: roots_of_def dest: map_of_SomeD [OF sym] map_of_SomeD split: option.split)
    with r(1) show ?thesis by (auto simp: boundaries_def)
  qed
  with r assms(1) have "deepest p (set (boundaries st)) r" by (auto simp: deepest_def)
  with r(1) show ?thesis by (auto simp: in_owned_root_iff)
qed

lemma registering_shrinks:
  assumes "roots_ok owner st"
    and "fs_path_allowed p ws i (register_foreign_extension_root_boundary V root j st)"
  shows "fs_path_allowed p ws i st"
proof -
  let ?st' = "register_foreign_extension_root_boundary V root j st"
  note fields = register_foreign_fields [where V = V and root = root and i = j and st = st]
  have b: "set (boundaries st) \<subseteq> set (boundaries ?st')"
    using boundaries_set [OF assms(1)] boundaries_set [OF roots_ok_foreign [OF assms(1)]] fields by auto
  have allowed: "in_allowed_root p i ?st' \<Longrightarrow> in_allowed_root p i st"
    using in_owned_root_antimono [OF b] fields by (auto simp: in_allowed_root_def)
  have "in_registered_root p st \<Longrightarrow> in_registered_root p ?st'"
    using fields(2,5) assms(1) roots_ok_foreign [OF assms(1), of V root j]
    by (auto simp: in_registered_root_iff roots_ok_def)
  with assms(2) allowed show ?thesis
    by (auto simp: fs_path_allowed_def Let_def split: if_splits)
qed


section \<open>What an extension may see\<close>

text \<open>The paths of the workspace and of the extension's own roots, but nothing below a root of
  another extension, unless an own root lies at least as deep.\<close>

definition sandboxed :: "string \<Rightarrow> path \<Rightarrow> ext_roots \<Rightarrow> path \<Rightarrow> bool" where
  "sandboxed owner workspace_root st q =
     ((starts_with q workspace_root \<or> (\<exists>r \<in> set (roots_of (Some owner) st). starts_with q r))
      \<and> (\<forall>r \<in> all_roots (er_foreign st). starts_with q r \<longrightarrow>
           (\<exists>own \<in> set (roots_of (Some owner) st). starts_with q own \<and> length r \<le> length own)))"

lemma allowed_sandboxed:
  assumes "roots_ok (Some owner) st" and "fs_path_allowed q ws (Some owner) st"
  shows "sandboxed owner ws st q"
proof -
  have none: "er_without_id st = []" using assms(1) by (simp add: roots_ok_def)
  have own: "\<exists>r \<in> set (roots_of (Some owner) st). starts_with q r \<and>
      (\<forall>s \<in> all_roots (er_foreign st). starts_with q s \<longrightarrow> length s \<le> length r)"
    if "in_owned_root q (Some owner) st"
    by (rule in_owned_root_deep [OF assms(1) that]) (use none in auto)
  show ?thesis
  proof (cases "in_registered_root q st")
    case True
    with assms(2) have "in_owned_root q (Some owner) st"
      by (simp add: fs_path_allowed_def in_allowed_root_def)
    with own show ?thesis by (fastforce simp: sandboxed_def)
  next
    case False
    then have "\<not> starts_with q r" if "r \<in> all_roots (er_foreign st)" for r
      using in_registered_foreign [of st r q] that assms(1) by (auto simp: roots_ok_def)
    moreover have "starts_with q ws \<or> (\<exists>r \<in> set (roots_of (Some owner) st). starts_with q r)"
      using assms(2) False own by (auto simp: fs_path_allowed_def in_allowed_root_def)
    ultimately show ?thesis by (auto simp: sandboxed_def)
  qed
qed

text \<open>C10 (invariant): Whatever roots a runtime has been told about, learning of one more root of a
  peer never gives a script access to a path it could not access before.\<close>

theorem peer_boundaries_never_grant:
  assumes "roots_reachable owner st"
    and "fs_path_allowed p ws i (register_foreign_extension_root_boundary V root peer st)"
  shows "fs_path_allowed p ws i st"
  using registering_shrinks [OF roots_reachable_ok [OF assms(1)] assms(2)] .

theorem peer_boundaries_never_grant_witness:
  "fs_path_allowed [RootDir, Normal ''w'', Normal ''a''] [RootDir, Normal ''w''] (Some ''me'') (ext_roots_new (Some ''me''))"
proof (rule peer_boundaries_never_grant [OF roots_reachable.start])
  show "fs_path_allowed [RootDir, Normal ''w'', Normal ''a''] [RootDir, Normal ''w''] (Some ''me'')
      (register_foreign_extension_root_boundary \<lparr>fs_canonicalize = Some, fs_cwd = None\<rparr>
        [RootDir, Normal ''w'', Normal ''b''] ''peer'' (ext_roots_new (Some ''me'')))"
    by (simp add: fs_path_allowed_def register_foreign_extension_root_boundary_def ext_roots_new_def
        in_allowed_root_def in_owned_root_def deepest_roots_def deepest_step_def boundaries_def push_root_def
        push_new_def in_registered_root_def roots_of_def starts_with_def safe_canonicalize_def trim_def
        is_whitespace_def)
qed

end
