(* ===== verification/Repair_Rules.thy ===== *)
theory Repair_Rules
  imports Paths Complex_Main "HOL-Library.Sublist"
begin

text \<open>
  The repair policy of the extension loader (\<^verbatim>\<open>e-agent-node-runtime/src/runtime.rs\<close>): the
  repair modes and patterns, the rule registry, the patch operations a proposal may use, conflict
  detection, the selection and the conflict resolution, the validator with its path check, and the
  human approval. A confidence is an IEEE double; only comparisons are made of it, so a double is
  its rational value, an infinity or NaN (the sign of zero is not observable by comparison).
\<close>

section \<open>Doubles and orderings\<close>

datatype ordering = Less | Equal | Greater

definition cmp :: "'a::linorder \<Rightarrow> 'a \<Rightarrow> ordering" where
  "cmp x y = (if x < y then Less else if x = y then Equal else Greater)"

datatype f64 = NaN | NegInf | Fin rat | PosInf

fun f64_partial_cmp :: "f64 \<Rightarrow> f64 \<Rightarrow> ordering option" where
  "f64_partial_cmp NaN _ = None"
| "f64_partial_cmp _ NaN = None"
| "f64_partial_cmp NegInf NegInf = Some Equal"
| "f64_partial_cmp NegInf _ = Some Less"
| "f64_partial_cmp PosInf PosInf = Some Equal"
| "f64_partial_cmp PosInf _ = Some Greater"
| "f64_partial_cmp (Fin _) PosInf = Some Less"
| "f64_partial_cmp (Fin _) NegInf = Some Greater"
| "f64_partial_cmp (Fin x) (Fin y) = Some (cmp x y)"

definition f64_less :: "f64 \<Rightarrow> f64 \<Rightarrow> bool" where
  "f64_less x y = (f64_partial_cmp x y = Some Less)"

definition f64_le :: "f64 \<Rightarrow> f64 \<Rightarrow> bool" where
  "f64_le x y = (f64_partial_cmp x y \<in> {Some Less, Some Equal})"

section \<open>Modes, patterns and rules\<close>

datatype repair_mode = Off | Suggest | AutoSafe | AutoStrict

definition default_mode :: repair_mode where "default_mode = AutoSafe"

definition should_apply :: "repair_mode \<Rightarrow> bool" where
  "should_apply m = (m = AutoSafe \<or> m = AutoStrict)"

definition mode_is_active :: "repair_mode \<Rightarrow> bool" where
  "mode_is_active m = (m \<noteq> Off)"

definition allows_aggressive :: "repair_mode \<Rightarrow> bool" where
  "allows_aggressive m = (m = AutoStrict)"

definition mode_lower :: "string \<Rightarrow> string" where
  "mode_lower = map (\<lambda>c. let n = of_char c :: nat in if 65 \<le> n \<and> n \<le> 90 then char_of (n + 32) else c)"

definition mode_from_str_lossy :: "string \<Rightarrow> repair_mode" where
  "mode_from_str_lossy s =
     (let t = mode_lower (trim s)
      in if t \<in> set [''off'', ''none'', ''disabled'', ''false'', ''0''] then Off
         else if t \<in> set [''suggest'', ''log'', ''dry-run'', ''dry_run''] then Suggest
         else if t \<in> set [''auto-strict'', ''auto_strict'', ''strict'', ''all''] then AutoStrict
         else AutoSafe)"

fun mode_name :: "repair_mode \<Rightarrow> string" where
  "mode_name Off = ''off''"
| "mode_name Suggest = ''suggest''"
| "mode_name AutoSafe = ''auto-safe''"
| "mode_name AutoStrict = ''auto-strict''"

datatype repair_risk = SafeRisk | AggressiveRisk

datatype repair_pattern =
    DistToSrc | MissingAsset | MonorepoEscape | MissingNpmDep | ExportShape
  | ManifestNormalization | ApiMigration

definition pattern_risk :: "repair_pattern \<Rightarrow> repair_risk" where
  "pattern_risk p =
     (if p \<in> {DistToSrc, MissingAsset, ManifestNormalization} then SafeRisk else AggressiveRisk)"

definition risk_allowed_by :: "repair_risk \<Rightarrow> repair_mode \<Rightarrow> bool" where
  "risk_allowed_by r m = (case r of SafeRisk \<Rightarrow> should_apply m | AggressiveRisk \<Rightarrow> allows_aggressive m)"

definition pattern_allowed_by :: "repair_pattern \<Rightarrow> repair_mode \<Rightarrow> bool" where
  "pattern_allowed_by p m = risk_allowed_by (pattern_risk p) m"

fun pattern_name :: "repair_pattern \<Rightarrow> string" where
  "pattern_name DistToSrc = ''dist_to_src''"
| "pattern_name MissingAsset = ''missing_asset''"
| "pattern_name MonorepoEscape = ''monorepo_escape''"
| "pattern_name MissingNpmDep = ''missing_npm_dep''"
| "pattern_name ExportShape = ''export_shape''"
| "pattern_name ManifestNormalization = ''manifest_normalization''"
| "pattern_name ApiMigration = ''api_migration''"

record repair_rule =
  rl_id :: string
  rl_version :: string
  rl_pattern :: repair_pattern
  rl_description :: string

definition repair_rules :: "repair_rule list" where
  "repair_rules =
     [\<lparr>rl_id = ''dist_to_src_v1'', rl_version = ''1.0.0'', rl_pattern = DistToSrc,
       rl_description = ''Remap ./dist/X.js to ./src/X.ts when build output is missing''\<rparr>,
      \<lparr>rl_id = ''missing_asset_v1'', rl_version = ''1.0.0'', rl_pattern = MissingAsset,
       rl_description = ''Return empty string for missing bundled asset reads''\<rparr>,
      \<lparr>rl_id = ''monorepo_escape_v1'', rl_version = ''1.0.0'', rl_pattern = MonorepoEscape,
       rl_description = ''Stub monorepo sibling imports (../../shared) with empty module''\<rparr>,
      \<lparr>rl_id = ''missing_npm_dep_v1'', rl_version = ''1.0.0'', rl_pattern = MissingNpmDep,
       rl_description = ''Provide proxy-based stub for unresolvable npm bare specifiers''\<rparr>,
      \<lparr>rl_id = ''export_shape_v1'', rl_version = ''1.0.0'', rl_pattern = ExportShape,
       rl_description = ''Try alternative lifecycle exports (CJS default, named activate)''\<rparr>,
      \<lparr>rl_id = ''manifest_schema_v1'', rl_version = ''1.0.0'', rl_pattern = ManifestNormalization,
       rl_description = ''Migrate deprecated manifest fields to current schema''\<rparr>,
      \<lparr>rl_id = ''api_migration_v1'', rl_version = ''1.0.0'', rl_pattern = ApiMigration,
       rl_description = ''Rewrite known deprecated API calls to current equivalents''\<rparr>]"

definition applicable_rules :: "repair_mode \<Rightarrow> repair_rule list" where
  "applicable_rules m = filter (\<lambda>r. pattern_allowed_by (rl_pattern r) m) repair_rules"

definition rule_by_id :: "string \<Rightarrow> repair_rule option" where
  "rule_by_id i = find (\<lambda>r. rl_id r = i) repair_rules"

section \<open>Patch operations and proposals\<close>

datatype patch_op =
    ReplaceModulePath (from_path: string) (to_path: string)
  | AddExport (module_path: string) (export_name: string) (export_value: string)
  | RemoveImport (module_path: string) (specifier: string)
  | InjectStub (virtual_path: string) (source: string)
  | RewriteRequire (module_path: string) (from_specifier: string) (to_specifier: string)

fun op_risk :: "patch_op \<Rightarrow> repair_risk" where
  "op_risk (ReplaceModulePath _ _) = SafeRisk"
| "op_risk (RewriteRequire _ _ _) = SafeRisk"
| "op_risk _ = AggressiveRisk"

fun op_tag :: "patch_op \<Rightarrow> string" where
  "op_tag (ReplaceModulePath _ _) = ''replace_module_path''"
| "op_tag (AddExport _ _ _) = ''add_export''"
| "op_tag (RemoveImport _ _) = ''remove_import''"
| "op_tag (InjectStub _ _) = ''inject_stub''"
| "op_tag (RewriteRequire _ _ _) = ''rewrite_require''"

record patch_proposal =
  pp_rule_id :: string
  pp_ops :: "patch_op list"
  pp_rationale :: string
  pp_confidence :: "f64 option"

definition max_risk :: "patch_proposal \<Rightarrow> repair_risk" where
  "max_risk p =
     (if \<exists>op \<in> set (pp_ops p). op_risk op = AggressiveRisk then AggressiveRisk else SafeRisk)"

definition proposal_allowed_by :: "patch_proposal \<Rightarrow> repair_mode \<Rightarrow> bool" where
  "proposal_allowed_by p m = risk_allowed_by (max_risk p) m"

definition op_count :: "patch_proposal \<Rightarrow> nat" where
  "op_count p = length (pp_ops p)"

section \<open>Conflicts\<close>

datatype conflict_kind = NoConflict | SameModulePath string | SameVirtualPath string

fun ops_conflict :: "patch_op \<Rightarrow> patch_op \<Rightarrow> conflict_kind option" where
  "ops_conflict (ReplaceModulePath fa _) (ReplaceModulePath fb _) =
     (if fa = fb then Some (SameModulePath fa) else None)"
| "ops_conflict (AddExport pa _ _) (AddExport pb _ _) =
     (if pa = pb then Some (SameModulePath pa) else None)"
| "ops_conflict (RemoveImport pa _) (RemoveImport pb _) =
     (if pa = pb then Some (SameModulePath pa) else None)"
| "ops_conflict (InjectStub va _) (InjectStub vb _) =
     (if va = vb then Some (SameVirtualPath va) else None)"
| "ops_conflict (RewriteRequire pa sa _) (RewriteRequire pb sb _) =
     (if pa = pb \<and> sa = sb then Some (SameModulePath pa) else None)"
| "ops_conflict _ _ = None"

text \<open>The nested loops return the first conflict found.\<close>

fun first_some :: "('a \<Rightarrow> 'b option) \<Rightarrow> 'a list \<Rightarrow> 'b option" where
  "first_some f [] = None"
| "first_some f (x # xs) = (case f x of Some y \<Rightarrow> Some y | None \<Rightarrow> first_some f xs)"

definition detect_conflict :: "patch_proposal \<Rightarrow> patch_proposal \<Rightarrow> conflict_kind" where
  "detect_conflict a b =
     (case first_some (\<lambda>op_a. first_some (ops_conflict op_a) (pp_ops b)) (pp_ops a) of
        Some c \<Rightarrow> c
      | None \<Rightarrow> NoConflict)"

definition is_clear :: "conflict_kind \<Rightarrow> bool" where
  "is_clear c = (c = NoConflict)"

section \<open>Selection\<close>

definition risk_rank :: "repair_risk \<Rightarrow> nat" where
  "risk_rank r = (case r of SafeRisk \<Rightarrow> 0 | AggressiveRisk \<Rightarrow> 1)"

definition confidence_of :: "patch_proposal \<Rightarrow> f64" where
  "confidence_of p = (case pp_confidence p of None \<Rightarrow> Fin 0 | Some c \<Rightarrow> c)"

definition compare_proposals :: "patch_proposal \<Rightarrow> patch_proposal \<Rightarrow> ordering" where
  "compare_proposals a b =
     (let risk_ord = cmp (risk_rank (max_risk a)) (risk_rank (max_risk b))
      in if risk_ord \<noteq> Equal then risk_ord
         else
           let ops_ord = cmp (op_count a) (op_count b)
           in if ops_ord \<noteq> Equal then ops_ord
              else
                let conf_ord = (case f64_partial_cmp (confidence_of b) (confidence_of a) of
                                  Some o1 \<Rightarrow> o1 | None \<Rightarrow> Equal)
                in if conf_ord \<noteq> Equal then conf_ord
                   else cmp (pp_rule_id a) (pp_rule_id b))"

text \<open>\<^verbatim>\<open>Iterator::min_by\<close>: of two equal elements the first stays.\<close>

fun min_by :: "('a \<Rightarrow> 'a \<Rightarrow> ordering) \<Rightarrow> 'a list \<Rightarrow> 'a option" where
  "min_by c [] = None"
| "min_by c (x # xs) = Some (fold (\<lambda>y m. if c m y = Greater then y else m) xs x)"

definition select_best_candidate :: "patch_proposal list \<Rightarrow> repair_mode \<Rightarrow> patch_proposal option" where
  "select_best_candidate candidates mode =
     min_by compare_proposals (filter (\<lambda>p. proposal_allowed_by p mode) candidates)"

text \<open>\<^verbatim>\<open>sort_by\<close> is a stable sort; it is written as an insertion sort, which agrees with every
  stable sort when the comparison is a total preorder.\<close>

fun insert_by :: "('a \<Rightarrow> 'a \<Rightarrow> ordering) \<Rightarrow> 'a \<Rightarrow> 'a list \<Rightarrow> 'a list" where
  "insert_by c x [] = [x]"
| "insert_by c x (y # ys) = (if c y x = Greater then x # y # ys else y # insert_by c x ys)"

definition sort_by :: "('a \<Rightarrow> 'a \<Rightarrow> ordering) \<Rightarrow> 'a list \<Rightarrow> 'a list" where
  "sort_by c xs = fold (insert_by c) xs []"

definition accept_step :: "patch_proposal \<Rightarrow> patch_proposal list \<Rightarrow> patch_proposal list" where
  "accept_step candidate accepted =
     (if \<exists>acc \<in> set accepted. \<not> is_clear (detect_conflict acc candidate)
      then accepted else accepted @ [candidate])"

definition resolve_conflicts :: "patch_proposal list \<Rightarrow> patch_proposal list" where
  "resolve_conflicts proposals = fold accept_step (sort_by compare_proposals proposals) []"

section \<open>Validation\<close>

definition allowed_op_tags_for_mode :: "repair_mode \<Rightarrow> string list" where
  "allowed_op_tags_for_mode mode =
     (if should_apply mode then [''replace_module_path'', ''rewrite_require''] else [])
     @ (if allows_aggressive mode then [''add_export'', ''remove_import'', ''inject_stub''] else [])"

datatype monotonicity_verdict =
    SafeVerdict
  | EscapesRoot (extension_root: path) (resolved: path)
  | CrossExtension (original_extension: string) (resolved: path)

definition verify_repair_monotonicity :: "fs_view \<Rightarrow> path \<Rightarrow> path \<Rightarrow> path \<Rightarrow> monotonicity_verdict" where
  "verify_repair_monotonicity V ext_root original resolved_path =
     (let canonical_root = safe_canonicalize V ext_root;
          canonical_resolved = safe_canonicalize V resolved_path
      in if \<not> starts_with canonical_resolved canonical_root
         then EscapesRoot canonical_root canonical_resolved
         else SafeVerdict)"

datatype validation_error =
    EmptyProposal
  | DisallowedOp string
  | RiskExceedsMode repair_risk repair_mode
  | UnknownRule string
  | MonotonicityViolation string

fun op_target_path :: "patch_op \<Rightarrow> string" where
  "op_target_path (ReplaceModulePath _ t) = t"
| "op_target_path (AddExport m _ _) = m"
| "op_target_path (RemoveImport m _) = m"
| "op_target_path (RewriteRequire m _ _) = m"
| "op_target_path (InjectStub v _) = v"

definition op_paths :: "patch_op \<Rightarrow> string list" where
  "op_paths op =
     op_target_path op # (case op of ReplaceModulePath f _ \<Rightarrow> [f] | _ \<Rightarrow> [])"

definition path_errors :: "fs_view \<Rightarrow> path \<Rightarrow> patch_op list \<Rightarrow> validation_error list" where
  "path_errors V ext_root ops =
     concat (map (\<lambda>op. concat (map (\<lambda>path_str.
       let target = path_of path_str;
           resolved = (if is_absolute target then target else path_join ext_root target)
       in if verify_repair_monotonicity V ext_root ext_root resolved \<noteq> SafeVerdict
          then [MonotonicityViolation path_str] else []) (op_paths op))) ops)"

definition validate_proposal ::
  "fs_view \<Rightarrow> patch_proposal \<Rightarrow> repair_mode \<Rightarrow> path option \<Rightarrow> validation_error list" where
  "validate_proposal V proposal mode ext_root =
     (if pp_ops proposal = [] then [EmptyProposal]
      else
        map (\<lambda>op. DisallowedOp (op_tag op))
          (filter (\<lambda>op. op_tag op \<notin> set (allowed_op_tags_for_mode mode)) (pp_ops proposal))
        @ (if proposal_allowed_by proposal mode then [] else [RiskExceedsMode (max_risk proposal) mode])
        @ (if pp_rule_id proposal \<noteq> [] \<and> rule_by_id (pp_rule_id proposal) = None
           then [UnknownRule (pp_rule_id proposal)] else [])
        @ (case ext_root of None \<Rightarrow> [] | Some ext_root \<Rightarrow> path_errors V ext_root (pp_ops proposal)))"

record application_result =
  ap_success :: bool
  ap_ops_applied :: nat
  ap_summary :: string

definition apply_proposal ::
  "fs_view \<Rightarrow> patch_proposal \<Rightarrow> repair_mode \<Rightarrow> path option \<Rightarrow> validation_error list + application_result" where
  "apply_proposal V proposal mode ext_root =
     (let errors = validate_proposal V proposal mode ext_root
      in if errors \<noteq> [] then Inl errors
         else Inr \<lparr>ap_success = True, ap_ops_applied = length (pp_ops proposal),
                   ap_summary = ''Applied '' @ show_nat (length (pp_ops proposal))
                     @ '' op(s) from rule '' @ [CHR 0x27] @ pp_rule_id proposal @ [CHR 0x27]\<rparr>)"

section \<open>Approval\<close>

datatype approval_requirement = AutoApproved | RequiresApproval

definition check_approval_requirement :: "patch_proposal \<Rightarrow> f64 \<Rightarrow> approval_requirement" where
  "check_approval_requirement proposal confidence_score =
     (if max_risk proposal = AggressiveRisk then RequiresApproval
      else if f64_less confidence_score (Fin (1 / 2)) then RequiresApproval
      else if length (pp_ops proposal) \<ge> 3 then RequiresApproval
      else AutoApproved)"

record approval_request =
  aq_extension_id :: string
  aq_proposal :: patch_proposal
  aq_risk :: repair_risk
  aq_confidence :: f64
  aq_rationale :: string
  aq_op_summaries :: "string list"

definition build_approval_request :: "string \<Rightarrow> patch_proposal \<Rightarrow> f64 \<Rightarrow> approval_request" where
  "build_approval_request extension_id proposal confidence_score =
     \<lparr>aq_extension_id = extension_id, aq_proposal = proposal, aq_risk = max_risk proposal,
      aq_confidence = confidence_score, aq_rationale = pp_rationale proposal,
      aq_op_summaries = map (\<lambda>op. ''['' @ op_tag op @ ''] '' @ op_target_path op) (pp_ops proposal)\<rparr>"

section \<open>The ranking is a total preorder unless a confidence is NaN\<close>

fun confidence_key :: "f64 \<Rightarrow> nat \<times> rat" where
  "confidence_key PosInf = (0, 0)"
| "confidence_key (Fin q) = (1, - q)"
| "confidence_key NegInf = (2, 0)"
| "confidence_key NaN = (3, 0)"

definition rank :: "patch_proposal \<Rightarrow> nat \<times> nat \<times> (nat \<times> rat) \<times> string" where
  "rank p = (risk_rank (max_risk p), op_count p, confidence_key (confidence_of p), pp_rule_id p)"

definition ranked :: "patch_proposal \<Rightarrow> bool" where
  "ranked p = (confidence_of p \<noteq> NaN)"

lemma cmp_simps [simp]:
  "(cmp x y = Less) = (x < y)" "(cmp x y = Equal) = (x = y)" "(cmp x y = Greater) = (y < x)"
  by (auto simp: cmp_def)

lemma confidence_cmp:
  "a \<noteq> NaN \<Longrightarrow> b \<noteq> NaN \<Longrightarrow>
   f64_partial_cmp b a = Some (cmp (confidence_key a) (confidence_key b))"
  by (cases a; cases b) (auto simp: cmp_def)

lemma cmp_pair:
  "cmp (a, b) (c, d) = (if cmp a c \<noteq> Equal then cmp a c else cmp b d)"
  by (auto simp: cmp_def)

lemma compare_is_rank:
  assumes "ranked a" and "ranked b"
  shows "compare_proposals a b = cmp (rank a) (rank b)"
proof -
  have c: "f64_partial_cmp (confidence_of b) (confidence_of a) =
      Some (cmp (confidence_key (confidence_of a)) (confidence_key (confidence_of b)))"
    using assms confidence_cmp [of "confidence_of a" "confidence_of b"] by (simp add: ranked_def)
  show ?thesis
    unfolding compare_proposals_def rank_def Let_def c cmp_pair [of "risk_rank (max_risk a)"]
      cmp_pair [of "op_count a"] cmp_pair [of "confidence_key (confidence_of a)"] by simp
qed

lemma insert_by_rank:
  assumes "ranked x" and "\<forall>y \<in> set ys. ranked y" and "sorted (map rank ys)"
  shows "sorted (map rank (insert_by compare_proposals x ys)) \<and>
    mset (insert_by compare_proposals x ys) = add_mset x (mset ys)"
  using assms
proof (induction ys)
  case Nil
  then show ?case by simp
next
  case (Cons y ys)
  then have IH: "sorted (map rank (insert_by compare_proposals x ys))"
      "mset (insert_by compare_proposals x ys) = add_mset x (mset ys)" by auto
  then have "set (insert_by compare_proposals x ys) = insert x (set ys)"
    by (metis set_mset_add_mset_insert set_mset_mset)
  with IH Cons.prems show ?case by (auto simp: compare_is_rank)
qed

lemma sort_by_rank:
  assumes "\<forall>p \<in> set ps. ranked p"
  shows "sorted (map rank (sort_by compare_proposals ps))"
    and "mset (sort_by compare_proposals ps) = mset ps"
proof -
  have "sorted (map rank (fold (insert_by compare_proposals) ps ys))
      \<and> mset (fold (insert_by compare_proposals) ps ys) = mset ps + mset ys"
    if "\<forall>p \<in> set ps \<union> set ys. ranked p" "sorted (map rank ys)" for ps ys
    using that
  proof (induction ps arbitrary: ys)
    case Nil
    then show ?case by simp
  next
    case (Cons p ps)
    have i: "sorted (map rank (insert_by compare_proposals p ys))"
        "mset (insert_by compare_proposals p ys) = add_mset p (mset ys)"
      using insert_by_rank [of p ys] Cons.prems by auto
    then have "set (insert_by compare_proposals p ys) = insert p (set ys)"
      by (metis set_mset_add_mset_insert set_mset_mset)
    then show ?case
      using Cons.IH [of "insert_by compare_proposals p ys"] i Cons.prems by auto
  qed
  from this [of ps "[]"] assms
  show "sorted (map rank (sort_by compare_proposals ps))"
    and "mset (sort_by compare_proposals ps) = mset ps" by (simp_all add: sort_by_def)
qed

lemma min_by_rank:
  assumes "\<forall>p \<in> set ps. ranked p" and "min_by compare_proposals ps = Some m"
  shows "m \<in> set ps" and "\<forall>p \<in> set ps. rank m \<le> rank p"
proof -
  have "fold (\<lambda>y m. if compare_proposals m y = Greater then y else m) xs x \<in> insert x (set xs) \<and>
      (\<forall>p \<in> insert x (set xs). rank (fold (\<lambda>y m. if compare_proposals m y = Greater then y else m) xs x) \<le> rank p)"
    if "\<forall>p \<in> insert x (set xs). ranked p" for x xs
    using that
  proof (induction xs arbitrary: x)
    case Nil
    then show ?case by simp
  next
    case (Cons y ys)
    let ?z = "if compare_proposals x y = Greater then y else x"
    have "ranked ?z" "rank ?z \<le> rank x" "rank ?z \<le> rank y"
      using Cons.prems by (auto simp: compare_is_rank)
    with Cons.IH [of ?z] Cons.prems show ?case by (auto dest: order_trans)
  qed
  with assms show "m \<in> set ps" and "\<forall>p \<in> set ps. rank m \<le> rank p"
    by (cases ps; force)+
qed

section \<open>Conflict resolution\<close>

lemma first_some_None: "first_some f xs = None \<longleftrightarrow> (\<forall>x \<in> set xs. f x = None)"
  by (induction xs) (auto split: option.split)

lemma first_some_Some: "first_some f xs = Some y \<Longrightarrow> \<exists>x \<in> set xs. f x = Some y"
  by (induction xs) (auto split: option.splits)

lemma ops_conflict_sym: "(ops_conflict a b = None) = (ops_conflict b a = None)"
  by (cases a; cases b) auto

lemma ops_conflict_real: "ops_conflict a b \<noteq> Some NoConflict"
  by (cases a; cases b) auto

lemma is_clear_iff:
  "is_clear (detect_conflict a b) \<longleftrightarrow> (\<forall>x \<in> set (pp_ops a). \<forall>y \<in> set (pp_ops b). ops_conflict x y = None)"
proof (cases "first_some (\<lambda>op_a. first_some (ops_conflict op_a) (pp_ops b)) (pp_ops a)")
  case None
  then have "\<forall>x \<in> set (pp_ops a). \<forall>y \<in> set (pp_ops b). ops_conflict x y = None"
    by (simp add: first_some_None)
  with None show ?thesis unfolding detect_conflict_def is_clear_def by (simp only: option.case) simp
next
  case (Some c)
  then obtain x y where "x \<in> set (pp_ops a)" "y \<in> set (pp_ops b)" "ops_conflict x y = Some c"
    by (metis first_some_Some)
  with Some ops_conflict_real [of x y] show ?thesis
    by (force simp: detect_conflict_def is_clear_def)
qed

lemma is_clear_sym: "is_clear (detect_conflict a b) = is_clear (detect_conflict b a)"
  by (metis is_clear_iff ops_conflict_sym)

text \<open>The greedy pass over a list keeps a clear set, and drops only what conflicts with something
  kept before.\<close>

lemma accept_steps:
  assumes "sorted_wrt (\<lambda>a b. is_clear (detect_conflict a b)) acc"
  shows "sorted_wrt (\<lambda>a b. is_clear (detect_conflict a b)) (fold accept_step ps acc)
    \<and> (\<exists>ys. fold accept_step ps acc = acc @ ys \<and> subseq ys ps)
    \<and> (\<forall>i < length ps. ps ! i \<in> set (fold accept_step ps acc)
         \<or> (\<exists>a \<in> set acc \<union> set (take i ps). a \<in> set (fold accept_step ps acc)
              \<and> \<not> is_clear (detect_conflict a (ps ! i))))"
  using assms
proof (induction ps arbitrary: acc)
  case Nil
  then show ?case by simp
next
  case (Cons p ps)
  define acc' where "acc' = accept_step p acc"
  have s: "sorted_wrt (\<lambda>a b. is_clear (detect_conflict a b)) acc'"
    using Cons.prems by (auto simp: acc'_def accept_step_def sorted_wrt_append)
  note IH = Cons.IH [OF s]
  from IH obtain ys where ys: "fold accept_step ps acc' = acc' @ ys" "subseq ys ps" by blast
  have pre: "\<exists>zs. fold accept_step (p # ps) acc = acc @ zs \<and> subseq zs (p # ps)"
    using ys by (auto simp: acc'_def accept_step_def)
  have kept: "set acc' \<subseteq> set (fold accept_step ps acc')" using ys by auto
  have head: "p \<in> set (fold accept_step ps acc')
      \<or> (\<exists>a \<in> set acc. a \<in> set (fold accept_step ps acc') \<and> \<not> is_clear (detect_conflict a p))"
    using kept by (auto simp: acc'_def accept_step_def split: if_splits)
  have sub: "set acc' \<union> set (take i ps) \<subseteq> set acc \<union> set (take (Suc i) (p # ps))" for i
    by (auto simp: acc'_def accept_step_def)
  have tail: "(p # ps) ! i \<in> set (fold accept_step ps acc')
      \<or> (\<exists>a \<in> set acc \<union> set (take i (p # ps)). a \<in> set (fold accept_step ps acc')
           \<and> \<not> is_clear (detect_conflict a ((p # ps) ! i)))" if "i < length (p # ps)" for i
  proof (cases i)
    case 0
    with head show ?thesis by auto
  next
    case (Suc j)
    with that IH sub [of j] show ?thesis by (metis (no_types, lifting) Suc_less_eq length_Cons nth_Cons_Suc subsetD)
  qed
  show ?case using IH pre tail by (simp add: acc'_def)
qed

section \<open>Properties\<close>

lemma subseq_set: "subseq xs ys \<Longrightarrow> set xs \<subseteq> set ys"
  by (auto simp: subseq_conv_nths dest: in_set_nthsD)

lemma sorted_subseq: "subseq xs ys \<Longrightarrow> sorted ys \<Longrightarrow> sorted xs"
  by (auto simp: subseq_conv_nths sorted_nths)

lemma resolve_conflicts_spec:
  assumes "\<forall>p \<in> set ps. ranked p"
  defines "acc \<equiv> resolve_conflicts ps"
  shows "sorted (map rank acc)" and "set acc \<subseteq> set ps"
    and "sorted_wrt (\<lambda>a b. is_clear (detect_conflict a b)) acc"
    and "p \<in> set ps \<Longrightarrow> p \<in> set acc \<or> (\<exists>a \<in> set acc. rank a \<le> rank p \<and> \<not> is_clear (detect_conflict a p))"
proof -
  define sp where "sp = sort_by compare_proposals ps"
  have s: "sorted (map rank sp)" "set sp = set ps"
    using sort_by_rank [OF assms(1)] by (auto simp: sp_def dest: mset_eq_setD)
  have acc: "acc = fold accept_step sp []" by (simp add: acc_def resolve_conflicts_def sp_def)
  note a = accept_steps [of "[]" sp, simplified, folded acc]
  from a have sub: "subseq acc sp" by simp
  then show "set acc \<subseteq> set ps" using subseq_set s(2) by blast
  from sub have "subseq (map rank acc) (map rank sp)" by (rule subseq_map)
  then show "sorted (map rank acc)" using s(1) by (rule sorted_subseq)
  show "sorted_wrt (\<lambda>a b. is_clear (detect_conflict a b)) acc" using a by simp
  show "p \<in> set acc \<or> (\<exists>a \<in> set acc. rank a \<le> rank p \<and> \<not> is_clear (detect_conflict a p))"
    if "p \<in> set ps"
  proof -
    from that s(2) obtain i where i: "i < length sp" "sp ! i = p" by (metis in_set_conv_nth)
    have "rank b \<le> rank p" if "b \<in> set (take i sp)" for b
    proof -
      from that obtain j where "j < i" "sp ! j = b" using i(1) by (auto simp: in_set_conv_nth)
      then show ?thesis using s(1) i by (auto simp: sorted_iff_nth_mono)
    qed
    with a i show ?thesis by blast
  qed
qed

text \<open>Conflict resolution returns proposals of the input in ranking order (lowest
  risk, then fewest operations, then highest confidence, then rule id), no two of which conflict,
  and it drops a proposal only for a kept one that conflicts with it and ranks no lower. The
  confidences must not be NaN.\<close>

theorem conflict_resolution_is_sound:
  assumes "\<forall>p \<in> set ps. ranked p"
  shows "sorted (map rank (resolve_conflicts ps))
       \<and> set (resolve_conflicts ps) \<subseteq> set ps
       \<and> sorted_wrt (\<lambda>a b. is_clear (detect_conflict a b) \<and> is_clear (detect_conflict b a)) (resolve_conflicts ps)
       \<and> (\<forall>p \<in> set ps. p \<in> set (resolve_conflicts ps) \<or>
            (\<exists>a \<in> set (resolve_conflicts ps). rank a \<le> rank p \<and> \<not> is_clear (detect_conflict a p)))"
  using resolve_conflicts_spec [OF assms] by (simp add: is_clear_sym [of _ _])

definition sample_stub :: "string \<Rightarrow> f64 \<Rightarrow> patch_proposal" where
  "sample_stub i c = \<lparr>pp_rule_id = i, pp_ops = [InjectStub ''s.js'' ''''], pp_rationale = '''', pp_confidence = Some c\<rparr>"

theorem conflict_resolution_is_sound_witness:
  "resolve_conflicts [sample_stub ''b'' (Fin (1 / 4)), sample_stub ''a'' (Fin (1 / 2))] = [sample_stub ''a'' (Fin (1 / 2))]
   \<and> sorted (map rank (resolve_conflicts [sample_stub ''b'' (Fin (1 / 4)), sample_stub ''a'' (Fin (1 / 2))]))"
  using conflict_resolution_is_sound [of "[sample_stub ''b'' (Fin (1 / 4)), sample_stub ''a'' (Fin (1 / 2))]"]
  by (simp add: ranked_def confidence_of_def sample_stub_def resolve_conflicts_def sort_by_def
      compare_proposals_def accept_step_def detect_conflict_def is_clear_def max_risk_def op_count_def cmp_def)

text \<open>The best candidate is a minimum of the ranking among the allowed ones.\<close>

lemma best_candidate_is_minimal:
  assumes "\<forall>p \<in> set ps. ranked p"
  shows "case select_best_candidate ps mode of
           None \<Rightarrow> \<forall>p \<in> set ps. \<not> proposal_allowed_by p mode
         | Some m \<Rightarrow> m \<in> set ps \<and> proposal_allowed_by m mode
             \<and> (\<forall>p \<in> set ps. proposal_allowed_by p mode \<longrightarrow> rank m \<le> rank p)"
proof (cases "select_best_candidate ps mode")
  case None
  then have "filter (\<lambda>p. proposal_allowed_by p mode) ps = []"
    by (cases "filter (\<lambda>p. proposal_allowed_by p mode) ps") (auto simp: select_best_candidate_def)
  with None show ?thesis by (simp add: filter_empty_conv)
next
  case (Some m)
  with min_by_rank [of "filter (\<lambda>p. proposal_allowed_by p mode) ps" m] assms
  show ?thesis by (auto simp: select_best_candidate_def)
qed

text \<open>With NaN the comparison is cyclic, and the selection depends on the order of the candidates:
  the most confident candidate loses to the least confident one.\<close>

lemma nan_confidence_breaks_ranking:
  defines "x \<equiv> sample_stub ''z'' (Fin (9 / 10))" and "n \<equiv> sample_stub ''m'' NaN"
    and "y \<equiv> sample_stub ''a'' (Fin (1 / 10))"
  shows "compare_proposals x y = Less" and "compare_proposals y n = Less" and "compare_proposals n x = Less"
    and "select_best_candidate [x, n, y] AutoStrict = Some y"
    and "select_best_candidate [y, n, x] AutoStrict = Some x"
  by (simp_all add: assms sample_stub_def compare_proposals_def confidence_of_def max_risk_def
      op_count_def cmp_def select_best_candidate_def proposal_allowed_by_def risk_allowed_by_def
      allows_aggressive_def)

lemma allowed_tags:
  "op_tag op \<in> set (allowed_op_tags_for_mode mode) \<longleftrightarrow> risk_allowed_by (op_risk op) mode"
  by (cases op; cases mode)
    (simp_all add: allowed_op_tags_for_mode_def risk_allowed_by_def should_apply_def allows_aggressive_def)

lemma max_risk_allowed:
  "pp_ops p \<noteq> [] \<Longrightarrow>
   proposal_allowed_by p mode \<longleftrightarrow> (\<forall>op \<in> set (pp_ops p). risk_allowed_by (op_risk op) mode)"
proof -
  assume ne: "pp_ops p \<noteq> []"
  have mono: "risk_allowed_by AggressiveRisk mode \<Longrightarrow> risk_allowed_by r mode" for r
    by (cases r) (auto simp: risk_allowed_by_def allows_aggressive_def should_apply_def)
  have other: "op_risk op = SafeRisk \<or> op_risk op = AggressiveRisk" for op
    by (cases "op_risk op") auto
  show ?thesis
  proof (cases "\<exists>op \<in> set (pp_ops p). op_risk op = AggressiveRisk")
    case True
    then show ?thesis using mono by (auto simp: proposal_allowed_by_def max_risk_def)
  next
    case False
    then have "op_risk op = SafeRisk" if "op \<in> set (pp_ops p)" for op
      using other that by auto
    with False ne show ?thesis
      by (auto simp: proposal_allowed_by_def max_risk_def neq_Nil_conv)
  qed
qed

definition inside_root :: "fs_view \<Rightarrow> path \<Rightarrow> string \<Rightarrow> bool" where
  "inside_root V ext_root s =
     starts_with (safe_canonicalize V (if is_absolute (path_of s) then path_of s else path_join ext_root (path_of s)))
       (safe_canonicalize V ext_root)"

lemma path_errors_Nil:
  "path_errors V ext_root ops = [] \<longleftrightarrow> (\<forall>op \<in> set ops. \<forall>s \<in> set (op_paths op). inside_root V ext_root s)"
  by (auto simp: path_errors_def verify_repair_monotonicity_def inside_root_def Let_def split: if_splits)

text \<open>C12 (error): A proposal is applied exactly when it has operations, the mode permits the risk
  of every one of them, its rule is known or not named, and every path it names stays in the
  extension root, if there is one; otherwise it is refused with at least one error.\<close>

theorem proposals_are_applied_exactly:
  "(\<exists>r. apply_proposal V p mode ext_root = Inr r) \<longleftrightarrow>
     pp_ops p \<noteq> []
     \<and> (\<forall>op \<in> set (pp_ops p). risk_allowed_by (op_risk op) mode)
     \<and> (pp_rule_id p = [] \<or> rule_by_id (pp_rule_id p) \<noteq> None)
     \<and> (\<forall>r. ext_root = Some r \<longrightarrow> (\<forall>op \<in> set (pp_ops p). \<forall>s \<in> set (op_paths op). inside_root V r s))"
proof (cases "pp_ops p = []")
  case True
  then show ?thesis by (simp add: apply_proposal_def validate_proposal_def)
next
  case False
  have "validate_proposal V p mode ext_root = [] \<longleftrightarrow>
      (\<forall>op \<in> set (pp_ops p). risk_allowed_by (op_risk op) mode)
      \<and> (pp_rule_id p = [] \<or> rule_by_id (pp_rule_id p) \<noteq> None)
      \<and> (\<forall>r. ext_root = Some r \<longrightarrow> (\<forall>op \<in> set (pp_ops p). \<forall>s \<in> set (op_paths op). inside_root V r s))"
    using False max_risk_allowed [OF False, of mode]
    by (auto simp: validate_proposal_def allowed_tags filter_empty_conv path_errors_Nil split: option.split)
  then show ?thesis by (auto simp: apply_proposal_def Let_def False)
qed

theorem proposals_are_applied_exactly_witness:
  "\<not> (\<exists>r. apply_proposal \<lparr>fs_canonicalize = \<lambda>_. None, fs_cwd = None\<rparr>
        \<lparr>pp_rule_id = '''', pp_ops = [ReplaceModulePath ''a.js'' ''../b.js''], pp_rationale = '''', pp_confidence = None\<rparr>
        AutoSafe (Some [RootDir, Normal ''ext'']) = Inr r)"
  unfolding proposals_are_applied_exactly
  by (simp add: op_paths_def inside_root_def safe_canonicalize_def lexical_def path_of_def component_of_def
      is_absolute_def path_join_def normalize_step_def path_pop_def starts_with_def)

text \<open>An extension root reached through a symbolic link: a file that does not exist yet below it
  is judged to escape it, because only the root is resolved.\<close>

lemma linked_root_refuses_new_files:
  assumes "is_absolute r" and "normal_path r"
    and "fs_canonicalize V r = Some c" and "\<not> starts_with (r @ [Normal n]) c"
    and "fs_canonicalize V (r @ [Normal n]) = None"
  shows "verify_repair_monotonicity V r r (r @ [Normal n]) = EscapesRoot c (r @ [Normal n])"
proof -
  have "normal_path (r @ [Normal n])"
    using normal_path_step [OF assms(2), of "Normal n"] assms(1)
    by (auto simp: normalize_step_def path_join_def is_absolute_def)
  moreover have "is_absolute (r @ [Normal n])" using assms(1) by (simp add: is_absolute_def)
  ultimately have "lexical V (r @ [Normal n]) = r @ [Normal n]" by (rule lexical_normal)
  then show ?thesis
    using assms(3-5) by (simp add: verify_repair_monotonicity_def safe_canonicalize_def)
qed

end
