(* ===== verification/Extension_Fs.thy ===== *)
theory Extension_Fs
  imports Extension_Roots Repair_Rules Utf8
begin

text \<open>
  The synchronous file-system calls the host offers to the scripts
  (\<^verbatim>\<open>__pi_host_check_read_access\<close>, \<^verbatim>\<open>__pi_host_check_write_access\<close>,
  \<^verbatim>\<open>__pi_host_stat_sync\<close>, \<^verbatim>\<open>__pi_host_read_dir_sync\<close> and the Linux
  \<^verbatim>\<open>__pi_host_read_file_sync\<close> in \<^verbatim>\<open>install_pi_bridge\<close> of
  \<^verbatim>\<open>runtime.rs\<close>), with the empty files the missing-asset repair answers. Every system
  call is a parameter of its own, so the file system may change between any two of them; the base64
  encoder is a parameter.
\<close>

type_synonym host_error = "string \<times> string"

definition requested_abs :: "path \<Rightarrow> string \<Rightarrow> path" where
  "requested_abs workspace_root p =
     (let requested = path_of p
      in if is_absolute requested then requested else path_join workspace_root requested)"

definition denied :: "string \<Rightarrow> string" where
  "denied what = ''host '' @ what @ '' denied: path outside extension root''"

section \<open>The guards of the virtual file system\<close>

text \<open>\<^verbatim>\<open>V0\<close> resolves the working directory, \<^verbatim>\<open>V\<close> the requested path.\<close>

definition host_check_access ::
  "string \<Rightarrow> fs_view \<Rightarrow> fs_view \<Rightarrow> string \<Rightarrow> string option \<Rightarrow> ext_roots \<Rightarrow> string \<Rightarrow> host_error + unit" where
  "host_check_access what V0 V process_cwd extension_id st p =
     (if extension_id = None then Inr ()
      else
        let workspace_root = safe_canonicalize V0 (path_of process_cwd);
            checked_path = safe_canonicalize V (requested_abs workspace_root p)
        in if fs_path_allowed checked_path workspace_root extension_id st then Inr ()
           else Inl (p, denied what))"

definition host_check_read_access where
  "host_check_read_access = host_check_access ''read''"

definition host_check_write_access where
  "host_check_write_access = host_check_access ''write''"

section \<open>Stat and directory listing\<close>

datatype file_kind = Symlink | Dir | File | OtherKind

fun kind_name :: "file_kind \<Rightarrow> string" where
  "kind_name Symlink = ''symlink''"
| "kind_name Dir = ''dir''"
| "kind_name File = ''file''"
| "kind_name OtherKind = ''other''"

text \<open>\<^verbatim>\<open>meta follow\<close> is \<^verbatim>\<open>metadata\<close> or \<^verbatim>\<open>symlink_metadata\<close>: the
  kind and the size, or the message of the error.\<close>

definition host_stat ::
  "fs_view \<Rightarrow> fs_view \<Rightarrow> (bool \<Rightarrow> path \<Rightarrow> string + file_kind \<times> nat) \<Rightarrow> string \<Rightarrow> string option \<Rightarrow> ext_roots \<Rightarrow>
   string \<Rightarrow> bool \<Rightarrow> host_error + json" where
  "host_stat V0 V meta process_cwd extension_id st p follow =
     (let workspace_root = safe_canonicalize V0 (path_of process_cwd);
          requested = requested_abs workspace_root p;
          checked_path = safe_canonicalize V requested
      in if \<not> fs_path_allowed checked_path workspace_root extension_id st then Inl (p, denied ''stat'')
         else case meta follow requested of
           Inl err \<Rightarrow> Inl (p, ''host stat: '' @ err)
         | Inr (kind, len) \<Rightarrow>
             Inr (JObject [(''kind'', JString (kind_name kind)), (''size'', JNumber (show_nat len))]))"

record dir_entry =
  de_name :: string
  de_kind :: "string + file_kind"

text \<open>The loop over the entries: the first error ends it; an entry whose canonical path the
  extension may not see is left out.\<close>

fun collect_entries ::
  "(path \<Rightarrow> bool) \<Rightarrow> fs_view \<Rightarrow> string \<Rightarrow> path \<Rightarrow> (string + dir_entry) list \<Rightarrow> (string \<times> file_kind) list \<Rightarrow>
   host_error + (string \<times> file_kind) list" where
  "collect_entries ok V p dir [] acc = Inr acc"
| "collect_entries ok V p dir (Inl err # rest) acc = Inl (p, ''host readdir entry: '' @ err)"
| "collect_entries ok V p dir (Inr e # rest) acc =
     (if \<not> ok (safe_canonicalize V (path_join dir [Normal (de_name e)]))
      then collect_entries ok V p dir rest acc
      else case de_kind e of
        Inl err \<Rightarrow> Inl (p, ''host readdir file type: '' @ err)
      | Inr kind \<Rightarrow> collect_entries ok V p dir rest (acc @ [(de_name e, kind)]))"

definition host_read_dir ::
  "fs_view \<Rightarrow> fs_view \<Rightarrow> fs_view \<Rightarrow> (path \<Rightarrow> string + (string + dir_entry) list) \<Rightarrow> string \<Rightarrow> string option \<Rightarrow>
   ext_roots \<Rightarrow> string \<Rightarrow> host_error + (string \<times> file_kind) list" where
  "host_read_dir V0 V V1 read_dir process_cwd extension_id st p =
     (let workspace_root = safe_canonicalize V0 (path_of process_cwd);
          checked_path = safe_canonicalize V (requested_abs workspace_root p);
          ok = (\<lambda>q. fs_path_allowed q workspace_root extension_id st)
      in if \<not> ok checked_path then Inl (p, denied ''readdir'')
         else case read_dir checked_path of
           Inl err \<Rightarrow> Inl (p, ''host readdir: '' @ err)
         | Inr items \<Rightarrow> map_sum id (sort_key fst) (collect_entries ok V1 p checked_path items []))"

section \<open>Reading a file\<close>

definition max_sync_read_size :: nat where "max_sync_read_size = 64 * 1024 * 1024"

text \<open>The system calls of one read: the check before, \<^verbatim>\<open>File::open\<close> (whose error says
  whether the file was not found), the check after a file was not found, the link of the opened
  handle in \<^verbatim>\<open>/proc/self/fd\<close>, and the contents. The search for the leaf root
  resolves the path once more.\<close>

record 'h read_calls =
  rd_workspace :: fs_view
  rd_before :: fs_view
  rd_open :: "path \<Rightarrow> (bool \<times> string) + 'h"
  rd_after :: fs_view
  rd_leaf :: fs_view
  rd_link :: "'h \<Rightarrow> string + path"
  rd_contents :: "'h \<Rightarrow> string + u8 list"

record repair_event =
  re_extension_id :: string
  re_pattern :: repair_pattern
  re_original_error :: string
  re_action :: string
  re_success :: bool

fun path_text :: "path \<Rightarrow> string" where
  "path_text [] = []"
| "path_text [c] = (case c of RootDir \<Rightarrow> ''/'' | CurDir \<Rightarrow> ''.'' | ParentDir \<Rightarrow> ''..'' | Normal n \<Rightarrow> n)"
| "path_text (RootDir # d # p) = CHR ''/'' # path_text (d # p)"
| "path_text (c # d # p) = path_text [c] @ CHR ''/'' # path_text (d # p)"

definition asset_fallback :: "string \<Rightarrow> string option" where
  "asset_fallback ext =
     (if ext \<in> {''html'', ''htm''} then Some ''<!DOCTYPE html><html><body></body></html>''
      else if ext = ''css'' then Some ''/* auto-repair: empty stylesheet */''
      else if ext \<in> {''js'', ''mjs''} then Some ''// auto-repair: empty script''
      else if ext \<in> {''md'', ''txt'', ''toml'', ''yaml'', ''yml''} then Some ''''
      else None)"

definition text_bytes :: "string \<Rightarrow> u8 list" where
  "text_bytes = map of_char"

definition apply_missing_asset_fallback ::
  "fs_view \<Rightarrow> string option \<Rightarrow> ext_roots \<Rightarrow> string \<Rightarrow> path \<Rightarrow> string \<Rightarrow>
   (host_error + u8 list) \<times> repair_event list" where
  "apply_missing_asset_fallback V extension_id st p checked_path error_msg =
     (let err = Inl (p, ''host read open: '' @ error_msg)
      in if \<not> in_leaf_allowed_root V checked_path extension_id st then (err, [])
         else
           let ext = (case path_extension checked_path of Some e \<Rightarrow> e | None \<Rightarrow> [])
           in case asset_fallback ext of
                None \<Rightarrow> (err, [])
              | Some fallback \<Rightarrow>
                  (Inr (text_bytes fallback),
                   [\<lparr>re_extension_id = (case extension_id of Some i \<Rightarrow> i | None \<Rightarrow> []),
                     re_pattern = MissingAsset,
                     re_original_error = ''ENOENT: '' @ path_text checked_path,
                     re_action = ''returned empty '' @ ext @ '' fallback'', re_success = True\<rparr>]))"

definition host_read_file ::
  "'h read_calls \<Rightarrow> repair_mode \<Rightarrow> (u8 list \<Rightarrow> string) \<Rightarrow> string \<Rightarrow> string option \<Rightarrow> ext_roots \<Rightarrow> string \<Rightarrow>
   (host_error + string) \<times> repair_event list" where
  "host_read_file F mode base64 process_cwd extension_id st p =
     (let workspace_root = safe_canonicalize (rd_workspace F) (path_of process_cwd);
          requested = requested_abs workspace_root p;
          allowed = (\<lambda>q. fs_path_allowed q workspace_root extension_id st)
      in if \<not> allowed (safe_canonicalize (rd_before F) requested) then (Inl (p, denied ''read''), [])
         else case rd_open F requested of
           Inl (not_found, err) \<Rightarrow>
             if not_found \<and> should_apply mode then
               let checked_path = safe_canonicalize (rd_after F) requested
               in if \<not> allowed checked_path then (Inl (p, ''host read open: '' @ err), [])
                  else apfst (map_sum id base64)
                         (apply_missing_asset_fallback (rd_leaf F) extension_id st p checked_path err)
             else (Inl (p, ''host read open: '' @ err), [])
         | Inr h \<Rightarrow>
             (case rd_link F h of
                Inl err \<Rightarrow> (Inl (p, ''host read verify: '' @ err), [])
              | Inr secure_path \<Rightarrow>
                  if \<not> allowed secure_path then (Inl (p, denied ''read''), [])
                  else case rd_contents F h of
                    Inl err \<Rightarrow> (Inl (p, ''host read content: '' @ err), [])
                  | Inr contents \<Rightarrow>
                      let buffer = take (max_sync_read_size + 1) contents
                      in if length buffer > max_sync_read_size
                         then (Inl (p, ''host read failed: file exceeds '' @ show_nat max_sync_read_size @ '' bytes''), [])
                         else (Inr (base64 buffer), [])))"

section \<open>Properties\<close>

lemma fallback_result:
  assumes "apply_missing_asset_fallback V i st p q msg = (Inr text, events)"
  obtains ext fallback e where "in_leaf_allowed_root V q i st" and "asset_fallback ext = Some fallback"
    and "text = text_bytes fallback" and "events = [e]" and "re_pattern e = MissingAsset"
  using assms by (auto simp: apply_missing_asset_fallback_def Let_def split: if_splits option.splits)

lemma own_leaf_root:
  assumes "roots_ok (Some owner) st" and "in_leaf_allowed_root V q (Some owner) st"
  obtains r where "r \<in> set (roots_of (Some owner) st)" and "starts_with q r"
proof -
  have "in_owned_root q (Some owner) st" using assms(2) by (simp add: in_leaf_allowed_root_def)
  then show thesis
    by (rule in_owned_root_deep [OF assms(1)]) (use assms(1) that in \<open>auto simp: roots_ok_def\<close>)
qed

lemma text_of_map_sum: "map_sum id f x = Inr t \<longleftrightarrow> (\<exists>y. x = Inr y \<and> t = f y)"
  by (cases x) auto

text \<open>C4 (safety): In the runtime of one extension, whatever roots were registered and however the
  file system changes between the calls, a successful read returns the contents of a file whose
  opened handle lies in the sandbox of that extension and fits the limit; or, in a mode that repairs,
  a constant text for a missing file of an own root, with one repair event.\<close>

theorem reads_stay_in_the_sandbox:
  assumes "roots_reachable (Some owner) st"
    and "host_read_file F mode base64 process_cwd (Some owner) st p = (Inr text, events)"
  defines "ws \<equiv> safe_canonicalize (rd_workspace F) (path_of process_cwd)"
  shows "(\<exists>h q contents. rd_open F (requested_abs ws p) = Inr h \<and> rd_link F h = Inr q
            \<and> sandboxed owner ws st q \<and> rd_contents F h = Inr contents
            \<and> length contents \<le> max_sync_read_size \<and> text = base64 contents \<and> events = [])
       \<or> (\<exists>q r ext fallback e. should_apply mode \<and> q = safe_canonicalize (rd_after F) (requested_abs ws p)
            \<and> r \<in> set (roots_of (Some owner) st) \<and> starts_with q r \<and> sandboxed owner ws st q
            \<and> asset_fallback ext = Some fallback \<and> text = base64 (text_bytes fallback)
            \<and> events = [e] \<and> re_pattern e = MissingAsset)"
proof -
  have ok: "roots_ok (Some owner) st" by (rule roots_reachable_ok [OF assms(1)])
  show ?thesis
  proof (cases "rd_open F (requested_abs ws p)")
    case (Inr h)
    with assms(2) obtain q contents where *: "rd_link F h = Inr q" "fs_path_allowed q ws (Some owner) st"
        "rd_contents F h = Inr contents" "\<not> length (take (max_sync_read_size + 1) contents) > max_sync_read_size"
        "text = base64 (take (max_sync_read_size + 1) contents)" "events = []"
      unfolding host_read_file_def ws_def by (auto simp: Let_def split: if_splits sum.splits)
    from *(4) have "length contents \<le> max_sync_read_size" by simp
    with Inr * allowed_sandboxed [OF ok *(2)] show ?thesis by (intro disjI1) auto
  next
    case (Inl e0)
    obtain not_found err where e0: "e0 = (not_found, err)" by (cases e0)
    define q where "q = safe_canonicalize (rd_after F) (requested_abs ws p)"
    obtain y where m: "should_apply mode" "fs_path_allowed q ws (Some owner) st"
        "apply_missing_asset_fallback (rd_leaf F) (Some owner) st p q err = (Inr y, events)" "text = base64 y"
    proof -
      from assms(2) Inl e0 have a: "should_apply mode" "fs_path_allowed q ws (Some owner) st"
          "apfst (map_sum id base64) (apply_missing_asset_fallback (rd_leaf F) (Some owner) st p q err) = (Inr text, events)"
        unfolding host_read_file_def ws_def q_def by (auto simp: Let_def split: if_splits)
      obtain u v where uv: "apply_missing_asset_fallback (rd_leaf F) (Some owner) st p q err = (u, v)" by fastforce
      with a(3) that a(1,2) show ?thesis by (auto simp: text_of_map_sum)
    qed
    from fallback_result [OF m(3)] obtain ext fallback e where f:
      "in_leaf_allowed_root (rd_leaf F) q (Some owner) st" "asset_fallback ext = Some fallback"
      "y = text_bytes fallback" "events = [e]" "re_pattern e = MissingAsset" .
    from own_leaf_root [OF ok f(1)] obtain r where "r \<in> set (roots_of (Some owner) st)" "starts_with q r" .
    with m f allowed_sandboxed [OF ok m(2)] show ?thesis unfolding q_def by (intro disjI2) blast
  qed
qed

definition sample_calls :: "nat read_calls" where
  "sample_calls =
     \<lparr>rd_workspace = \<lparr>fs_canonicalize = Some, fs_cwd = None\<rparr>, rd_before = \<lparr>fs_canonicalize = Some, fs_cwd = None\<rparr>,
      rd_open = (\<lambda>_. Inr 3), rd_after = \<lparr>fs_canonicalize = Some, fs_cwd = None\<rparr>,
      rd_leaf = \<lparr>fs_canonicalize = Some, fs_cwd = None\<rparr>,
      rd_link = (\<lambda>_. Inr [RootDir, Normal ''w'', Normal ''a'']), rd_contents = (\<lambda>_. Inr [104, 105])\<rparr>"

lemma sample_read:
  "host_read_file sample_calls Off (\<lambda>_. ''aGk='') ''/w'' (Some ''me'') (ext_roots_new (Some ''me'')) ''a'' =
     (Inr ''aGk='', [])"
  by (simp add: host_read_file_def sample_calls_def max_sync_read_size_def safe_canonicalize_def path_of_def
      component_of_def requested_abs_def is_absolute_def path_join_def fs_path_allowed_def ext_roots_new_def
      in_allowed_root_def in_owned_root_def deepest_roots_def boundaries_def in_registered_root_def starts_with_def)

theorem reads_stay_in_the_sandbox_witness:
  "sandboxed ''me'' [RootDir, Normal ''w''] (ext_roots_new (Some ''me'')) [RootDir, Normal ''w'', Normal ''a'']"
  using reads_stay_in_the_sandbox [OF roots_reachable.start sample_read]
  by (auto simp: sample_calls_def safe_canonicalize_def path_of_def component_of_def should_apply_def)

text \<open>The error of a stat tells a script whether a file beyond a symbolic link of the workspace
  exists: when it does, the canonical path is outside and the stat is denied; when it does not, the
  path is judged by its text, which is inside, and the error is that of the system.\<close>

lemma stat_reveals_existence:
  assumes "ws = safe_canonicalize V0 (path_of process_cwd)" and "req = requested_abs ws p"
    and "is_absolute req" and "normal_path req" and "starts_with req ws" and "\<not> in_registered_root req st"
    and "q = the (fs_canonicalize V req)" and "\<not> fs_path_allowed q ws i st"
    and "fs_canonicalize V req = None \<Longrightarrow> meta follow req = Inl err"
  shows "host_stat V0 V meta process_cwd i st p follow =
           Inl (p, if fs_canonicalize V req = None then ''host stat: '' @ err else denied ''stat'')"
proof (cases "fs_canonicalize V req")
  case None
  then have "safe_canonicalize V req = req"
    using lexical_normal [OF assms(4,3)] by (simp add: safe_canonicalize_def)
  with None assms(5,6,9) show ?thesis
    unfolding host_stat_def assms(1) [symmetric] assms(2) [symmetric] Let_def
    by (simp add: fs_path_allowed_def)
next
  case (Some q')
  with assms(7,8) have "\<not> fs_path_allowed (safe_canonicalize V req) ws i st"
    by (simp add: safe_canonicalize_def)
  with Some show ?thesis
    unfolding host_stat_def assms(1) [symmetric] assms(2) [symmetric] Let_def by simp
qed

end
