(* ===== verification/Repair_Evidence.thy ===== *)
theory Repair_Evidence
  imports Repair_Rules Utf8
begin

text \<open>
  The proofs a repair must pass before it is deployed (\<^verbatim>\<open>runtime.rs\<close>): the intent graph
  of an extension, the capability proof, the hostcall surface and the semantic parity, the replay of
  conformance fixtures, the golden checksums, and the bundle that gates the activation. The parsers
  and SHA-256 are parameters. A hash set of hostcall categories is the list of its elements in order
  of insertion; only membership and counts of it are used. Notes for the reader are values of a
  datatype.
\<close>

section \<open>Structural validation\<close>

datatype structural_verdict =
    Valid
  | Unreadable path string
  | UnsupportedExtension path string
  | ParseError path string

definition structural_is_valid :: "structural_verdict \<Rightarrow> bool" where
  "structural_is_valid v = (v = Valid)"

text \<open>\<^verbatim>\<open>parse_ts tsx src_text\<close> and \<^verbatim>\<open>parse_json src_text\<close> give the message of
  a syntax error, if there is one.\<close>

definition validate_repaired_artifact ::
  "(path \<Rightarrow> string + string) \<Rightarrow> (bool \<Rightarrow> string \<Rightarrow> string option) \<Rightarrow> (string \<Rightarrow> string option) \<Rightarrow> path \<Rightarrow>
   structural_verdict" where
  "validate_repaired_artifact read_to_string parse_ts parse_json p =
     (case read_to_string p of
        Inl err \<Rightarrow> Unreadable p err
      | Inr src_text \<Rightarrow>
          let ext = mode_lower (case path_extension p of Some e \<Rightarrow> e | None \<Rightarrow> []);
              verdict = (\<lambda>r. case r of None \<Rightarrow> Valid | Some message \<Rightarrow> ParseError p message)
          in if ext \<in> {''ts'', ''tsx''} then verdict (parse_ts (ext = ''tsx'') src_text)
             else if ext \<in> {''js'', ''mjs''} then Valid
             else if ext = ''json'' then verdict (parse_json src_text)
             else UnsupportedExtension p ext)"

section \<open>The intent graph\<close>

datatype intent_signal =
    RegistersTool string | RegistersCommand string | RegistersShortcut string | RegistersFlag string
  | RegistersProvider string | HooksEvent string | RequiresCapability string | RegistersRenderer string

fun signal_category :: "intent_signal \<Rightarrow> string" where
  "signal_category (RegistersTool _) = ''tool''"
| "signal_category (RegistersCommand _) = ''command''"
| "signal_category (RegistersShortcut _) = ''shortcut''"
| "signal_category (RegistersFlag _) = ''flag''"
| "signal_category (RegistersProvider _) = ''provider''"
| "signal_category (HooksEvent _) = ''event_hook''"
| "signal_category (RequiresCapability _) = ''capability''"
| "signal_category (RegistersRenderer _) = ''renderer''"

record intent_graph =
  ig_extension_id :: string
  ig_signals :: "intent_signal list"

definition json_field :: "json \<Rightarrow> string \<Rightarrow> json option" where
  "json_field v k = (case v of JObject m \<Rightarrow> map_of m k | _ \<Rightarrow> None)"

definition json_text :: "json option \<Rightarrow> string option" where
  "json_text v = (case v of Some (JString s) \<Rightarrow> Some s | _ \<Rightarrow> None)"

definition array_field :: "json \<Rightarrow> string \<Rightarrow> json list" where
  "array_field v k = (case json_field v k of Some (JArray xs) \<Rightarrow> xs | _ \<Rightarrow> [])"

definition named_signals :: "(string \<Rightarrow> intent_signal) \<Rightarrow> json list \<Rightarrow> intent_signal list" where
  "named_signals f xs = List.map_filter (\<lambda>x. map_option f (json_text (json_field x ''name''))) xs"

definition shortcut_label :: "json \<Rightarrow> string" where
  "shortcut_label sc =
     (let v = (case json_field sc ''name'' of Some n \<Rightarrow> Some n | None \<Rightarrow> json_field sc ''key'')
      in case json_text v of Some s \<Rightarrow> s | None \<Rightarrow> ''unknown'')"

text \<open>\<^verbatim>\<open>retain(|s| seen.insert(s.clone()))\<close>: the first occurrence stays.\<close>

definition keep_first :: "'a list \<Rightarrow> 'a list" where
  "keep_first xs = fold (\<lambda>x acc. if x \<in> set acc then acc else acc @ [x]) xs []"

definition from_register_payload :: "string \<Rightarrow> json \<Rightarrow> string list \<Rightarrow> intent_graph" where
  "from_register_payload extension_id payload capabilities =
     \<lparr>ig_extension_id = extension_id,
      ig_signals = keep_first
        (named_signals RegistersTool (array_field payload ''tools'')
         @ named_signals RegistersCommand (array_field payload ''slash_commands'')
         @ map (\<lambda>sc. RegistersShortcut (shortcut_label sc)) (array_field payload ''shortcuts'')
         @ named_signals RegistersFlag (array_field payload ''flags'')
         @ List.map_filter (\<lambda>h. map_option HooksEvent (json_text (Some h))) (array_field payload ''event_hooks'')
         @ map RequiresCapability capabilities)\<rparr>"

definition signals_by_category :: "intent_graph \<Rightarrow> string \<Rightarrow> intent_signal list" where
  "signals_by_category g c = filter (\<lambda>s. signal_category s = c) (ig_signals g)"

definition category_count :: "intent_graph \<Rightarrow> nat" where
  "category_count g = card (signal_category ` set (ig_signals g))"

section \<open>The capability proof\<close>

datatype capability_delta = Retained intent_signal | Removed intent_signal | Added intent_signal

definition is_escalation :: "capability_delta \<Rightarrow> bool" where
  "is_escalation d = (case d of Added _ \<Rightarrow> True | _ \<Rightarrow> False)"

definition is_retained :: "capability_delta \<Rightarrow> bool" where
  "is_retained d = (case d of Retained _ \<Rightarrow> True | _ \<Rightarrow> False)"

definition is_removed :: "capability_delta \<Rightarrow> bool" where
  "is_removed d = (case d of Removed _ \<Rightarrow> True | _ \<Rightarrow> False)"

datatype capability_verdict = Monotonic | Escalation

record capability_report =
  cp_extension_id :: string
  cp_verdict :: capability_verdict
  cp_deltas :: "capability_delta list"
  cp_retained :: nat
  cp_removed :: nat
  cp_added :: nat

definition count_if :: "('a \<Rightarrow> bool) \<Rightarrow> 'a list \<Rightarrow> nat" where
  "count_if f xs = length (filter f xs)"

definition compute_capability_proof :: "intent_graph \<Rightarrow> intent_graph \<Rightarrow> capability_report" where
  "compute_capability_proof before after =
     (let before_set = set (ig_signals before);
          after_set = set (ig_signals after);
          deltas =
            map (\<lambda>s. if s \<in> after_set then Retained s else Removed s) (ig_signals before)
            @ map Added (filter (\<lambda>s. s \<notin> before_set) (ig_signals after));
          added = count_if is_escalation deltas
      in \<lparr>cp_extension_id = ig_extension_id before,
          cp_verdict = (if added = 0 then Monotonic else Escalation), cp_deltas = deltas,
          cp_retained = count_if is_retained deltas, cp_removed = count_if is_removed deltas,
          cp_added = added\<rparr>)"

definition capability_is_safe :: "capability_report \<Rightarrow> bool" where
  "capability_is_safe r = (cp_verdict r = Monotonic)"

definition escalations :: "capability_report \<Rightarrow> capability_delta list" where
  "escalations r = filter is_escalation (cp_deltas r)"

section \<open>Hostcall surface and semantic parity\<close>

datatype hostcall_category =
    EventsCategory string | SessionCategory string | RegisterCategory | ToolCategory string
  | ModuleResolution string

fun category_tag :: "hostcall_category \<Rightarrow> string" where
  "category_tag (EventsCategory op) = ''events:'' @ op"
| "category_tag (SessionCategory op) = ''session:'' @ op"
| "category_tag RegisterCategory = ''register''"
| "category_tag (ToolCategory op) = ''tool:'' @ op"
| "category_tag (ModuleResolution spec) = ''module:'' @ spec"

fun signal_surface :: "intent_signal \<Rightarrow> hostcall_category list" where
  "signal_surface (HooksEvent name) = [EventsCategory name]"
| "signal_surface (RequiresCapability cap) =
     (if cap = ''session'' then [SessionCategory ''*'']
      else if cap = ''tool'' then [ToolCategory ''*''] else [])"
| "signal_surface _ = [RegisterCategory]"

definition extract_hostcall_surface :: "intent_graph \<Rightarrow> hostcall_category list" where
  "extract_hostcall_surface g = keep_first (concat (map signal_surface (ig_signals g)))"

datatype hostcall_delta =
    HcRetained hostcall_category | HcRemoved hostcall_category | HcAdded hostcall_category

definition is_expansion :: "hostcall_delta \<Rightarrow> bool" where
  "is_expansion d = (case d of HcAdded _ \<Rightarrow> True | _ \<Rightarrow> False)"

datatype drift_severity = NoDrift | LowDrift | MediumDrift | HighDrift

definition drift_is_acceptable :: "drift_severity \<Rightarrow> bool" where
  "drift_is_acceptable d = (d = NoDrift \<or> d = LowDrift)"

datatype parity_verdict = Equivalent | AcceptableDrift | Divergent

datatype parity_note =
    NewSurfaceDetected | StubsInjected nat | AggressiveOpsPresent
  | HostcallsRemoved nat | SurfacesIntroduced nat

definition is_stub :: "patch_op \<Rightarrow> bool" where
  "is_stub op = (case op of InjectStub _ _ \<Rightarrow> True | _ \<Rightarrow> False)"

fun is_aggressive_op :: "patch_op \<Rightarrow> bool" where
  "is_aggressive_op (InjectStub _ _) = True"
| "is_aggressive_op (AddExport _ _ _) = True"
| "is_aggressive_op (RemoveImport _ _) = True"
| "is_aggressive_op _ = False"

definition assess_drift :: "patch_op list \<Rightarrow> nat \<Rightarrow> drift_severity \<times> parity_note list" where
  "assess_drift patch_ops expanded_hostcalls =
     (if expanded_hostcalls > 0 then (HighDrift, [NewSurfaceDetected])
      else
        let stub_count = count_if is_stub patch_ops;
            has_aggressive = (\<exists>op \<in> set patch_ops. is_aggressive_op op)
        in if stub_count > 2 then (MediumDrift, [StubsInjected stub_count])
           else if has_aggressive then (LowDrift, [AggressiveOpsPresent])
           else (NoDrift, []))"

record parity_report =
  sp_extension_id :: string
  sp_verdict :: parity_verdict
  sp_deltas :: "hostcall_delta list"
  sp_drift :: drift_severity
  sp_expanded :: nat
  sp_removed :: nat
  sp_retained :: nat
  sp_notes :: "parity_note list"

definition compute_semantic_parity :: "intent_graph \<Rightarrow> intent_graph \<Rightarrow> patch_op list \<Rightarrow> parity_report" where
  "compute_semantic_parity before after patch_ops =
     (let bs = extract_hostcall_surface before;
          as = extract_hostcall_surface after;
          deltas = map (\<lambda>c. if c \<in> set as then HcRetained c else HcRemoved c) bs
                   @ map HcAdded (filter (\<lambda>c. c \<notin> set bs) as);
          expanded = count_if is_expansion deltas;
          removed = count_if (\<lambda>d. case d of HcRemoved _ \<Rightarrow> True | _ \<Rightarrow> False) deltas;
          retained = count_if (\<lambda>d. case d of HcRetained _ \<Rightarrow> True | _ \<Rightarrow> False) deltas;
          (drift, drift_notes) = assess_drift patch_ops expanded;
          (verdict, verdict_notes) =
            (if expanded = 0 \<and> drift_is_acceptable drift
             then if removed = 0 then (Equivalent, []) else (AcceptableDrift, [HostcallsRemoved removed])
             else (Divergent, if expanded > 0 then [SurfacesIntroduced expanded] else []))
      in \<lparr>sp_extension_id = ig_extension_id before, sp_verdict = verdict, sp_deltas = deltas,
          sp_drift = drift, sp_expanded = expanded, sp_removed = removed, sp_retained = retained,
          sp_notes = drift_notes @ verdict_notes\<rparr>)"

definition parity_is_safe :: "parity_report \<Rightarrow> bool" where
  "parity_is_safe r = (sp_verdict r = Equivalent \<or> sp_verdict r = AcceptableDrift)"

definition expansions :: "parity_report \<Rightarrow> hostcall_delta list" where
  "expansions r = filter is_expansion (sp_deltas r)"

section \<open>Conformance and checksums\<close>

datatype replay_verdict = Pass | Fail | NoFixtures

record fixture =
  fx_name :: string
  fx_expected :: string
  fx_actual :: "string option"
  fx_passed :: bool

record replay_report =
  rr_extension_id :: string
  rr_verdict :: replay_verdict
  rr_fixtures :: "fixture list"
  rr_passed :: nat
  rr_total :: nat

definition replay_conformance_fixtures :: "string \<Rightarrow> fixture list \<Rightarrow> replay_report" where
  "replay_conformance_fixtures extension_id fixtures =
     (if fixtures = [] then
        \<lparr>rr_extension_id = extension_id, rr_verdict = NoFixtures, rr_fixtures = [], rr_passed = 0, rr_total = 0\<rparr>
      else
        let passed = count_if fx_passed fixtures
        in \<lparr>rr_extension_id = extension_id, rr_verdict = (if passed = length fixtures then Pass else Fail),
            rr_fixtures = fixtures, rr_passed = passed, rr_total = length fixtures\<rparr>)"

definition replay_is_acceptable :: "replay_report \<Rightarrow> bool" where
  "replay_is_acceptable r = (rr_verdict r = Pass \<or> rr_verdict r = NoFixtures)"

record checksum_entry =
  ce_path :: string
  ce_checksum :: string
  ce_size :: nat

record golden_manifest =
  gm_extension_id :: string
  gm_entries :: "checksum_entry list"
  gm_generated_at :: u64

text \<open>\<^verbatim>\<open>sha\<close> is the hexadecimal SHA-256 of a file's bytes.\<close>

definition build_golden_manifest ::
  "(u8 list \<Rightarrow> string) \<Rightarrow> string \<Rightarrow> (string \<times> u8 list) list \<Rightarrow> u64 \<Rightarrow> golden_manifest" where
  "build_golden_manifest sha extension_id artifacts timestamp_ms =
     \<lparr>gm_extension_id = extension_id,
      gm_entries = sort_key (\<lambda>e. (ce_path e, ce_checksum e, ce_size e))
        (map (\<lambda>(p, data). \<lparr>ce_path = p, ce_checksum = sha data, ce_size = length data\<rparr>) artifacts),
      gm_generated_at = timestamp_ms\<rparr>"

definition verify_entry :: "(u8 list \<Rightarrow> string) \<Rightarrow> golden_manifest \<Rightarrow> string \<Rightarrow> u8 list \<Rightarrow> bool option" where
  "verify_entry sha m relative_path data =
     map_option (\<lambda>e. ce_checksum e = sha data) (find (\<lambda>e. ce_path e = relative_path) (gm_entries m))"

section \<open>The bundle\<close>

record verification_bundle =
  vb_extension_id :: string
  vb_structural :: structural_verdict
  vb_capability :: capability_report
  vb_semantic :: parity_report
  vb_conformance :: replay_report
  vb_checksums :: golden_manifest

definition is_verified :: "verification_bundle \<Rightarrow> bool" where
  "is_verified b =
     (structural_is_valid (vb_structural b) \<and> capability_is_safe (vb_capability b)
      \<and> parity_is_safe (vb_semantic b) \<and> replay_is_acceptable (vb_conformance b))"

datatype failure_reason =
    StructuralFailure structural_verdict
  | CapabilityFailure capability_verdict nat
  | SemanticFailure parity_verdict drift_severity
  | ConformanceFailure replay_verdict nat nat

definition failure_reasons :: "verification_bundle \<Rightarrow> failure_reason list" where
  "failure_reasons b =
     (if structural_is_valid (vb_structural b) then [] else [StructuralFailure (vb_structural b)])
     @ (if capability_is_safe (vb_capability b) then []
        else [CapabilityFailure (cp_verdict (vb_capability b)) (cp_added (vb_capability b))])
     @ (if parity_is_safe (vb_semantic b) then []
        else [SemanticFailure (sp_verdict (vb_semantic b)) (sp_drift (vb_semantic b))])
     @ (if replay_is_acceptable (vb_conformance b) then []
        else [ConformanceFailure (rr_verdict (vb_conformance b)) (rr_passed (vb_conformance b))
                (rr_total (vb_conformance b))])"


section \<open>Properties\<close>

lemma keep_first_set [simp]: "set (keep_first xs) = set xs"
proof -
  have "set (fold (\<lambda>x acc. if x \<in> set acc then acc else acc @ [x]) xs acc) = set acc \<union> set xs" for acc
    by (induction xs arbitrary: acc) auto
  then show ?thesis by (simp add: keep_first_def)
qed

lemma keep_first_distinct [simp]: "distinct (keep_first xs)"
proof -
  have "distinct acc \<Longrightarrow> distinct (fold (\<lambda>x acc. if x \<in> set acc then acc else acc @ [x]) xs acc)" for acc
    by (induction xs arbitrary: acc) auto
  then show ?thesis by (simp add: keep_first_def)
qed

lemma count_if_0: "count_if f xs = 0 \<longleftrightarrow> (\<forall>x \<in> set xs. \<not> f x)"
  by (auto simp: count_if_def filter_empty_conv)

lemma count_if_all: "count_if f xs = length xs \<longleftrightarrow> (\<forall>x \<in> set xs. f x)"
proof
  assume "count_if f xs = length xs"
  then show "\<forall>x \<in> set xs. f x"
    using length_filter_less [of _ xs f] by (auto simp: count_if_def)
next
  assume "\<forall>x \<in> set xs. f x"
  then show "count_if f xs = length xs" by (simp add: count_if_def)
qed

text \<open>The capability proof: no escalation is exactly inclusion of the signals; the counts are
  those of the three parts.\<close>

lemma capability_proof_added:
  "cp_added (compute_capability_proof before after) =
     length (filter (\<lambda>s. s \<notin> set (ig_signals before)) (ig_signals after))"
proof -
  have "filter is_escalation (map (\<lambda>s. if s \<in> X then Retained s else Removed s) xs) = []" for X xs
    by (induction xs) (auto simp: is_escalation_def)
  moreover have "filter is_escalation (map Added ys) = map Added ys" for ys
    by (induction ys) (auto simp: is_escalation_def)
  ultimately show ?thesis
    by (simp add: compute_capability_proof_def Let_def count_if_def)
qed

lemma capability_safe_iff:
  "capability_is_safe (compute_capability_proof before after) \<longleftrightarrow> set (ig_signals after) \<subseteq> set (ig_signals before)"
proof -
  have "capability_is_safe (compute_capability_proof before after) \<longleftrightarrow> cp_added (compute_capability_proof before after) = 0"
    by (simp add: capability_is_safe_def compute_capability_proof_def Let_def)
  also have "\<dots> \<longleftrightarrow> set (ig_signals after) \<subseteq> set (ig_signals before)"
    by (auto simp: capability_proof_added filter_empty_conv)
  finally show ?thesis .
qed

lemma surface_set: "set (extract_hostcall_surface g) = (\<Union>s \<in> set (ig_signals g). set (signal_surface s))"
  by (simp add: extract_hostcall_surface_def)

lemma parity_expanded:
  "sp_expanded (compute_semantic_parity before after ops) =
     length (filter (\<lambda>c. c \<notin> set (extract_hostcall_surface before)) (extract_hostcall_surface after))"
proof -
  have "filter is_expansion (map (\<lambda>c. if c \<in> X then HcRetained c else HcRemoved c) xs) = []" for X xs
    by (induction xs) (auto simp: is_expansion_def)
  moreover have "filter is_expansion (map HcAdded ys) = map HcAdded ys" for ys
    by (induction ys) (auto simp: is_expansion_def)
  ultimately show ?thesis
    by (simp add: compute_semantic_parity_def Let_def count_if_def split: prod.split)
qed

lemma parity_safe_iff:
  "parity_is_safe (compute_semantic_parity before after ops) \<longleftrightarrow>
     set (extract_hostcall_surface after) \<subseteq> set (extract_hostcall_surface before) \<and> count_if is_stub ops \<le> 2"
proof -
  define e where "e = sp_expanded (compute_semantic_parity before after ops)"
  have e0: "e = 0 \<longleftrightarrow> set (extract_hostcall_surface after) \<subseteq> set (extract_hostcall_surface before)"
    unfolding e_def parity_expanded by (auto simp: filter_empty_conv)
  have "parity_is_safe (compute_semantic_parity before after ops) \<longleftrightarrow>
      e = 0 \<and> drift_is_acceptable (fst (assess_drift ops e))"
    unfolding e_def
    by (auto simp: compute_semantic_parity_def parity_is_safe_def Let_def split: prod.split)
  also have "\<dots> \<longleftrightarrow> e = 0 \<and> count_if is_stub ops \<le> 2"
    by (auto simp: assess_drift_def drift_is_acceptable_def Let_def)
  finally show ?thesis by (simp only: e0)
qed

lemma replay_acceptable_iff:
  "replay_is_acceptable (replay_conformance_fixtures i fs) \<longleftrightarrow> (\<forall>f \<in> set fs. fx_passed f)"
proof (cases "fs = []")
  case True
  then show ?thesis by (simp add: replay_conformance_fixtures_def replay_is_acceptable_def)
next
  case False
  then have "replay_is_acceptable (replay_conformance_fixtures i fs) \<longleftrightarrow> count_if fx_passed fs = length fs"
    by (simp add: replay_conformance_fixtures_def replay_is_acceptable_def Let_def)
  then show ?thesis by (simp only: count_if_all)
qed

text \<open>C11 (equivalence): The activation gate, over the reports the pipeline computes from the intent
  graphs before and after the repair, is equivalent to four direct conditions: the artifact is
  structurally valid, the repaired extension announces no signal the original did not, at most two
  stubs are injected, and every fixture is marked as passed. In particular the hostcall part of the
  parity proof adds nothing to the capability proof. The gate and the list of failure reasons agree.\<close>

theorem activation_gate_is:
  "is_verified \<lparr>vb_extension_id = i, vb_structural = v,
       vb_capability = compute_capability_proof before after,
       vb_semantic = compute_semantic_parity before after ops,
       vb_conformance = replay_conformance_fixtures i fs, vb_checksums = m\<rparr>
   \<longleftrightarrow> v = Valid \<and> set (ig_signals after) \<subseteq> set (ig_signals before)
     \<and> count_if is_stub ops \<le> 2 \<and> list_all fx_passed fs"
proof -
  have "set (extract_hostcall_surface after) \<subseteq> set (extract_hostcall_surface before)"
    if "set (ig_signals after) \<subseteq> set (ig_signals before)"
    using that by (auto simp: surface_set)
  then show ?thesis
    by (auto simp: is_verified_def structural_is_valid_def capability_safe_iff parity_safe_iff
        replay_acceptable_iff list_all_iff)
qed

lemma failure_reasons_iff: "failure_reasons b = [] \<longleftrightarrow> is_verified b"
  by (auto simp: failure_reasons_def is_verified_def)

text \<open>A fixture counts as passed by its flag, whatever was observed.\<close>

lemma fixture_flag_decides:
  "replay_is_acceptable (replay_conformance_fixtures i
     [\<lparr>fx_name = n, fx_expected = ''a'', fx_actual = Some ''b'', fx_passed = True\<rparr>])"
  by (simp add: replay_acceptable_iff)

text \<open>For artifacts with distinct paths, checking a file's content against the
  manifest built of them tells whether its checksum is the recorded one: it accepts every artifact as
  it was, and answers nothing for paths that were not recorded.\<close>

theorem manifest_checks_artifacts:
  assumes "distinct (map fst artifacts)"
  shows "(\<forall>(p, data) \<in> set artifacts. \<forall>data'.
            verify_entry sha (build_golden_manifest sha i artifacts t) p data' = Some (sha data = sha data'))
       \<and> (\<forall>p data. p \<notin> fst ` set artifacts \<longrightarrow>
            verify_entry sha (build_golden_manifest sha i artifacts t) p data = None)"
proof -
  let ?e = "\<lambda>(p, data). \<lparr>ce_path = p, ce_checksum = sha data, ce_size = length data\<rparr>"
  let ?m = "build_golden_manifest sha i artifacts t"
  have set_m: "set (gm_entries ?m) = ?e ` set artifacts"
    by (simp add: build_golden_manifest_def)
  have "verify_entry sha ?m p data' = Some (sha data = sha data')"
    if "(p, data) \<in> set artifacts" for p data data'
  proof -
    have uniq: "z = ?e (p, data)" if "z \<in> set (gm_entries ?m)" "ce_path z = p" for z
      using that \<open>(p, data) \<in> set artifacts\<close> assms by (auto simp: set_m dest: eq_key_imp_eq_value)
    have mem: "?e (p, data) \<in> set (gm_entries ?m)" using that by (force simp: set_m)
    then obtain y where y: "find (\<lambda>e. ce_path e = p) (gm_entries ?m) = Some y"
      by (cases "find (\<lambda>e. ce_path e = p) (gm_entries ?m)") (auto simp: find_None_iff)
    then have "y = ?e (p, data)" using uniq by (auto simp: find_Some_iff)
    with y show ?thesis by (simp add: verify_entry_def)
  qed
  moreover have "verify_entry sha ?m p data = None" if "p \<notin> fst ` set artifacts" for p data
  proof -
    have "find (\<lambda>e. ce_path e = p) (gm_entries ?m) = None"
      using that by (force simp: find_None_iff set_m)
    then show ?thesis by (simp add: verify_entry_def)
  qed
  ultimately show ?thesis by blast
qed

theorem manifest_checks_artifacts_witness:
  "verify_entry (map (\<lambda>b. char_of (unat b))) (build_golden_manifest (map (\<lambda>b. char_of (unat b))) ''e'' [(''a.js'', [1]), (''b.js'', [2])] 0) ''b.js'' [2]
     = Some True"
  using manifest_checks_artifacts [of "[(''a.js'', [1 :: u8]), (''b.js'', [2])]" "map (\<lambda>b. char_of (unat b))" "''e''" 0]
  by simp

end
