(* ===== verification/Repair_Overlay.thy ===== *)
theory Repair_Overlay
  imports Repair_Evidence
begin

text \<open>
  The deployment of a repair (\<^verbatim>\<open>runtime.rs\<close>): the life cycle of an overlay artifact, the
  routing of a canary, the health monitor and the promotion decision, the audit ledger, the telemetry
  collector (its floating-point sum is left out), inspection records, the forensic bundle and the
  governance checklist. SHA-256 is a parameter.
\<close>

section \<open>The life cycle of an overlay\<close>

datatype lifecycle_state = Staged | Canary | Stable | RolledBack | Superseded

definition state_is_active :: "lifecycle_state \<Rightarrow> bool" where
  "state_is_active s = (s = Canary \<or> s = Stable)"

definition state_is_terminal :: "lifecycle_state \<Rightarrow> bool" where
  "state_is_terminal s = (s = RolledBack \<or> s = Superseded)"

fun state_name :: "lifecycle_state \<Rightarrow> string" where
  "state_name Staged = ''staged''"
| "state_name Canary = ''canary''"
| "state_name Stable = ''stable''"
| "state_name RolledBack = ''rolled_back''"
| "state_name Superseded = ''superseded''"

record overlay_artifact =
  oa_overlay_id :: string
  oa_extension_id :: string
  oa_extension_version :: string
  oa_original_checksum :: string
  oa_repaired_checksum :: string
  oa_state :: lifecycle_state
  oa_rule_id :: string
  oa_repair_mode :: repair_mode
  oa_verification_passed :: bool
  oa_created_at :: u64
  oa_updated_at :: u64

definition overlay_is_active :: "overlay_artifact \<Rightarrow> bool" where
  "overlay_is_active a = state_is_active (oa_state a)"

datatype transition_error = InvalidTransition lifecycle_state lifecycle_state | VerificationRequired

definition transition_overlay ::
  "overlay_artifact \<Rightarrow> lifecycle_state \<Rightarrow> u64 \<Rightarrow> overlay_artifact \<times> (transition_error + unit)" where
  "transition_overlay a target now_ms =
     (let valid = (case (oa_state a, target) of
          (Staged, Canary) \<Rightarrow> True | (Staged, RolledBack) \<Rightarrow> True
        | (Canary, Stable) \<Rightarrow> True | (Canary, RolledBack) \<Rightarrow> True
        | (Stable, RolledBack) \<Rightarrow> True | (Stable, Superseded) \<Rightarrow> True
        | _ \<Rightarrow> False)
      in if \<not> valid then (a, Inl (InvalidTransition (oa_state a) target))
         else if target = Canary \<and> \<not> oa_verification_passed a then (a, Inl VerificationRequired)
         else (a\<lparr>oa_state := target, oa_updated_at := now_ms\<rparr>, Inr ()))"

definition execute_promotion :: "overlay_artifact \<Rightarrow> u64 \<Rightarrow> overlay_artifact \<times> (transition_error + unit)" where
  "execute_promotion a now_ms = transition_overlay a Stable now_ms"

definition execute_rollback :: "overlay_artifact \<Rightarrow> u64 \<Rightarrow> overlay_artifact \<times> (transition_error + unit)" where
  "execute_rollback a now_ms = transition_overlay a RolledBack now_ms"

section \<open>Canary routing\<close>

datatype canary_route = OriginalRoute | OverlayRoute

record canary_config =
  cc_extension_id :: string
  cc_extension_version :: string
  cc_overlay_percent :: u8
  cc_enabled :: bool

definition canary_route_of :: "canary_config \<Rightarrow> u8 \<Rightarrow> canary_route" where
  "canary_route_of c hash_bucket =
     (if cc_enabled c \<and> hash_bucket < cc_overlay_percent c then OverlayRoute else OriginalRoute)"

definition is_full_rollout :: "canary_config \<Rightarrow> bool" where
  "is_full_rollout c = (cc_enabled c \<and> 100 \<le> cc_overlay_percent c)"

text \<open>The bucket of a digest: its first two bytes, big-endian, modulo 100.\<close>

definition digest_bucket :: "u8 \<Rightarrow> u8 \<Rightarrow> u8" where
  "digest_bucket h0 h1 = (let val = word_of_nat (256 * unat h0 + unat h1) :: 16 word in ucast (val mod 100))"

definition compute_canary_bucket :: "(u8 list \<Rightarrow> u8 list) \<Rightarrow> string \<Rightarrow> string \<Rightarrow> u8" where
  "compute_canary_bucket sha256 extension_id environment =
     (let hash = sha256 (map word_of_nat (utf8 (extension_id @ '':'' @ environment)))
      in digest_bucket (hash ! 0) (hash ! 1))"

section \<open>Health and promotion\<close>

record health_signal =
  hs_name :: string
  hs_value :: f64
  hs_threshold :: f64

definition signal_is_healthy :: "health_signal \<Rightarrow> bool" where
  "signal_is_healthy s = f64_le (hs_value s) (hs_threshold s)"

datatype slo_verdict = Healthy | Violated

text \<open>The printed violation \<^verbatim>\<open>{}: {:.3} > {:.3}\<close> is kept as its arguments.\<close>

datatype violation = Exceeds string f64 f64

record health_report =
  hr_extension_id :: string
  hr_verdict :: slo_verdict
  hr_signals :: "health_signal list"
  hr_violations :: "violation list"

definition report_is_healthy :: "health_report \<Rightarrow> bool" where
  "report_is_healthy r = (hr_verdict r = Healthy)"

definition evaluate_health :: "string \<Rightarrow> health_signal list \<Rightarrow> health_report" where
  "evaluate_health extension_id signals =
     (let violations = map (\<lambda>s. Exceeds (hs_name s) (hs_value s) (hs_threshold s))
                           (filter (\<lambda>s. \<not> signal_is_healthy s) signals)
      in \<lparr>hr_extension_id = extension_id, hr_verdict = (if violations = [] then Healthy else Violated),
          hr_signals = signals, hr_violations = violations\<rparr>)"

definition should_auto_rollback :: "health_report \<Rightarrow> bool" where
  "should_auto_rollback health = (\<not> report_is_healthy health)"

datatype promotion_decision = Promote | Hold | Rollback

definition decide_promotion :: "health_report \<Rightarrow> u64 \<Rightarrow> u64 \<Rightarrow> u64 \<Rightarrow> promotion_decision" where
  "decide_promotion health canary_start_ms now_ms canary_window_ms =
     (if \<not> report_is_healthy health then Rollback
      else if canary_window_ms \<le> sat_sub now_ms canary_start_ms then Promote
      else Hold)"

section \<open>The audit ledger\<close>

datatype audit_kind =
    Analysis | GatingDecision | ProposalGenerated | ProposalValidated | VerificationEvaluated
  | ApprovalRequested | ApprovalResponse | Activated | AuditRolledBack | Promoted | AuditSuperseded

fun audit_kind_name :: "audit_kind \<Rightarrow> string" where
  "audit_kind_name Analysis = ''analysis''"
| "audit_kind_name GatingDecision = ''gating_decision''"
| "audit_kind_name ProposalGenerated = ''proposal_generated''"
| "audit_kind_name ProposalValidated = ''proposal_validated''"
| "audit_kind_name VerificationEvaluated = ''verification_evaluated''"
| "audit_kind_name ApprovalRequested = ''approval_requested''"
| "audit_kind_name ApprovalResponse = ''approval_response''"
| "audit_kind_name Activated = ''activated''"
| "audit_kind_name AuditRolledBack = ''rolled_back''"
| "audit_kind_name Promoted = ''promoted''"
| "audit_kind_name AuditSuperseded = ''superseded''"

record audit_entry =
  au_sequence :: u64
  au_timestamp :: u64
  au_extension_id :: string
  au_kind :: audit_kind
  au_summary :: string
  au_details :: "(string \<times> string) list"

record audit_ledger =
  al_entries :: "audit_entry list"
  al_next_sequence :: u64

definition ledger_new :: audit_ledger where
  "ledger_new = \<lparr>al_entries = [], al_next_sequence = 0\<rparr>"

definition ledger_append ::
  "u64 \<Rightarrow> string \<Rightarrow> audit_kind \<Rightarrow> string \<Rightarrow> (string \<times> string) list \<Rightarrow> audit_ledger \<Rightarrow> audit_ledger \<times> u64" where
  "ledger_append timestamp_ms extension_id kind summary details l =
     (let seq = al_next_sequence l;
          e = \<lparr>au_sequence = seq, au_timestamp = timestamp_ms, au_extension_id = extension_id,
               au_kind = kind, au_summary = summary, au_details = details\<rparr>
      in (l\<lparr>al_entries := al_entries l @ [e], al_next_sequence := sat_inc (al_next_sequence l)\<rparr>, seq))"

definition ledger_len :: "audit_ledger \<Rightarrow> nat" where
  "ledger_len l = length (al_entries l)"

definition ledger_is_empty :: "audit_ledger \<Rightarrow> bool" where
  "ledger_is_empty l = (al_entries l = [])"

definition ledger_get :: "audit_ledger \<Rightarrow> u64 \<Rightarrow> audit_entry option" where
  "ledger_get l sequence = find (\<lambda>e. au_sequence e = sequence) (al_entries l)"

definition entries_for_extension :: "audit_ledger \<Rightarrow> string \<Rightarrow> audit_entry list" where
  "entries_for_extension l extension_id = filter (\<lambda>e. au_extension_id e = extension_id) (al_entries l)"

definition entries_by_kind :: "audit_ledger \<Rightarrow> audit_kind \<Rightarrow> audit_entry list" where
  "entries_by_kind l kind = filter (\<lambda>e. au_kind e = kind) (al_entries l)"

section \<open>Telemetry\<close>

datatype telemetry_metric =
    RepairAttempted | RepairEligible | RepairDenied | VerificationFailed | OverlayRolledBack
  | OverlayPromoted | ApprovalLatencyMs

fun metric_name :: "telemetry_metric \<Rightarrow> string" where
  "metric_name RepairAttempted = ''repair.attempted''"
| "metric_name RepairEligible = ''repair.eligible''"
| "metric_name RepairDenied = ''repair.denied''"
| "metric_name VerificationFailed = ''verification.failed''"
| "metric_name OverlayRolledBack = ''overlay.rolled_back''"
| "metric_name OverlayPromoted = ''overlay.promoted''"
| "metric_name ApprovalLatencyMs = ''approval.latency_ms''"

record telemetry_point =
  tp_metric :: telemetry_metric
  tp_value :: f64
  tp_timestamp :: u64
  tp_tags :: "(string \<times> string) list"

type_synonym telemetry_collector = "telemetry_point list"

definition telemetry_record ::
  "telemetry_metric \<Rightarrow> f64 \<Rightarrow> u64 \<Rightarrow> (string \<times> string) list \<Rightarrow> telemetry_collector \<Rightarrow> telemetry_collector" where
  "telemetry_record metric v timestamp_ms tags c =
     c @ [\<lparr>tp_metric = metric, tp_value = v, tp_timestamp = timestamp_ms, tp_tags = tags\<rparr>]"

definition telemetry_increment ::
  "telemetry_metric \<Rightarrow> u64 \<Rightarrow> (string \<times> string) list \<Rightarrow> telemetry_collector \<Rightarrow> telemetry_collector" where
  "telemetry_increment metric timestamp_ms tags c = telemetry_record metric (Fin 1) timestamp_ms tags c"

definition telemetry_count :: "telemetry_metric \<Rightarrow> telemetry_collector \<Rightarrow> nat" where
  "telemetry_count metric c = count_if (\<lambda>p. tp_metric p = metric) c"

section \<open>Inspection and forensics\<close>

text \<open>The timeline line \<^verbatim>\<open>[seq={}] {} - {}\<close> (with an em dash) is kept as its arguments.\<close>

datatype timeline_line = TimelineLine u64 string string

record inspection_record =
  ir_extension_id :: string
  ir_timeline :: "timeline_line list"
  ir_gating_summary :: string
  ir_overlay_state :: "string option"
  ir_verification_summary :: string

definition build_inspection ::
  "string \<Rightarrow> audit_ledger \<Rightarrow> lifecycle_state option \<Rightarrow> bool \<Rightarrow> inspection_record" where
  "build_inspection extension_id ledger overlay verification_passed =
     (let entries = entries_for_extension ledger extension_id;
          gating_entries = filter (\<lambda>e. au_kind e = GatingDecision) entries
      in \<lparr>ir_extension_id = extension_id,
          ir_timeline = map (\<lambda>e. TimelineLine (au_sequence e) (audit_kind_name (au_kind e)) (au_summary e)) entries,
          ir_gating_summary =
            (if gating_entries = [] then ''no gating decision recorded'' else au_summary (last gating_entries)),
          ir_overlay_state = map_option state_name overlay,
          ir_verification_summary =
            (if verification_passed then ''all proofs passed'' else ''one or more proofs failed'')\<rparr>)"

datatype diff_line = DiffRule string nat repair_risk | DiffRationale string | DiffOp nat string string

definition format_proposal_diff :: "patch_proposal \<Rightarrow> diff_line list" where
  "format_proposal_diff proposal =
     [DiffRule (pp_rule_id proposal) (op_count proposal) (max_risk proposal)]
     @ (if pp_rationale proposal = [] then [] else [DiffRationale (pp_rationale proposal)])
     @ map (\<lambda>(i, op). DiffOp (i + 1) (op_tag op) (op_target_path op)) (enumerate 0 (pp_ops proposal))"

record forensic_bundle =
  fb_extension_id :: string
  fb_overlay :: "overlay_artifact option"
  fb_verification :: "verification_bundle option"
  fb_audit_entries :: "audit_entry list"
  fb_telemetry_points :: "telemetry_point list"
  fb_health_report :: "health_report option"
  fb_checksum_manifest :: "golden_manifest option"
  fb_exported_at :: u64

definition audit_count :: "forensic_bundle \<Rightarrow> nat" where
  "audit_count b = length (fb_audit_entries b)"

definition has_verification :: "forensic_bundle \<Rightarrow> bool" where
  "has_verification b = (fb_verification b \<noteq> None)"

definition has_health_data :: "forensic_bundle \<Rightarrow> bool" where
  "has_health_data b = (fb_health_report b \<noteq> None)"

definition build_forensic_bundle ::
  "string \<Rightarrow> overlay_artifact option \<Rightarrow> verification_bundle option \<Rightarrow> audit_ledger \<Rightarrow> telemetry_collector \<Rightarrow>
   health_report option \<Rightarrow> golden_manifest option \<Rightarrow> u64 \<Rightarrow> forensic_bundle" where
  "build_forensic_bundle extension_id overlay verification ledger collector health manifest exported_at_ms =
     \<lparr>fb_extension_id = extension_id, fb_overlay = overlay, fb_verification = verification,
      fb_audit_entries = entries_for_extension ledger extension_id,
      fb_telemetry_points =
        filter (\<lambda>p. list_ex (\<lambda>(k, v). k = ''extension_id'' \<and> v = extension_id) (tp_tags p)) collector,
      fb_health_report = health, fb_checksum_manifest = manifest, fb_exported_at = exported_at_ms\<rparr>"

section \<open>Governance\<close>

definition lisr_invariants :: "string list" where
  "lisr_invariants =
     [''I1: Repairs never add capabilities absent from the original extension'',
      ''I2: All file paths stay within the extension root (monotonicity)'',
      ''I3: Model proposals are restricted to whitelisted PatchOp primitives'',
      ''I4: Structural validity is verified via SWC parse before activation'',
      ''I5: Every repair decision is recorded in the append-only audit ledger'',
      ''I6: Canary rollback triggers automatically on SLO violation'']"

definition lisr_threats :: "string list" where
  "lisr_threats =
     [''T1: Privilege escalation via repair adding new capabilities'',
      ''T2: Code injection via model-generated repair proposals'',
      ''T3: Supply-chain compromise via path traversal beyond extension root'',
      ''T4: Silent behavioral drift from opaque automated repairs'',
      ''T5: Loss of auditability preventing incident forensics'',
      ''T6: Governance decay from undocumented safety invariants'']"

definition testing_expectations :: "string list" where
  "testing_expectations =
     [''Unit test: rule matches intended pattern and rejects non-matching input'',
      ''Unit test: generated PatchOps have correct risk classification'',
      ''Integration test: repair applied to real extension fixture succeeds'',
      ''Monotonicity test: repaired path stays within extension root'',
      ''Capability test: compute_capability_proof returns Monotonic'',
      ''Semantic test: compute_semantic_parity returns Equivalent or AcceptableDrift'',
      ''Conformance test: extension still passes conformance replay after repair'']"

datatype governance_detail =
    NoDetail | RegistryEmpty | EmptyIds "string list" | OnlyInvariants nat

record governance_check =
  gc_id :: string
  gc_description :: string
  gc_passed :: bool
  gc_detail :: governance_detail

record governance_report =
  gr_checks :: "governance_check list"
  gr_passed_count :: nat
  gr_total_count :: nat

definition governance_all_passed :: "governance_report \<Rightarrow> bool" where
  "governance_all_passed r = (gr_passed_count r = gr_total_count r)"

definition governance_failures :: "governance_report \<Rightarrow> governance_check list" where
  "governance_failures r = filter (\<lambda>c. \<not> gc_passed c) (gr_checks r)"

definition run_governance_checklist :: governance_report where
  "run_governance_checklist =
     (let empty_ids = map rl_description (filter (\<lambda>r. rl_id r = []) repair_rules);
          invariant_count = length lisr_invariants;
          checks =
            [\<lparr>gc_id = ''GOV-001'', gc_description = ''Repair registry contains at least one rule'',
              gc_passed = (repair_rules \<noteq> []), gc_detail = (if repair_rules = [] then RegistryEmpty else NoDetail)\<rparr>,
             \<lparr>gc_id = ''GOV-002'', gc_description = ''All repair rules have non-empty IDs'',
              gc_passed = (empty_ids = []), gc_detail = (if empty_ids = [] then NoDetail else EmptyIds empty_ids)\<rparr>,
             \<lparr>gc_id = ''GOV-003'', gc_description = ''Architecture ADR is defined'',
              gc_passed = (lisr_invariants \<noteq> []), gc_detail = NoDetail\<rparr>,
             \<lparr>gc_id = ''GOV-004'', gc_description = ''Threat model is documented'',
              gc_passed = (lisr_threats \<noteq> []), gc_detail = NoDetail\<rparr>,
             \<lparr>gc_id = ''GOV-005'', gc_description = ''Safety invariants cover all critical areas (>=6)'',
              gc_passed = (6 \<le> invariant_count),
              gc_detail = (if invariant_count < 6 then OnlyInvariants invariant_count else NoDetail)\<rparr>,
             \<lparr>gc_id = ''GOV-006'', gc_description = ''Developer testing expectations are documented'',
              gc_passed = (testing_expectations \<noteq> []), gc_detail = NoDetail\<rparr>]
      in \<lparr>gr_checks = checks, gr_passed_count = count_if gc_passed checks, gr_total_count = length checks\<rparr>)"

section \<open>Properties of the life cycle\<close>

text \<open>A deployment is a sequence of attempted transitions; a refused one leaves the artifact as it is.
  The second component counts the successful ones.\<close>

fun attempt :: "overlay_artifact \<times> nat \<Rightarrow> lifecycle_state \<times> u64 \<Rightarrow> overlay_artifact \<times> nat" where
  "attempt (a, n) (target, now_ms) =
     (case transition_overlay a target now_ms of (b, Inl _) \<Rightarrow> (b, n) | (b, Inr _) \<Rightarrow> (b, n + 1))"

definition attempts :: "overlay_artifact \<Rightarrow> (lifecycle_state \<times> u64) list \<Rightarrow> overlay_artifact \<times> nat" where
  "attempts a ts = foldl attempt (a, 0) ts"

fun state_depth :: "lifecycle_state \<Rightarrow> nat" where
  "state_depth Staged = 0"
| "state_depth Canary = 1"
| "state_depth Stable = 2"
| "state_depth RolledBack = 3"
| "state_depth Superseded = 3"

inductive overlay_step :: "overlay_artifact \<Rightarrow> overlay_artifact \<Rightarrow> bool" where
  deploy: "oa_state a = Staged \<Longrightarrow> oa_verification_passed a \<Longrightarrow>
    overlay_step a (a\<lparr>oa_state := Canary, oa_updated_at := t\<rparr>)"
| promote: "oa_state a = Canary \<Longrightarrow> overlay_step a (a\<lparr>oa_state := Stable, oa_updated_at := t\<rparr>)"
| supersede: "oa_state a = Stable \<Longrightarrow> overlay_step a (a\<lparr>oa_state := Superseded, oa_updated_at := t\<rparr>)"
| roll_back: "\<not> state_is_terminal (oa_state a) \<Longrightarrow>
    overlay_step a (a\<lparr>oa_state := RolledBack, oa_updated_at := t\<rparr>)"

inductive_cases overlay_stepE: "overlay_step a b"

lemma transition_refused: "transition_overlay a target now_ms = (b, Inl e) \<Longrightarrow> b = a"
  by (auto simp: transition_overlay_def Let_def split: if_splits)

lemma transition_succeeds_step:
  "transition_overlay a target now_ms = (b, Inr u) \<Longrightarrow> overlay_step a b"
  by (cases "oa_state a"; cases target)
    (auto simp: transition_overlay_def Let_def state_is_terminal_def split: if_splits
      intro: overlay_step.intros)

lemma step_is_a_transition:
  assumes "overlay_step a b"
  shows "transition_overlay a (oa_state b) (oa_updated_at b) = (b, Inr ())"
  using assms
proof cases
  case (roll_back t)
  then show ?thesis
    by (cases "oa_state a") (simp_all add: transition_overlay_def state_is_terminal_def)
qed (simp_all add: transition_overlay_def)

definition overlay_invariant :: "overlay_artifact \<Rightarrow> overlay_artifact \<times> nat \<Rightarrow> bool" where
  "overlay_invariant a r =
     (let (b, n) = r
      in (overlay_is_active b \<longrightarrow> oa_verification_passed b) \<and> n \<le> state_depth (oa_state b)
         \<and> b = a\<lparr>oa_state := oa_state b, oa_updated_at := oa_updated_at b\<rparr>)"

lemma frame_update:
  "b = a\<lparr>oa_state := oa_state b, oa_updated_at := oa_updated_at b\<rparr> \<Longrightarrow>
   b\<lparr>oa_state := s, oa_updated_at := t\<rparr> = a\<lparr>oa_state := s, oa_updated_at := t\<rparr>"
  by (cases a; cases b) simp

lemma overlay_invariant_step:
  assumes "overlay_invariant a (b, n)" "overlay_step b c"
  shows "overlay_invariant a (c, Suc n)"
proof -
  have "b = a\<lparr>oa_state := oa_state b, oa_updated_at := oa_updated_at b\<rparr>"
    using assms(1) by (simp add: overlay_invariant_def)
  note eq = frame_update [OF this]
  have same: "oa_verification_passed b = oa_verification_passed a"
    using \<open>b = _\<close>
    by (cases a; cases b) simp
  show ?thesis
    using assms(2)
  proof cases
    case (roll_back t)
    with assms(1) eq same show ?thesis
      by (cases "oa_state b")
        (auto simp: overlay_invariant_def overlay_is_active_def state_is_active_def state_is_terminal_def)
  qed (use assms(1) eq same in \<open>auto simp: overlay_invariant_def overlay_is_active_def state_is_active_def\<close>)
qed

lemma overlay_invariant_attempt: "overlay_invariant a r \<Longrightarrow> overlay_invariant a (attempt r x)"
  by (cases r; cases x)
    (auto split: prod.split sum.split dest: transition_refused transition_succeeds_step
      intro: overlay_invariant_step)

lemma overlay_invariant_attempts:
  assumes "oa_state a = Staged"
  shows "overlay_invariant a (attempts a ts)"
proof -
  have "overlay_invariant a r \<Longrightarrow> overlay_invariant a (foldl attempt r ts)" for r
    by (induction ts arbitrary: r) (simp_all add: overlay_invariant_attempt)
  moreover have "overlay_invariant a (a, 0)"
    using assms by (simp add: overlay_invariant_def overlay_is_active_def state_is_active_def)
  ultimately show ?thesis by (simp add: attempts_def)
qed

lemma terminal_is_final:
  assumes "state_is_terminal (oa_state a)"
  shows "transition_overlay a target now_ms = (a, Inl (InvalidTransition (oa_state a) target))"
  using assms by (auto simp: transition_overlay_def state_is_terminal_def)

lemma state_depth_le: "state_depth s \<le> 3"
  by (cases s) auto

text \<open>C14 (invariant): However often the transitions of a staged overlay are tried, in whatever order
  and at whatever times, the overlay serves traffic only if its verification has passed; nothing but
  its state and the time of the last change differ; at most three of the tries succeed; and once it is
  rolled back or superseded every further try is refused and leaves it as it is.\<close>

theorem serving_overlays_are_verified:
  assumes "oa_state a = Staged" "attempts a ts = (b, n)"
  shows "(overlay_is_active b \<longrightarrow> oa_verification_passed a)
    \<and> b = a\<lparr>oa_state := oa_state b, oa_updated_at := oa_updated_at b\<rparr>
    \<and> n \<le> 3
    \<and> (state_is_terminal (oa_state b) \<longrightarrow>
         transition_overlay b target now_ms = (b, Inl (InvalidTransition (oa_state b) target)))"
proof -
  have inv: "overlay_invariant a (b, n)"
    using overlay_invariant_attempts [OF assms(1)] assms(2) by metis
  then have eq: "b = a\<lparr>oa_state := oa_state b, oa_updated_at := oa_updated_at b\<rparr>"
    by (simp add: overlay_invariant_def)
  then have "oa_verification_passed b = oa_verification_passed a"
    by (cases a; cases b) simp
  with inv have "overlay_is_active b \<longrightarrow> oa_verification_passed a"
    by (simp add: overlay_invariant_def)
  moreover have "n \<le> 3"
    using inv state_depth_le [of "oa_state b"] by (simp add: overlay_invariant_def)
  ultimately show ?thesis
    using eq terminal_is_final [of b target now_ms] by blast
qed

definition sample_overlay :: "bool \<Rightarrow> overlay_artifact" where
  "sample_overlay verified =
     \<lparr>oa_overlay_id = ''o1'', oa_extension_id = ''ext'', oa_extension_version = ''1.0.0'',
      oa_original_checksum = ''aa'', oa_repaired_checksum = ''bb'', oa_state = Staged,
      oa_rule_id = ''dist_to_src_v1'', oa_repair_mode = AutoSafe, oa_verification_passed = verified,
      oa_created_at = 1, oa_updated_at = 1\<rparr>"

lemma sample_attempts:
  "attempts (sample_overlay True) [(Stable, 2), (Canary, 3), (Stable, 4), (Superseded, 5)] =
     ((sample_overlay True)\<lparr>oa_state := Superseded, oa_updated_at := 5\<rparr>, 3)"
  "attempts (sample_overlay True) [(Canary, 3)] =
     ((sample_overlay True)\<lparr>oa_state := Canary, oa_updated_at := 3\<rparr>, 1)"
  by (simp_all add: attempts_def sample_overlay_def transition_overlay_def)

theorem serving_overlays_are_verified_witness:
  "(3::nat) \<le> 3 \<and> oa_verification_passed (sample_overlay True) \<and>
   snd (transition_overlay ((sample_overlay True)\<lparr>oa_state := Superseded, oa_updated_at := 5\<rparr>) Canary 6)
     = Inl (InvalidTransition Superseded Canary)"
  using serving_overlays_are_verified [OF _ sample_attempts(1), of Canary 6]
    serving_overlays_are_verified [OF _ sample_attempts(2)]
  by (simp add: sample_overlay_def overlay_is_active_def state_is_active_def state_is_terminal_def)

lemma unverified_never_serves:
  "snd (transition_overlay (sample_overlay False) Canary 2) = Inl VerificationRequired"
  by (simp add: sample_overlay_def transition_overlay_def)

section \<open>Properties of the canary\<close>

lemma unat_u8_lt: "unat (v :: u8) < 256"
  using unsigned_less [of v] by simp

lemma byte_pair_lt: "256 * unat (h0 :: u8) + unat (h1 :: u8) < 65536"
  using unat_u8_lt [of h0] unat_u8_lt [of h1] by linarith

lemma card_byte_pairs:
  "card {(h0 :: u8, h1 :: u8). P (256 * unat h0 + unat h1)} = card {n. n < 65536 \<and> P n}"
proof -
  let ?f = "\<lambda>(h0 :: u8, h1 :: u8). 256 * unat h0 + unat h1"
  let ?S = "{(h0 :: u8, h1 :: u8). P (256 * unat h0 + unat h1)}"
  have "h0 = k0 \<and> h1 = k1" if "256 * unat h0 + unat h1 = 256 * unat k0 + unat k1" for h0 h1 k0 k1 :: u8
  proof -
    have div: "(256 * a + b) div 256 = a" if "b < 256" for a b :: nat
      using that by simp
    have "unat h0 = unat k0"
      using div [OF unat_u8_lt] that by metis
    with that have "unat h1 = unat k1" by simp
    with \<open>unat h0 = unat k0\<close> show ?thesis by (simp add: word_unat_eq_iff)
  qed
  then have "inj_on ?f ?S"
    by (auto intro!: inj_onI)
  moreover have "?f ` ?S = {n. n < 65536 \<and> P n}"
  proof (intro equalityI subsetI)
    fix n assume n: "n \<in> {n. n < 65536 \<and> P n}"
    let ?h = "(word_of_nat (n div 256) :: u8, word_of_nat (n mod 256) :: u8)"
    have "n div 256 < 256" using n by auto
    then have e: "256 * unat (word_of_nat (n div 256) :: u8) + unat (word_of_nat (n mod 256) :: u8) = n"
      by (simp add: unat_of_nat)
    show "n \<in> ?f ` ?S"
    proof (rule image_eqI)
      show "n = ?f ?h" unfolding prod.case e ..
      show "?h \<in> ?S" unfolding mem_Collect_eq prod.case e using n by blast
    qed
  next
    fix n assume "n \<in> ?f ` ?S"
    then obtain h0 h1 :: u8 where "n = 256 * unat h0 + unat h1" "P n" by force
    then show "n \<in> {n. n < 65536 \<and> P n}"
      using byte_pair_lt [of h0 h1] by simp
  qed
  ultimately show ?thesis
    using card_image [of ?f ?S] by (simp only:)
qed

lemma card_residues_block:
  assumes "p \<le> m"
  shows "card {n::nat. n < q * m \<and> n mod m < p} = q * p"
proof (induction q)
  case (Suc q)
  have "{n. n < Suc q * m \<and> n mod m < p} = {n. n < q * m \<and> n mod m < p} \<union> {q * m ..< q * m + p}" (is "?L = ?A \<union> ?B")
  proof (intro equalityI subsetI)
    fix n assume n: "n \<in> ?L"
    show "n \<in> ?A \<union> ?B"
    proof (cases "n < q * m")
      case False
      then obtain i where i: "n = q * m + i" by (metis le_add_diff_inverse not_less)
      with n have "i < m" by simp
      with i n show ?thesis by simp
    qed (use n in simp)
  next
    fix n assume "n \<in> ?A \<union> ?B"
    then show "n \<in> ?L"
    proof
      assume "n \<in> ?B"
      then obtain i where i: "n = q * m + i" "i < p"
        by (metis atLeastLessThan_iff le_add_diff_inverse nat_add_left_cancel_less)
      with assms show ?thesis by simp
    qed (simp add: trans_less_add2)
  qed
  moreover have "?A \<inter> ?B = {}" by auto
  moreover have "finite ?A" by simp
  ultimately show ?case
    using Suc.IH by (simp add: card_Un_disjoint)
qed simp

lemma card_residues:
  assumes "p \<le> m" "r \<le> m"
  shows "card {n::nat. n < q * m + r \<and> n mod m < p} = q * p + min r p"
proof -
  have "{n. n < q * m + r \<and> n mod m < p} = {n. n < q * m \<and> n mod m < p} \<union> {q * m ..< q * m + min r p}" (is "?L = ?A \<union> ?B")
  proof (intro equalityI subsetI)
    fix n assume n: "n \<in> ?L"
    show "n \<in> ?A \<union> ?B"
    proof (cases "n < q * m")
      case False
      then obtain i where i: "n = q * m + i" by (metis le_add_diff_inverse not_less)
      with n have "i < r" by simp
      with i n assms show ?thesis by simp
    qed (use n in simp)
  next
    fix n assume "n \<in> ?A \<union> ?B"
    then show "n \<in> ?L"
    proof
      assume "n \<in> ?B"
      then obtain i where i: "n = q * m + i" "i < min r p"
        by (metis atLeastLessThan_iff le_add_diff_inverse nat_add_left_cancel_less)
      with assms show ?thesis by simp
    qed simp
  qed
  moreover have "?A \<inter> ?B = {}" by auto
  moreover have "finite ?A" by simp
  ultimately show ?thesis
    using card_residues_block [OF assms(1), of q] by (simp add: card_Un_disjoint)
qed

lemma unat_digest_bucket: "unat (digest_bucket h0 h1) = (256 * unat h0 + unat h1) mod 100"
proof -
  let ?v = "word_of_nat (256 * unat h0 + unat h1) :: 16 word"
  have v: "unat ?v = 256 * unat h0 + unat h1"
    using byte_pair_lt [of h0 h1] by (simp only: unat_of_nat) simp
  have "unat (?v mod 100) = (256 * unat h0 + unat h1) mod 100"
    by (simp only: unat_mod_distrib v) simp
  moreover have "unat (ucast w :: u8) = unat w mod 256" for w :: "16 word"
    by (simp add: unsigned_ucast_eq take_bit_eq_mod)
  ultimately show ?thesis
    by (simp only: digest_bucket_def Let_def) simp
qed

lemma bucket_in_range: "unat (compute_canary_bucket sha256 extension_id environment) < 100"
  by (simp only: compute_canary_bucket_def Let_def unat_digest_bucket mod_less_divisor zero_less_numeral)

text \<open>The buckets are the numbers below 100, so that every percentage is a threshold;
  and of the 65536 values of the digest's first two bytes an enabled canary at \<open>p\<close> percent sends
  exactly \<open>655 * p + min p 36\<close> to the overlay, none at 0 and all from 100 on, and raising the
  percentage never takes a request off the overlay again.\<close>

theorem canary_share:
  fixes c :: canary_config
  defines "p \<equiv> min 100 (unat (cc_overlay_percent c))"
  assumes "cc_enabled c"
  shows "unat (compute_canary_bucket sha256 extension_id environment) < 100
    \<and> card {(h0, h1). canary_route_of c (digest_bucket h0 h1) = OverlayRoute} = 655 * p + min p 36
    \<and> (cc_overlay_percent c \<le> percent \<and> canary_route_of c bucket = OverlayRoute \<longrightarrow>
         canary_route_of (c\<lparr>cc_overlay_percent := percent\<rparr>) bucket = OverlayRoute)"
proof (intro conjI impI)
  show "unat (compute_canary_bucket sha256 extension_id environment) < 100"
    by (rule bucket_in_range)
  have "(canary_route_of c (digest_bucket h0 h1) = OverlayRoute) = ((256 * unat h0 + unat h1) mod 100 < p)"
    for h0 h1
  proof -
    have "(256 * unat h0 + unat h1) mod 100 < 100" by (rule mod_less_divisor) simp
    then show ?thesis
      using assms(2) by (simp only: canary_route_of_def word_less_nat_alt unat_digest_bucket p_def min_less_iff_conj) simp
  qed
  then have "card {(h0, h1). canary_route_of c (digest_bucket h0 h1) = OverlayRoute} =
      card {n. n < 65536 \<and> n mod 100 < p}"
    by (simp only: card_byte_pairs [of "\<lambda>n. n mod 100 < p"])
  also have "\<dots> = 655 * p + min p 36"
    using card_residues [of p 100 36 655] by (simp add: p_def min.commute)
  finally show "card {(h0, h1). canary_route_of c (digest_bucket h0 h1) = OverlayRoute} = 655 * p + min p 36" .
qed (auto simp: canary_route_of_def split: if_splits)

definition sample_canary :: canary_config where
  "sample_canary =
     \<lparr>cc_extension_id = ''ext'', cc_extension_version = ''1.0.0'', cc_overlay_percent = 40, cc_enabled = True\<rparr>"

theorem canary_share_witness:
  "card {(h0, h1). canary_route_of sample_canary (digest_bucket h0 h1) = OverlayRoute} = 26236
   \<and> canary_route_of (sample_canary\<lparr>cc_overlay_percent := 41\<rparr>) 39 = OverlayRoute"
  using canary_share [of sample_canary _ _ _ 41 39]
  by (simp add: sample_canary_def canary_route_of_def)

section \<open>Properties of the health monitor and the promotion\<close>

lemma report_is_healthy_iff:
  "report_is_healthy (evaluate_health extension_id signals) \<longleftrightarrow> list_all signal_is_healthy signals"
  by (auto simp: report_is_healthy_def evaluate_health_def Let_def filter_empty_conv list_all_iff)

lemma unat_sat_sub_le: "w \<le> sat_sub a b \<longleftrightarrow> unat w \<le> unat a - unat b"
  by (simp add: word_le_nat_alt unat_sat_sub)

text \<open>The monitor fails closed. A canary is promoted exactly when every signal is a
  number (a NaN on either side is a violation) within its threshold and the window has passed, where
  a clock that went back counts as no time; it is rolled back exactly when a signal is not within its
  threshold, which is also when the automatic trigger fires; and the rollback of a running canary
  always succeeds.\<close>

theorem promotion_fails_closed:
  "(decide_promotion (evaluate_health extension_id signals) canary_start_ms now_ms canary_window_ms = Promote) =
     (list_all (\<lambda>s. f64_partial_cmp (hs_value s) (hs_threshold s) \<in> {Some Less, Some Equal}) signals
      \<and> unat canary_window_ms \<le> unat now_ms - unat canary_start_ms)"
  "(decide_promotion (evaluate_health extension_id signals) canary_start_ms now_ms canary_window_ms = Rollback) =
     should_auto_rollback (evaluate_health extension_id signals)"
  "should_auto_rollback (evaluate_health extension_id signals) =
     list_ex (\<lambda>s. f64_partial_cmp (hs_value s) (hs_threshold s) \<in> {None, Some Greater}) signals"
  "snd (execute_rollback (a\<lparr>oa_state := Canary\<rparr>) now_ms) = Inr ()"
proof -
  have bad: "(x \<in> {None, Some Greater}) = (x \<notin> {Some Less, Some Equal})" for x :: "ordering option"
    by (cases x; (cases "the x")?) auto
  have h: "report_is_healthy (evaluate_health extension_id signals) =
      list_all (\<lambda>s. f64_partial_cmp (hs_value s) (hs_threshold s) \<in> {Some Less, Some Equal}) signals"
    by (simp add: report_is_healthy_iff signal_is_healthy_def [abs_def] f64_le_def)
  show "(decide_promotion (evaluate_health extension_id signals) canary_start_ms now_ms canary_window_ms = Promote) =
     (list_all (\<lambda>s. f64_partial_cmp (hs_value s) (hs_threshold s) \<in> {Some Less, Some Equal}) signals
      \<and> unat canary_window_ms \<le> unat now_ms - unat canary_start_ms)"
    by (simp only: decide_promotion_def h unat_sat_sub_le) simp
  show "(decide_promotion (evaluate_health extension_id signals) canary_start_ms now_ms canary_window_ms = Rollback) =
     should_auto_rollback (evaluate_health extension_id signals)"
    by (simp add: decide_promotion_def should_auto_rollback_def)
  show "should_auto_rollback (evaluate_health extension_id signals) =
     list_ex (\<lambda>s. f64_partial_cmp (hs_value s) (hs_threshold s) \<in> {None, Some Greater}) signals"
    unfolding should_auto_rollback_def h bad by (induction signals) auto
  show "snd (execute_rollback (a\<lparr>oa_state := Canary\<rparr>) now_ms) = Inr ()"
    by (simp add: execute_rollback_def transition_overlay_def)
qed

section \<open>Properties of the audit ledger\<close>

text \<open>A log is a list of the arguments of \<^verbatim>\<open>append\<close>, in the order of the calls.\<close>

type_synonym audit_request = "u64 \<times> string \<times> audit_kind \<times> string \<times> (string \<times> string) list"

fun append_request :: "audit_request \<Rightarrow> audit_ledger \<Rightarrow> audit_ledger" where
  "append_request (t, x, k, s, d) l = fst (ledger_append t x k s d l)"

definition ledger_of :: "audit_request list \<Rightarrow> audit_ledger" where
  "ledger_of rs = fold append_request rs ledger_new"

fun entry_of :: "nat \<Rightarrow> audit_request \<Rightarrow> audit_entry" where
  "entry_of i (t, x, k, s, d) =
     \<lparr>au_sequence = word_of_nat i, au_timestamp = t, au_extension_id = x, au_kind = k, au_summary = s,
      au_details = d\<rparr>"

lemma ledger_of_snoc: "ledger_of (rs @ [r]) = append_request r (ledger_of rs)"
  by (simp add: ledger_of_def)

lemma sat_inc_of_nat: "i < 2 ^ 64 - 1 \<Longrightarrow> sat_inc (word_of_nat i) = word_of_nat (Suc i)"
  by (simp add: sat_inc_def sat_add_def unat_of_nat)

lemma ledger_of_entries:
  "length rs < 2 ^ 64 \<Longrightarrow>
   al_next_sequence (ledger_of rs) = word_of_nat (length rs) \<and>
   al_entries (ledger_of rs) = map (\<lambda>(i, r). entry_of i r) (enumerate 0 rs)"
proof (induction rs rule: rev_induct)
  case Nil
  show ?case by (simp add: ledger_of_def ledger_new_def)
next
  case (snoc r rs)
  then have "length rs < 2 ^ 64 - 1" by simp
  note inc = sat_inc_of_nat [OF this]
  obtain t x k s d where r: "r = (t, x, k, s, d)" by (cases r)
  from snoc have "al_next_sequence (ledger_of rs) = word_of_nat (length rs)"
    "al_entries (ledger_of rs) = map (\<lambda>(i, r). entry_of i r) (enumerate 0 rs)"
    by simp_all
  with inc show ?case
    by (simp add: ledger_of_snoc r ledger_append_def Let_def enumerate_append_eq)
qed

lemma word_of_nat_inj: "i < 2 ^ 64 \<Longrightarrow> j < 2 ^ 64 \<Longrightarrow> (word_of_nat i :: u64) = word_of_nat j \<longleftrightarrow> i = j"
  by (simp add: word_of_nat_eq_iff take_bit_nat_eq_self)

lemma au_sequence_entry_of [simp]: "au_sequence (entry_of i r) = word_of_nat i"
  by (cases r) simp

lemma entries_nth:
  assumes "length rs < 2 ^ 64" "i < length rs"
  shows "al_entries (ledger_of rs) ! i = entry_of i (rs ! i)"
  using assms by (simp add: ledger_of_entries nth_enumerate_eq)

lemma ledger_get_nth:
  assumes "length rs < 2 ^ 64" "i < length rs"
  shows "ledger_get (ledger_of rs) (word_of_nat i) = Some (entry_of i (rs ! i))"
proof -
  have len: "length (al_entries (ledger_of rs)) = length rs"
    using assms by (simp add: ledger_of_entries)
  have "find (\<lambda>e. au_sequence e = word_of_nat i) (al_entries (ledger_of rs)) = Some (entry_of i (rs ! i))"
    unfolding find_Some_iff
  proof (intro exI [of _ i] conjI allI impI)
    fix j assume "j < i"
    then show "au_sequence (al_entries (ledger_of rs) ! j) \<noteq> word_of_nat i"
      using assms word_of_nat_inj [of j i] by (simp add: entries_nth)
  qed (use assms len in \<open>simp_all add: entries_nth\<close>)
  then show ?thesis by (simp add: ledger_get_def)
qed

lemma ledger_get_append:
  "ledger_get l s = Some e \<Longrightarrow> ledger_get (fst (ledger_append t x k sm d l)) s = Some e"
proof -
  have "find P xs = Some e \<Longrightarrow> find P (xs @ ys) = Some e" for P and xs ys :: "audit_entry list"
    by (induction xs) auto
  then show "ledger_get l s = Some e \<Longrightarrow> ledger_get (fst (ledger_append t x k sm d l)) s = Some e"
    by (simp add: ledger_get_def ledger_append_def Let_def)
qed

text \<open>C15 (roundtrip): As long as fewer than 2 to the 64 entries are written, the sequence number an
  \<^verbatim>\<open>append\<close> returns finds exactly the entry written, then and after every further
  \<^verbatim>\<open>append\<close>; the numbers count the entries from 0; nothing else is ever in the ledger; and the
  forensic bundle of an extension holds all its entries in the order they were written.\<close>

theorem ledger_keeps_every_entry:
  assumes "length rs + length later < 2 ^ 64"
    and "ledger_append t x k s d (ledger_of rs) = (l, seq)"
    and "later = (t, x, k, s, d) # rest"
  shows "ledger_get (ledger_of (rs @ later)) seq = Some (entry_of (length rs) (t, x, k, s, d))
    \<and> l = ledger_of (rs @ [(t, x, k, s, d)])
    \<and> seq = word_of_nat (length rs)
    \<and> ledger_len (ledger_of (rs @ later)) = length rs + length later
    \<and> fb_audit_entries (build_forensic_bundle x ov vb (ledger_of (rs @ later)) tc hr cm now) =
        filter (\<lambda>e. au_extension_id e = x)
          (map (\<lambda>(i, r). entry_of i r) (enumerate 0 (rs @ later)))"
proof (intro conjI)
  show seq: "seq = word_of_nat (length rs)"
    using assms ledger_of_entries [of rs] by (auto simp: ledger_append_def Let_def)
  show "ledger_get (ledger_of (rs @ later)) seq = Some (entry_of (length rs) (t, x, k, s, d))"
    using ledger_get_nth [of "rs @ later" "length rs"] assms(1,3) by (simp add: seq del: entry_of.simps)
  show "l = ledger_of (rs @ [(t, x, k, s, d)])"
    using assms(2) by (simp add: ledger_of_snoc)
qed (use ledger_of_entries [of "rs @ later"] assms(1)
     in \<open>simp_all add: ledger_len_def build_forensic_bundle_def entries_for_extension_def\<close>)

theorem ledger_keeps_every_entry_witness:
  "ledger_get (ledger_of [(5, ''a'', Analysis, ''s'', []), (6, ''b'', Activated, ''t'', []),
      (7, ''a'', Promoted, ''u'', [])]) 1
     = Some (entry_of 1 (6, ''b'', Activated, ''t'', []))"
  using ledger_keeps_every_entry [THEN conjunct1,
      of "[(5, ''a'', Analysis, ''s'', [])]" "[(6, ''b'', Activated, ''t'', []), (7, ''a'', Promoted, ''u'', [])]"
      6 "''b''" Activated "''t''" "[]" _ 1 "[(7, ''a'', Promoted, ''u'', [])]"]
  by (simp add: ledger_of_def ledger_new_def ledger_append_def Let_def sat_inc_def sat_add_def)

text \<open>The ledger saturates: past 2 to the 64 entries the numbers repeat, and the later entries of a
  number are not found.\<close>

lemma ledger_saturates:
  "ledger_append t x k s d \<lparr>al_entries = es, al_next_sequence = u64_max\<rparr> = (l, seq) \<Longrightarrow>
   seq = u64_max \<and> al_next_sequence l = u64_max"
  by (auto simp: ledger_append_def Let_def sat_inc_def sat_add_def unat_u64_max)

section \<open>Inspection and governance\<close>

lemma inspection_shows_the_last_gating:
  assumes "au_kind e = GatingDecision" "au_extension_id e = x" "al_entries l = es @ e # fs"
    "list_all (\<lambda>f. au_kind f \<noteq> GatingDecision \<or> au_extension_id f \<noteq> x) fs"
  shows "ir_gating_summary (build_inspection x l ov ok) = au_summary e"
proof -
  have "filter (\<lambda>e. au_kind e = GatingDecision) (filter (\<lambda>e. au_extension_id e = x) fs) = []"
    using assms(4) by (auto simp: filter_empty_conv list_all_iff)
  then have "filter (\<lambda>e. au_kind e = GatingDecision) (entries_for_extension l x) =
      filter (\<lambda>e. au_kind e = GatingDecision) (filter (\<lambda>e. au_extension_id e = x) es) @ [e]"
    using assms(1-3) by (simp add: entries_for_extension_def)
  then show ?thesis
    by (simp add: build_inspection_def Let_def)
qed

lemma governance_holds: "governance_all_passed run_governance_checklist \<and> governance_failures run_governance_checklist = []"
  by (simp add: governance_all_passed_def governance_failures_def run_governance_checklist_def Let_def
      count_if_def repair_rules_def lisr_invariants_def lisr_threats_def testing_expectations_def)

end
