(* ===== verification/Extension_Policy.thy ===== *)
theory Extension_Policy
  imports Hostcall_Bridge "HOL-Library.Sublist"
begin

text \<open>
  What an extension may do besides reading files (\<^verbatim>\<open>e-agent-node-runtime/src\<close>): the policy of
  \<^verbatim>\<open>extensions.rs\<close> (capabilities, mediation of commands, the broker of secrets), the decisions of
  \<^verbatim>\<open>runtime.rs\<close> for synchronous processes and for environment variables, the lane policy of
  \<^verbatim>\<open>hostcall_io_uring_lane.rs\<close>, and the canonical parameters that a hostcall is hashed by. Running a
  permitted process is a parameter, as are SHA-256 and the printing of JSON.
\<close>

section \<open>ASCII case\<close>

definition str_lower :: "string \<Rightarrow> string" where
  "str_lower = map ascii_lower"

definition ascii_upper :: "string \<Rightarrow> string" where
  "ascii_upper = map (\<lambda>c. let n = of_char c :: nat in if 97 \<le> n \<and> n \<le> 122 then char_of (n - 32) else c)"

definition eq_ignore_ascii_case :: "string \<Rightarrow> string \<Rightarrow> bool" where
  "eq_ignore_ascii_case s t = (str_lower s = str_lower t)"

section \<open>Policies\<close>

datatype policy_mode = Strict | PromptMode | Permissive

record extension_override =
  eo_mode :: "policy_mode option"
  eo_allow :: "string list"
  eo_deny :: "string list"

record exec_mediation_policy =
  em_enabled :: bool
  em_deny_patterns :: "string list"
  em_allow_patterns :: "string list"

definition exec_mediation_default :: exec_mediation_policy where
  "exec_mediation_default = \<lparr>em_enabled = True, em_deny_patterns = [], em_allow_patterns = []\<rparr>"

datatype dangerous_class = PolicyMatch

definition class_label :: "dangerous_class \<Rightarrow> string" where
  "class_label c = ''policy_match''"

datatype mediation_result =
    MediationAllow
  | MediationAudit dangerous_class string
  | MediationDeny "dangerous_class option" string

fun join_space :: "string list \<Rightarrow> string" where
  "join_space [] = []"
| "join_space [w] = w"
| "join_space (w # v # ws) = w @ '' '' @ join_space (v # ws)"

definition evaluate_exec_mediation :: "exec_mediation_policy \<Rightarrow> string \<Rightarrow> string list \<Rightarrow> mediation_result" where
  "evaluate_exec_mediation policy cmd args =
     (if \<not> em_enabled policy then MediationAllow
      else
        let command = str_lower (join_space (cmd # args))
        in if list_ex (\<lambda>p. prefix (str_lower p) command) (em_allow_patterns policy) then MediationAllow
           else case find (\<lambda>p. prefix (str_lower p) command) (em_deny_patterns policy) of
             Some pattern \<Rightarrow> MediationDeny (Some PolicyMatch) (''Command matches deny pattern: '' @ pattern)
           | None \<Rightarrow> MediationAllow)"

record secret_broker_policy =
  sb_enabled :: bool
  sb_disclosure_allowlist :: "string list"

definition secret_broker_default :: secret_broker_policy where
  "secret_broker_default = \<lparr>sb_enabled = True, sb_disclosure_allowlist = []\<rparr>"

definition secret_patterns :: "string list" where
  "secret_patterns =
     [''_KEY'', ''_SECRET'', ''_TOKEN'', ''_PASSWORD'', ''_PASSWD'', ''_CREDENTIAL'', ''_CREDENTIALS'',
      ''_AUTH'', ''DATABASE_URL'', ''REDIS_URL'']"

definition is_secret :: "secret_broker_policy \<Rightarrow> string \<Rightarrow> bool" where
  "is_secret b name =
     (if \<not> sb_enabled b \<or> list_ex (\<lambda>item. eq_ignore_ascii_case item name) (sb_disclosure_allowlist b) then False
      else list_ex (\<lambda>pattern. suffix pattern (ascii_upper name)) secret_patterns)"

record extension_policy =
  xp_mode :: policy_mode
  xp_default_caps :: "string list"
  xp_deny_caps :: "string list"
  xp_per_extension :: "(string, extension_override) bmap"
  xp_exec_mediation :: exec_mediation_policy
  xp_secret_broker :: secret_broker_policy

definition extension_policy_default :: extension_policy where
  "extension_policy_default =
     \<lparr>xp_mode = PromptMode, xp_default_caps = [''read'', ''write'', ''http'', ''events'', ''session''],
      xp_deny_caps = [''exec'', ''env''], xp_per_extension = [], xp_exec_mediation = exec_mediation_default,
      xp_secret_broker = secret_broker_default\<rparr>"

section \<open>Synchronous processes\<close>

text \<open>A prompt counts as a refusal: a synchronous call cannot ask.\<close>

definition mode_permits :: "policy_mode \<Rightarrow> bool" where
  "mode_permits m = (m = Permissive)"

definition override_decision :: "extension_override \<Rightarrow> string \<Rightarrow> bool option" where
  "override_decision ov cap =
     (if cap \<in> set (eo_deny ov) then Some False
      else if cap \<in> set (eo_allow ov) then Some True
      else map_option mode_permits (eo_mode ov))"

definition check_exec_capability :: "extension_policy \<Rightarrow> string option \<Rightarrow> bool" where
  "check_exec_capability policy extension_id =
     (let cap = ''exec'';
          own = (case extension_id of None \<Rightarrow> None
                 | Some i \<Rightarrow> (case bm_get (xp_per_extension policy) i of None \<Rightarrow> None
                    | Some ov \<Rightarrow> override_decision ov cap))
      in case own of Some b \<Rightarrow> b
         | None \<Rightarrow>
             if cap \<in> set (xp_deny_caps policy) then False
             else if cap \<in> set (xp_default_caps policy) then True
             else mode_permits (xp_mode policy))"

text \<open>The checks of \<^verbatim>\<open>__pi_exec_sync_native\<close> before it spawns: the reason of the refusal, if any.\<close>

definition exec_sync_denied :: "bool \<Rightarrow> extension_policy option \<Rightarrow> string option \<Rightarrow> string \<Rightarrow> string list \<Rightarrow> string option" where
  "exec_sync_denied allow_unsafe_sync_exec policy extension_id cmd args =
     (if \<not> allow_unsafe_sync_exec then Some ''sync child_process APIs are disabled by default''
      else case policy of None \<Rightarrow> None
        | Some pol \<Rightarrow>
            if check_exec_capability pol extension_id then
              (case evaluate_exec_mediation (xp_exec_mediation pol) cmd args of
                 MediationDeny _ reason \<Rightarrow> Some (''command blocked by exec mediation: '' @ reason)
               | MediationAudit _ _ \<Rightarrow> None
               | MediationAllow \<Rightarrow> None)
            else Some ''extension lacks 'exec' capability'')"

definition denied_json :: "string \<Rightarrow> json" where
  "denied_json reason =
     JObject [(''code'', JString ''denied''),
              (''error'', JString (''Execution denied by policy ('' @ reason @ '')'')),
              (''killed'', JBool False), (''pid'', JNumber ''0''), (''status'', JNull),
              (''stderr'', JString []), (''stdout'', JString [])]"

text \<open>\<open>spawn cmd args env\<close> runs the process: its answer and the new state of the world. \<open>parse_args\<close> is
  the parser of the arguments; its error is the exception of the script.\<close>

definition exec_sync ::
  "(string \<Rightarrow> string + string list) \<Rightarrow> (string \<Rightarrow> string list \<Rightarrow> 'w \<Rightarrow> json \<times> 'w) \<Rightarrow> bool \<Rightarrow> extension_policy option \<Rightarrow>
   string option \<Rightarrow> string \<Rightarrow> string \<Rightarrow> 'w \<Rightarrow> (string + json) \<times> 'w" where
  "exec_sync parse_args spawn allow_unsafe_sync_exec policy extension_id cmd args_json w =
     (case parse_args args_json of
        Inl err \<Rightarrow> (Inl (''invalid JSON args: '' @ err), w)
      | Inr args \<Rightarrow>
          (case exec_sync_denied allow_unsafe_sync_exec policy extension_id cmd args of
             Some reason \<Rightarrow> (Inr (denied_json reason), w)
           | None \<Rightarrow> (let (r, w') = spawn cmd args w in (Inr r, w'))))"

section \<open>Environment variables\<close>

definition is_env_var_allowed :: "string \<Rightarrow> bool" where
  "is_env_var_allowed key = (\<not> is_secret secret_broker_default key)"

definition parse_truthy_flag :: "string \<Rightarrow> bool" where
  "parse_truthy_flag v = (str_lower (trim v) \<in> set [''1'', ''true'', ''yes'', ''on''])"

text \<open>\<open>conformance\<close> is the feature \<^verbatim>\<open>ext-conformance\<close>; \<open>process_env\<close> is the environment of the process,
  \<open>env\<close> that of the configuration.\<close>

definition is_global_compat_scan_mode :: "bool \<Rightarrow> (string \<Rightarrow> string option) \<Rightarrow> bool" where
  "is_global_compat_scan_mode conformance process_env =
     (conformance \<or> (case process_env ''PI_EXT_COMPAT_SCAN'' of Some v \<Rightarrow> parse_truthy_flag v | None \<Rightarrow> False))"

definition is_compat_scan_mode :: "bool \<Rightarrow> (string \<Rightarrow> string option) \<Rightarrow> (string, string) bmap \<Rightarrow> bool" where
  "is_compat_scan_mode conformance process_env env =
     (case bm_get env ''PI_EXT_COMPAT_SCAN'' of
        None \<Rightarrow> is_global_compat_scan_mode conformance process_env
      | Some v \<Rightarrow> parse_truthy_flag v)"

definition compat_env_fallback_value ::
  "bool \<Rightarrow> (string \<Rightarrow> string option) \<Rightarrow> string \<Rightarrow> (string, string) bmap \<Rightarrow> string option" where
  "compat_env_fallback_value conformance process_env key env =
     (if \<not> is_compat_scan_mode conformance process_env env then None
      else
        let upper = ascii_upper key
        in if suffix ''_API_KEY'' upper then Some (''pi-compat-'' @ str_lower upper)
           else if upper = ''PI_SEMANTIC_LEGACY'' then Some ''1''
           else None)"

definition env_get ::
  "bool \<Rightarrow> (string \<Rightarrow> string option) \<Rightarrow> bool \<Rightarrow> extension_policy option \<Rightarrow> (string, string) bmap \<Rightarrow> string \<Rightarrow>
   string option" where
  "env_get conformance process_env deny_env policy env key =
     (case compat_env_fallback_value conformance process_env key env of
        Some v \<Rightarrow> Some v
      | None \<Rightarrow>
          if deny_env then None
          else
            let allowed = (case policy of None \<Rightarrow> is_env_var_allowed key
                           | Some pol \<Rightarrow> \<not> is_secret (xp_secret_broker pol) key)
            in if \<not> allowed then None else bm_get env key)"

section \<open>Dispatch lanes\<close>

datatype dispatch_lane = FastLane | IoUringLane | CompatLane

fun lane_name :: "dispatch_lane \<Rightarrow> string" where
  "lane_name FastLane = ''fast''"
| "lane_name IoUringLane = ''io_uring''"
| "lane_name CompatLane = ''compat''"

datatype io_hint = UnknownHint | IoHeavy | CpuBound

definition is_io_heavy :: "io_hint \<Rightarrow> bool" where
  "is_io_heavy h = (h = IoHeavy)"

datatype capability_class =
    Filesystem | NetworkClass | ExecutionClass | SessionClass | EventsClass | EnvironmentClass
  | ToolClass | UiClass | TelemetryClass | UnknownClass

definition class_of_capability :: "string \<Rightarrow> capability_class" where
  "class_of_capability v =
     (let t = str_lower (trim v)
      in if t \<in> set [''read'', ''write'', ''filesystem'', ''fs''] then Filesystem
         else if t \<in> set [''http'', ''network''] then NetworkClass
         else if t \<in> set [''exec'', ''execution''] then ExecutionClass
         else if t = ''session'' then SessionClass
         else if t = ''events'' then EventsClass
         else if t \<in> set [''env'', ''environment''] then EnvironmentClass
         else if t = ''tool'' then ToolClass
         else if t = ''ui'' then UiClass
         else if t \<in> set [''log'', ''telemetry''] then TelemetryClass
         else UnknownClass)"

datatype lane_fallback =
    CompatKillSwitch | IoUringDisabled | IoUringUnavailable | MissingIoHint | UnsupportedCapability
  | QueueDepthBudgetExceeded | IoUringExecutorUnavailable

fun reason_code :: "lane_fallback \<Rightarrow> string" where
  "reason_code CompatKillSwitch = ''forced_compat_kill_switch''"
| "reason_code IoUringDisabled = ''io_uring_disabled''"
| "reason_code IoUringUnavailable = ''io_uring_unavailable''"
| "reason_code MissingIoHint = ''io_hint_missing''"
| "reason_code UnsupportedCapability = ''io_uring_capability_not_supported''"
| "reason_code QueueDepthBudgetExceeded = ''io_uring_queue_depth_budget_exceeded''"
| "reason_code IoUringExecutorUnavailable = ''io_uring_executor_unavailable''"

definition io_uring_executor_available :: bool where
  "io_uring_executor_available = False"

record lane_config =
  lc_enabled :: bool
  lc_ring_available :: bool
  lc_max_queue_depth :: nat
  lc_allow_filesystem :: bool
  lc_allow_network :: bool

definition lane_config_conservative :: lane_config where
  "lane_config_conservative =
     \<lparr>lc_enabled = False, lc_ring_available = False, lc_max_queue_depth = 256,
      lc_allow_filesystem = True, lc_allow_network = True\<rparr>"

definition allow_for_capability :: "lane_config \<Rightarrow> capability_class \<Rightarrow> bool" where
  "allow_for_capability c k =
     (case k of Filesystem \<Rightarrow> lc_allow_filesystem c | NetworkClass \<Rightarrow> lc_allow_network c | _ \<Rightarrow> False)"

record lane_input =
  li_capability :: capability_class
  li_io_hint :: io_hint
  li_queue_depth :: nat
  li_force_compat :: bool

record lane_decision =
  ld_lane :: dispatch_lane
  ld_fallback :: "lane_fallback option"

definition decision_io_uring :: lane_decision where
  "decision_io_uring = \<lparr>ld_lane = IoUringLane, ld_fallback = None\<rparr>"

definition decision_compat :: "lane_fallback \<Rightarrow> lane_decision" where
  "decision_compat r = \<lparr>ld_lane = CompatLane, ld_fallback = Some r\<rparr>"

definition decision_fast :: "lane_fallback \<Rightarrow> lane_decision" where
  "decision_fast r = \<lparr>ld_lane = FastLane, ld_fallback = Some r\<rparr>"

definition fallback_code :: "lane_decision \<Rightarrow> string option" where
  "fallback_code d = map_option reason_code (ld_fallback d)"

record lane_telemetry =
  lt_lane :: dispatch_lane
  lt_fallback_reason :: "lane_fallback option"
  lt_fallback_code :: "string option"
  lt_capability :: capability_class
  lt_io_hint :: io_hint
  lt_queue_depth :: nat
  lt_budget :: nat
  lt_budget_remaining :: nat
  lt_force_compat :: bool
  lt_policy_enabled :: bool
  lt_ring_available :: bool
  lt_executor_available :: bool
  lt_capability_allowed :: bool
  lt_within_budget :: bool

definition build_lane_telemetry :: "lane_config \<Rightarrow> lane_input \<Rightarrow> lane_decision \<Rightarrow> lane_telemetry" where
  "build_lane_telemetry c i d =
     \<lparr>lt_lane = ld_lane d, lt_fallback_reason = ld_fallback d, lt_fallback_code = fallback_code d,
      lt_capability = li_capability i, lt_io_hint = li_io_hint i, lt_queue_depth = li_queue_depth i,
      lt_budget = lc_max_queue_depth c, lt_budget_remaining = lc_max_queue_depth c - li_queue_depth i,
      lt_force_compat = li_force_compat i, lt_policy_enabled = lc_enabled c,
      lt_ring_available = lc_ring_available c, lt_executor_available = io_uring_executor_available,
      lt_capability_allowed = allow_for_capability c (li_capability i),
      lt_within_budget = (li_queue_depth i < lc_max_queue_depth c)\<rparr>"

definition decide_io_uring_lane :: "lane_config \<Rightarrow> lane_input \<Rightarrow> lane_decision" where
  "decide_io_uring_lane c i =
     (if li_force_compat i then decision_compat CompatKillSwitch
      else if \<not> lc_enabled c then decision_fast IoUringDisabled
      else if \<not> lc_ring_available c then decision_fast IoUringUnavailable
      else if \<not> is_io_heavy (li_io_hint i) then decision_fast MissingIoHint
      else if \<not> allow_for_capability c (li_capability i) then decision_fast UnsupportedCapability
      else if lc_max_queue_depth c \<le> li_queue_depth i then decision_fast QueueDepthBudgetExceeded
      else if \<not> io_uring_executor_available then decision_fast IoUringExecutorUnavailable
      else decision_io_uring)"

definition decide_lane_with_telemetry :: "lane_config \<Rightarrow> lane_input \<Rightarrow> lane_decision \<times> lane_telemetry" where
  "decide_lane_with_telemetry c i =
     (let d = decide_io_uring_lane c i in (d, build_lane_telemetry c i d))"

section \<open>What a hostcall needs\<close>

definition builtin_tool_required_capability :: "string \<Rightarrow> string" where
  "builtin_tool_required_capability raw_name =
     (let name = trim raw_name; is = eq_ignore_ascii_case name
      in if is ''read'' \<or> is ''grep'' \<or> is ''find'' \<or> is ''ls'' then ''read''
         else if is ''write'' \<or> is ''edit'' then ''write''
         else if is ''bash'' then ''exec''
         else ''tool'')"

fun kind_method :: "hostcall_kind \<Rightarrow> string" where
  "kind_method (ToolCall _) = ''tool''"
| "kind_method (ExecCall _) = ''exec''"
| "kind_method HttpCall = ''http''"
| "kind_method (SessionCall _) = ''session''"
| "kind_method (UiCall _) = ''ui''"
| "kind_method (EventsCall _) = ''events''"
| "kind_method LogCall = ''log''"

fun required_capability :: "hostcall_kind \<Rightarrow> string" where
  "required_capability (ToolCall name) = builtin_tool_required_capability name"
| "required_capability (ExecCall _) = ''exec''"
| "required_capability HttpCall = ''http''"
| "required_capability (SessionCall _) = ''session''"
| "required_capability (UiCall _) = ''ui''"
| "required_capability (EventsCall _) = ''events''"
| "required_capability LogCall = ''log''"

definition io_uring_capability_class :: "hostcall_kind \<Rightarrow> capability_class" where
  "io_uring_capability_class k = class_of_capability (required_capability k)"

fun io_uring_io_hint :: "hostcall_kind \<Rightarrow> io_hint" where
  "io_uring_io_hint HttpCall = IoHeavy"
| "io_uring_io_hint (ExecCall _) = CpuBound"
| "io_uring_io_hint (ToolCall raw_name) =
     (let name = trim raw_name; is = eq_ignore_ascii_case name
      in if is ''read'' \<or> is ''write'' \<or> is ''edit'' \<or> is ''grep'' \<or> is ''find'' \<or> is ''ls'' then IoHeavy
         else if is ''bash'' then CpuBound
         else UnknownHint)"
| "io_uring_io_hint _ = UnknownHint"

definition io_uring_lane_input :: "hostcall_kind \<Rightarrow> nat \<Rightarrow> bool \<Rightarrow> lane_input" where
  "io_uring_lane_input k queue_depth force_compat_lane =
     \<lparr>li_capability = io_uring_capability_class k, li_io_hint = io_uring_io_hint k,
      li_queue_depth = queue_depth, li_force_compat = force_compat_lane\<rparr>"

section \<open>Canonical parameters\<close>

definition canonical_exec_params :: "string \<Rightarrow> json \<Rightarrow> json" where
  "canonical_exec_params cmd payload =
     (let obj = (case payload of JObject m \<Rightarrow> bm_del ''command'' m | JNull \<Rightarrow> [] | other \<Rightarrow> [(''payload'', other)])
      in JObject (bm_put ''cmd'' (JString cmd) obj))"

definition canonical_op_params :: "string \<Rightarrow> json \<Rightarrow> json" where
  "canonical_op_params op payload =
     (if payload = JNull then JObject [(''op'', JString op)]
      else
        let obj = (case payload of JObject m \<Rightarrow> m | other \<Rightarrow> [(''payload'', other)])
        in JObject (bm_put ''op'' (JString op) obj))"

definition params_for_hash :: "hostcall_request \<Rightarrow> json" where
  "params_for_hash r =
     (case hr_kind r of
        ToolCall name \<Rightarrow> JObject [(''input'', hr_payload r), (''name'', JString name)]
      | ExecCall cmd \<Rightarrow> canonical_exec_params cmd (hr_payload r)
      | HttpCall \<Rightarrow> hr_payload r
      | LogCall \<Rightarrow> hr_payload r
      | SessionCall op \<Rightarrow> canonical_op_params op (hr_payload r)
      | UiCall op \<Rightarrow> canonical_op_params op (hr_payload r)
      | EventsCall op \<Rightarrow> canonical_op_params op (hr_payload r))"

text \<open>\<open>sha256_hex\<close> is the printed digest of bytes, \<open>to_vec\<close> the compact printing of JSON.\<close>

definition hostcall_params_hash :: "(string \<Rightarrow> string) \<Rightarrow> (json \<Rightarrow> string) \<Rightarrow> string \<Rightarrow> json \<Rightarrow> string" where
  "hostcall_params_hash sha256_hex to_vec method params = sha256_hex (method @ to_vec params)"

definition params_hash :: "(string \<Rightarrow> string) \<Rightarrow> (json \<Rightarrow> string) \<Rightarrow> hostcall_request \<Rightarrow> string" where
  "params_hash sha256_hex to_vec r =
     hostcall_params_hash sha256_hex to_vec (kind_method (hr_kind r)) (params_for_hash r)"

section \<open>Properties of the process policy\<close>

lemma mediation_denies_iff:
  "(\<exists>c r. evaluate_exec_mediation m cmd args = MediationDeny c r) \<longleftrightarrow>
     em_enabled m
     \<and> \<not> list_ex (\<lambda>p. prefix (str_lower p) (str_lower (join_space (cmd # args)))) (em_allow_patterns m)
     \<and> list_ex (\<lambda>p. prefix (str_lower p) (str_lower (join_space (cmd # args)))) (em_deny_patterns m)"
proof -
  have f: "list_ex P xs \<longleftrightarrow> find P xs \<noteq> None" for P and xs :: "string list"
    by (induction xs) auto
  show ?thesis
    unfolding evaluate_exec_mediation_def Let_def f [of _ "em_deny_patterns m"] by (auto split: option.split)
qed

lemma mediation_never_audits: "evaluate_exec_mediation m cmd args \<noteq> MediationAudit c r"
  by (auto simp: evaluate_exec_mediation_def Let_def split: option.split)

definition global_exec_grant :: "extension_policy \<Rightarrow> bool" where
  "global_exec_grant p =
     (''exec'' \<notin> set (xp_deny_caps p) \<and> (''exec'' \<in> set (xp_default_caps p) \<or> xp_mode p = Permissive))"

definition own_exec_grant :: "extension_policy \<Rightarrow> extension_override \<Rightarrow> bool" where
  "own_exec_grant p ov =
     (''exec'' \<notin> set (eo_deny ov)
      \<and> (''exec'' \<in> set (eo_allow ov) \<or> eo_mode ov = Some Permissive \<or> eo_mode ov = None \<and> global_exec_grant p))"

lemma check_exec_capability_unknown:
  "Option.bind extension_id (bm_get (xp_per_extension p)) = None \<Longrightarrow>
   check_exec_capability p extension_id = global_exec_grant p"
  by (cases extension_id)
    (auto simp: check_exec_capability_def global_exec_grant_def mode_permits_def Let_def)

lemma check_exec_capability_override:
  "bm_get (xp_per_extension p) i = Some ov \<Longrightarrow> check_exec_capability p (Some i) = own_exec_grant p ov"
  by (auto simp: check_exec_capability_def own_exec_grant_def global_exec_grant_def override_decision_def
      mode_permits_def Let_def split: option.split)

definition exec_grant :: "extension_policy \<Rightarrow> string option \<Rightarrow> bool" where
  "exec_grant p extension_id =
     (case Option.bind extension_id (bm_get (xp_per_extension p)) of
        None \<Rightarrow> global_exec_grant p | Some ov \<Rightarrow> own_exec_grant p ov)"

lemma check_exec_capability_eq: "check_exec_capability p extension_id = exec_grant p extension_id"
proof (cases "Option.bind extension_id (bm_get (xp_per_extension p))")
  case None
  then show ?thesis by (simp add: exec_grant_def check_exec_capability_unknown)
next
  case (Some ov)
  then obtain i where "extension_id = Some i" "bm_get (xp_per_extension p) i = Some ov"
    by (cases extension_id) auto
  then show ?thesis by (simp add: exec_grant_def check_exec_capability_override)
qed

definition command_denied :: "extension_policy \<Rightarrow> string \<Rightarrow> string list \<Rightarrow> bool" where
  "command_denied p cmd args =
     (let m = xp_exec_mediation p;
          starts = (\<lambda>q. prefix (str_lower q) (str_lower (join_space (cmd # args))))
      in em_enabled m \<and> \<not> list_ex starts (em_allow_patterns m) \<and> list_ex starts (em_deny_patterns m))"

lemma exec_sync_denied_None:
  "exec_sync_denied allow (Some p) extension_id cmd args = None \<longleftrightarrow>
     allow \<and> exec_grant p extension_id \<and> \<not> command_denied p cmd args"
proof -
  have "command_denied p cmd args \<longleftrightarrow> (\<exists>c r. evaluate_exec_mediation (xp_exec_mediation p) cmd args = MediationDeny c r)"
    unfolding mediation_denies_iff command_denied_def Let_def ..
  then show ?thesis
    by (cases "evaluate_exec_mediation (xp_exec_mediation p) cmd args")
      (auto simp: exec_sync_denied_def check_exec_capability_eq split: if_splits)
qed

text \<open>C5 (equivalence): Under a policy a synchronous process is started exactly when three things hold:
  the runtime allows such processes; the extension has the capability, by its own entry in which a
  denial beats a grant and a grant its mode, and the global rules decide only what the entry leaves
  open; and no deny pattern starts the command line, unless an allow pattern does. Otherwise the world
  is unchanged and the script gets the refusal, never an exception; a prompt is a refusal.\<close>

theorem sync_processes_are_mediated:
  assumes "parse_args args_json = Inr args"
  shows "exec_sync parse_args spawn allow (Some p) extension_id cmd args_json w =
     (if allow \<and> exec_grant p extension_id \<and> \<not> command_denied p cmd args
      then (let (r, w') = spawn cmd args w in (Inr r, w'))
      else (Inr (denied_json (the (exec_sync_denied allow (Some p) extension_id cmd args))), w))"
proof (cases "exec_sync_denied allow (Some p) extension_id cmd args")
  case None
  with exec_sync_denied_None [of allow p extension_id cmd args] assms show ?thesis
    by (simp add: exec_sync_def)
next
  case (Some reason)
  then have "\<not> (allow \<and> exec_grant p extension_id \<and> \<not> command_denied p cmd args)"
    using exec_sync_denied_None [of allow p extension_id cmd args] by simp
  with Some assms show ?thesis by (simp only: exec_sync_def if_False option.case sum.case option.sel)
qed

definition trusted_policy :: extension_policy where
  "trusted_policy = extension_policy_default\<lparr>
     xp_per_extension := [(''builder'', \<lparr>eo_mode = None, eo_allow = [''exec''], eo_deny = []\<rparr>)],
     xp_exec_mediation := exec_mediation_default\<lparr>em_deny_patterns := [''rm ''], em_allow_patterns := [''rm -i'']\<rparr>\<rparr>"

lemma trusted_samples:
  "exec_grant trusted_policy (Some ''builder'') \<and> command_denied trusted_policy ''RM'' [''-rf'', ''/'']
   \<and> \<not> command_denied trusted_policy ''rm'' [''-i'', ''x'']"
  by code_simp

theorem sync_processes_are_mediated_witness:
  "snd (exec_sync (\<lambda>_. Inr [''-rf'', ''/'']) (\<lambda>c as w. (JString c, Suc w)) True (Some trusted_policy) (Some ''builder'')
     ''RM'' ''a'' 0) = 0
   \<and> exec_sync (\<lambda>_. Inr [''-i'', ''x'']) (\<lambda>c as w. (JString c, Suc w)) True (Some trusted_policy) (Some ''builder'')
     ''rm'' ''a'' 0 = (Inr (JString ''rm''), 1)"
  using trusted_samples
    sync_processes_are_mediated [of "\<lambda>_. Inr [''-rf'', ''/'']" "''a''" "[''-rf'', ''/'']"
      "\<lambda>c as w. (JString c, Suc w)" True trusted_policy "Some ''builder''" "''RM''" 0]
    sync_processes_are_mediated [of "\<lambda>_. Inr [''-i'', ''x'']" "''a''" "[''-i'', ''x'']"
      "\<lambda>c as w. (JString c, Suc w)" True trusted_policy "Some ''builder''" "''rm''" 0]
  by simp

text \<open>By default no extension has the capability; and the patterns are compared with the text of the
  command, so that another path to the same program is not matched.\<close>

lemma default_policy_has_no_exec: "\<not> check_exec_capability extension_policy_default extension_id"
  by (cases extension_id) (simp_all add: check_exec_capability_def extension_policy_default_def Let_def)

lemma mediation_is_textual:
  "evaluate_exec_mediation (exec_mediation_default\<lparr>em_deny_patterns := [''rm'']\<rparr>) ''/bin/rm'' [''-rf'', ''/'']
     = MediationAllow"
  by code_simp

section \<open>Properties of the environment\<close>

definition hidden :: "extension_policy option \<Rightarrow> string \<Rightarrow> bool" where
  "hidden policy key =
     is_secret (case policy of None \<Rightarrow> secret_broker_default | Some p \<Rightarrow> xp_secret_broker p) key"

lemma scan_flag_is_no_secret: "\<not> is_secret b ''PI_EXT_COMPAT_SCAN''"
proof -
  have "\<not> list_ex (\<lambda>pattern. suffix pattern (ascii_upper ''PI_EXT_COMPAT_SCAN'')) secret_patterns"
    by code_simp
  then show ?thesis by (simp add: is_secret_def)
qed

lemma fallback_depends_on_flag:
  "bm_get env ''PI_EXT_COMPAT_SCAN'' = bm_get env' ''PI_EXT_COMPAT_SCAN'' \<Longrightarrow>
   compat_env_fallback_value conformance process_env key env = compat_env_fallback_value conformance process_env key env'"
  by (simp add: compat_env_fallback_value_def is_compat_scan_mode_def)

text \<open>C6 (safety): Scripts learn nothing of the secret variables: if two environments give the
  variables that the broker does not hold to be secret the same values, every read of either gives the
  same answer, also in the mode of the compatibility scan, whose constants come before the check. With
  the environment denied the answer depends on the flag of the scan alone.\<close>

theorem secrets_do_not_leak:
  assumes "\<And>k. \<not> hidden policy k \<Longrightarrow> bm_get env k = bm_get env' k"
  shows "env_get conformance process_env deny_env policy env key = env_get conformance process_env deny_env policy env' key
    \<and> env_get conformance process_env True policy env key =
         compat_env_fallback_value conformance process_env key
           (case bm_get env ''PI_EXT_COMPAT_SCAN'' of None \<Rightarrow> [] | Some v \<Rightarrow> [(''PI_EXT_COMPAT_SCAN'', v)])"
proof (rule conjI)
  have "bm_get env ''PI_EXT_COMPAT_SCAN'' = bm_get env' ''PI_EXT_COMPAT_SCAN''"
    by (rule assms) (simp add: hidden_def scan_flag_is_no_secret)
  then have fb: "compat_env_fallback_value conformance process_env key env = compat_env_fallback_value conformance process_env key env'"
    by (rule fallback_depends_on_flag)
  have allowed: "(case policy of None \<Rightarrow> is_env_var_allowed key | Some pol \<Rightarrow> \<not> is_secret (xp_secret_broker pol) key) = (\<not> hidden policy key)"
    by (cases policy) (simp_all add: hidden_def is_env_var_allowed_def)
  show "env_get conformance process_env deny_env policy env key = env_get conformance process_env deny_env policy env' key"
    using assms [of key] by (simp add: env_get_def fb allowed split: option.split)
  have "compat_env_fallback_value conformance process_env key env =
      compat_env_fallback_value conformance process_env key
        (case bm_get env ''PI_EXT_COMPAT_SCAN'' of None \<Rightarrow> [] | Some v \<Rightarrow> [(''PI_EXT_COMPAT_SCAN'', v)])"
    by (rule fallback_depends_on_flag) (simp split: option.split)
  then show "env_get conformance process_env True policy env key =
           compat_env_fallback_value conformance process_env key
             (case bm_get env ''PI_EXT_COMPAT_SCAN'' of None \<Rightarrow> [] | Some v \<Rightarrow> [(''PI_EXT_COMPAT_SCAN'', v)])"
    by (simp add: env_get_def split: option.split)
qed

lemma token_is_hidden: "hidden None ''GITHUB_TOKEN''"
  unfolding hidden_def option.case by code_simp

theorem secrets_do_not_leak_witness:
  "env_get False (\<lambda>_. None) False None [(''GITHUB_TOKEN'', ''x''), (''HOME'', ''/h'')] ''HOME''
   = env_get False (\<lambda>_. None) False None [(''GITHUB_TOKEN'', ''y''), (''HOME'', ''/h'')] ''HOME''"
  by (rule secrets_do_not_leak [THEN conjunct1]) (use token_is_hidden in auto)

text \<open>Names without the underscore are not held to be secret.\<close>

lemma bare_names_are_disclosed:
  "list_all is_env_var_allowed [''PASSWORD'', ''TOKEN'', ''SECRET'', ''APIKEY'', ''AWS_ACCESS_KEY_ID'']"
  by code_simp

section \<open>Properties of the lanes and the parameters\<close>

text \<open>No configuration selects the lane without an executor; the reason names the first failing check.\<close>

lemma io_uring_never_selected:
  "ld_lane (decide_io_uring_lane c i) = (if li_force_compat i then CompatLane else FastLane)
   \<and> ld_fallback (decide_io_uring_lane c i) \<noteq> None"
  by (simp add: decide_io_uring_lane_def decision_fast_def decision_compat_def io_uring_executor_available_def)

lemma executor_is_the_last_check:
  "ld_fallback (decide_io_uring_lane c (io_uring_lane_input k depth False)) = Some IoUringExecutorUnavailable \<longleftrightarrow>
     lc_enabled c \<and> lc_ring_available c \<and> depth < lc_max_queue_depth c \<and> io_uring_io_hint k = IoHeavy
     \<and> allow_for_capability c (io_uring_capability_class k)"
  by (auto simp: decide_io_uring_lane_def decision_fast_def decision_compat_def io_uring_lane_input_def
      is_io_heavy_def io_uring_executor_available_def)

text \<open>Different requests with the same canonical parameters: a payload that is no object is the object
  with the reserved key, no payload is the empty one, and \<^verbatim>\<open>command\<close> is left out.\<close>

lemma canonical_params_collide:
  "canonical_op_params op (JObject [(''payload'', JString v)]) = canonical_op_params op (JString v)"
  "canonical_op_params op JNull = canonical_op_params op (JObject [])"
  "canonical_exec_params cmd (JObject [(''command'', x)]) = canonical_exec_params cmd JNull"
  by (simp_all add: canonical_op_params_def canonical_exec_params_def Let_def bm_del_def)

lemma canonical_op_params_op:
  "json_index (canonical_op_params op payload) ''op'' = JString op"
  by (cases payload) (simp_all add: canonical_op_params_def Let_def)

end
