(* ===== verification/Module_Cache.thy ===== *)
theory Module_Cache
  imports Hostcall_Bridge Utf8 Paths "HOL-Library.Sublist"
begin

text \<open>
  The cache of compiled modules of the script runtime (\<^verbatim>\<open>runtime.rs\<close>): the key of a module, the
  compilation with its checks, the cache in memory with its order of use and its byte limit, the
  cache on disk, and the scrub of a runtime. The text of a file or virtual module is its bytes. The
  transformations of the source (the TypeScript compiler and the rewriting of module texts), the
  printing of a JSON string and SHA-256 are parameters; the file system is given per load.
\<close>

section \<open>State\<close>

record cache_entry =
  xe_key :: "string option"
  xe_source :: "u8 list"

record cache_counters =
  ct_hits :: u64
  ct_misses :: u64
  ct_invalidations :: u64
  ct_disk_hits :: u64

definition counters_zero :: cache_counters where
  "counters_zero = \<lparr>ct_hits = 0, ct_misses = 0, ct_invalidations = 0, ct_disk_hits = 0\<rparr>"

record module_cache =
  mc_static :: "(string, u8 list) bmap"
  mc_dynamic :: "(string, u8 list) bmap"
  mc_compiled :: "(string, cache_entry) bmap"
  mc_counters :: cache_counters
  mc_disk_dir :: "string option"
  mc_bytes :: nat
  mc_lru :: "string list"
  mc_limit :: "nat option"

definition default_cache_limit :: nat where
  "default_cache_limit = 32 * 1024 * 1024"

definition cache_new :: "(string, u8 list) bmap \<Rightarrow> module_cache" where
  "cache_new static_modules =
     \<lparr>mc_static = static_modules, mc_dynamic = [], mc_compiled = [], mc_counters = counters_zero,
      mc_disk_dir = None, mc_bytes = 0, mc_lru = [], mc_limit = Some default_cache_limit\<rparr>"

definition with_disk_cache_dir :: "string option \<Rightarrow> module_cache \<Rightarrow> module_cache" where
  "with_disk_cache_dir d c = c\<lparr>mc_disk_dir := d\<rparr>"

definition with_cache_limit :: "nat option \<Rightarrow> module_cache \<Rightarrow> module_cache" where
  "with_cache_limit l c = c\<lparr>mc_limit := l\<rparr>"

section \<open>The cache in memory\<close>

definition entry_len :: "cache_entry \<Rightarrow> nat" where
  "entry_len e = length (xe_source e)"

definition count_invalidations :: "u64 \<Rightarrow> module_cache \<Rightarrow> module_cache" where
  "count_invalidations n c =
     c\<lparr>mc_counters := (mc_counters c)\<lparr>ct_invalidations := sat_add (ct_invalidations (mc_counters c)) n\<rparr>\<rparr>"

definition remove_compiled_source :: "string \<Rightarrow> module_cache \<Rightarrow> cache_entry option \<times> module_cache" where
  "remove_compiled_source name c =
     (case bm_get (mc_compiled c) name of
        None \<Rightarrow> (None, c)
      | Some e \<Rightarrow>
          (Some e, c\<lparr>mc_compiled := bm_del name (mc_compiled c), mc_bytes := mc_bytes c - entry_len e,
                   mc_lru := removeAll name (mc_lru c)\<rparr>))"

definition record_access :: "string \<Rightarrow> module_cache \<Rightarrow> module_cache" where
  "record_access name c = c\<lparr>mc_lru := removeAll name (mc_lru c) @ [name]\<rparr>"

text \<open>The eviction loop: the least recently used entries go until the new one fits.\<close>

definition evict_one :: "string \<Rightarrow> module_cache \<Rightarrow> module_cache" where
  "evict_one victim c =
     (case bm_get (mc_compiled c) victim of
        None \<Rightarrow> c
      | Some e \<Rightarrow>
          count_invalidations 1
            (c\<lparr>mc_compiled := bm_del victim (mc_compiled c), mc_bytes := mc_bytes c - entry_len e\<rparr>))"

lemma evict_one_lru [simp]: "mc_lru (evict_one v c) = mc_lru c"
  by (simp add: evict_one_def count_invalidations_def split: option.split)

function evict :: "nat \<Rightarrow> nat \<Rightarrow> module_cache \<Rightarrow> module_cache" where
  "evict limit len c =
     (if mc_bytes c + len \<le> limit then c
      else case mc_lru c of
        [] \<Rightarrow> c
      | victim # rest \<Rightarrow> evict limit len (evict_one victim (c\<lparr>mc_lru := rest\<rparr>)))"
  by pat_completeness auto
termination
  by (relation "measure (\<lambda>(_, _, c). length (mc_lru c))") auto

declare evict.simps [simp del]

definition insert_compiled_source :: "string \<Rightarrow> cache_entry \<Rightarrow> module_cache \<Rightarrow> module_cache" where
  "insert_compiled_source name e c =
     (if (case mc_limit c of Some limit \<Rightarrow> limit = 0 \<or> limit < entry_len e | None \<Rightarrow> False)
      then count_invalidations 1 (snd (remove_compiled_source name c))
      else
        let c1 = snd (remove_compiled_source name c);
            c2 = (case mc_limit c1 of Some limit \<Rightarrow> evict limit (entry_len e) c1 | None \<Rightarrow> c1)
        in record_access name
             (c2\<lparr>mc_bytes := mc_bytes c2 + entry_len e, mc_compiled := bm_put name e (mc_compiled c2)\<rparr>))"

section \<open>Compilation\<close>

datatype load_error = LoadError string string

record source_tools =
  so_transpile :: "u8 list \<Rightarrow> string \<Rightarrow> string + u8 list"    \<comment> \<open>\<^verbatim>\<open>transpile_typescript_module\<close>\<close>
  so_cjs_to_esm :: "u8 list \<Rightarrow> u8 list"                    \<comment> \<open>\<^verbatim>\<open>maybe_cjs_to_esm\<close>\<close>
  so_private :: "u8 list \<Rightarrow> u8 list"                       \<comment> \<open>\<^verbatim>\<open>rewrite_legacy_private_identifiers\<close>\<close>
  so_json_to_esm :: "u8 list \<Rightarrow> string \<Rightarrow> string + u8 list"  \<comment> \<open>\<^verbatim>\<open>json_module_to_esm\<close>\<close>
  so_quote :: "string \<Rightarrow> string"                           \<comment> \<open>a JSON string literal\<close>
  so_sha256_hex :: "u8 list \<Rightarrow> string"

text \<open>The file system during a load: \<open>lw_metadata\<close> gives the length and the time of the last change in
  nanoseconds, 0 where it is not known.\<close>

record load_world =
  lw_is_file :: "string \<Rightarrow> bool"
  lw_metadata :: "string \<Rightarrow> string + nat \<times> nat"
  lw_open :: "string \<Rightarrow> string + u8 list"
  lw_disk_readable :: bool
  lw_disk_writable :: bool

definition max_module_source :: nat where
  "max_module_source = 1024 * 1024 * 1024"

definition bytes_of :: "string \<Rightarrow> u8 list" where
  "bytes_of s = map word_of_nat (utf8 s)"

definition prefix_import_meta_url :: "source_tools \<Rightarrow> string \<Rightarrow> u8 list \<Rightarrow> u8 list" where
  "prefix_import_meta_url T module_name body =
     (let url =
        (if take 1 module_name = ''/'' then ''file://'' @ module_name
         else if take 7 module_name = ''file://'' then module_name
         else if 2 < length (utf8 module_name) \<and> utf8 module_name ! 1 = 58
                 \<and> (utf8 module_name ! 2 = 47 \<or> utf8 module_name ! 2 = 92)
              then ''file:///'' @ module_name
         else ''pi://'' @ module_name)
      in bytes_of (''import.meta.url = '' @ so_quote T url @ '';'' @ [CHR 10]) @ body)"

definition virtual_source :: "(string, u8 list) bmap \<Rightarrow> (string, u8 list) bmap \<Rightarrow> string \<Rightarrow> u8 list option" where
  "virtual_source static_modules dynamic_modules name =
     (case bm_get dynamic_modules name of Some s \<Rightarrow> Some s | None \<Rightarrow> bm_get static_modules name)"

definition transform_source :: "source_tools \<Rightarrow> string \<Rightarrow> string \<Rightarrow> u8 list \<Rightarrow> load_error + u8 list" where
  "transform_source T name extension raw =
     (if extension \<in> set [''ts'', ''tsx'', ''cts'', ''mts'', ''jsx'']
      then (case so_transpile T raw name of
              Inl m \<Rightarrow> Inl (LoadError name (''transpile: '' @ m))
            | Inr transpiled \<Rightarrow> Inr (so_private T (so_cjs_to_esm T transpiled)))
      else if extension \<in> set [''js'', ''mjs'', ''cjs''] then Inr (so_private T (so_cjs_to_esm T raw))
      else if extension = ''json''
      then (case so_json_to_esm T raw name of
              Inl m \<Rightarrow> Inl (LoadError name (''json: '' @ m)) | Inr s \<Rightarrow> Inr s)
      else Inl (LoadError name (''Unsupported module extension: '' @ extension)))"

definition too_large :: "string \<Rightarrow> nat \<Rightarrow> load_error" where
  "too_large name n =
     LoadError name (''Module source exceeds size limit: '' @ show_nat n @ '' > '' @ show_nat max_module_source)"

definition compile_module_source ::
  "source_tools \<Rightarrow> load_world \<Rightarrow> (string, u8 list) bmap \<Rightarrow> (string, u8 list) bmap \<Rightarrow> string \<Rightarrow>
   load_error + u8 list" where
  "compile_module_source T W static_modules dynamic_modules name =
     (case virtual_source static_modules dynamic_modules name of
        Some s \<Rightarrow> Inr (prefix_import_meta_url T name s)
      | None \<Rightarrow>
          if \<not> lw_is_file W name then Inl (LoadError name ''Module is not a file'')
          else case lw_metadata W name of
            Inl err \<Rightarrow> Inl (LoadError name (''metadata: '' @ err))
          | Inr (len, _) \<Rightarrow>
              if max_module_source < len then Inl (too_large name len)
              else
                let extension = (case path_extension (path_of name) of Some x \<Rightarrow> x | None \<Rightarrow> [])
                in case lw_open W name of
                     Inl err \<Rightarrow> Inl (LoadError name (''open: '' @ err))
                   | Inr contents \<Rightarrow>
                       let raw = take (max_module_source + 1) contents
                       in if from_utf8 raw = None
                          then Inl (LoadError name ''read: stream did not contain valid UTF-8'')
                          else if max_module_source < length raw then Inl (too_large name (length raw))
                          else map_sum id (prefix_import_meta_url T name) (transform_source T name extension raw))"

section \<open>Keys and the cache on disk\<close>

definition module_cache_key ::
  "source_tools \<Rightarrow> load_world \<Rightarrow> (string, u8 list) bmap \<Rightarrow> (string, u8 list) bmap \<Rightarrow> string \<Rightarrow> string option" where
  "module_cache_key T W static_modules dynamic_modules name =
     (case virtual_source static_modules dynamic_modules name of
        Some s \<Rightarrow> Some (''v3:v:'' @ so_sha256_hex T (bytes_of ''virtual'' @ [0] @ bytes_of name @ [0] @ s))
      | None \<Rightarrow>
          if \<not> lw_is_file W name then None
          else case lw_metadata W name of
            Inl _ \<Rightarrow> None
          | Inr (len, nanos) \<Rightarrow> Some (''v3:f:'' @ name @ '':'' @ show_nat len @ '':'' @ show_nat nanos))"

definition disk_cache_path :: "source_tools \<Rightarrow> string \<Rightarrow> string \<Rightarrow> string" where
  "disk_cache_path T dir key =
     (let hex = so_sha256_hex T (bytes_of key) in dir @ ''/'' @ take 2 hex @ ''/'' @ hex @ ''.js'')"

type_synonym disk_cache = "(string, u8 list) bmap"

definition try_load_from_disk :: "source_tools \<Rightarrow> load_world \<Rightarrow> string \<Rightarrow> string \<Rightarrow> disk_cache \<Rightarrow> u8 list option" where
  "try_load_from_disk T W dir key disk =
     (if lw_disk_readable W then bm_get disk (disk_cache_path T dir key) else None)"

text \<open>The file is written beside and renamed, so that a failure of any step leaves the old state.\<close>

definition store_to_disk :: "source_tools \<Rightarrow> load_world \<Rightarrow> string \<Rightarrow> string \<Rightarrow> u8 list \<Rightarrow> disk_cache \<Rightarrow> disk_cache" where
  "store_to_disk T W dir key compiled disk =
     (if lw_disk_writable W then bm_put (disk_cache_path T dir key) compiled disk else disk)"

section \<open>Loading\<close>

definition count_hit :: "module_cache \<Rightarrow> module_cache" where
  "count_hit c = c\<lparr>mc_counters := (mc_counters c)\<lparr>ct_hits := sat_inc (ct_hits (mc_counters c))\<rparr>\<rparr>"

definition count_miss :: "module_cache \<Rightarrow> module_cache" where
  "count_miss c = c\<lparr>mc_counters := (mc_counters c)\<lparr>ct_misses := sat_inc (ct_misses (mc_counters c))\<rparr>\<rparr>"

definition count_disk_hit :: "module_cache \<Rightarrow> module_cache" where
  "count_disk_hit c = c\<lparr>mc_counters := (mc_counters c)\<lparr>ct_disk_hits := sat_inc (ct_disk_hits (mc_counters c))\<rparr>\<rparr>"

definition load_from_disk :: "source_tools \<Rightarrow> load_world \<Rightarrow> string option \<Rightarrow> module_cache \<Rightarrow> disk_cache \<Rightarrow> u8 list option" where
  "load_from_disk T W key c disk =
     (case key of None \<Rightarrow> None | Some k \<Rightarrow>
        (case mc_disk_dir c of None \<Rightarrow> None | Some dir \<Rightarrow> try_load_from_disk T W dir k disk))"

definition load_missing ::
  "source_tools \<Rightarrow> load_world \<Rightarrow> string option \<Rightarrow> string \<Rightarrow> module_cache \<Rightarrow> disk_cache \<Rightarrow>
   (load_error + u8 list) \<times> module_cache \<times> disk_cache" where
  "load_missing T W key name c disk =
     (case load_from_disk T W key c disk of
        Some s \<Rightarrow> (Inr s, insert_compiled_source name \<lparr>xe_key = key, xe_source = s\<rparr> (count_disk_hit c), disk)
      | None \<Rightarrow>
          let c1 = count_miss c
          in case compile_module_source T W (mc_static c1) (mc_dynamic c1) name of
               Inl err \<Rightarrow> (Inl err, c1, disk)
             | Inr s \<Rightarrow>
                 let c2 = insert_compiled_source name \<lparr>xe_key = key, xe_source = s\<rparr> c1;
                     disk' = (case key of None \<Rightarrow> disk | Some k \<Rightarrow>
                                (case mc_disk_dir c2 of None \<Rightarrow> disk | Some dir \<Rightarrow> store_to_disk T W dir k s disk))
                 in (Inr s, c2, disk'))"

definition load_compiled ::
  "source_tools \<Rightarrow> load_world \<Rightarrow> string \<Rightarrow> module_cache \<Rightarrow> disk_cache \<Rightarrow>
   (load_error + u8 list) \<times> module_cache \<times> disk_cache" where
  "load_compiled T W name c disk =
     (let key = module_cache_key T W (mc_static c) (mc_dynamic c) name
      in case bm_get (mc_compiled c) name of
           Some e \<Rightarrow>
             if xe_key e = key then (Inr (xe_source e), record_access name (count_hit c), disk)
             else load_missing T W key name (count_invalidations 1 (snd (remove_compiled_source name c))) disk
         | None \<Rightarrow> load_missing T W key name c disk)"

text \<open>A virtual module is registered by a repair, with or without removal of what was compiled of it;
  the scrub of a runtime removes the virtual modules and what was compiled of them.\<close>

definition register_virtual :: "bool \<Rightarrow> string \<Rightarrow> u8 list \<Rightarrow> module_cache \<Rightarrow> module_cache" where
  "register_virtual removes name s c =
     (let c1 = c\<lparr>mc_dynamic := bm_put name s (mc_dynamic c)\<rparr>
      in if \<not> removes then c1
         else case remove_compiled_source name c1 of
           (None, c2) \<Rightarrow> c2 | (Some _, c2) \<Rightarrow> count_invalidations 1 c2)"

definition scrub_step :: "string \<Rightarrow> u64 \<times> module_cache \<Rightarrow> u64 \<times> module_cache" where
  "scrub_step spec = (\<lambda>(n, c). case remove_compiled_source spec c of
     (Some _, c') \<Rightarrow> (sat_inc n, c') | (None, c') \<Rightarrow> (n, c'))"

definition scrub_modules :: "module_cache \<Rightarrow> module_cache" where
  "scrub_modules c =
     (let specs = map fst (mc_dynamic c);
          (n, c1) = fold scrub_step specs (0, c\<lparr>mc_dynamic := []\<rparr>)
      in if n > 0 then count_invalidations n c1 else c1)"

definition cache_snapshot :: "module_cache \<Rightarrow> u64 \<times> u64 \<times> u64 \<times> nat \<times> u64 \<times> nat \<times> nat option" where
  "cache_snapshot c =
     (ct_hits (mc_counters c), ct_misses (mc_counters c), ct_invalidations (mc_counters c),
      length (mc_compiled c), ct_disk_hits (mc_counters c), mc_bytes c, mc_limit c)"

section \<open>The invariant of the cache in memory\<close>

definition total_len :: "(string, cache_entry) bmap \<Rightarrow> nat" where
  "total_len m = sum_list (map (\<lambda>e. entry_len (snd e)) m)"

lemma total_len_put: "bm_get m k = None \<Longrightarrow> total_len (bm_put k e m) = total_len m + entry_len e"
  by (induction k e m rule: bm_put.induct) (auto simp: total_len_def split: if_splits)

lemma total_len_del:
  "bm_ok m \<Longrightarrow> bm_get m k = Some e \<Longrightarrow> total_len m = total_len (bm_del k m) + entry_len e"
proof (induction m)
  case (Cons x m)
  obtain k' e' where x: "x = (k', e')" by (cases x)
  show ?case
  proof (cases "k' = k")
    case True
    with Cons.prems x have "k \<notin> fst ` set m" by (auto simp: bm_ok_Cons)
    then have "bm_del k m = m" by (simp add: bm_del_None bm_get_None)
    with True Cons.prems x show ?thesis by (simp add: total_len_def bm_del_def)
  next
    case False
    with Cons x bm_ok_tl [of x m] show ?thesis by (simp add: total_len_def bm_del_def)
  qed
qed simp

text \<open>What holds also between an eviction and the insertion: the books are exact.\<close>

definition cache_books :: "module_cache \<Rightarrow> bool" where
  "cache_books c \<longleftrightarrow>
     bm_ok (mc_compiled c) \<and> distinct (mc_lru c) \<and> set (mc_lru c) = dom (bm_get (mc_compiled c))
     \<and> mc_bytes c = total_len (mc_compiled c)"

definition cache_ok :: "module_cache \<Rightarrow> bool" where
  "cache_ok c \<longleftrightarrow> cache_books c \<and> (case mc_limit c of Some limit \<Rightarrow> mc_bytes c \<le> limit | None \<Rightarrow> True)"

lemma remove_frame [simp]:
  "mc_limit (snd (remove_compiled_source n c)) = mc_limit c"
  "mc_static (snd (remove_compiled_source n c)) = mc_static c"
  "mc_dynamic (snd (remove_compiled_source n c)) = mc_dynamic c"
  "mc_disk_dir (snd (remove_compiled_source n c)) = mc_disk_dir c"
  "mc_counters (snd (remove_compiled_source n c)) = mc_counters c"
  by (simp_all add: remove_compiled_source_def split: option.split)

lemma remove_compiled [simp]:
  "bm_get (mc_compiled (snd (remove_compiled_source n c))) = (bm_get (mc_compiled c))(n := None)"
  by (auto simp: remove_compiled_source_def split: option.split)

lemma books_remove:
  assumes "cache_books c"
  shows "cache_books (snd (remove_compiled_source n c)) \<and> mc_bytes (snd (remove_compiled_source n c)) \<le> mc_bytes c"
proof (cases "bm_get (mc_compiled c) n")
  case None
  with assms show ?thesis by (simp add: remove_compiled_source_def)
next
  case (Some e)
  then show ?thesis
    using assms total_len_del [of "mc_compiled c" n e]
    by (auto simp: remove_compiled_source_def cache_books_def distinct_removeAll)
qed

lemma ok_remove: "cache_ok c \<Longrightarrow> cache_ok (snd (remove_compiled_source n c))"
  using books_remove [of c n] by (fastforce simp: cache_ok_def split: option.splits)

lemma books_count [simp]:
  "cache_books (count_invalidations i c) = cache_books c"
  "cache_books (count_hit c) = cache_books c"
  "cache_books (count_miss c) = cache_books c"
  "cache_books (count_disk_hit c) = cache_books c"
  by (simp_all add: cache_books_def count_invalidations_def count_hit_def count_miss_def count_disk_hit_def)

lemma ok_count [simp]:
  "cache_ok (count_invalidations i c) = cache_ok c"
  "cache_ok (count_hit c) = cache_ok c"
  "cache_ok (count_miss c) = cache_ok c"
  "cache_ok (count_disk_hit c) = cache_ok c"
  by (simp_all add: cache_ok_def cache_books_def count_invalidations_def count_hit_def count_miss_def
      count_disk_hit_def split: option.split)

lemma ok_record_access:
  "cache_ok c \<Longrightarrow> bm_get (mc_compiled c) name \<noteq> None \<Longrightarrow> cache_ok (record_access name c)"
  by (auto simp: cache_ok_def cache_books_def record_access_def distinct_removeAll split: option.splits)

lemma books_evict_one:
  assumes "cache_books c" "mc_lru c = v # rest"
  shows "cache_books (evict_one v (c\<lparr>mc_lru := rest\<rparr>))"
proof -
  from assms obtain e where e: "bm_get (mc_compiled c) v = Some e"
    by (auto simp: cache_books_def dom_def set_eq_iff)
  have "set rest = dom (bm_get (mc_compiled c)) - {v}"
    using assms by (auto simp: cache_books_def)
  then show ?thesis
    using assms e total_len_del [of "mc_compiled c" v e]
    by (simp add: evict_one_def count_invalidations_def cache_books_def)
qed

lemma cache_evict_frame [simp]:
  "mc_limit (evict l n c) = mc_limit c" "mc_static (evict l n c) = mc_static c"
  "mc_dynamic (evict l n c) = mc_dynamic c" "mc_disk_dir (evict l n c) = mc_disk_dir c"
proof (induction l n c rule: evict.induct)
  case (1 l n c)
  have f: "mc_limit (evict_one v c) = mc_limit c" "mc_static (evict_one v c) = mc_static c"
    "mc_dynamic (evict_one v c) = mc_dynamic c" "mc_disk_dir (evict_one v c) = mc_disk_dir c" for v c
    by (simp_all add: evict_one_def count_invalidations_def split: option.split)
  {
    case 1 then show ?case using "1.IH"(1) by (subst evict.simps) (auto simp: f split: list.split)
  next
    case 2 then show ?case using "1.IH"(2) by (subst evict.simps) (auto simp: f split: list.split)
  next
    case 3 then show ?case using "1.IH"(3) by (subst evict.simps) (auto simp: f split: list.split)
  next
    case 4 then show ?case using "1.IH"(4) by (subst evict.simps) (auto simp: f split: list.split)
  }
qed

lemma evict_books:
  "cache_books c \<Longrightarrow> len \<le> limit \<Longrightarrow>
   cache_books (evict limit len c) \<and> mc_bytes (evict limit len c) + len \<le> limit
   \<and> bm_get (mc_compiled (evict limit len c)) \<subseteq>\<^sub>m bm_get (mc_compiled c)"
proof (induction limit len c rule: evict.induct)
  case (1 limit len c)
  show ?case
  proof (cases "mc_bytes c + len \<le> limit")
    case True
    with 1 show ?thesis by (subst (1 2 3) evict.simps) simp
  next
    case False
    show ?thesis
    proof (cases "mc_lru c")
      case Nil
      with 1 have "mc_compiled c = []"
        by (auto simp: cache_books_def dom_map_of_conv_image_fst)
      with 1 False show ?thesis by (simp add: cache_books_def total_len_def)
    next
      case (Cons v rest)
      let ?c = "evict_one v (c\<lparr>mc_lru := rest\<rparr>)"
      have "evict limit len c = evict limit len ?c"
        using False Cons by (subst evict.simps) simp
      moreover have "bm_get (mc_compiled ?c) \<subseteq>\<^sub>m bm_get (mc_compiled c)"
        by (auto simp: evict_one_def count_invalidations_def map_le_def split: option.split)
      ultimately show ?thesis
        using "1.IH" [OF False Cons] books_evict_one [OF 1(2) Cons] 1(3) map_le_trans by metis
    qed
  qed
qed

lemma insert_frame [simp]:
  "mc_limit (insert_compiled_source n e c) = mc_limit c"
  "mc_static (insert_compiled_source n e c) = mc_static c"
  "mc_dynamic (insert_compiled_source n e c) = mc_dynamic c"
  "mc_disk_dir (insert_compiled_source n e c) = mc_disk_dir c"
  by (auto simp: insert_compiled_source_def count_invalidations_def record_access_def Let_def split: option.split)

lemma insert_fits:
  assumes "cache_books c" "bm_get (mc_compiled c) n = None"
    "case mc_limit c of Some limit \<Rightarrow> mc_bytes c + entry_len e \<le> limit | None \<Rightarrow> True"
  shows "cache_ok (record_access n (c\<lparr>mc_bytes := mc_bytes c + entry_len e, mc_compiled := bm_put n e (mc_compiled c)\<rparr>))"
proof -
  have "n \<notin> set (mc_lru c)"
    using assms(1,2) by (auto simp: cache_books_def)
  with assms show ?thesis
    by (auto simp: cache_ok_def cache_books_def record_access_def total_len_put split: option.splits)
qed

lemma evicted_books:
  assumes "cache_ok c" "case mc_limit c of Some limit \<Rightarrow> entry_len e \<le> limit | None \<Rightarrow> True"
  defines "c2 \<equiv> (case mc_limit c of Some limit \<Rightarrow> evict limit (entry_len e) c | None \<Rightarrow> c)"
  shows "cache_books c2 \<and> mc_limit c2 = mc_limit c
    \<and> (case mc_limit c2 of Some limit \<Rightarrow> mc_bytes c2 + entry_len e \<le> limit | None \<Rightarrow> True)
    \<and> bm_get (mc_compiled c2) \<subseteq>\<^sub>m bm_get (mc_compiled c)"
  using assms(1,2) evict_books [of c "entry_len e"] unfolding c2_def
  by (auto simp: cache_ok_def split: option.splits)

lemma insert_ok:
  assumes "cache_ok c"
  shows "cache_ok (insert_compiled_source n e c)
    \<and> bm_get (mc_compiled (insert_compiled_source n e c)) \<subseteq>\<^sub>m (bm_get (mc_compiled c))(n \<mapsto> e)"
proof (cases "case mc_limit c of Some limit \<Rightarrow> limit = 0 \<or> limit < entry_len e | None \<Rightarrow> False")
  case True
  have "(bm_get (mc_compiled c))(n := None) \<subseteq>\<^sub>m (bm_get (mc_compiled c))(n \<mapsto> e)"
    by (auto simp: map_le_def)
  with True show ?thesis
    using ok_remove [OF assms, of n] by (simp add: insert_compiled_source_def, simp add: count_invalidations_def)
next
  case False
  let ?c1 = "snd (remove_compiled_source n c)"
  define c2 where "c2 = (case mc_limit ?c1 of Some limit \<Rightarrow> evict limit (entry_len e) ?c1 | None \<Rightarrow> ?c1)"
  have "case mc_limit ?c1 of Some limit \<Rightarrow> entry_len e \<le> limit | None \<Rightarrow> True"
    using False by (simp split: option.splits)
  note ev = evicted_books [OF ok_remove [OF assms] this, folded c2_def]
  then have c2: "cache_books c2" "case mc_limit c2 of Some limit \<Rightarrow> mc_bytes c2 + entry_len e \<le> limit | None \<Rightarrow> True"
    "bm_get (mc_compiled c2) \<subseteq>\<^sub>m (bm_get (mc_compiled c))(n := None)"
    unfolding remove_compiled by blast+
  then have "bm_get (mc_compiled c2) n = None"
    by (metis domI domIff fun_upd_same map_le_implies_dom_le subsetD not_Some_eq)
  note ok = insert_fits [OF c2(1) this c2(2)]
  have "insert_compiled_source n e c = record_access n (c2\<lparr>mc_bytes := mc_bytes c2 + entry_len e,
      mc_compiled := bm_put n e (mc_compiled c2)\<rparr>)"
    using False by (simp only: insert_compiled_source_def if_False Let_def c2_def)
  moreover have "(bm_get (mc_compiled c2))(n \<mapsto> e) \<subseteq>\<^sub>m (bm_get (mc_compiled c))(n \<mapsto> e)"
    using c2(3) by (auto simp: map_le_def dom_def)
  ultimately show ?thesis
    using ok by (simp add: record_access_def)
qed

section \<open>Runs\<close>

text \<open>What happens to the cache: loads, registrations, scrubs, and restarts of the process, which keep
  the disk only.\<close>

datatype cache_op = LoadOp load_world string | RegisterOp bool string "u8 list" | ScrubOp | RestartOp

fun cache_step ::
  "source_tools \<Rightarrow> cache_op \<Rightarrow> module_cache \<times> disk_cache \<Rightarrow> (load_error + u8 list) list \<times> module_cache \<times> disk_cache" where
  "cache_step T (LoadOp W name) (c, disk) = (let (r, c', disk') = load_compiled T W name c disk in ([r], c', disk'))"
| "cache_step T (RegisterOp removes name s) (c, disk) = ([], register_virtual removes name s c, disk)"
| "cache_step T ScrubOp (c, disk) = ([], scrub_modules c, disk)"
| "cache_step T RestartOp (c, disk) =
     ([], with_cache_limit (mc_limit c) (with_disk_cache_dir (mc_disk_dir c) (cache_new (mc_static c))), disk)"

fun cache_run ::
  "source_tools \<Rightarrow> cache_op list \<Rightarrow> module_cache \<times> disk_cache \<Rightarrow> (load_error + u8 list) list \<times> module_cache \<times> disk_cache" where
  "cache_run T [] s = ([], s)"
| "cache_run T (op # ops) s =
     (let (rs, s') = cache_step T op s; (rs', s'') = cache_run T ops s' in (rs @ rs', s''))"

text \<open>The reference compiles anew at every load.\<close>

fun reference_dynamic :: "cache_op \<Rightarrow> (string, u8 list) bmap \<Rightarrow> (string, u8 list) bmap" where
  "reference_dynamic (LoadOp W name) d = d"
| "reference_dynamic (RegisterOp removes name s) d = bm_put name s d"
| "reference_dynamic ScrubOp d = []"
| "reference_dynamic RestartOp d = []"

fun reference_run ::
  "source_tools \<Rightarrow> (string, u8 list) bmap \<Rightarrow> cache_op list \<Rightarrow> (string, u8 list) bmap \<Rightarrow> (load_error + u8 list) list" where
  "reference_run T st [] d = []"
| "reference_run T st (op # ops) d =
     (case op of LoadOp W name \<Rightarrow> [compile_module_source T W st d name] | _ \<Rightarrow> [])
     @ reference_run T st ops (reference_dynamic op d)"

fun versions :: "cache_op list \<Rightarrow> (string, u8 list) bmap \<Rightarrow> (load_world \<times> (string, u8 list) bmap) set" where
  "versions [] d = {}"
| "versions (op # ops) d =
     (case op of LoadOp W name \<Rightarrow> {(W, d)} | _ \<Rightarrow> {}) \<union> versions ops (reference_dynamic op d)"

section \<open>Every operation keeps the invariant\<close>

lemma count_frame [simp]:
  "mc_static (count_invalidations i c) = mc_static c" "mc_dynamic (count_invalidations i c) = mc_dynamic c"
  "mc_disk_dir (count_invalidations i c) = mc_disk_dir c" "mc_limit (count_invalidations i c) = mc_limit c"
  "mc_compiled (count_invalidations i c) = mc_compiled c"
  "mc_static (count_hit c) = mc_static c" "mc_dynamic (count_hit c) = mc_dynamic c"
  "mc_disk_dir (count_hit c) = mc_disk_dir c" "mc_limit (count_hit c) = mc_limit c"
  "mc_compiled (count_hit c) = mc_compiled c"
  "mc_static (count_miss c) = mc_static c" "mc_dynamic (count_miss c) = mc_dynamic c"
  "mc_disk_dir (count_miss c) = mc_disk_dir c" "mc_limit (count_miss c) = mc_limit c"
  "mc_compiled (count_miss c) = mc_compiled c"
  "mc_static (count_disk_hit c) = mc_static c" "mc_dynamic (count_disk_hit c) = mc_dynamic c"
  "mc_disk_dir (count_disk_hit c) = mc_disk_dir c" "mc_limit (count_disk_hit c) = mc_limit c"
  "mc_compiled (count_disk_hit c) = mc_compiled c"
  by (simp_all add: count_invalidations_def count_hit_def count_miss_def count_disk_hit_def)

lemma access_frame [simp]:
  "mc_static (record_access n c) = mc_static c" "mc_dynamic (record_access n c) = mc_dynamic c"
  "mc_disk_dir (record_access n c) = mc_disk_dir c" "mc_limit (record_access n c) = mc_limit c"
  "mc_compiled (record_access n c) = mc_compiled c"
  by (simp_all add: record_access_def)

definition same_config :: "module_cache \<Rightarrow> module_cache \<Rightarrow> bool" where
  "same_config c c' \<longleftrightarrow>
     mc_static c' = mc_static c \<and> mc_disk_dir c' = mc_disk_dir c \<and> mc_limit c' = mc_limit c"

lemma load_missing_ok:
  assumes "cache_ok c" "load_missing T W key n c disk = (r, c', disk')"
  shows "cache_ok c' \<and> same_config c c' \<and> mc_dynamic c' = mc_dynamic c"
  using assms insert_ok
  by (auto simp: load_missing_def Let_def same_config_def split: option.splits sum.splits)

lemma load_ok:
  assumes "cache_ok c" "load_compiled T W n c disk = (r, c', disk')"
  shows "cache_ok c' \<and> same_config c c' \<and> mc_dynamic c' = mc_dynamic c"
proof (cases "bm_get (mc_compiled c) n")
  case None
  with assms(2) have "load_missing T W (module_cache_key T W (mc_static c) (mc_dynamic c) n) n c disk = (r, c', disk')"
    by (simp add: load_compiled_def Let_def)
  with assms(1) show ?thesis by (rule load_missing_ok)
next
  case (Some e)
  show ?thesis
  proof (cases "xe_key e = module_cache_key T W (mc_static c) (mc_dynamic c) n")
    case True
    with Some assms have "c' = record_access n (count_hit c)"
      by (simp add: load_compiled_def Let_def)
    moreover have "cache_ok (record_access n (count_hit c))"
      by (rule ok_record_access) (use assms(1) Some in simp_all)
    ultimately show ?thesis by (simp add: same_config_def)
  next
    case False
    let ?c1 = "count_invalidations 1 (snd (remove_compiled_source n c))"
    from False Some assms(2)
    have "load_missing T W (module_cache_key T W (mc_static c) (mc_dynamic c) n) n ?c1 disk = (r, c', disk')"
      by (simp add: load_compiled_def Let_def)
    moreover have "cache_ok ?c1" using ok_remove [OF assms(1)] by simp
    ultimately show ?thesis
      using load_missing_ok [of ?c1] by (fastforce simp: same_config_def)
  qed
qed

lemma ok_dynamic [simp]: "cache_ok (c\<lparr>mc_dynamic := d\<rparr>) = cache_ok c"
  by (simp add: cache_ok_def cache_books_def split: option.split)

lemma virtual_register_ok:
  assumes "cache_ok c"
  shows "cache_ok (register_virtual removes n s c) \<and> same_config c (register_virtual removes n s c)
    \<and> mc_dynamic (register_virtual removes n s c) = bm_put n s (mc_dynamic c)
    \<and> bm_get (mc_compiled (register_virtual removes n s c)) \<subseteq>\<^sub>m bm_get (mc_compiled c)"
proof -
  let ?c1 = "c\<lparr>mc_dynamic := bm_put n s (mc_dynamic c)\<rparr>"
  obtain o2 c2 where r: "remove_compiled_source n ?c1 = (o2, c2)" by force
  then have c2: "c2 = snd (remove_compiled_source n ?c1)" by simp
  have "cache_ok c2" unfolding c2 by (rule ok_remove) (use assms in simp)
  moreover have "same_config c c2 \<and> mc_dynamic c2 = bm_put n s (mc_dynamic c)
      \<and> bm_get (mc_compiled c2) \<subseteq>\<^sub>m bm_get (mc_compiled c)"
    unfolding c2 by (auto simp: same_config_def map_le_def)
  ultimately show ?thesis
    using assms r
    by (auto simp: register_virtual_def Let_def same_config_def split: option.split)
qed

lemma scrub_step_snd [simp]: "snd (scrub_step spec s) = snd (remove_compiled_source spec (snd s))"
  by (cases s) (auto simp: scrub_step_def split: prod.split option.split)

lemma scrub_fold:
  "cache_ok (snd s) \<Longrightarrow>
   cache_ok (snd (fold scrub_step specs s)) \<and> same_config (snd s) (snd (fold scrub_step specs s))
   \<and> mc_dynamic (snd (fold scrub_step specs s)) = mc_dynamic (snd s)
   \<and> bm_get (mc_compiled (snd (fold scrub_step specs s))) \<subseteq>\<^sub>m bm_get (mc_compiled (snd s))"
proof (induction specs arbitrary: s)
  case (Cons spec specs)
  have "bm_get (mc_compiled (snd (scrub_step spec s))) \<subseteq>\<^sub>m bm_get (mc_compiled (snd s))"
    by (auto simp: map_le_def)
  moreover have "cache_ok (snd (scrub_step spec s))"
    using ok_remove [OF Cons.prems] by simp
  ultimately show ?case
    using Cons.IH [of "scrub_step spec s"] map_le_trans by (fastforce simp: same_config_def)
qed (simp add: same_config_def)

lemma scrub_ok:
  assumes "cache_ok c"
  shows "cache_ok (scrub_modules c) \<and> same_config c (scrub_modules c) \<and> mc_dynamic (scrub_modules c) = []
    \<and> bm_get (mc_compiled (scrub_modules c)) \<subseteq>\<^sub>m bm_get (mc_compiled c)"
proof -
  obtain n c1 where r: "fold scrub_step (map fst (mc_dynamic c)) (0, c\<lparr>mc_dynamic := []\<rparr>) = (n, c1)" by force
  have "scrub_modules c = (if n > 0 then count_invalidations n c1 else c1)"
    using r by (simp add: scrub_modules_def Let_def)
  then show ?thesis
    using scrub_fold [of "(0, c\<lparr>mc_dynamic := []\<rparr>)" "map fst (mc_dynamic c)"] assms
    by (simp add: r same_config_def)
qed

section \<open>Keys determine the compiled source\<close>

definition no_nul :: "string \<Rightarrow> bool" where
  "no_nul n = (0 \<notin> set (bytes_of n))"

text \<open>What the cache relies on, for the versions of the file system and the virtual modules that the
  loads see: SHA-256 has digests of 64 digits and no collision on what is hashed, no name of a virtual
  module has a NUL, and a file with the same length and time of change has the same contents.\<close>

definition virtual_input :: "string \<Rightarrow> u8 list \<Rightarrow> u8 list" where
  "virtual_input name s = bytes_of ''virtual'' @ [0] @ bytes_of name @ [0] @ s"

definition hashed ::
  "source_tools \<Rightarrow> (string, u8 list) bmap \<Rightarrow> (load_world \<times> (string, u8 list) bmap) set \<Rightarrow> u8 list set" where
  "hashed T st V =
     {virtual_input n s | W d n s. (W, d) \<in> V \<and> virtual_source st d n = Some s}
     \<union> {bytes_of k | W d n k. (W, d) \<in> V \<and> module_cache_key T W st d n = Some k}"

definition digests_ok ::
  "source_tools \<Rightarrow> (string, u8 list) bmap \<Rightarrow> (load_world \<times> (string, u8 list) bmap) set \<Rightarrow> bool" where
  "digests_ok T st V \<longleftrightarrow>
     (\<forall>x. length (so_sha256_hex T x) = 64) \<and> inj_on (so_sha256_hex T) (hashed T st V)"

definition virtual_names_ok :: "(string, u8 list) bmap \<Rightarrow> (load_world \<times> (string, u8 list) bmap) set \<Rightarrow> bool" where
  "virtual_names_ok st V \<longleftrightarrow> (\<forall>W d n. (W, d) \<in> V \<longrightarrow> virtual_source st d n \<noteq> None \<longrightarrow> no_nul n)"

definition files_stamped :: "(load_world \<times> (string, u8 list) bmap) set \<Rightarrow> bool" where
  "files_stamped V \<longleftrightarrow>
     (\<forall>W d W' d' n len t. (W, d) \<in> V \<longrightarrow> (W', d') \<in> V \<longrightarrow> lw_is_file W n \<longrightarrow> lw_is_file W' n \<longrightarrow>
        lw_metadata W n = Inr (len, t) \<longrightarrow> lw_metadata W' n = Inr (len, t) \<longrightarrow> lw_open W n = lw_open W' n)"

lemma utf8_inj: "utf8 s = utf8 t \<Longrightarrow> s = t"
proof (induction s arbitrary: t)
  case Nil
  then show ?case by (cases t) (auto simp: utf8_def Let_def split: if_splits)
next
  case (Cons c s)
  let ?n = "of_char c :: nat"
  have n: "?n < 256" by simp
  obtain d u where t: "t = d # u"
    using Cons.prems by (cases t) (auto simp: utf8_def Let_def split: if_splits)
  let ?m = "of_char d :: nat"
  have m: "?m < 256" by simp
  have step: "utf8 (x # xs) = (if (of_char x :: nat) < 128 then [of_char x]
      else [192 + of_char x div 64, 128 + of_char x mod 64]) @ utf8 xs" for x xs
    by (simp add: utf8_def Let_def)
  have "?n = ?m \<and> utf8 s = utf8 u"
  proof (cases "?n < 128")
    case True
    then show ?thesis using Cons.prems unfolding t step by (auto split: if_splits)
  next
    case False
    with Cons.prems have "\<not> ?m < 128" unfolding t step by (auto split: if_splits)
    with False Cons.prems have "?n div 64 = ?m div 64" "?n mod 64 = ?m mod 64" "utf8 s = utf8 u"
      unfolding t step by simp_all
    then show ?thesis by (metis div_mult_mod_eq)
  qed
  then show ?case using Cons.IH [of u] by (simp add: t of_char_eq_iff)
qed

lemma utf8_byte: "b \<in> set (utf8 s) \<Longrightarrow> b < 256"
proof -
  have "192 + of_char c div 64 < (256 :: nat)" for c :: char
  proof -
    have "(of_char c :: nat) < 4 * 64" using nat_of_char_less_256 [of c] by simp
    from less_mult_imp_div_less [OF this] show ?thesis by simp
  qed
  moreover have "128 + of_char c mod 64 < (256 :: nat)" for c :: char
  proof -
    have "of_char c mod 64 < (64 :: nat)" by simp
    then show ?thesis by simp
  qed
  ultimately show "b \<in> set (utf8 s) \<Longrightarrow> b < 256"
    by (auto simp: utf8_def Let_def split: if_splits)
qed

lemma bytes_of_inj: "bytes_of s = bytes_of t \<Longrightarrow> s = t"
proof -
  have "map unat (bytes_of x) = utf8 x" for x
  proof -
    have "unat (word_of_nat b :: u8) = b" if "b \<in> set (utf8 x)" for b
      using utf8_byte [OF that] by (simp add: unat_of_nat)
    then show ?thesis by (simp add: bytes_of_def map_idI)
  qed
  then show "bytes_of s = bytes_of t \<Longrightarrow> s = t" by (metis utf8_inj)
qed

lemma split_first:
  assumes "xs @ c # ys = xs' @ c # ys'" "c \<notin> set xs" "c \<notin> set xs'"
  shows "xs = xs' \<and> ys = ys'"
  using assms
proof (induction xs arbitrary: xs')
  case Nil
  then show ?case by (cases xs') auto
next
  case (Cons x xs)
  then show ?case by (cases xs') auto
qed

lemma split_last:
  assumes "xs @ c # ys = xs' @ c # ys'" "c \<notin> set ys" "c \<notin> set ys'"
  shows "xs = xs' \<and> ys = ys'"
proof -
  have "rev ys @ c # rev xs = rev ys' @ c # rev xs'"
    using arg_cong [OF assms(1), of rev] by simp
  from split_first [OF this] assms(2,3) show ?thesis by simp
qed

lemma show_nat_digits: "CHR '':'' \<notin> set (show_nat n)"
proof (induction n rule: show_nat.induct)
  case (1 n)
  have d: "CHR '':'' \<noteq> char_of (48 + n mod 10)" for n :: nat
  proof
    assume "CHR '':'' = char_of (48 + n mod 10)"
    then have "of_char (CHR '':'') = (of_char (char_of (48 + n mod 10)) :: nat)" by simp
    moreover have "n mod 10 < 10" by simp
    ultimately show False by (simp add: of_char_of)
  qed
  show ?case
  proof (cases "n < 10")
    case True
    then show ?thesis using d [of n] by (subst show_nat.simps) simp
  next
    case False
    then show ?thesis using 1 d [of n] by (subst show_nat.simps) simp
  qed
qed

lemma file_key_inj:
  assumes "n @ '':'' @ show_nat len @ '':'' @ show_nat t = n' @ '':'' @ show_nat len' @ '':'' @ show_nat t'"
  shows "n = n' \<and> len = len' \<and> t = t'"
proof -
  have "(n @ '':'' @ show_nat len) @ CHR '':'' # show_nat t = (n' @ '':'' @ show_nat len') @ CHR '':'' # show_nat t'"
    using assms by simp
  from split_last [OF this] have 1: "n @ '':'' @ show_nat len = n' @ '':'' @ show_nat len'" "show_nat t = show_nat t'"
    by (simp_all add: show_nat_digits)
  then have "n @ CHR '':'' # show_nat len = n' @ CHR '':'' # show_nat len'" by simp
  from split_last [OF this] have "n = n'" "show_nat len = show_nat len'"
    by (simp_all add: show_nat_digits)
  with 1 show ?thesis by (auto dest: show_nat_inj)
qed

lemma virtual_input_inj:
  assumes "virtual_input n s = virtual_input n' s'" "no_nul n" "no_nul n'"
  shows "n = n' \<and> s = s'"
proof -
  have "bytes_of n @ 0 # s = bytes_of n' @ 0 # s'"
    using assms(1) by (simp add: virtual_input_def)
  from split_first [OF this] assms(2,3) show ?thesis
    by (auto simp: no_nul_def dest: bytes_of_inj)
qed

lemma key_virtual:
  "virtual_source st d n = Some s \<Longrightarrow>
   module_cache_key T W st d n = Some (''v3:v:'' @ so_sha256_hex T (virtual_input n s))"
  by (simp add: module_cache_key_def virtual_input_def)

lemma key_file:
  assumes "virtual_source st d n = None" "module_cache_key T W st d n = Some k"
  obtains len t where "lw_is_file W n" "lw_metadata W n = Inr (len, t)"
    "k = ''v3:f:'' @ n @ '':'' @ show_nat len @ '':'' @ show_nat t"
  using assms by (auto simp: module_cache_key_def split: if_splits sum.splits)

lemma no_key_no_source:
  "module_cache_key T W st d n = None \<Longrightarrow> \<exists>e. compile_module_source T W st d n = Inl e"
  by (auto simp: module_cache_key_def compile_module_source_def split: option.splits if_splits sum.splits)

lemma key_determines_source:
  assumes ok: "digests_ok T st V" "virtual_names_ok st V" "files_stamped V"
    and V: "(W, d) \<in> V" "(W', d') \<in> V"
    and k: "module_cache_key T W st d n = Some k" "module_cache_key T W' st d' n' = Some k"
  shows "compile_module_source T W st d n = compile_module_source T W' st d' n'"
proof (cases "virtual_source st d n")
  case v: (Some s)
  then have k1: "k = ''v3:v:'' @ so_sha256_hex T (virtual_input n s)"
    using k(1) by (simp add: key_virtual)
  show ?thesis
  proof (cases "virtual_source st d' n'")
    case v': (Some s')
    then have "so_sha256_hex T (virtual_input n s) = so_sha256_hex T (virtual_input n' s')"
      using k(2) k1 by (simp add: key_virtual)
    moreover have "virtual_input n s \<in> hashed T st V" "virtual_input n' s' \<in> hashed T st V"
      using V v v' unfolding hashed_def by blast+
    ultimately have "virtual_input n s = virtual_input n' s'"
      using ok(1) by (auto simp: digests_ok_def dest: inj_onD)
    moreover have "no_nul n" "no_nul n'"
      using ok(2) V v v' unfolding virtual_names_ok_def by blast+
    ultimately have "n = n' \<and> s = s'" by (rule virtual_input_inj)
    with v v' show ?thesis by (simp add: compile_module_source_def)
  next
    case None
    from key_file [OF this k(2)] k1 show ?thesis by auto
  qed
next
  case v: None
  from key_file [OF v k(1)] obtain len t where
    f: "lw_is_file W n" "lw_metadata W n = Inr (len, t)" "k = ''v3:f:'' @ n @ '':'' @ show_nat len @ '':'' @ show_nat t" .
  show ?thesis
  proof (cases "virtual_source st d' n'")
    case v': None
    from key_file [OF v' k(2)] obtain len' t' where
      f': "lw_is_file W' n'" "lw_metadata W' n' = Inr (len', t')" "k = ''v3:f:'' @ n' @ '':'' @ show_nat len' @ '':'' @ show_nat t'" .
    from f(3) f'(3) have eq: "n = n' \<and> len = len' \<and> t = t'"
      by (intro file_key_inj) simp
    then have "lw_open W n = lw_open W' n"
      using ok(3) V f f' unfolding files_stamped_def by metis
    with eq v v' f f' show ?thesis by (simp add: compile_module_source_def)
  next
    case (Some s')
    then show ?thesis using k(2) f(3) by (simp add: key_virtual)
  qed
qed

lemma disk_path_inj:
  assumes "digests_ok T st V" "(W, d) \<in> V" "(W', d') \<in> V"
    and "module_cache_key T W st d n = Some k" "module_cache_key T W' st d' n' = Some k'"
    and "disk_cache_path T dir k = disk_cache_path T dir k'"
  shows "k = k'"
proof -
  let ?h = "so_sha256_hex T (bytes_of k)" and ?h' = "so_sha256_hex T (bytes_of k')"
  have len: "length (so_sha256_hex T x) = 64" for x
    using assms(1) by (simp add: digests_ok_def)
  have "take 2 ?h @ ''/'' @ ?h @ ''.js'' = take 2 ?h' @ ''/'' @ ?h' @ ''.js''"
    using assms(6) by (simp add: disk_cache_path_def Let_def)
  then have "?h = ?h'" using len by (simp add: append_eq_append_conv)
  moreover have "bytes_of k \<in> hashed T st V" "bytes_of k' \<in> hashed T st V"
    using assms(2-5) unfolding hashed_def by blast+
  ultimately have "bytes_of k = bytes_of k'"
    using assms(1) by (auto simp: digests_ok_def dest: inj_onD)
  then show ?thesis by (rule bytes_of_inj)
qed

section \<open>Caching is not observable\<close>

text \<open>Everything kept, in memory or on disk, is what every version with the same key compiles to.\<close>

definition memory_faithful ::
  "source_tools \<Rightarrow> (string, u8 list) bmap \<Rightarrow> (load_world \<times> (string, u8 list) bmap) set \<Rightarrow> module_cache \<Rightarrow> bool" where
  "memory_faithful T st V c \<longleftrightarrow>
     (\<forall>n e W d. bm_get (mc_compiled c) n = Some e \<longrightarrow> (W, d) \<in> V \<longrightarrow>
        module_cache_key T W st d n = xe_key e \<longrightarrow> compile_module_source T W st d n = Inr (xe_source e))"

definition disk_faithful ::
  "source_tools \<Rightarrow> (string, u8 list) bmap \<Rightarrow> (load_world \<times> (string, u8 list) bmap) set \<Rightarrow> string option \<Rightarrow>
   disk_cache \<Rightarrow> bool" where
  "disk_faithful T st V dir disk \<longleftrightarrow>
     (\<forall>p s W d n k g. dir = Some g \<longrightarrow> bm_get disk p = Some s \<longrightarrow> (W, d) \<in> V \<longrightarrow>
        module_cache_key T W st d n = Some k \<longrightarrow> disk_cache_path T g k = p \<longrightarrow>
        compile_module_source T W st d n = Inr s)"

definition sound_versions ::
  "source_tools \<Rightarrow> (string, u8 list) bmap \<Rightarrow> (load_world \<times> (string, u8 list) bmap) set \<Rightarrow> bool" where
  "sound_versions T st V \<longleftrightarrow> digests_ok T st V \<and> virtual_names_ok st V \<and> files_stamped V"

lemma memory_faithful_subset:
  "memory_faithful T st V c \<Longrightarrow> bm_get (mc_compiled c') \<subseteq>\<^sub>m bm_get (mc_compiled c) \<Longrightarrow> memory_faithful T st V c'"
  unfolding memory_faithful_def map_le_def by (metis domI)

lemma memory_faithful_insert:
  assumes "memory_faithful T st V c" "cache_ok c"
    and "\<And>W d. (W, d) \<in> V \<Longrightarrow> module_cache_key T W st d n = xe_key e \<Longrightarrow>
           compile_module_source T W st d n = Inr (xe_source e)"
  shows "memory_faithful T st V (insert_compiled_source n e c)"
proof -
  have le: "bm_get (mc_compiled (insert_compiled_source n e c)) \<subseteq>\<^sub>m (bm_get (mc_compiled c))(n \<mapsto> e)"
    using insert_ok [OF assms(2)] by blast
  have "((bm_get (mc_compiled c))(n \<mapsto> e)) m = Some x" if "bm_get (mc_compiled (insert_compiled_source n e c)) m = Some x" for m x
    using le that unfolding map_le_def by (metis domI)
  with assms(1,3) show ?thesis
    unfolding memory_faithful_def by (metis fun_upd_apply option.inject)
qed

lemma compile_faithful:
  assumes "sound_versions T st V" "(W, d) \<in> V" "module_cache_key T W st d n = key"
    and "compile_module_source T W st d n = Inr s"
    and "(W', d') \<in> V" "module_cache_key T W' st d' n = key"
  shows "compile_module_source T W' st d' n = Inr s"
proof (cases key)
  case None
  with assms(3,4) no_key_no_source [of T W st d n] show ?thesis by auto
next
  case (Some k)
  then show ?thesis
    using key_determines_source [of T st V W d W' d' n k n] assms by (auto simp: sound_versions_def)
qed

lemma store_faithful:
  assumes sound: "sound_versions T st V" and V: "(W, d) \<in> V" and k: "module_cache_key T W st d n = Some k"
    and s: "compile_module_source T W st d n = Inr s" and disk: "disk_faithful T st V (Some g) disk"
  shows "disk_faithful T st V (Some g) (store_to_disk T W g k s disk)"
proof -
  have "compile_module_source T W' st d' n' = Inr s"
    if "(W', d') \<in> V" "module_cache_key T W' st d' n' = Some k'" "disk_cache_path T g k' = disk_cache_path T g k" for W' d' n' k'
  proof -
    have "k' = k"
      using disk_path_inj [of T st V W' d' W d n' k' n k g] sound that V k by (simp add: sound_versions_def)
    then show ?thesis
      using key_determines_source [of T st V W d W' d' n k n'] sound that V k s by (simp add: sound_versions_def)
  qed
  with disk show ?thesis
    unfolding disk_faithful_def store_to_disk_def by (auto split: if_splits)
qed

lemma load_from_disk_faithful:
  assumes "disk_faithful T st V (mc_disk_dir c) disk" "(W, d) \<in> V"
    and "load_from_disk T W (module_cache_key T W st d n) c disk = Some s"
  shows "compile_module_source T W st d n = Inr s"
  using assms
  by (auto simp: load_from_disk_def try_load_from_disk_def disk_faithful_def split: option.splits if_splits)

lemma load_missing_transparent:
  assumes sound: "sound_versions T st V" and V: "(W, mc_dynamic c) \<in> V" and st: "mc_static c = st"
    and ok: "cache_ok c" and mem: "memory_faithful T st V c"
    and disk: "disk_faithful T st V (mc_disk_dir c) disk"
    and r: "load_missing T W (module_cache_key T W st (mc_dynamic c) n) n c disk = (r, c', disk')"
  shows "r = compile_module_source T W st (mc_dynamic c) n
    \<and> memory_faithful T st V c' \<and> disk_faithful T st V (mc_disk_dir c) disk'"
proof -
  define key where "key = module_cache_key T W st (mc_dynamic c) n"
  have insert: "memory_faithful T st V (insert_compiled_source n \<lparr>xe_key = key, xe_source = s\<rparr> c1)"
    if "compile_module_source T W st (mc_dynamic c) n = Inr s" "cache_ok c1" "memory_faithful T st V c1" for s c1
    by (rule memory_faithful_insert)
      (use compile_faithful [OF sound V _ that(1)] that in \<open>auto simp: key_def\<close>)
  have mem': "memory_faithful T st V (count_disk_hit c)" "memory_faithful T st V (count_miss c)"
    using mem by (simp_all add: memory_faithful_def)
  show ?thesis
  proof (cases "load_from_disk T W key c disk")
    case (Some s)
    then have s: "compile_module_source T W st (mc_dynamic c) n = Inr s"
      using load_from_disk_faithful [OF disk V, of n s] by (simp add: key_def)
    from Some r have "r = Inr s" "disk' = disk"
      "c' = insert_compiled_source n \<lparr>xe_key = key, xe_source = s\<rparr> (count_disk_hit c)"
      by (simp_all add: load_missing_def key_def [symmetric])
    with insert [OF s _ mem'(1)] ok disk s show ?thesis by simp
  next
    case None
    show ?thesis
    proof (cases "compile_module_source T W st (mc_dynamic c) n")
      case (Inl err)
      with None r st have "r = Inl err" "c' = count_miss c" "disk' = disk"
        by (simp_all add: load_missing_def key_def [symmetric] Let_def)
      with Inl mem'(2) disk show ?thesis by simp
    next
      case (Inr s)
      from None r st Inr have e: "r = Inr s" "c' = insert_compiled_source n \<lparr>xe_key = key, xe_source = s\<rparr> (count_miss c)"
        "disk' = (case key of None \<Rightarrow> disk | Some k \<Rightarrow>
            (case mc_disk_dir c of None \<Rightarrow> disk | Some dir \<Rightarrow> store_to_disk T W dir k s disk))"
        by (simp_all add: load_missing_def key_def [symmetric] Let_def cong: option.case_cong)
      have "disk_faithful T st V (mc_disk_dir c) disk'"
        using store_faithful [OF sound V _ Inr] disk unfolding e(3)
        by (auto simp: key_def split: option.split)
      with e insert [OF Inr _ mem'(2)] ok Inr show ?thesis by simp
    qed
  qed
qed

lemma load_transparent:
  assumes sound: "sound_versions T st V" and V: "(W, mc_dynamic c) \<in> V" and st: "mc_static c = st"
    and ok: "cache_ok c" and mem: "memory_faithful T st V c"
    and disk: "disk_faithful T st V (mc_disk_dir c) disk"
    and r: "load_compiled T W n c disk = (r, c', disk')"
  shows "r = compile_module_source T W st (mc_dynamic c) n
    \<and> memory_faithful T st V c' \<and> disk_faithful T st V (mc_disk_dir c) disk'"
proof (cases "bm_get (mc_compiled c) n")
  case None
  with r st have "load_missing T W (module_cache_key T W st (mc_dynamic c) n) n c disk = (r, c', disk')"
    by (simp add: load_compiled_def Let_def)
  from load_missing_transparent [OF sound V st ok mem disk this] show ?thesis .
next
  case (Some e)
  show ?thesis
  proof (cases "xe_key e = module_cache_key T W st (mc_dynamic c) n")
    case True
    with Some r st have "r = Inr (xe_source e)" "c' = record_access n (count_hit c)" "disk' = disk"
      by (simp_all add: load_compiled_def Let_def)
    moreover have "compile_module_source T W st (mc_dynamic c) n = Inr (xe_source e)"
      using mem Some V True by (simp add: memory_faithful_def)
    ultimately show ?thesis
      using mem disk by (simp add: memory_faithful_def)
  next
    case False
    let ?c1 = "count_invalidations 1 (snd (remove_compiled_source n c))"
    from False Some r st
    have r1: "load_missing T W (module_cache_key T W st (mc_dynamic ?c1) n) n ?c1 disk = (r, c', disk')"
      by (simp add: load_compiled_def Let_def)
    have "memory_faithful T st V ?c1"
      by (rule memory_faithful_subset [OF mem]) (simp add: map_le_def)
    from load_missing_transparent [OF sound _ _ _ this _ r1] V st ok_remove [OF ok] disk show ?thesis
      by simp
  qed
qed

definition run_invariant ::
  "source_tools \<Rightarrow> (string, u8 list) bmap \<Rightarrow> (load_world \<times> (string, u8 list) bmap) set \<Rightarrow> module_cache \<Rightarrow>
   disk_cache \<Rightarrow> bool" where
  "run_invariant T st V c disk \<longleftrightarrow>
     cache_ok c \<and> mc_static c = st \<and> memory_faithful T st V c \<and> disk_faithful T st V (mc_disk_dir c) disk"

lemma cache_new_ok [simp]:
  "cache_ok (with_cache_limit l (with_disk_cache_dir dir (cache_new st)))"
  "memory_faithful T st' V (with_cache_limit l (with_disk_cache_dir dir (cache_new st)))"
  "mc_static (with_cache_limit l (with_disk_cache_dir dir (cache_new st))) = st"
  "mc_dynamic (with_cache_limit l (with_disk_cache_dir dir (cache_new st))) = []"
  "mc_disk_dir (with_cache_limit l (with_disk_cache_dir dir (cache_new st))) = dir"
  "mc_limit (with_cache_limit l (with_disk_cache_dir dir (cache_new st))) = l"
  by (simp_all add: cache_ok_def cache_books_def with_cache_limit_def with_disk_cache_dir_def cache_new_def
      total_len_def memory_faithful_def split: option.split)

lemma step_transparent:
  assumes sound: "sound_versions T st V" and V: "versions [op] (mc_dynamic c) \<subseteq> V"
    and inv: "run_invariant T st V c disk" and r: "cache_step T op (c, disk) = (rs, c', disk')"
  shows "rs = reference_run T st [op] (mc_dynamic c) \<and> mc_dynamic c' = reference_dynamic op (mc_dynamic c)
    \<and> same_config c c' \<and> run_invariant T st V c' disk'"
proof (cases op)
  case (LoadOp W n)
  obtain x where l: "load_compiled T W n c disk = (x, c', disk')" "rs = [x]"
    using r LoadOp by (auto split: prod.splits)
  have 1: "cache_ok c' \<and> same_config c c' \<and> mc_dynamic c' = mc_dynamic c"
    using load_ok [OF _ l(1)] inv by (simp add: run_invariant_def)
  have "x = compile_module_source T W st (mc_dynamic c) n
    \<and> memory_faithful T st V c' \<and> disk_faithful T st V (mc_disk_dir c) disk'"
    using load_transparent [OF sound _ _ _ _ _ l(1)] inv V LoadOp by (simp add: run_invariant_def)
  with 1 l inv LoadOp show ?thesis
    by (simp add: run_invariant_def same_config_def)
next
  case (RegisterOp removes n s)
  then have "rs = []" "c' = register_virtual removes n s c" "disk' = disk" using r by simp_all
  with virtual_register_ok [of c removes n s] RegisterOp inv memory_faithful_subset [of T st V c c'] show ?thesis
    by (auto simp: run_invariant_def same_config_def)
next
  case ScrubOp
  then have "rs = []" "c' = scrub_modules c" "disk' = disk" using r by simp_all
  with scrub_ok [of c] ScrubOp inv memory_faithful_subset [of T st V c c'] show ?thesis
    by (auto simp: run_invariant_def same_config_def)
next
  case RestartOp
  then show ?thesis
    using r inv by (auto simp: run_invariant_def same_config_def)
qed

lemma run_transparent:
  "sound_versions T st V \<Longrightarrow> versions ops (mc_dynamic c) \<subseteq> V \<Longrightarrow> run_invariant T st V c disk \<Longrightarrow>
   cache_run T ops (c, disk) = (rs, c', disk') \<Longrightarrow>
   rs = reference_run T st ops (mc_dynamic c) \<and> run_invariant T st V c' disk' \<and> same_config c c'"
proof (induction ops arbitrary: c disk rs)
  case Nil
  then show ?case by (simp add: same_config_def)
next
  case (Cons op ops)
  obtain rs1 c1 disk1 where s: "cache_step T op (c, disk) = (rs1, c1, disk1)" by (metis surj_pair)
  obtain rs2 where r: "cache_run T ops (c1, disk1) = (rs2, c', disk')" "rs = rs1 @ rs2"
    using Cons.prems(4) s by (auto split: prod.splits)
  have V: "versions [op] (mc_dynamic c) \<subseteq> V" "versions ops (reference_dynamic op (mc_dynamic c)) \<subseteq> V"
    using Cons.prems(2) by (auto split: cache_op.splits)
  note 1 = step_transparent [OF Cons.prems(1) V(1) Cons.prems(3) s]
  have "rs2 = reference_run T st ops (mc_dynamic c1) \<and> run_invariant T st V c' disk' \<and> same_config c1 c'"
    using Cons.IH [OF Cons.prems(1) _ _ r(1)] 1 V(2) by simp
  with 1 r(2) show ?case by (simp add: same_config_def)
qed

lemma run_keeps_ok:
  "cache_ok c \<Longrightarrow> cache_run T ops (c, disk) = (rs, c', disk') \<Longrightarrow> cache_ok c' \<and> same_config c c'"
proof (induction ops arbitrary: c disk rs)
  case Nil
  then show ?case by (simp add: same_config_def)
next
  case (Cons op ops)
  obtain rs1 c1 disk1 where s: "cache_step T op (c, disk) = (rs1, c1, disk1)" by (metis surj_pair)
  obtain rs2 where r: "cache_run T ops (c1, disk1) = (rs2, c', disk')"
    using Cons.prems(2) s by (auto split: prod.splits)
  have "cache_ok c1 \<and> same_config c c1"
  proof (cases op)
    case (LoadOp W n)
    then obtain x where "load_compiled T W n c disk = (x, c1, disk1)" using s by (auto split: prod.splits)
    from load_ok [OF Cons.prems(1) this] show ?thesis by simp
  next
    case (RegisterOp removes n t)
    then show ?thesis using s virtual_register_ok [OF Cons.prems(1)] by auto
  next
    case ScrubOp
    then show ?thesis using s scrub_ok [OF Cons.prems(1)] by auto
  next
    case RestartOp
    then show ?thesis using s by (auto simp: same_config_def)
  qed
  then show ?case using Cons.IH [OF _ r] by (simp add: same_config_def)
qed

text \<open>C8 (equivalence): The caches are not observable: over every sequence of loads, registrations of
  virtual modules, scrubs and restarts of the process, with whatever limit, disk and failures of it,
  each load gives what compiling the module anew at that moment gives, errors included, if files with
  the same length and time of change have the same contents, virtual modules have no NUL in their
  names, and SHA-256 does not collide on what the run hashes.\<close>

theorem caching_is_transparent:
  assumes "sound_versions T st (versions ops [])"
    and "cache_run T ops (with_cache_limit l (with_disk_cache_dir dir (cache_new st)), []) = (rs, c, disk)"
  shows "rs = reference_run T st ops []"
proof -
  have "run_invariant T st (versions ops []) (with_cache_limit l (with_disk_cache_dir dir (cache_new st))) []"
    by (simp add: run_invariant_def disk_faithful_def)
  with run_transparent [OF assms(1) _ _ assms(2)] show ?thesis by simp
qed

text \<open>C9 (bounds): After every run the cache in memory holds at most the limit of bytes, the byte
  count is the sum of what is held, and the order of use lists exactly the modules held, each once.\<close>

theorem module_cache_is_bounded:
  assumes "cache_run T ops (with_cache_limit l (with_disk_cache_dir dir (cache_new st)), disk) = (rs, c, disk')"
  shows "(case l of Some limit \<Rightarrow> mc_bytes c \<le> limit | None \<Rightarrow> True)
    \<and> mc_bytes c = (\<Sum>x \<leftarrow> mc_compiled c. length (xe_source (snd x)))
    \<and> distinct (mc_lru c) \<and> set (mc_lru c) = fst ` set (mc_compiled c)"
proof -
  have "cache_ok c" "mc_limit c = l"
    using run_keeps_ok [OF _ assms] by (simp_all add: same_config_def)
  then show ?thesis
    by (simp add: cache_ok_def cache_books_def total_len_def entry_len_def dom_map_of_conv_image_fst
        split: option.splits)
qed

text \<open>The eviction takes the least recently used entries, and the entry just used is the last to go.\<close>

lemma evict_takes_oldest: "suffix (mc_lru (evict limit len c)) (mc_lru c)"
proof (induction limit len c rule: evict.induct)
  case (1 limit len c)
  show ?case
  proof (cases "mc_bytes c + len \<le> limit \<or> mc_lru c = []")
    case True
    then show ?thesis by (subst evict.simps) (auto simp: suffix_def)
  next
    case False
    then obtain v rest where v: "mc_lru c = v # rest" by (cases "mc_lru c") auto
    with False have "suffix (mc_lru (evict limit len (evict_one v (c\<lparr>mc_lru := rest\<rparr>)))) rest"
      using "1.IH" by fastforce
    with False v show ?thesis by (subst evict.simps) (auto intro: suffix_ConsI)
  qed
qed

section \<open>Samples\<close>

definition sample_tools :: source_tools where
  "sample_tools =
     \<lparr>so_transpile = \<lambda>raw n. Inr raw, so_cjs_to_esm = \<lambda>raw. raw, so_private = \<lambda>raw. raw,
      so_json_to_esm = \<lambda>raw n. Inr raw, so_quote = \<lambda>s. s,
      so_sha256_hex = \<lambda>x. replicate 63 CHR ''0'' @ [char_of (length x)]\<rparr>"

definition sample_world :: "nat \<Rightarrow> u8 list \<Rightarrow> load_world" where
  "sample_world t contents =
     \<lparr>lw_is_file = \<lambda>n. n = ''/a.js'', lw_metadata = \<lambda>n. Inr (length contents, t), lw_open = \<lambda>n. Inr contents,
      lw_disk_readable = True, lw_disk_writable = True\<rparr>"

definition sample_loads :: "cache_op list" where
  "sample_loads =
     [LoadOp (sample_world 7 [65]) ''/a.js'', LoadOp (sample_world 17 [66]) ''/a.js'', RestartOp,
      LoadOp (sample_world 17 [66]) ''/a.js'', LoadOp (sample_world 17 [66]) ''/b.js'']"

lemma sample_versions: "versions sample_loads [] = {(sample_world 7 [65], []), (sample_world 17 [66], [])}"
  by (auto simp: sample_loads_def)

lemma sample_keys:
  "module_cache_key sample_tools (sample_world t x) [] [] n =
     (if n = ''/a.js'' then Some (''v3:f:/a.js:'' @ show_nat (length x) @ '':'' @ show_nat t) else None)"
  by (simp add: module_cache_key_def virtual_source_def sample_world_def)

lemma sample_sound: "sound_versions sample_tools [] (versions sample_loads [])"
proof -
  have d: "show_nat (Suc 0) = ''1''" "show_nat 7 = ''7''" "show_nat 17 = ''17''" by code_simp+
  have "hashed sample_tools [] (versions sample_loads []) \<subseteq>
      {bytes_of ''v3:f:/a.js:1:7'', bytes_of ''v3:f:/a.js:1:17''}"
    unfolding sample_versions hashed_def
    by (auto simp: virtual_source_def sample_keys d split: if_splits)
  moreover have "inj_on (so_sha256_hex sample_tools) {bytes_of ''v3:f:/a.js:1:7'', bytes_of ''v3:f:/a.js:1:17''}"
    by (simp add: inj_on_def sample_tools_def bytes_of_def utf8_def Let_def)
  ultimately have "inj_on (so_sha256_hex sample_tools) (hashed sample_tools [] (versions sample_loads []))"
    by (rule inj_on_subset [rotated])
  moreover have "files_stamped (versions sample_loads [])"
    unfolding sample_versions files_stamped_def by (auto simp: sample_world_def)
  ultimately show ?thesis
    by (simp add: sound_versions_def digests_ok_def virtual_names_ok_def virtual_source_def sample_versions,
        simp add: sample_tools_def)
qed

theorem caching_is_transparent_witness:
  "fst (cache_run sample_tools sample_loads (with_cache_limit (Some 40) (with_disk_cache_dir (Some ''/c'') (cache_new [])), []))
     = reference_run sample_tools [] sample_loads []"
proof -
  obtain rs c disk where r: "cache_run sample_tools sample_loads
      (with_cache_limit (Some 40) (with_disk_cache_dir (Some ''/c'') (cache_new [])), []) = (rs, c, disk)"
    by (metis surj_pair)
  from caching_is_transparent [OF sample_sound r] r show ?thesis by simp
qed

theorem module_cache_is_bounded_witness:
  "distinct (mc_lru (fst (snd (cache_run sample_tools sample_loads
     (with_cache_limit (Some 40) (with_disk_cache_dir (Some ''/c'') (cache_new [])), [])))))"
proof -
  obtain rs c disk where r: "cache_run sample_tools sample_loads
      (with_cache_limit (Some 40) (with_disk_cache_dir (Some ''/c'') (cache_new [])), []) = (rs, c, disk)"
    by (metis surj_pair)
  from module_cache_is_bounded [OF r] r show ?thesis by simp
qed

text \<open>The key of a file does not depend on its contents: an edit that keeps length and time of change is
  not seen, which is why \<^const>\<open>files_stamped\<close> is assumed.\<close>

lemma file_key_ignores_contents:
  "lw_is_file W' = lw_is_file W \<Longrightarrow> lw_metadata W' = lw_metadata W \<Longrightarrow>
   module_cache_key T W' st d n = module_cache_key T W st d n"
  by (simp add: module_cache_key_def split: option.split)

lemma same_key_gives_kept_source:
  "bm_get (mc_compiled c) n = Some e \<Longrightarrow> xe_key e = module_cache_key T W (mc_static c) (mc_dynamic c) n \<Longrightarrow>
   fst (load_compiled T W n c disk) = Inr (xe_source e)"
  by (simp add: load_compiled_def Let_def)

text \<open>Every load is a hit, a disk hit or a miss, and exactly one of them.\<close>

definition loads_counted :: "module_cache \<Rightarrow> nat" where
  "loads_counted c = unat (ct_hits (mc_counters c)) + unat (ct_disk_hits (mc_counters c)) + unat (ct_misses (mc_counters c))"

lemma counters_insert:
  "ct_hits (mc_counters (insert_compiled_source n e c)) = ct_hits (mc_counters c)
   \<and> ct_disk_hits (mc_counters (insert_compiled_source n e c)) = ct_disk_hits (mc_counters c)
   \<and> ct_misses (mc_counters (insert_compiled_source n e c)) = ct_misses (mc_counters c)"
proof -
  have "ct_hits (mc_counters (evict l k c)) = ct_hits (mc_counters c)
     \<and> ct_disk_hits (mc_counters (evict l k c)) = ct_disk_hits (mc_counters c)
     \<and> ct_misses (mc_counters (evict l k c)) = ct_misses (mc_counters c)" for l k c
  proof (induction l k c rule: evict.induct)
    case (1 l k c)
    have f: "ct_hits (mc_counters (evict_one v c)) = ct_hits (mc_counters c)
       \<and> ct_disk_hits (mc_counters (evict_one v c)) = ct_disk_hits (mc_counters c)
       \<and> ct_misses (mc_counters (evict_one v c)) = ct_misses (mc_counters c)" for v c
      by (simp add: evict_one_def count_invalidations_def split: option.split)
    show ?case using 1 by (subst (1 2 3) evict.simps) (auto simp: f split: list.split)
  qed
  then show ?thesis
    by (auto simp: insert_compiled_source_def Let_def count_invalidations_def record_access_def split: option.split)
qed

lemma unat_sat_inc_small: "unat i < 2 ^ 64 - 1 \<Longrightarrow> unat (sat_inc i) = unat i + 1"
  by (simp add: sat_inc_def unat_sat_add)

lemma loads_counted_frame [simp]:
  "loads_counted (insert_compiled_source n e c) = loads_counted c"
  "loads_counted (record_access n c) = loads_counted c"
  "loads_counted (count_invalidations i c) = loads_counted c"
  "loads_counted (snd (remove_compiled_source n c)) = loads_counted c"
  using counters_insert [of n e c]
  by (simp_all add: loads_counted_def record_access_def count_invalidations_def)

lemma loads_counted_inc:
  "loads_counted c < 2 ^ 64 - 1 \<Longrightarrow> loads_counted (count_hit c) = loads_counted c + 1"
  "loads_counted c < 2 ^ 64 - 1 \<Longrightarrow> loads_counted (count_disk_hit c) = loads_counted c + 1"
  "loads_counted c < 2 ^ 64 - 1 \<Longrightarrow> loads_counted (count_miss c) = loads_counted c + 1"
  by (simp_all add: loads_counted_def count_hit_def count_disk_hit_def count_miss_def unat_sat_inc_small)

lemma load_is_counted_once:
  assumes "loads_counted c < 2 ^ 64 - 1" "load_compiled T W n c disk = (r, c', disk')"
  shows "loads_counted c' = loads_counted c + 1"
proof -
  have m: "loads_counted d < 2 ^ 64 - 1 \<Longrightarrow> load_missing T W key n d disk = (r, c', disk') \<Longrightarrow>
      loads_counted c' = loads_counted d + 1" for d key
    by (auto simp: load_missing_def Let_def loads_counted_inc split: option.splits sum.splits)
  show ?thesis
    using assms m [of c] m [of "count_invalidations 1 (snd (remove_compiled_source n c))"]
    by (auto simp: load_compiled_def Let_def loads_counted_inc split: option.splits if_splits)
qed

end
