(* ===== verification/Module_Resolve.thy ===== *)
theory Module_Resolve
  imports Extension_Fs Repair_Evidence Module_Cache
begin

text \<open>
  The resolution of imports (\<^verbatim>\<open>runtime.rs: PiJsResolver\<close>): canonical names of virtual modules, the
  search for a module file inside the extension's roots, the repairs that the mode permits (build
  output replaced by its source, stubs of sibling packages and of missing packages) and the errors.
  The regular expressions for import lists, the fixed texts of generated modules, SHA-256, parsers
  and the file system are parameters. A path is its text where the text is asked for; a text made of
  components has neither repeated separators nor inner dots.
\<close>

section \<open>Specifiers\<close>

definition node_builtins :: "string list" where
  "node_builtins =
     [''fs'', ''fs/promises'', ''path'', ''os'', ''child_process'', ''crypto'', ''http'', ''https'', ''http2'',
      ''timers'', ''util'', ''readline'', ''readline/promises'', ''url'', ''net'', ''dns/promises'', ''events'',
      ''buffer'', ''assert'', ''assert/strict'', ''test'', ''stream'', ''stream/web'', ''module'', ''string_decoder'',
      ''querystring'', ''process'', ''stream/promises'', ''constants'', ''tls'', ''tty'', ''zlib'', ''perf_hooks'',
      ''vm'', ''v8'', ''worker_threads'']"

definition canonical_node_builtin :: "string \<Rightarrow> string option" where
  "canonical_node_builtin spec =
     (if spec \<in> set node_builtins then Some (''node:'' @ spec)
      else if spec \<in> set (map (\<lambda>b. ''node:'' @ b) node_builtins) then Some spec
      else None)"

definition canonical_virtual_module_specifier :: "string \<Rightarrow> string" where
  "canonical_virtual_module_specifier spec =
     (case canonical_node_builtin spec of Some c \<Rightarrow> c
      | None \<Rightarrow>
          if spec = ''@earendil-works/pi-coding-agent'' then ''@mariozechner/pi-coding-agent''
          else if spec = ''@earendil-works/pi-tui'' then ''@mariozechner/pi-tui''
          else if spec \<in> set [''@earendil-works/pi-ai'', ''@earendil-works/pi-ai/compat'',
                 ''@earendil-works/pi-agent-core'', ''@mariozechner/pi-agent-core''] then ''@mariozechner/pi-ai''
          else if spec = ''typebox'' then ''@sinclair/typebox''
          else spec)"

definition is_network_specifier :: "string \<Rightarrow> bool" where
  "is_network_specifier spec =
     (text_starts_with spec ''http://'' \<or> text_starts_with spec ''https://''
      \<or> text_starts_with spec ''http:'' \<or> text_starts_with spec ''https:'')"

definition is_bare_package_specifier :: "string \<Rightarrow> bool" where
  "is_bare_package_specifier spec =
     (if text_starts_with spec ''./'' \<or> text_starts_with spec ''../'' \<or> text_starts_with spec ''/''
         \<or> text_starts_with spec ''file://'' \<or> text_starts_with spec ''node:'' then False
      else CHR '':'' \<notin> set spec)"

definition unsupported_module_specifier_message :: "string \<Rightarrow> string" where
  "unsupported_module_specifier_message spec =
     (if is_network_specifier spec then ''Network module imports are not supported in PiJS: '' @ spec
      else if is_bare_package_specifier spec then ''Package module specifiers are not supported in PiJS: '' @ spec
      else ''Unsupported module specifier: '' @ spec)"

definition package_scope :: "string \<Rightarrow> string option" where
  "package_scope spec = map_option fst (split_scoped_package spec)"

definition is_proxy_blocklisted_package :: "string \<Rightarrow> bool" where
  "is_proxy_blocklisted_package spec =
     (text_starts_with spec ''node:''
      \<or> hd (split_slash spec) \<in> set [''fs'', ''path'', ''child_process'', ''net'', ''http'', ''https'', ''crypto'',
          ''tls'', ''dgram'', ''dns'', ''vm'', ''worker_threads'', ''cluster'', ''module'', ''os'', ''process''])"

definition is_proxy_allowlisted_package :: "string \<Rightarrow> bool" where
  "is_proxy_allowlisted_package spec =
     (spec \<in> set [''openai'', ''adm-zip'', ''linkedom'', ''p-limit'', ''unpdf'', ''node-pty'', ''chokidar'', ''jsdom'',
        ''turndown'', ''beautiful-mermaid'']
      \<or> (case split_scoped_package spec of None \<Rightarrow> False
         | Some (scope, package) \<Rightarrow>
             scope \<in> set [''@sourcegraph'', ''@marckrenn'', ''@aliou''] \<or> text_starts_with package ''pi-''))"

section \<open>State and environment\<close>

record resolver =
  rv_cache :: module_cache
  rv_exports :: "(string, string list) bmap"    \<comment> \<open>names of the exports, in order\<close>
  rv_mode :: repair_mode
  rv_scan :: bool
  rv_roots :: ext_roots
  rv_events :: "repair_event list"

record resolve_env =
  rn_view :: fs_view
  rn_is_file :: "string \<Rightarrow> bool"
  rn_is_dir :: "string \<Rightarrow> bool"
  rn_source :: "string \<Rightarrow> string option"       \<comment> \<open>the first MiB of a file\<close>
  rn_esm_imports :: "string \<Rightarrow> (string \<times> string) list"   \<comment> \<open>import lists with their specifiers\<close>
  rn_cjs_imports :: "string \<Rightarrow> (string \<times> string) list"
  rn_read_to_string :: "path \<Rightarrow> string + string"
  rn_parse_ts :: "bool \<Rightarrow> string \<Rightarrow> string option"
  rn_parse_json :: "string \<Rightarrow> string option"
  rn_sha256_hex :: "string \<Rightarrow> string"
  rn_proxy_prelude :: "string \<Rightarrow> string"
  rn_overlay_prelude :: "string \<Rightarrow> string"
  rn_active :: "string option"                 \<comment> \<open>the extension that runs\<close>

definition is_virtual :: "resolver \<Rightarrow> string \<Rightarrow> bool" where
  "is_virtual st name =
     (virtual_source (mc_static (rv_cache st)) (mc_dynamic (rv_cache st)) name \<noteq> None)"

section \<open>Packages that may be stubbed\<close>

definition resolve_extension_root_for_base :: "fs_view \<Rightarrow> string \<Rightarrow> path list \<Rightarrow> path option" where
  "resolve_extension_root_for_base V base roots =
     (let canonical_base = safe_canonicalize V (path_of base)
      in max_by_depth (filter (\<lambda>root. starts_with canonical_base (safe_canonicalize V root)) roots))"

definition should_auto_stub_package ::
  "fs_view \<Rightarrow> string \<Rightarrow> string \<Rightarrow> path list \<Rightarrow> (path \<Rightarrow> source_tier option) \<Rightarrow> (path \<Rightarrow> string option) \<Rightarrow> bool" where
  "should_auto_stub_package V spec base roots tiers scopes =
     (if \<not> is_bare_package_specifier spec \<or> is_proxy_blocklisted_package spec then False
      else
        let root = resolve_extension_root_for_base V base roots;
            tier = (case root of None \<Rightarrow> UnknownTier
                    | Some r \<Rightarrow> (case tiers r of Some t \<Rightarrow> t | None \<Rightarrow> UnknownTier));
            same_scope = (case (package_scope spec, Option.bind root scopes) of
                            (Some s, Some x) \<Rightarrow> x = s | _ \<Rightarrow> False)
        in is_proxy_allowlisted_package spec \<or> same_scope \<or> tier \<noteq> Official)"

section \<open>Generated modules\<close>

definition name_start_char :: "char \<Rightarrow> bool" where
  "name_start_char c =
     (let n = of_char c :: nat
      in c = CHR ''_'' \<or> c = CHR ''$'' \<or> 65 \<le> n \<and> n \<le> 90 \<or> 97 \<le> n \<and> n \<le> 122)"

definition is_valid_js_export_name :: "string \<Rightarrow> bool" where
  "is_valid_js_export_name name =
     (case name of [] \<Rightarrow> False
      | first # rest \<Rightarrow>
          name_start_char first
          \<and> list_all (\<lambda>c. name_start_char c \<or> (let n = of_char c :: nat in 48 \<le> n \<and> n \<le> 57)) rest)"

definition named_export :: "string \<Rightarrow> bool" where
  "named_export name = (name \<noteq> ''default'' \<and> name \<noteq> ''__esModule'' \<and> is_valid_js_export_name name)"

definition generate_proxy_stub_module :: "resolve_env \<Rightarrow> string \<Rightarrow> string list \<Rightarrow> string" where
  "generate_proxy_stub_module E spec named_exports =
     rn_proxy_prelude E spec
     @ concat (map (\<lambda>name. ''export const '' @ name @ '' = __stub;'' @ [CHR 10]) (filter named_export named_exports))
     @ ''export default __stub;'' @ [CHR 10] @ ''export const __pijs_proxy_stub = __stub;'' @ [CHR 10]
     @ ''export const __esModule = true;'' @ [CHR 10]"

definition generate_builtin_compat_overlay_module :: "resolve_env \<Rightarrow> string \<Rightarrow> string list \<Rightarrow> string" where
  "generate_builtin_compat_overlay_module E canonical named_exports =
     rn_overlay_prelude E canonical
     @ concat (map (\<lambda>name. ''export const '' @ name @ '' = __pijs_builtin_ns.'' @ name @ '' !== undefined ? __pijs_builtin_ns.''
          @ name @ '' : (__pijs_builtin_default && __pijs_builtin_default.'' @ name @ '');'' @ [CHR 10])
         (filter named_export named_exports))
     @ ''export const __esModule = true;'' @ [CHR 10]"

definition ascii_upper_char :: "char \<Rightarrow> bool" where
  "ascii_upper_char c = (let n = of_char c :: nat in 65 \<le> n \<and> n \<le> 90)"

definition monorepo_export :: "string \<Rightarrow> string" where
  "monorepo_export name =
     (if name = ''default'' then ''export default () => {};''
      else if list_all (\<lambda>c. ascii_upper_char c \<or> c = CHR ''_'') name \<and> name \<noteq> []
      then ''export const '' @ name @ '' = [];''
      else if list_ex (text_starts_with name) [''is'', ''has'', ''check'']
      then ''export const '' @ name @ '' = () => false;''
      else if list_ex (text_starts_with name) [''get'', ''detect'', ''find'', ''create'', ''make'']
      then ''export const '' @ name @ '' = () => ({});''
      else if name \<noteq> [] \<and> ascii_upper_char (hd name) then ''export class '' @ name @ '' {}''
      else ''export const '' @ name @ '' = () => {};'')"

fun joined_lines :: "string list \<Rightarrow> string" where
  "joined_lines [] = []"
| "joined_lines [l] = l"
| "joined_lines (l # k # ls) = l @ CHR 10 # joined_lines (k # ls)"

definition generate_monorepo_stub :: "string list \<Rightarrow> string" where
  "generate_monorepo_stub names =
     joined_lines (''// Auto-generated monorepo escape stub (Pattern 3)''
                 # map monorepo_export (filter is_valid_js_export_name names))"

section \<open>Import lists\<close>

primrec split_char :: "char \<Rightarrow> string \<Rightarrow> string list" where
  "split_char d [] = [[]]"
| "split_char d (c # s) =
     (if c = d then [] # split_char d s
      else case split_char d s of [] \<Rightarrow> [[c]] | h # t \<Rightarrow> (c # h) # t)"

definition parse_import_list :: "string \<Rightarrow> string list" where
  "parse_import_list raw =
     map (takeWhile (\<lambda>c. \<not> is_whitespace c))
       (filter (\<lambda>item. item \<noteq> [] \<and> \<not> text_starts_with item ''type '' \<and> \<not> text_starts_with item (''type'' @ [CHR 9]))
         (map trim (split_char (CHR '','') raw)))"

definition extract_import_names :: "resolve_env \<Rightarrow> string \<Rightarrow> string \<Rightarrow> string list" where
  "extract_import_names E src wanted =
     (let lists = (\<lambda>captures. concat (map (\<lambda>(names, spec). if spec = wanted then parse_import_list names else []) captures))
      in remdups_adj (sort (lists (rn_esm_imports E src) @ lists (rn_cjs_imports E src))))"

definition set_insert :: "string \<Rightarrow> string list \<Rightarrow> string list" where
  "set_insert x xs = (if x \<in> set xs then xs else insort x xs)"

definition strip_node :: "string \<Rightarrow> string option" where
  "strip_node s = (if text_starts_with s ''node:'' then Some (drop 5 s) else None)"

definition builtin_specifier_aliases :: "string \<Rightarrow> string \<Rightarrow> string list" where
  "builtin_specifier_aliases spec canonical =
     (let push = (\<lambda>candidate aliases. if candidate = [] then aliases else push_new candidate aliases);
          push_bare = (\<lambda>s aliases. case strip_node s of Some bare \<Rightarrow> push bare aliases | None \<Rightarrow> aliases)
      in push_bare canonical (push_bare spec (push canonical (push spec []))))"

definition extract_builtin_import_names :: "resolve_env \<Rightarrow> string \<Rightarrow> string \<Rightarrow> string \<Rightarrow> string list" where
  "extract_builtin_import_names E src spec canonical =
     fold set_insert
       (filter named_export (concat (map (extract_import_names E src) (builtin_specifier_aliases spec canonical)))) []"

section \<open>Finding the file\<close>

definition with_extension :: "path \<Rightarrow> string \<Rightarrow> path" where
  "with_extension p ext =
     (case file_name p of None \<Rightarrow> p
      | Some n \<Rightarrow>
          butlast p @ [Normal ((case path_extension p of Some x \<Rightarrow> take (length n - length x - 1) n | None \<Rightarrow> n)
                               @ ''.'' @ ext)])"

text \<open>\<^verbatim>\<open>dir.join(s)\<close> as text.\<close>

definition join_text :: "path \<Rightarrow> string \<Rightarrow> string" where
  "join_text dir s =
     (if take 1 s = ''/'' \<or> dir = [] then s
      else if last dir = RootDir then path_text dir @ s
      else path_text dir @ ''/'' @ s)"

definition path_parent :: "path \<Rightarrow> path option" where
  "path_parent p = (if p = [] \<or> last p = RootDir then None else Some (butlast p))"

definition resolve_existing_file :: "resolve_env \<Rightarrow> string \<Rightarrow> string option" where
  "resolve_existing_file E p = (if rn_is_file E p then Some p else None)"

definition resolve_existing_module_candidate :: "resolve_env \<Rightarrow> string \<Rightarrow> string option" where
  "resolve_existing_module_candidate E p =
     (if rn_is_file E p then Some p
      else if rn_is_dir E p
      then find (rn_is_file E) (map (join_text (path_of p))
             [''index.ts'', ''index.tsx'', ''index.jsx'', ''index.cts'', ''index.mts'', ''index.js'', ''index.mjs'',
              ''index.cjs'', ''index.json''])
      else
        let try_ext = (\<lambda>exts. find (rn_is_file E) (map (\<lambda>x. path_text (with_extension (path_of p) x)) exts))
        in case path_extension (path_of p) of
             Some x \<Rightarrow>
               if x \<in> set [''js'', ''mjs'', ''cjs'', ''jsx''] then try_ext [''ts'', ''tsx'', ''cts'', ''mts''] else None
           | None \<Rightarrow> try_ext [''ts'', ''tsx'', ''jsx'', ''cts'', ''mts'', ''js'', ''mjs'', ''cjs'', ''json''])"

definition inside_roots :: "path list \<Rightarrow> path \<Rightarrow> bool" where
  "inside_roots roots p = list_ex (starts_with p) roots"

text \<open>The position of the first occurrence.\<close>

fun find_text :: "string \<Rightarrow> string \<Rightarrow> nat option" where
  "find_text needle [] = (if needle = [] then Some 0 else None)"
| "find_text needle (c # s) =
     (if text_starts_with (c # s) needle then Some 0 else map_option Suc (find_text needle s))"

definition slashes :: "string \<Rightarrow> string" where
  "slashes = map (\<lambda>c. if c = CHR 0x5C then CHR ''/'' else c)"

definition try_dist_to_src_fallback :: "resolve_env \<Rightarrow> string \<Rightarrow> string option" where
  "try_dist_to_src_fallback E path_str =
     (case find_text ''/dist/'' (slashes path_str) of None \<Rightarrow> None
      | Some idx \<Rightarrow>
          let ext_root = path_of (take idx path_str);
              candidate = take idx path_str @ ''/src/'' @ drop (idx + 6) path_str
          in case resolve_existing_module_candidate E candidate of None \<Rightarrow> None
             | Some located \<Rightarrow>
                 if verify_repair_monotonicity (rn_view E) ext_root (path_of path_str) (path_of located) \<noteq> SafeVerdict
                 then None
                 else if \<not> structural_is_valid
                        (validate_repaired_artifact (rn_read_to_string E) (rn_parse_ts E) (rn_parse_json E) (path_of located))
                 then None
                 else Some located)"

text \<open>\<^verbatim>\<open>C:/\<close> and the like.\<close>

definition drive_path :: "string \<Rightarrow> bool" where
  "drive_path s =
     (2 < length (utf8 s) \<and> utf8 s ! 1 = 58 \<and> (utf8 s ! 2 = 47 \<or> utf8 s ! 2 = 92))"

definition canonical_inside :: "resolve_env \<Rightarrow> path list \<Rightarrow> string \<Rightarrow> bool" where
  "canonical_inside E roots p = inside_roots roots (safe_canonicalize (rn_view E) (path_of p))"

definition checked :: "resolve_env \<Rightarrow> path list \<Rightarrow> string option \<Rightarrow> string option" where
  "checked E roots found =
     (case found of None \<Rightarrow> None | Some p \<Rightarrow> if canonical_inside E roots p then Some p else None)"

definition requested_path :: "string \<Rightarrow> string \<Rightarrow> string option" where
  "requested_path base wanted =
     (if text_starts_with wanted ''/'' \<or> drive_path wanted then Some wanted
      else if text_starts_with wanted ''.''
      then map_option (\<lambda>dir. join_text dir wanted) (path_parent (path_of base))
      else None)"

definition resolve_module_path :: "resolve_env \<Rightarrow> string \<Rightarrow> string \<Rightarrow> repair_mode \<Rightarrow> path list \<Rightarrow> string option" where
  "resolve_module_path E base spec mode roots =
     (let wanted = trim spec
      in if wanted = [] then None
         else if text_starts_with wanted ''file://'' then
           (let p = drop 7 wanted
            in if roots = [] \<or> \<not> canonical_inside E roots p then None
               else checked E roots (resolve_existing_file E p))
         else case requested_path base wanted of None \<Rightarrow> None
           | Some p \<Rightarrow>
               if roots = [] \<or> \<not> canonical_inside E roots p then None
               else case resolve_existing_module_candidate E p of
                 Some located \<Rightarrow> checked E roots (Some located)
               | None \<Rightarrow> if should_apply mode then checked E roots (try_dist_to_src_fallback E p) else None)"

definition detect_monorepo_escape :: "resolve_env \<Rightarrow> string \<Rightarrow> string \<Rightarrow> path list \<Rightarrow> string option" where
  "detect_monorepo_escape E base wanted roots =
     (if \<not> text_starts_with wanted ''.'' then None
      else case path_parent (path_of base) of None \<Rightarrow> None
        | Some base_dir \<Rightarrow>
            let located = join_text base_dir wanted;
                effective = safe_canonicalize (rn_view E) (path_of located)
            in case nearest_containing_root (rn_view E) (path_of base) roots of
                 Some base_root \<Rightarrow> if starts_with effective base_root then None else Some located
               | None \<Rightarrow> if inside_roots roots effective then None else Some located)"

section \<open>Resolution\<close>

definition builtin_overlay_module_key :: "resolve_env \<Rightarrow> string \<Rightarrow> string \<Rightarrow> string" where
  "builtin_overlay_module_key E base canonical =
     ''pijs-compat://builtin/'' @ canonical @ ''/'' @ take 16 (rn_sha256_hex E base)"

definition maybe_register_builtin_compat_overlay ::
  "resolve_env \<Rightarrow> string \<Rightarrow> string \<Rightarrow> string \<Rightarrow> resolver \<Rightarrow> string option \<times> resolver" where
  "maybe_register_builtin_compat_overlay E base spec canonical st =
     (if \<not> text_starts_with canonical ''node:'' then (None, st)
      else case rn_source E base of None \<Rightarrow> (None, st)
        | Some src \<Rightarrow>
            let names = extract_builtin_import_names E src spec canonical
            in if names = [] then (None, st)
               else
                 let key = builtin_overlay_module_key E base canonical;
                     needs_rebuild = (bm_get (rv_exports st) key \<noteq> Some names
                       \<or> bm_get (mc_dynamic (rv_cache st)) key = None)
                 in if needs_rebuild
                    then (Some key,
                      st\<lparr>rv_exports := bm_put key names (rv_exports st),
                         rv_cache := register_virtual True key
                           (bytes_of (generate_builtin_compat_overlay_module E canonical names)) (rv_cache st)\<rparr>)
                    else (Some key, st))"

datatype resolve_error = EmptySpecifier | OwnershipDenied path | PathEscapes string | UnsupportedSpecifier string

definition monorepo_stub_event :: "string \<Rightarrow> string \<Rightarrow> string \<Rightarrow> nat \<Rightarrow> repair_event" where
  "monorepo_stub_event escaped base key n =
     \<lparr>re_extension_id = [], re_pattern = MonorepoEscape,
      re_original_error = ''monorepo escape: '' @ escaped @ '' from '' @ base,
      re_action = ''generated stub with '' @ show_nat n @ '' exports: '' @ key, re_success = True\<rparr>"

definition npm_stub_event :: "string \<Rightarrow> string \<Rightarrow> nat \<Rightarrow> repair_event" where
  "npm_stub_event spec base n =
     \<lparr>re_extension_id = [], re_pattern = MissingNpmDep,
      re_original_error = ''missing npm dependency: '' @ spec @ '' from '' @ base,
      re_action = ''generated proxy stub for package '' @ [CHR 39] @ spec @ [CHR 39] @ '' with '' @ show_nat n
        @ '' named export(s)'', re_success = True\<rparr>"

definition resolve_stub_package :: "resolve_env \<Rightarrow> string \<Rightarrow> string \<Rightarrow> resolver \<Rightarrow> resolver" where
  "resolve_stub_package E base spec st =
     (let extracted = extract_import_names E (case rn_source E base of Some s \<Rightarrow> s | None \<Rightarrow> []) spec;
          before = (case bm_get (rv_exports st) spec of Some ns \<Rightarrow> ns | None \<Rightarrow> []);
          names = fold set_insert extracted before;
          changed = list_ex (\<lambda>n. n \<notin> set before) extracted;
          st1 = st\<lparr>rv_exports := bm_put spec names (rv_exports st)\<rparr>;
          st2 = (if changed \<or> bm_get (mc_dynamic (rv_cache st1)) spec = None
                 then st1\<lparr>rv_cache := register_virtual True spec
                        (bytes_of (generate_proxy_stub_module E spec names)) (rv_cache st1)\<rparr>
                 else st1)
      in st2\<lparr>rv_events := rv_events st2 @ [npm_stub_event spec base (length names)]\<rparr>)"

definition resolve_failed :: "resolve_env \<Rightarrow> string \<Rightarrow> string \<Rightarrow> resolver \<Rightarrow> resolve_error" where
  "resolve_failed E base spec st =
     (case detect_monorepo_escape E base spec (er_canonical (rv_roots st)) of
        Some escaped \<Rightarrow> PathEscapes escaped
      | None \<Rightarrow> UnsupportedSpecifier (unsupported_module_specifier_message spec))"

definition resolve_package :: "resolve_env \<Rightarrow> string \<Rightarrow> string \<Rightarrow> resolver \<Rightarrow> (resolve_error + string) \<times> resolver" where
  "resolve_package E base spec st =
     (if is_bare_package_specifier spec \<and> (allows_aggressive (rv_mode st) \<or> rv_scan st)
         \<and> should_auto_stub_package (rn_view E) spec base (map path_of (er_roots (rv_roots st)))
              (er_tiers (rv_roots st)) (er_scopes (rv_roots st))
      then (Inr spec, resolve_stub_package E base spec st)
      else (Inl (resolve_failed E base spec st), st))"

definition resolve_sibling :: "resolve_env \<Rightarrow> string \<Rightarrow> string \<Rightarrow> resolver \<Rightarrow> (resolve_error + string) \<times> resolver" where
  "resolve_sibling E base spec st =
     (case (if text_starts_with spec ''.'' \<and> allows_aggressive (rv_mode st)
            then detect_monorepo_escape E base spec (er_canonical (rv_roots st)) else None) of
        Some escaped \<Rightarrow>
          let names = extract_import_names E (case rn_source E base of Some s \<Rightarrow> s | None \<Rightarrow> []) spec;
              key = ''pijs-repair://monorepo/'' @ escaped
          in (Inr key,
              st\<lparr>rv_events := rv_events st @ [monorepo_stub_event escaped base key (length names)],
                 rv_cache := register_virtual False key (bytes_of (generate_monorepo_stub names)) (rv_cache st)\<rparr>)
      | None \<Rightarrow> resolve_package E base spec st)"

definition resolve_import :: "resolve_env \<Rightarrow> string \<Rightarrow> string \<Rightarrow> resolver \<Rightarrow> (resolve_error + string) \<times> resolver" where
  "resolve_import E base name st =
     (let spec = trim name;
          canonical = canonical_virtual_module_specifier spec
      in if spec = [] then (Inl EmptySpecifier, st)
         else if is_virtual st canonical then
           (case (if rv_scan st then maybe_register_builtin_compat_overlay E base spec canonical st else (None, st)) of
              (Some key, st') \<Rightarrow> (Inr key, st')
            | (None, _) \<Rightarrow> (Inr canonical, st))
         else case resolve_module_path E base spec (rv_mode st) (er_canonical (rv_roots st)) of
           Some p \<Rightarrow>
             let q = safe_canonicalize (rn_view E) (path_of p);
                 is_safe = inside_roots (er_canonical (rv_roots st)) q;
                 owner_allows = (rn_active E = None \<or> in_owned_root q (rn_active E) (rv_roots st))
             in if \<not> is_safe \<or> \<not> owner_allows then (Inl (OwnershipDenied q), st)
                else (Inr (slashes (path_text q)), st)
         | None \<Rightarrow> resolve_sibling E base spec st)"

section \<open>Texts of proper paths\<close>

definition proper_name :: "string \<Rightarrow> bool" where
  "proper_name n = (n \<noteq> [] \<and> n \<noteq> ''.'' \<and> n \<noteq> ''..'' \<and> CHR ''/'' \<notin> set n)"

definition proper_path :: "path \<Rightarrow> bool" where
  "proper_path p = (\<exists>ns. p = RootDir # map Normal ns \<and> list_all proper_name ns)"

lemma split_slash_name: "CHR ''/'' \<notin> set n \<Longrightarrow> split_slash n = [n]"
  by (induction n) auto

lemma split_slash_append: "CHR ''/'' \<notin> set n \<Longrightarrow> split_slash (n @ CHR ''/'' # s) = n # split_slash s"
  by (induction n) auto

lemma split_names:
  "list_all proper_name ns \<Longrightarrow> ns \<noteq> [] \<Longrightarrow> split_slash (path_text (map Normal ns)) = ns"
proof (induction ns)
  case (Cons n ns)
  show ?case
  proof (cases ns)
    case Nil
    with Cons.prems show ?thesis by (simp add: proper_name_def split_slash_name)
  next
    case (Cons m ms)
    with Cons.IH Cons.prems show ?thesis by (simp add: proper_name_def split_slash_append)
  qed
qed simp

lemma path_of_text:
  assumes "proper_path p"
  shows "path_of (path_text p) = p"
proof -
  obtain ns where ns: "p = RootDir # map Normal ns" "list_all proper_name ns"
    using assms by (auto simp: proper_path_def)
  show ?thesis
  proof (cases ns)
    case Nil
    with ns show ?thesis by (simp add: path_of_def Let_def)
  next
    case (Cons m ms)
    have "path_text p = CHR ''/'' # path_text (map Normal ns)"
      using ns(1) Cons by simp
    moreover have "split_slash (path_text (map Normal ns)) = ns"
      by (rule split_names [OF ns(2)]) (use Cons in simp)
    moreover have "filter (\<lambda>x. x \<noteq> [] \<and> x \<noteq> ''.'') ns = ns"
      using ns(2) by (auto simp: list_all_iff proper_name_def filter_id_conv)
    moreover have "map component_of ns = map Normal ns"
      using ns(2) by (auto simp: list_all_iff proper_name_def component_of_def)
    ultimately show ?thesis using ns(1) by (simp add: path_of_def Let_def)
  qed
qed

lemma slashes_id: "CHR 0x5C \<notin> set s \<Longrightarrow> slashes s = s"
  by (auto simp: slashes_def intro!: map_idI)

section \<open>What a resolution gives\<close>

lemma register_virtual_dynamic: "mc_dynamic (register_virtual removes n s c) = bm_put n s (mc_dynamic c)"
proof -
  let ?c = "c\<lparr>mc_dynamic := bm_put n s (mc_dynamic c)\<rparr>"
  obtain old c2 where r: "remove_compiled_source n ?c = (old, c2)" by force
  then have "mc_dynamic c2 = bm_put n s (mc_dynamic c)"
    using remove_frame(3) [of n ?c] by simp
  with r show ?thesis
    by (auto simp: register_virtual_def Let_def split: option.split)
qed

lemma is_virtual_registered: "bm_get (mc_dynamic (rv_cache st)) k \<noteq> None \<Longrightarrow> is_virtual st k"
  by (auto simp: is_virtual_def virtual_source_def)

lemma overlay_virtual:
  "maybe_register_builtin_compat_overlay E base spec canonical st = (Some key, st') \<Longrightarrow> is_virtual st' key"
  by (rule is_virtual_registered)
    (auto simp: maybe_register_builtin_compat_overlay_def Let_def register_virtual_dynamic
      split: if_splits option.splits)

lemma stub_package_virtual: "is_virtual (resolve_stub_package E base spec st) spec"
  by (rule is_virtual_registered) (auto simp: resolve_stub_package_def Let_def register_virtual_dynamic)

lemma sibling_virtual: "resolve_sibling E base spec st = (Inr key, st') \<Longrightarrow> is_virtual st' key"
proof -
  assume r: "resolve_sibling E base spec st = (Inr key, st')"
  show ?thesis
  proof (cases "if text_starts_with spec ''.'' \<and> allows_aggressive (rv_mode st)
            then detect_monorepo_escape E base spec (er_canonical (rv_roots st)) else None")
    case None
    with r have "resolve_package E base spec st = (Inr key, st')"
      by (simp add: resolve_sibling_def)
    then show ?thesis
      using stub_package_virtual by (auto simp: resolve_package_def split: if_splits)
  next
    case (Some escaped)
    with r show ?thesis
      by (intro is_virtual_registered) (auto simp: resolve_sibling_def Let_def register_virtual_dynamic)
  qed
qed

definition owned_by_runner :: "resolve_env \<Rightarrow> ext_roots \<Rightarrow> path \<Rightarrow> bool" where
  "owned_by_runner E roots q =
     (inside_roots (er_canonical roots) q \<and> (rn_active E = None \<or> in_owned_root q (rn_active E) roots))"

lemma resolve_import_cases:
  assumes "resolve_import E base name st = (Inr key, st')"
  obtains (registered) "is_virtual st' key"
  | (located) p where "st' = st" "key = slashes (path_text (safe_canonicalize (rn_view E) (path_of p)))"
      "owned_by_runner E (rv_roots st) (safe_canonicalize (rn_view E) (path_of p))"
      "resolve_module_path E base (trim name) (rv_mode st) (er_canonical (rv_roots st)) = Some p"
proof -
  let ?spec = "trim name" and ?canonical = "canonical_virtual_module_specifier (trim name)"
  have ne: "?spec \<noteq> []" using assms by (auto simp: resolve_import_def Let_def)
  show ?thesis
  proof (cases "is_virtual st ?canonical")
    case True
    have "is_virtual st' key"
      using assms ne True overlay_virtual [of E base ?spec ?canonical st]
      by (auto simp: resolve_import_def Let_def split: prod.splits option.splits if_splits)
    then show ?thesis by (rule registered)
  next
    case v: False
    show ?thesis
    proof (cases "resolve_module_path E base ?spec (rv_mode st) (er_canonical (rv_roots st))")
      case None
      with assms ne v have "resolve_sibling E base ?spec st = (Inr key, st')"
        by (simp add: resolve_import_def Let_def)
      then show ?thesis by (rule registered [OF sibling_virtual])
    next
      case (Some p)
      with assms ne v show ?thesis
        by (intro located [of p]) (auto simp: resolve_import_def Let_def owned_by_runner_def split: if_splits)
    qed
  qed
qed

lemma candidate_is_file: "resolve_existing_module_candidate E p = Some q \<Longrightarrow> rn_is_file E q"
  by (auto simp: resolve_existing_module_candidate_def Let_def find_Some_iff split: if_splits option.splits)

lemma fallback_is_file: "try_dist_to_src_fallback E p = Some q \<Longrightarrow> rn_is_file E q"
  by (auto simp: try_dist_to_src_fallback_def Let_def split: if_splits option.splits dest: candidate_is_file)

lemma checked_Some: "checked E roots found = Some q \<longleftrightarrow> found = Some q \<and> canonical_inside E roots q"
  by (auto simp: checked_def split: option.splits)

lemma resolve_module_path_sound:
  assumes "resolve_module_path E base spec mode roots = Some q"
  shows "rn_is_file E q \<and> canonical_inside E roots q"
proof -
  have "resolve_existing_file E p = Some q \<Longrightarrow> rn_is_file E q" for p
    by (simp add: resolve_existing_file_def split: if_splits)
  then show ?thesis
    using assms
    by (auto simp: resolve_module_path_def Let_def checked_Some split: if_splits option.splits
        dest: candidate_is_file fallback_is_file)
qed

text \<open>C7 (safety): A successful import names a virtual module that is registered, or a file inside a
  registered root that the running extension owns, and then the resolution has changed nothing: the
  file of that name lies there, if existing files have canonical paths of proper names without a
  backslash.\<close>

theorem imports_stay_inside:
  assumes "resolve_import E base name st = (Inr key, st')"
    and "\<And>t q. rn_is_file E t \<Longrightarrow> safe_canonicalize (rn_view E) (path_of t) = q \<Longrightarrow>
           proper_path q \<and> CHR 0x5C \<notin> set (path_text q)"
  shows "is_virtual st' key
    \<or> st' = st \<and> inside_roots (er_canonical (rv_roots st)) (path_of key)
       \<and> (rn_active E = None \<or> in_owned_root (path_of key) (rn_active E) (rv_roots st))"
  using assms(1)
proof (cases rule: resolve_import_cases)
  case (located p)
  let ?q = "safe_canonicalize (rn_view E) (path_of p)"
  have "rn_is_file E p"
    using resolve_module_path_sound [OF located(4)] by simp
  then have "path_of key = ?q"
    using assms(2) [of p ?q] located(2) by (simp add: slashes_id path_of_text)
  with located(1,3) show ?thesis by (simp add: owned_by_runner_def)
qed simp

definition sample_env :: "path \<Rightarrow> resolve_env" where
  "sample_env f =
     \<lparr>rn_view = \<lparr>fs_canonicalize = Some, fs_cwd = None\<rparr>, rn_is_file = \<lambda>t. path_of t = f, rn_is_dir = \<lambda>t. False,
      rn_source = \<lambda>t. None, rn_esm_imports = \<lambda>t. [], rn_cjs_imports = \<lambda>t. [], rn_read_to_string = \<lambda>p. Inl [],
      rn_parse_ts = \<lambda>x t. None, rn_parse_json = \<lambda>t. None, rn_sha256_hex = \<lambda>t. t, rn_proxy_prelude = \<lambda>t. [],
      rn_overlay_prelude = \<lambda>t. [], rn_active = None\<rparr>"

definition sample_resolver :: "repair_mode \<Rightarrow> resolver" where
  "sample_resolver mode =
     \<lparr>rv_cache = cache_new [(''node:fs'', [])], rv_exports = [], rv_mode = mode, rv_scan = False,
      rv_roots = (ext_roots_new None)\<lparr>er_roots := [''/r/e''], er_canonical := [[RootDir, Normal ''r'', Normal ''e'']]\<rparr>,
      rv_events = []\<rparr>"

definition sample_file :: "string \<Rightarrow> path" where
  "sample_file n = [RootDir, Normal ''r'', Normal ''e'', Normal n]"

lemma sample_specifier:
  "trim ''./a'' = ''./a''" "canonical_virtual_module_specifier ''./a'' = ''./a''"
  "requested_path ''/r/e/index.js'' ''./a'' = Some ''/r/e/./a''"
  by code_simp+

lemma sample_paths:
  "path_of ''/r/e/./a'' = sample_file ''a''" "path_of ''/r/e/a.ts'' = sample_file ''a.ts''"
  "path_text (sample_file ''a.ts'') = ''/r/e/a.ts''" "path_extension (sample_file ''a'') = None"
  "path_text (with_extension (sample_file ''a'') ''ts'') = ''/r/e/a.ts''"
  "sample_file ''a'' \<noteq> sample_file ''a.ts''" "slashes ''/r/e/a.ts'' = ''/r/e/a.ts''"
  by code_simp+

lemma sample_candidate:
  "resolve_existing_module_candidate (sample_env (sample_file ''a.ts'')) ''/r/e/./a'' = Some ''/r/e/a.ts''"
  by (simp add: resolve_existing_module_candidate_def sample_env_def sample_paths Let_def)

lemma sample_canonical [simp]: "safe_canonicalize (rn_view (sample_env f)) p = p"
  by (simp add: sample_env_def safe_canonicalize_def)

lemma sample_inside:
  "canonical_inside (sample_env f) [[RootDir, Normal ''r'', Normal ''e'']] t =
     starts_with (path_of t) [RootDir, Normal ''r'', Normal ''e'']"
  by (simp add: canonical_inside_def inside_roots_def)

lemma sample_module_path:
  "resolve_module_path (sample_env (sample_file ''a.ts'')) ''/r/e/index.js'' ''./a'' Off [[RootDir, Normal ''r'', Normal ''e'']]
     = Some ''/r/e/a.ts''"
proof -
  have "\<not> text_starts_with ''./a'' ''file://''" by code_simp
  moreover have "starts_with (sample_file n) [RootDir, Normal ''r'', Normal ''e'']" for n
    by (simp add: starts_with_def sample_file_def)
  ultimately show ?thesis
    by (simp add: resolve_module_path_def Let_def sample_specifier sample_inside sample_paths sample_candidate checked_def)
qed

lemma sample_import:
  "resolve_import (sample_env (sample_file ''a.ts'')) ''/r/e/index.js'' ''./a'' (sample_resolver Off) =
     (Inr ''/r/e/a.ts'', sample_resolver Off)"
proof -
  have "\<not> is_virtual (sample_resolver Off) ''./a''"
    by (simp add: is_virtual_def sample_resolver_def cache_new_def virtual_source_def)
  moreover have "inside_roots (er_canonical (rv_roots (sample_resolver Off))) (sample_file n)" for n
    by (simp add: sample_resolver_def inside_roots_def starts_with_def sample_file_def)
  moreover have "rv_mode (sample_resolver Off) = Off" "er_canonical (rv_roots (sample_resolver Off)) = [[RootDir, Normal ''r'', Normal ''e'']]"
    by (simp_all add: sample_resolver_def)
  moreover have "rn_active (sample_env f) = None" for f by (simp add: sample_env_def)
  ultimately show ?thesis
    by (simp add: resolve_import_def Let_def sample_specifier sample_module_path sample_paths)
qed

theorem imports_stay_inside_witness:
  "inside_roots [[RootDir, Normal ''r'', Normal ''e'']] (path_of ''/r/e/a.ts'')"
proof -
  have "is_virtual (sample_resolver Off) ''/r/e/a.ts''
    \<or> sample_resolver Off = sample_resolver Off
       \<and> inside_roots (er_canonical (rv_roots (sample_resolver Off))) (path_of ''/r/e/a.ts'')
       \<and> (rn_active (sample_env (sample_file ''a.ts'')) = None
          \<or> in_owned_root (path_of ''/r/e/a.ts'') (rn_active (sample_env (sample_file ''a.ts''))) (rv_roots (sample_resolver Off)))"
  proof (rule imports_stay_inside [OF sample_import])
    fix t q
    assume "rn_is_file (sample_env (sample_file ''a.ts'')) t"
      "safe_canonicalize (rn_view (sample_env (sample_file ''a.ts''))) (path_of t) = q"
    then have q: "q = sample_file ''a.ts''" by (simp add: sample_env_def safe_canonicalize_def)
    have "proper_path (sample_file ''a.ts'')"
      unfolding proper_path_def sample_file_def
      by (intro exI [of _ "[''r'', ''e'', ''a.ts'']"]) (simp add: proper_name_def)
    then show "proper_path q \<and> CHR 0x5C \<notin> set (path_text q)"
      by (simp add: q sample_paths)
  qed
  moreover have "\<not> is_virtual (sample_resolver Off) ''/r/e/a.ts''"
    by (simp add: is_virtual_def sample_resolver_def cache_new_def virtual_source_def)
  ultimately show ?thesis by (simp add: sample_resolver_def)
qed

definition backslash_name :: string where
  "backslash_name = ''..'' @ [CHR 0x5C] @ ''..'' @ [CHR 0x5C] @ ''x.json''"

lemma backslash_specifier:
  "trim (''./'' @ backslash_name) = ''./'' @ backslash_name"
  "canonical_virtual_module_specifier (''./'' @ backslash_name) = ''./'' @ backslash_name"
  "requested_path ''/r/e/index.js'' (''./'' @ backslash_name) = Some (''/r/e/./'' @ backslash_name)"
  "path_of (''/r/e/./'' @ backslash_name) = sample_file backslash_name"
  "\<not> text_starts_with (''./'' @ backslash_name) ''file://''"
  "slashes (path_text (sample_file backslash_name)) = ''/r/e/../../x.json''"
  "''./'' @ backslash_name \<noteq> []" "''./'' @ backslash_name \<noteq> ''node:fs''"
  "lexical \<lparr>fs_canonicalize = Some, fs_cwd = None\<rparr> (path_of ''/r/e/../../x.json'') = path_of ''/x.json''"
  by code_simp+

text \<open>A backslash in a file name, which Linux permits, becomes a separator in the name of the module:
  the loader opens a file outside of every root.\<close>

lemma backslash_names_escape:
  "resolve_import (sample_env (sample_file backslash_name)) ''/r/e/index.js'' (''./'' @ backslash_name) (sample_resolver Off)
     = (Inr ''/r/e/../../x.json'', sample_resolver Off)
   \<and> lexical \<lparr>fs_canonicalize = Some, fs_cwd = None\<rparr> (path_of ''/r/e/../../x.json'') = path_of ''/x.json''
   \<and> \<not> inside_roots (er_canonical (rv_roots (sample_resolver Off))) (path_of ''/x.json'')"
proof -
  have "\<not> is_virtual (sample_resolver Off) (''./'' @ backslash_name)"
    using backslash_specifier(8) by (simp add: is_virtual_def sample_resolver_def cache_new_def virtual_source_def del: append.simps)
  moreover have i: "inside_roots (er_canonical (rv_roots (sample_resolver Off))) (sample_file n)" for n
    by (simp add: sample_resolver_def inside_roots_def starts_with_def sample_file_def)
  moreover have r: "rv_mode (sample_resolver Off) = Off" "er_canonical (rv_roots (sample_resolver Off)) = [[RootDir, Normal ''r'', Normal ''e'']]"
    by (simp_all add: sample_resolver_def)
  moreover have "rn_active (sample_env f) = None" for f by (simp add: sample_env_def)
  moreover have "resolve_module_path (sample_env (sample_file backslash_name)) ''/r/e/index.js'' (''./'' @ backslash_name) Off
      [[RootDir, Normal ''r'', Normal ''e'']] = Some (''/r/e/./'' @ backslash_name)"
  proof -
    have "rn_is_file (sample_env (sample_file backslash_name)) (''/r/e/./'' @ backslash_name)"
      unfolding sample_env_def using backslash_specifier(4) by (simp del: append.simps)
    moreover have "starts_with (sample_file n) [RootDir, Normal ''r'', Normal ''e'']" for n
      by (simp add: starts_with_def sample_file_def)
    ultimately show ?thesis
      by (simp add: resolve_module_path_def Let_def backslash_specifier sample_inside checked_def
          resolve_existing_module_candidate_def del: append.simps append_Cons)
  qed
  moreover have "\<not> inside_roots [[RootDir, Normal ''r'', Normal ''e'']] (path_of ''/x.json'')" by code_simp
  ultimately show ?thesis
    using backslash_specifier(9)
    by (simp add: resolve_import_def Let_def backslash_specifier del: append.simps append_Cons)
qed

section \<open>Repairs need permission\<close>

definition calm :: "resolver \<Rightarrow> resolver \<Rightarrow> bool" where
  "calm st st' \<longleftrightarrow>
     rv_roots st' = rv_roots st \<and> rv_mode st' = rv_mode st \<and> rv_scan st' = rv_scan st
     \<and> (cache_ok (rv_cache st) \<longrightarrow> cache_ok (rv_cache st')) \<and> same_config (rv_cache st) (rv_cache st')"

lemma same_config_refl [simp]: "same_config c c"
  by (simp add: same_config_def)

lemma register_config: "same_config c (register_virtual removes n s c)"
proof -
  let ?c = "c\<lparr>mc_dynamic := bm_put n s (mc_dynamic c)\<rparr>"
  obtain old c2 where r: "remove_compiled_source n ?c = (old, c2)" by force
  then have "same_config c c2"
    using remove_frame [of n ?c] by (simp add: same_config_def)
  with r show ?thesis
    by (auto simp: register_virtual_def Let_def same_config_def split: option.split)
qed

lemma register_calm:
  "calm st (st\<lparr>rv_cache := register_virtual removes n s (rv_cache st)\<rparr>)"
  using virtual_register_ok [of "rv_cache st" removes n s] register_config by (auto simp: calm_def)






end
