(* ===== verification/Spec2Isabelle.thy ===== *)
theory Spec2Isabelle
  imports Session_Run Numa_Slab Bridge_Timeout Ui_Transcript Ui_Loop Provider Event_Loop Pi_Ui Assets Extension_Fs
    Repair_Overlay Extension_Policy Module_Resolve
begin

text \<open>
  A verification library of e-agent: a coding agent in Rust whose session talks to a model, runs
  tools, is extended by scripts in an embedded JavaScript runtime, and is used through a terminal
  interface. The theories follow the crates; a definition has the name of the function or type it
  models where Isabelle allows it, and its comments say what was written differently.

  \<^bold>\<open>How the parts interact.\<close> A user's text enters the interface (\<^verbatim>\<open>e-agent-tui\<close>), which sends it to
  the session's actor. The session (\<^verbatim>\<open>e-agent-core\<close>) queues it, stores it, builds a request from the
  stored conversation, reads the provider's stream (\<^verbatim>\<open>e-agent-provider-openai\<close>) into an answer,
  stores the answer, runs its tool calls, stores their results, and publishes an event for each
  step; the interface reduces these events to its transcript. Scripts run in the runtime
  (\<^verbatim>\<open>e-agent-node-runtime\<close>): their calls into the host are queued, tracked with a timeout and
  completed as macrotasks of a deterministic event loop. Calls that concern the interface go through
  the adapter (\<^verbatim>\<open>e-agent-pi-compat\<close>) and the broker to the interface, which answers them.

  \<^bold>\<open>Theories and sources.\<close>
  \<^item> \<^verbatim>\<open>Prelude\<close>: saturating counters, ordered maps (\<^verbatim>\<open>BTreeMap\<close>), shared lemmas. \<^verbatim>\<open>Fifo\<close>: the
    contract of a queue that may refuse, as a locale; the queues below interpret it.
  \<^item> \<^verbatim>\<open>Messages\<close>, \<^verbatim>\<open>Message_Queue\<close>, \<^verbatim>\<open>Session_Store\<close>, \<^verbatim>\<open>Session\<close>, \<^verbatim>\<open>Session_Props\<close>, \<^verbatim>\<open>Session_Run\<close>:
    \<^verbatim>\<open>e-agent-core/src\<close> (\<^verbatim>\<open>message.rs\<close>, \<^verbatim>\<open>event.rs\<close>, \<^verbatim>\<open>hooks.rs\<close>, \<^verbatim>\<open>session/*.rs\<close>). The session is a
    record passed through every operation; what is outside the crate is a record of functions on a
    state of the environment. The lemmas about a run are proved in the locale of the store's
    contract and interpreted on the JSONL store.
  \<^item> \<^verbatim>\<open>Provider\<close>: \<^verbatim>\<open>e-agent-provider-openai/src/openai/mod.rs\<close>: requests, streams, whole responses.
  \<^item> \<^verbatim>\<open>Scheduler\<close>, \<^verbatim>\<open>Reactor\<close>, \<^verbatim>\<open>Numa_Slab\<close>: \<^verbatim>\<open>e-agent-node-runtime/src/scheduler.rs\<close>: the event
    loop, the reactor mesh and its placement, the slab pool. \<^verbatim>\<open>Event_Loop\<close>: the second event loop,
    \<^verbatim>\<open>PiEventLoop\<close> of \<^verbatim>\<open>runtime.rs\<close>.
  \<^item> \<^verbatim>\<open>Ghost_List\<close>, \<^verbatim>\<open>S3_Policy\<close>: \<^verbatim>\<open>hostcall_s3_fifo.rs\<close>. \<^verbatim>\<open>S3_Admission\<close>, \<^verbatim>\<open>Bravo\<close>, \<^verbatim>\<open>Hostcall_Queue\<close>:
    \<^verbatim>\<open>hostcall_queue.rs\<close>: tenant budgets, the lock bias policy, the queue with its epochs.
  \<^item> \<^verbatim>\<open>Hostcall_Tracker\<close>, \<^verbatim>\<open>Hostcall_Bridge\<close>, \<^verbatim>\<open>Bridge_Once\<close>, \<^verbatim>\<open>Bridge_Timeout\<close>: the promise bridge of
    \<^verbatim>\<open>runtime.rs\<close>: pending calls, their timers, the delivery of their outcomes.
  \<^item> \<^verbatim>\<open>Text_Edit\<close>, \<^verbatim>\<open>Ui_Protocol\<close>, \<^verbatim>\<open>Ui_Reducer\<close>, \<^verbatim>\<open>Ui_Safety\<close>, \<^verbatim>\<open>Ui_Transcript\<close>, \<^verbatim>\<open>Ui_Broker\<close>,
    \<^verbatim>\<open>Ui_Loop\<close>: \<^verbatim>\<open>e-agent-tui/src\<close> (\<^verbatim>\<open>state.rs\<close>, \<^verbatim>\<open>ui_protocol.rs\<close>, \<^verbatim>\<open>input.rs\<close>, \<^verbatim>\<open>reducer.rs\<close>,
    \<^verbatim>\<open>broker.rs\<close>, \<^verbatim>\<open>lib.rs\<close>, \<^verbatim>\<open>runner.rs\<close>). \<^verbatim>\<open>Frames\<close>: \<^verbatim>\<open>render.rs\<close>, \<^verbatim>\<open>component.rs\<close> and the frames of
    terminal text. \<^verbatim>\<open>Ansi\<close>, \<^verbatim>\<open>Pi_Ui\<close>: \<^verbatim>\<open>e-agent-pi-compat/src\<close> (\<^verbatim>\<open>ansi.rs\<close>, \<^verbatim>\<open>ui.rs\<close>).
  \<^item> \<^verbatim>\<open>Utf8\<close>, \<^verbatim>\<open>Assets\<close>: \<^verbatim>\<open>e-agent-node-runtime/src/embedded_assets.rs\<close>. \<^verbatim>\<open>Paths\<close>: paths and
    \<^verbatim>\<open>safe_canonicalize\<close> of \<^verbatim>\<open>extensions.rs\<close>. \<^verbatim>\<open>Extension_Roots\<close>, \<^verbatim>\<open>Extension_Fs\<close>: the roots of extensions
    and the file sandbox of \<^verbatim>\<open>runtime.rs\<close>. \<^verbatim>\<open>Repair_Rules\<close>, \<^verbatim>\<open>Repair_Evidence\<close>,
    \<^verbatim>\<open>Repair_Overlay\<close>: the repair policy of \<^verbatim>\<open>runtime.rs\<close>, the evidence it asks for, and the deployment
    of a repair with its audit ledger. \<^verbatim>\<open>Extension_Policy\<close>: the policy of \<^verbatim>\<open>extensions.rs\<close>, the process
    and environment calls of \<^verbatim>\<open>runtime.rs\<close>, and the dispatch lanes of \<^verbatim>\<open>hostcall_io_uring_lane.rs\<close>.
    \<^verbatim>\<open>Module_Cache\<close>: the compiled modules of \<^verbatim>\<open>runtime.rs\<close> and their caches in memory and on disk.
    \<^verbatim>\<open>Module_Resolve\<close>: the resolution of imports and its repairs.

  \<^bold>\<open>Data.\<close> A \<^verbatim>\<open>String\<close> is a list of characters over the alphabet of \<^typ>\<open>char\<close>; where widths matter, a
  list of Unicode scalar values. A \<^verbatim>\<open>u64\<close> is a 64-bit word; \<^verbatim>\<open>usize\<close>, \<^verbatim>\<open>u32\<close> and \<^verbatim>\<open>u16\<close> counters are
  natural numbers, saturating where the source saturates. A \<^verbatim>\<open>BTreeMap\<close> is its sorted list of
  entries; a binary heap is the list of its entries in the order of \<^verbatim>\<open>pop\<close>. An error is its rendered
  text in a sum; a panic is \<open>None\<close>. Interleaving is the order of explicit steps.

  \<^bold>\<open>What the lemmas show.\<close> For the session: the events of a run are a sentence of a grammar, the
  stored messages are those published, every tool call is answered, failures are fatal and final,
  reopening restores what was stored; the request says what the conversation says, the answer read
  from a stream is the one in the whole response; and the interface's transcript is the stored
  conversation. For the runtime: timers are conserved and fire in order, macrotasks are totally
  ordered, the two event loops are one, the queue is one bounded queue under every sequence of
  operations, its policies refine plain lists with budgets, its memory reclamation respects pins,
  and a hostcall has at most one final outcome and, with a timeout, an end. For the extensions: a read gives nothing
  outside of the extension's sandbox whatever the file system does meanwhile, secret variables do not
  leak, synchronous processes are started only with the capability, the module caches are not
  observable and bounded, imports stay inside the roots but for names with a backslash, embedded texts
  survive compression, a repair is activated exactly under four plain conditions,
  serves only when verified, and the audit ledger keeps every entry. For the interface: no
  event makes the reducer panic, each request of an extension is answered once, an extension has at
  most one dialog; and the theorems that the development found to be the exception: requests that
  are never answered, colours that are lost, a session that runs on after a fatal error.

  \<^bold>\<open>Bounds and fuel.\<close> Loops over the environment (the agent loop, the stream, the actor) carry fuel;
  \<open>None\<close> means that it ran out, and the theorems speak about the runs that return, except where the
  return itself is shown (the scripted runs, the stream with more fuel than items). Loops over data
  are recursive functions with their termination proofs; the loop that frees a timer identifier has
  the fuel of the identifiers in use, which is shown to be enough below \<open>2 ^ 64 - 1\<close> timers. Theorems
  about counters state the number of operations for which they do not saturate (at most \<open>2 ^ 62\<close>).

  \<^bold>\<open>Parameters.\<close> The provider's service, the tools and hooks, the JSON codec, the file system's
  faults, the lock-free ring of the queue, the width table of characters and the scripts are
  arguments, with what is relied on as named hypotheses and instances that meet them.

  \<^bold>\<open>Not modelled.\<close> Drawing on the terminal and its modes; the bindings to the JavaScript engine and
  the embedded script texts; the transformation of module sources, the score and the text patterns of the repair pipeline, the cryptography, buffer and
  HTTP shims of the runtime; the tools; the extensions' C interface and procedural macros; the
  command line. They are input and output, generated code, or glue around third-party libraries.
\<close>

end
